(* ===== verification/Prelude.thy ===== *)
theory Prelude
  imports Main "HOL-Library.Word"
begin

text \<open>
  Shared vocabulary of the development: the machine-integer types of \<^verbatim>\<open>c.h\<close>, the conversion
  \<^verbatim>\<open>(int32)\<close> of the C code, and the generic lemmas on words and lists that the component
  theories use.  The collections \<open>xid_defs\<close> and \<open>word_arith\<close> gather the facts that unfold
  transaction-id arithmetic into linear arithmetic over \<open>int\<close>.
\<close>

unbundle bit_operations_syntax

type_synonym uint8 = "8 word"
type_synonym uint16 = "16 word"
type_synonym uint32 = "32 word"
type_synonym uint64 = "64 word"

named_theorems xid_defs "definitions of transaction-id constants and comparisons"
named_theorems word_arith "facts that turn word arithmetic into integer arithmetic"

section \<open>Words as integers\<close>

lemma sint32_uint [word_arith]:
  "sint (w :: 32 word) = (if uint w < 2 ^ 31 then uint w else uint w - 2 ^ 32)"
proof -
  let ?u = "uint w"
  have rng: "0 \<le> ?u" "?u < 4294967296"
    using uint_lt2p [of w] by simp_all
  have eq: "sint w = (?u + 2147483648) mod 4294967296 - 2147483648"
    by (simp add: sint_uint signed_take_bit_eq_take_bit_shift take_bit_eq_mod)
  show ?thesis
  proof (cases "?u < 2147483648")
    case True
    then have "(?u + 2147483648) mod 4294967296 = ?u + 2147483648"
      using rng by (intro mod_pos_pos_trivial) simp_all
    with True eq show ?thesis by simp
  next
    case False
    have "(?u + 2147483648) mod 4294967296 = (?u - 2147483648 + 4294967296) mod 4294967296"
      by (simp add: add.commute)
    also have "\<dots> = (?u - 2147483648) mod 4294967296"
      by (rule mod_add_self2)
    also have "\<dots> = ?u - 2147483648"
      using rng False by (intro mod_pos_pos_trivial) simp_all
    finally show ?thesis using False eq by simp
  qed
qed

lemma uint32_sub [word_arith]:
  "uint (a - b :: 32 word) = (if uint b \<le> uint a then uint a - uint b else uint a - uint b + 2 ^ 32)"
  by (simp add: uint_sub_if')

lemma uint32_add [word_arith]:
  "uint (a + b :: 32 word) = (if uint a + uint b < 2 ^ 32 then uint a + uint b else uint a + uint b - 2 ^ 32)"
  by (simp add: uint_plus_if')

lemma uint32_bounds: "0 \<le> uint (a :: 32 word)" "uint a < 4294967296"
  using uint_lt2p [of a] by simp_all

lemma uint64_bounds: "0 \<le> uint (a :: 64 word)" "uint a < 18446744073709551616"
  using uint_lt2p [of a] by simp_all

lemma uint_ucast_64_32 [word_arith]: "uint (ucast (v :: 64 word) :: 32 word) = uint v mod 2 ^ 32"
  by (simp add: unsigned_ucast_eq take_bit_eq_mod)

lemma uint_ucast_32_64 [word_arith]: "uint (ucast (v :: 32 word) :: 64 word) = uint v"
  by (simp add: unsigned_ucast_eq take_bit_eq_mod) (use uint32_bounds [of v] in simp)

lemma word32_of_int_mod_64 [simp]: "(word_of_int (x mod 18446744073709551616) :: 32 word) = word_of_int x"
  by (simp add: word_of_int_eq_iff take_bit_eq_mod mod_mod_cancel)

lemma ucast_64_32_add_one: "(ucast (v + 1 :: uint64) :: uint32) = ucast v + 1"
proof -
  have "(ucast (v + 1) :: uint32) = word_of_int (uint (v + 1))" by (rule ucast_eq)
  also have "uint (v + 1) = (uint v + 1) mod 18446744073709551616"
    by (simp add: uint_word_arith_bintrs(1) take_bit_eq_mod)
  also have "(word_of_int \<dots> :: uint32) = word_of_int (uint v + 1)" by (rule word32_of_int_mod_64)
  also have "\<dots> = ucast v + 1" by simp
  finally show ?thesis .
qed

lemma ucast_64_32_sub_one: "(ucast (v - 1 :: uint64) :: uint32) = ucast v - 1"
  by (metis (no_types) ucast_64_32_add_one add_diff_cancel_right' diff_add_cancel)

section \<open>Block size and alignment\<close>

text \<open>
  \<open>BLCKSZ\<close> is the configure-time block size, here its default; \<open>MAXALIGN\<close> rounds a length up to
  the platform's maximum alignment of 8 bytes.
\<close>

definition BLCKSZ :: nat where "BLCKSZ = 8192"

definition MAXALIGN :: "nat \<Rightarrow> nat" where "MAXALIGN len = (len + 7) div 8 * 8"

lemma MAXALIGN_bounds: "len \<le> MAXALIGN len" "MAXALIGN len < len + 8"
  unfolding MAXALIGN_def by presburger+

lemma MAXALIGN_idem [simp]: "MAXALIGN (MAXALIGN len) = MAXALIGN len"
  unfolding MAXALIGN_def by presburger

lemma MAXALIGN_mono: "a \<le> b \<Longrightarrow> MAXALIGN a \<le> MAXALIGN b"
  unfolding MAXALIGN_def by (simp add: div_le_mono)

end
