(* ===== verification/Transam.thy ===== *)
theory Transam
  imports Prelude
begin

text \<open>
  Transaction identifiers: the constants, comparisons and stepping operations of
  \<^verbatim>\<open>src/include/access/transam.h\<close> and the modular comparisons of
  \<^verbatim>\<open>src/backend/access/transam/transam.c\<close>.  A \<open>TransactionId\<close> is a 32-bit word, a
  \<open>FullTransactionId\<close> the struct with its 64-bit value.  The lemmas show that the 32-bit
  circular order is the order of the full 64-bit identifiers on every window narrower than half
  the circle, that the stepping operations skip the three permanent ids, and that they are
  inverse to each other.
\<close>

section \<open>Identifiers\<close>

type_synonym TransactionId = uint32

definition InvalidTransactionId :: TransactionId where [xid_defs]: "InvalidTransactionId = 0"
definition BootstrapTransactionId :: TransactionId where [xid_defs]: "BootstrapTransactionId = 1"
definition FrozenTransactionId :: TransactionId where [xid_defs]: "FrozenTransactionId = 2"
definition FirstNormalTransactionId :: TransactionId where [xid_defs]: "FirstNormalTransactionId = 3"
definition MaxTransactionId :: TransactionId where [xid_defs]: "MaxTransactionId = 0xFFFFFFFF"

definition TransactionIdIsValid :: "TransactionId \<Rightarrow> bool" where [xid_defs]:
  "TransactionIdIsValid xid \<longleftrightarrow> xid \<noteq> InvalidTransactionId"

definition TransactionIdIsNormal :: "TransactionId \<Rightarrow> bool" where [xid_defs]:
  "TransactionIdIsNormal xid \<longleftrightarrow> xid \<ge> FirstNormalTransactionId"

record FullTransactionId =
  fxid_value :: uint64

definition EpochFromFullTransactionId :: "FullTransactionId \<Rightarrow> uint32" where [xid_defs]:
  "EpochFromFullTransactionId x = ucast (drop_bit 32 (fxid_value x))"

definition XidFromFullTransactionId :: "FullTransactionId \<Rightarrow> TransactionId" where [xid_defs]:
  "XidFromFullTransactionId x = ucast (fxid_value x)"

definition FullTransactionIdPrecedes :: "FullTransactionId \<Rightarrow> FullTransactionId \<Rightarrow> bool" where [xid_defs]:
  "FullTransactionIdPrecedes a b \<longleftrightarrow> fxid_value a < fxid_value b"

definition FullTransactionIdFollows :: "FullTransactionId \<Rightarrow> FullTransactionId \<Rightarrow> bool" where [xid_defs]:
  "FullTransactionIdFollows a b \<longleftrightarrow> fxid_value a > fxid_value b"

definition FullTransactionIdFollowsOrEquals :: "FullTransactionId \<Rightarrow> FullTransactionId \<Rightarrow> bool" where [xid_defs]:
  "FullTransactionIdFollowsOrEquals a b \<longleftrightarrow> fxid_value a \<ge> fxid_value b"

definition FullTransactionIdIsValid :: "FullTransactionId \<Rightarrow> bool" where [xid_defs]:
  "FullTransactionIdIsValid x \<longleftrightarrow> TransactionIdIsValid (XidFromFullTransactionId x)"

definition FullTransactionIdFromEpochAndXid :: "uint32 \<Rightarrow> TransactionId \<Rightarrow> FullTransactionId" where [xid_defs]:
  "FullTransactionIdFromEpochAndXid epoch xid =
     \<lparr>fxid_value = push_bit 32 (ucast epoch) OR ucast xid\<rparr>"

definition FullTransactionIdFromU64 :: "uint64 \<Rightarrow> FullTransactionId" where [xid_defs]:
  "FullTransactionIdFromU64 v = \<lparr>fxid_value = v\<rparr>"

definition FirstNormalFullTransactionId :: FullTransactionId where [xid_defs]:
  "FirstNormalFullTransactionId = FullTransactionIdFromEpochAndXid 0 FirstNormalTransactionId"

definition FullTransactionIdIsNormal :: "FullTransactionId \<Rightarrow> bool" where [xid_defs]:
  "FullTransactionIdIsNormal x \<longleftrightarrow> FullTransactionIdFollowsOrEquals x FirstNormalFullTransactionId"

section \<open>Stepping\<close>

definition TransactionIdAdvance :: "TransactionId \<Rightarrow> TransactionId" where
  "TransactionIdAdvance dest =
     (let dest = dest + 1 in
      if dest < FirstNormalTransactionId then FirstNormalTransactionId else dest)"

lemma xid_special_cases: "(x :: uint32) < 3 \<longleftrightarrow> x = 0 \<or> x = 1 \<or> x = 2"
proof -
  have "x < 3 \<longleftrightarrow> uint x < 3" by (simp add: word_less_def)
  moreover have "x = 0 \<longleftrightarrow> uint x = 0" "x = 1 \<longleftrightarrow> uint x = 1" "x = 2 \<longleftrightarrow> uint x = 2"
    by (simp_all add: word_uint_eq_iff)
  moreover have "0 \<le> uint x" by simp
  ultimately show ?thesis by linarith
qed

text \<open>The loop \<^verbatim>\<open>while (XidFromFullTransactionId(*dest) < FirstNormalTransactionId) dest->value--\<close>.\<close>

function full_skip_down :: "FullTransactionId \<Rightarrow> FullTransactionId" where
  "full_skip_down d =
     (if XidFromFullTransactionId d < FirstNormalTransactionId
      then full_skip_down \<lparr>fxid_value = fxid_value d - 1\<rparr> else d)"
  by pat_completeness auto
termination
proof (relation "measure (\<lambda>d. let x = XidFromFullTransactionId d in if x < 3 then Suc (unat x) else 0)")
  fix d assume "XidFromFullTransactionId d < FirstNormalTransactionId"
  then have "XidFromFullTransactionId d = 0 \<or> XidFromFullTransactionId d = 1 \<or> XidFromFullTransactionId d = 2"
    by (simp add: FirstNormalTransactionId_def xid_special_cases)
  then show "(\<lparr>fxid_value = fxid_value d - 1\<rparr>, d)
      \<in> measure (\<lambda>d. let x = XidFromFullTransactionId d in if x < 3 then Suc (unat x) else 0)"
    by (auto simp: XidFromFullTransactionId_def ucast_64_32_sub_one Let_def)
qed simp

function full_skip_up :: "FullTransactionId \<Rightarrow> FullTransactionId" where
  "full_skip_up d =
     (if XidFromFullTransactionId d < FirstNormalTransactionId
      then full_skip_up \<lparr>fxid_value = fxid_value d + 1\<rparr> else d)"
  by pat_completeness auto
termination
proof (relation "measure (\<lambda>d. 3 - unat (XidFromFullTransactionId d))")
  fix d assume "XidFromFullTransactionId d < FirstNormalTransactionId"
  then have "XidFromFullTransactionId d = 0 \<or> XidFromFullTransactionId d = 1 \<or> XidFromFullTransactionId d = 2"
    by (simp add: FirstNormalTransactionId_def xid_special_cases)
  then show "(\<lparr>fxid_value = fxid_value d + 1\<rparr>, d)
      \<in> measure (\<lambda>d. 3 - unat (XidFromFullTransactionId d))"
    by (auto simp: XidFromFullTransactionId_def ucast_64_32_add_one)
qed simp

declare full_skip_up.simps [simp del] full_skip_down.simps [simp del]

definition FullTransactionIdRetreat :: "FullTransactionId \<Rightarrow> FullTransactionId" where
  "FullTransactionIdRetreat dest =
     (let dest = \<lparr>fxid_value = fxid_value dest - 1\<rparr> in
      if FullTransactionIdPrecedes dest FirstNormalFullTransactionId then dest
      else full_skip_down dest)"

definition FullTransactionIdAdvance :: "FullTransactionId \<Rightarrow> FullTransactionId" where
  "FullTransactionIdAdvance dest =
     (let dest = \<lparr>fxid_value = fxid_value dest + 1\<rparr> in
      if FullTransactionIdPrecedes dest FirstNormalFullTransactionId then dest
      else full_skip_up dest)"

text \<open>The loop \<^verbatim>\<open>while (xid < FirstNormalTransactionId) xid--\<close> of both retreat operations.\<close>

function xid_skip_down :: "TransactionId \<Rightarrow> TransactionId" where
  "xid_skip_down x = (if x < FirstNormalTransactionId then xid_skip_down (x - 1) else x)"
  by pat_completeness auto
termination
proof (relation "measure (\<lambda>x. if x < 3 then Suc (unat x) else 0)")
  fix x assume "x < FirstNormalTransactionId"
  then have "x = 0 \<or> x = 1 \<or> x = 2"
    by (simp add: FirstNormalTransactionId_def xid_special_cases)
  then show "(x - 1, x) \<in> measure (\<lambda>x :: uint32. if x < 3 then Suc (unat x) else 0)"
    by auto
qed simp

declare xid_skip_down.simps [simp del]

text \<open>\<^verbatim>\<open>do { dest--; } while (dest < FirstNormalTransactionId)\<close>\<close>

definition TransactionIdRetreat :: "TransactionId \<Rightarrow> TransactionId" where
  "TransactionIdRetreat dest = xid_skip_down (dest - 1)"

definition TransactionIdRetreatedBy :: "TransactionId \<Rightarrow> uint32 \<Rightarrow> TransactionId" where
  "TransactionIdRetreatedBy xid amount = xid_skip_down (xid - amount)"

section \<open>Comparisons\<close>

definition NormalTransactionIdPrecedes :: "TransactionId \<Rightarrow> TransactionId \<Rightarrow> bool" where
  "NormalTransactionIdPrecedes id1 id2 \<longleftrightarrow> sint (id1 - id2) < 0"

definition NormalTransactionIdFollows :: "TransactionId \<Rightarrow> TransactionId \<Rightarrow> bool" where
  "NormalTransactionIdFollows id1 id2 \<longleftrightarrow> sint (id1 - id2) > 0"

definition TransactionIdPrecedes :: "TransactionId \<Rightarrow> TransactionId \<Rightarrow> bool" where
  "TransactionIdPrecedes id1 id2 =
     (if \<not> TransactionIdIsNormal id1 \<or> \<not> TransactionIdIsNormal id2 then id1 < id2
      else let diff = sint (id1 - id2) in diff < 0)"

definition TransactionIdPrecedesOrEquals :: "TransactionId \<Rightarrow> TransactionId \<Rightarrow> bool" where
  "TransactionIdPrecedesOrEquals id1 id2 =
     (if \<not> TransactionIdIsNormal id1 \<or> \<not> TransactionIdIsNormal id2 then id1 \<le> id2
      else let diff = sint (id1 - id2) in diff \<le> 0)"

definition TransactionIdFollows :: "TransactionId \<Rightarrow> TransactionId \<Rightarrow> bool" where
  "TransactionIdFollows id1 id2 =
     (if \<not> TransactionIdIsNormal id1 \<or> \<not> TransactionIdIsNormal id2 then id1 > id2
      else let diff = sint (id1 - id2) in diff > 0)"

definition TransactionIdFollowsOrEquals :: "TransactionId \<Rightarrow> TransactionId \<Rightarrow> bool" where
  "TransactionIdFollowsOrEquals id1 id2 =
     (if \<not> TransactionIdIsNormal id1 \<or> \<not> TransactionIdIsNormal id2 then id1 \<ge> id2
      else let diff = sint (id1 - id2) in diff \<ge> 0)"

text \<open>The array scan of \<^verbatim>\<open>TransactionIdLatest\<close> runs from the last element to the first.\<close>

fun latest_scan :: "TransactionId \<Rightarrow> TransactionId list \<Rightarrow> TransactionId" where
  "latest_scan result [] = result"
| "latest_scan result (x # rest) =
     latest_scan (if TransactionIdPrecedes result x then x else result) rest"

definition TransactionIdLatest :: "TransactionId \<Rightarrow> TransactionId list \<Rightarrow> TransactionId" where
  "TransactionIdLatest mainxid xids = latest_scan mainxid (rev xids)"

definition TransactionIdOlder :: "TransactionId \<Rightarrow> TransactionId \<Rightarrow> TransactionId" where
  "TransactionIdOlder a b =
     (if \<not> TransactionIdIsValid a then b
      else if \<not> TransactionIdIsValid b then a
      else if TransactionIdPrecedes a b then a else b)"

definition NormalTransactionIdOlder :: "TransactionId \<Rightarrow> TransactionId \<Rightarrow> TransactionId" where
  "NormalTransactionIdOlder a b = (if NormalTransactionIdPrecedes a b then a else b)"

definition FullTransactionIdNewer :: "FullTransactionId \<Rightarrow> FullTransactionId \<Rightarrow> FullTransactionId" where
  "FullTransactionIdNewer a b =
     (if \<not> FullTransactionIdIsValid a then b
      else if \<not> FullTransactionIdIsValid b then a
      else if FullTransactionIdFollows a b then a else b)"

section \<open>The circular order\<close>

lemma uint_xid: "uint (XidFromFullTransactionId a) = uint (fxid_value a) mod 2 ^ 32"
  by (simp add: XidFromFullTransactionId_def word_arith)

lemma sint_xid_diff:
  assumes "\<bar>uint (fxid_value a) - uint (fxid_value b)\<bar> < 2 ^ 31"
  shows "sint (XidFromFullTransactionId a - XidFromFullTransactionId b) =
           uint (fxid_value a) - uint (fxid_value b)"
proof -
  have "XidFromFullTransactionId a - XidFromFullTransactionId b =
          word_of_int (uint (fxid_value a) - uint (fxid_value b))"
    by (simp add: XidFromFullTransactionId_def)
  also have "sint \<dots> = signed_take_bit 31 (uint (fxid_value a) - uint (fxid_value b))"
    by (subst sint_sbintrunc') simp
  also have "\<dots> = uint (fxid_value a) - uint (fxid_value b)"
    using assms by (intro signed_take_bit_int_eq_self) simp_all
  finally show ?thesis .
qed

lemma xid_order_refines:
  assumes "TransactionIdIsNormal (XidFromFullTransactionId a)"
    and "TransactionIdIsNormal (XidFromFullTransactionId b)"
    and "\<bar>uint (fxid_value a) - uint (fxid_value b)\<bar> < 2 ^ 31"
  shows "TransactionIdPrecedes (XidFromFullTransactionId a) (XidFromFullTransactionId b)
           \<longleftrightarrow> FullTransactionIdPrecedes a b"
  using assms by (simp add: TransactionIdPrecedes_def sint_xid_diff FullTransactionIdPrecedes_def word_less_def)

lemma xid_follows_precedes:
  "TransactionIdFollowsOrEquals a b \<longleftrightarrow> \<not> TransactionIdPrecedes a b"
  by (auto simp: TransactionIdFollowsOrEquals_def TransactionIdPrecedes_def)

lemma xid_follows_not_precedes_eq:
  "TransactionIdFollows a b \<longleftrightarrow> \<not> TransactionIdPrecedesOrEquals a b"
  by (auto simp: TransactionIdFollows_def TransactionIdPrecedesOrEquals_def)

lemma sint_zero_iff32: "sint (a - b :: uint32) = 0 \<longleftrightarrow> a = b"
  by (simp only: signed_eq_0_iff right_minus_eq)

lemma xid_precedes_eq_iff:
  "TransactionIdPrecedesOrEquals a b \<longleftrightarrow> TransactionIdPrecedes a b \<or> a = b"
  by (auto simp: TransactionIdPrecedesOrEquals_def TransactionIdPrecedes_def order_le_less Let_def sint_zero_iff32)

lemma xid_precedes_irrefl [simp]: "\<not> TransactionIdPrecedes a a"
  by (simp add: TransactionIdPrecedes_def)

lemma normal_uint: "TransactionIdIsNormal x \<longleftrightarrow> 3 \<le> uint x"
  by (simp add: xid_defs word_le_def)

lemma normal_precedes_uint:
  assumes "TransactionIdIsNormal a" "TransactionIdIsNormal b"
  shows "TransactionIdPrecedes a b \<longleftrightarrow> 2 ^ 31 \<le> uint (a - b)"
  using assms uint32_bounds [of "a - b"] by (simp add: TransactionIdPrecedes_def sint32_uint)

lemma xid_order_trichotomy:
  assumes "TransactionIdIsNormal a" "TransactionIdIsNormal b"
  shows "TransactionIdPrecedes a b \<or> a = b \<or> TransactionIdPrecedes b a"
    and "TransactionIdPrecedes a b \<and> TransactionIdPrecedes b a \<longleftrightarrow> a = b + 2 ^ 31"
proof -
  note B = uint32_bounds [of a] uint32_bounds [of b]
  show "TransactionIdPrecedes a b \<or> a = b \<or> TransactionIdPrecedes b a"
    using assms B by (auto simp: normal_precedes_uint uint32_sub word_uint_eq_iff)
  show "TransactionIdPrecedes a b \<and> TransactionIdPrecedes b a \<longleftrightarrow> a = b + 2 ^ 31"
    using assms by (auto simp: normal_precedes_uint uint32_sub uint32_add word_uint_eq_iff)
      (use B in linarith)+
qed
section \<open>Stepping skips exactly the permanent ids\<close>

lemma xid_skip_down_special:
  "xid_skip_down x = (if x < 3 then MaxTransactionId else x)"
proof -
  have m: "xid_skip_down (- 1) = MaxTransactionId"
    by (simp add: xid_skip_down.simps xid_defs)
  then have z: "xid_skip_down 0 = MaxTransactionId"
    by (simp add: xid_skip_down.simps [of 0] FirstNormalTransactionId_def)
  then have o: "xid_skip_down 1 = MaxTransactionId"
    by (simp add: xid_skip_down.simps [of 1] FirstNormalTransactionId_def)
  then have t: "xid_skip_down 2 = MaxTransactionId"
    by (simp add: xid_skip_down.simps [of 2] FirstNormalTransactionId_def)
  show ?thesis
  proof (cases "x < 3")
    case True then show ?thesis using z o t by (auto simp: xid_special_cases)
  next
    case False then show ?thesis
      by (simp add: xid_skip_down.simps [of x] FirstNormalTransactionId_def)
  qed
qed

lemma advance_retreat:
  assumes "TransactionIdIsNormal x"
  shows "TransactionIdIsNormal (TransactionIdAdvance x)"
    and "TransactionIdRetreat (TransactionIdAdvance x) = x"
    and "TransactionIdIsNormal (TransactionIdRetreat x)"
    and "TransactionIdAdvance (TransactionIdRetreat x) = x"
proof -
  have n: "\<not> x < 3" using assms by (simp add: xid_defs not_less)
  have sp: "x + 1 < 3 \<longleftrightarrow> x = MaxTransactionId"
    using n uint32_bounds [of x] by (auto simp: word_less_def word_uint_eq_iff uint32_add xid_defs)
  have sm: "x - 1 < 3 \<longleftrightarrow> x = 3"
    using n uint32_bounds [of x] by (auto simp: word_less_def word_uint_eq_iff uint32_sub)
  show "TransactionIdIsNormal (TransactionIdAdvance x)"
    by (simp add: TransactionIdAdvance_def xid_defs Let_def not_less)
  show "TransactionIdRetreat (TransactionIdAdvance x) = x"
    using n sp by (simp add: TransactionIdAdvance_def TransactionIdRetreat_def Let_def
        FirstNormalTransactionId_def xid_skip_down_special)
  show "TransactionIdIsNormal (TransactionIdRetreat x)"
    by (simp add: TransactionIdRetreat_def xid_skip_down_special TransactionIdIsNormal_def
        FirstNormalTransactionId_def MaxTransactionId_def not_less)
  show "TransactionIdAdvance (TransactionIdRetreat x) = x"
    using n sm by (simp add: TransactionIdAdvance_def TransactionIdRetreat_def Let_def
        FirstNormalTransactionId_def xid_skip_down_special MaxTransactionId_def)
qed

lemma first_normal_full: "fxid_value FirstNormalFullTransactionId = 3"
  by (simp add: xid_defs)

lemma xid_mk_succ [simp]:
  "XidFromFullTransactionId \<lparr>fxid_value = fxid_value d + 1\<rparr> = XidFromFullTransactionId d + 1"
  by (simp add: XidFromFullTransactionId_def ucast_64_32_add_one)

lemma full_skip_up_low:
  "XidFromFullTransactionId (full_skip_up d) =
     (if XidFromFullTransactionId d < 3 then 3 else XidFromFullTransactionId d)"
proof (induction d rule: full_skip_up.induct)
  case (1 d)
  show ?case
  proof (cases "XidFromFullTransactionId d < 3")
    case True
    then have "XidFromFullTransactionId d = 0 \<or> XidFromFullTransactionId d = 1 \<or> XidFromFullTransactionId d = 2"
      by (simp only: xid_special_cases)
    with True 1 show ?thesis
      by (auto simp: full_skip_up.simps [of d] FirstNormalTransactionId_def)
  next
    case False
    then show ?thesis by (simp add: full_skip_up.simps [of d] FirstNormalTransactionId_def)
  qed
qed

lemma full_advance_low:
  assumes "2 \<le> fxid_value d" "fxid_value d < 0xFFFFFFFFFFFFFFFF"
  shows "XidFromFullTransactionId (FullTransactionIdAdvance d) =
           TransactionIdAdvance (XidFromFullTransactionId d)"
proof -
  have "\<not> fxid_value d + 1 < 3"
    using assms by (auto simp: word_less_def word_le_def uint_plus_if')
  then show ?thesis
    by (simp add: FullTransactionIdAdvance_def TransactionIdAdvance_def Let_def
        FullTransactionIdPrecedes_def first_normal_full full_skip_up_low FirstNormalTransactionId_def)
qed

lemma full_skip_up_between:
  "fxid_value d \<le> fxid_value (full_skip_up d) \<and>
   (\<forall>w. fxid_value d \<le> w \<and> w < fxid_value (full_skip_up d) \<longrightarrow> \<not> TransactionIdIsNormal (ucast w))"
proof (induction d rule: full_skip_up.induct)
  case (1 d)
  show ?case
  proof (cases "XidFromFullTransactionId d < 3")
    case True
    have "XidFromFullTransactionId d \<noteq> - 1"
      using True by auto
    then have ne: "fxid_value d \<noteq> - 1"
      using ucast_64_32_sub_one [of 0] by (auto simp: XidFromFullTransactionId_def)
    have up: "fxid_value d < fxid_value d + 1"
      using ne inc_less_eq_triv_imp [of "fxid_value d"] not_less by blast
    have nn: "\<not> TransactionIdIsNormal (ucast (fxid_value d))"
      using True by (simp add: xid_defs not_le)
    have ih: "fxid_value d + 1 \<le> fxid_value (full_skip_up d)"
      "\<forall>w. fxid_value d + 1 \<le> w \<and> w < fxid_value (full_skip_up d) \<longrightarrow> \<not> TransactionIdIsNormal (ucast w)"
      using 1 True by (simp_all add: full_skip_up.simps [of d] FirstNormalTransactionId_def)
    have split: "w = fxid_value d \<or> fxid_value d + 1 \<le> w" if "fxid_value d \<le> w" for w
      using that inc_le [of "fxid_value d" w] by (auto simp: order_le_less)
    have "\<not> TransactionIdIsNormal (ucast w)" if "fxid_value d \<le> w" "w < fxid_value (full_skip_up d)" for w
      using split [OF that(1)] that(2) nn ih(2) by blast
    then show ?thesis using up ih(1) by simp
  next
    case False
    then show ?thesis by (auto simp: full_skip_up.simps [of d] FirstNormalTransactionId_def)
  qed
qed

section \<open>The latest of a family\<close>

lemma latest_scan_window:
  assumes "\<forall>a \<in> set (m # fs). TransactionIdIsNormal (XidFromFullTransactionId a)"
    and "\<forall>a \<in> set (m # fs). \<forall>b \<in> set (m # fs). \<bar>uint (fxid_value a) - uint (fxid_value b)\<bar> < 2 ^ 31"
  shows "\<exists>f \<in> set (m # fs). latest_scan (XidFromFullTransactionId m) (map XidFromFullTransactionId fs) =
             XidFromFullTransactionId f \<and> (\<forall>g \<in> set (m # fs). \<not> FullTransactionIdPrecedes f g)"
  using assms
proof (induction fs arbitrary: m)
  case Nil
  then show ?case by (simp add: FullTransactionIdPrecedes_def)
next
  case (Cons x fs)
  let ?m = "if FullTransactionIdPrecedes m x then x else m"
  have "TransactionIdPrecedes (XidFromFullTransactionId m) (XidFromFullTransactionId x) \<longleftrightarrow>
          FullTransactionIdPrecedes m x"
    using Cons.prems by (intro xid_order_refines) auto
  then have step: "latest_scan (XidFromFullTransactionId m) (map XidFromFullTransactionId (x # fs)) =
      latest_scan (XidFromFullTransactionId ?m) (map XidFromFullTransactionId fs)"
    by simp
  have sub: "set (?m # fs) \<subseteq> set (m # x # fs)" by auto
  have win: "\<forall>a \<in> set (?m # fs). TransactionIdIsNormal (XidFromFullTransactionId a)"
      "\<forall>a \<in> set (?m # fs). \<forall>b \<in> set (?m # fs). \<bar>uint (fxid_value a) - uint (fxid_value b)\<bar> < 2 ^ 31"
    using Cons.prems sub by blast+
  obtain f where f: "f \<in> set (?m # fs)"
      "latest_scan (XidFromFullTransactionId ?m) (map XidFromFullTransactionId fs) = XidFromFullTransactionId f"
      "\<forall>g \<in> set (?m # fs). \<not> FullTransactionIdPrecedes f g"
    using Cons.IH [OF win(1) win(2)] by blast
  then have "f \<in> set (m # x # fs)" by (auto split: if_splits)
  moreover have "\<forall>g \<in> set (m # x # fs). \<not> FullTransactionIdPrecedes f g"
    using f(3) by (auto simp: FullTransactionIdPrecedes_def split: if_splits)
  ultimately show ?case using step f(2) by metis
qed
section \<open>Properties\<close>

text \<open>
  C18: On any two normal ids taken from full 64-bit ids less than \<open>2^31\<close> apart, the 32-bit
  comparisons \<open>TransactionIdPrecedes\<close>, \<open>PrecedesOrEquals\<close>, \<open>Follows\<close> and \<open>FollowsOrEquals\<close> give exactly the
  order of the full ids, whatever the epochs: comparing modulo \<open>2^32\<close> loses nothing on the window the
  system keeps alive.
\<close>

theorem xid_comparison_refines_full_order:
  assumes "TransactionIdIsNormal (XidFromFullTransactionId a)"
    and "TransactionIdIsNormal (XidFromFullTransactionId b)"
    and "\<bar>uint (fxid_value a) - uint (fxid_value b)\<bar> < 2 ^ 31"
  shows "(TransactionIdPrecedes (XidFromFullTransactionId a) (XidFromFullTransactionId b)
            \<longleftrightarrow> FullTransactionIdPrecedes a b) \<and>
         (TransactionIdFollows (XidFromFullTransactionId a) (XidFromFullTransactionId b)
            \<longleftrightarrow> FullTransactionIdFollows a b) \<and>
         (TransactionIdFollowsOrEquals (XidFromFullTransactionId a) (XidFromFullTransactionId b)
            \<longleftrightarrow> FullTransactionIdFollowsOrEquals a b) \<and>
         (TransactionIdPrecedesOrEquals (XidFromFullTransactionId a) (XidFromFullTransactionId b)
            \<longleftrightarrow> \<not> FullTransactionIdFollows a b)"
proof -
  have e: "XidFromFullTransactionId a = XidFromFullTransactionId b \<longleftrightarrow> fxid_value a = fxid_value b"
    using sint_xid_diff [OF assms(3)] sint_zero_iff32 [of "XidFromFullTransactionId a" "XidFromFullTransactionId b"]
    by (auto simp: word_uint_eq_iff)
  show ?thesis
    using xid_order_refines [OF assms] e
    by (auto simp: xid_follows_precedes xid_follows_not_precedes_eq xid_precedes_eq_iff
        FullTransactionIdPrecedes_def FullTransactionIdFollows_def FullTransactionIdFollowsOrEquals_def)
qed

theorem xid_comparison_refines_full_order_witness:
  "TransactionIdPrecedes (XidFromFullTransactionId \<lparr>fxid_value = 0x1FFFFFFF0\<rparr>)
     (XidFromFullTransactionId \<lparr>fxid_value = 0x200000005\<rparr>)
   \<and> XidFromFullTransactionId \<lparr>fxid_value = 0x200000005\<rparr> < XidFromFullTransactionId \<lparr>fxid_value = 0x1FFFFFFF0\<rparr>"
  using xid_comparison_refines_full_order [of "\<lparr>fxid_value = 0x1FFFFFFF0\<rparr>" "\<lparr>fxid_value = 0x200000005\<rparr>"]
  by (simp add: xid_defs)

text \<open>
  Advancing a 64-bit id moves to the next id whose low half is a normal id: it increases,
  skips only values whose low half is permanent, and its low half is the 32-bit advance of the low
  half.  The bounds exclude the two ids below the first normal one and the last 64-bit value.
\<close>

lemma full_advance_is_next_normal:
  assumes "2 \<le> fxid_value d" and "fxid_value d < 0xFFFFFFFFFFFFFFFF"
  shows "FullTransactionIdPrecedes d (FullTransactionIdAdvance d) \<and>
         XidFromFullTransactionId (FullTransactionIdAdvance d) = TransactionIdAdvance (XidFromFullTransactionId d) \<and>
         TransactionIdIsNormal (XidFromFullTransactionId (FullTransactionIdAdvance d)) \<and>
         (\<forall>w. fxid_value d < w \<and> w < fxid_value (FullTransactionIdAdvance d) \<longrightarrow>
              \<not> TransactionIdIsNormal (ucast w))"
proof -
  let ?s = "\<lparr>fxid_value = fxid_value d + 1\<rparr> :: FullTransactionId"
  have lt: "fxid_value d < fxid_value d + 1" "\<not> fxid_value d + 1 < 3"
    using assms by (auto simp: word_less_def word_le_def uint_plus_if')
  have adv: "FullTransactionIdAdvance d = full_skip_up ?s"
    using lt(2) by (simp add: FullTransactionIdAdvance_def FullTransactionIdPrecedes_def first_normal_full Let_def)
  have le: "fxid_value d + 1 \<le> fxid_value (full_skip_up ?s)"
    using full_skip_up_between [of ?s] by simp
  have gap: "\<not> TransactionIdIsNormal (ucast w)"
    if "fxid_value d < w" "w < fxid_value (full_skip_up ?s)" for w
    using full_skip_up_between [of ?s] inc_le [OF that(1)] that(2) by simp
  have "TransactionIdIsNormal (XidFromFullTransactionId (full_skip_up ?s))"
    by (simp add: full_skip_up_low TransactionIdIsNormal_def FirstNormalTransactionId_def not_less)
  then show ?thesis
    using full_advance_low [OF assms] adv lt(1) le gap
    by (auto simp: FullTransactionIdPrecedes_def)
qed

text \<open>
  \<open>TransactionIdLatest\<close> of a main transaction and its children, all taken from full ids within
  one half-circle window, is one of them and none of them is later in the 64-bit order.
\<close>

lemma xid_latest_is_maximum:
  assumes "\<forall>a \<in> set (m # fs). TransactionIdIsNormal (XidFromFullTransactionId a)"
    and "\<forall>a \<in> set (m # fs). \<forall>b \<in> set (m # fs). \<bar>uint (fxid_value a) - uint (fxid_value b)\<bar> < 2 ^ 31"
  shows "\<exists>f \<in> set (m # fs).
           TransactionIdLatest (XidFromFullTransactionId m) (map XidFromFullTransactionId fs) = XidFromFullTransactionId f \<and>
           (\<forall>g \<in> set (m # fs). \<not> FullTransactionIdPrecedes f g)"
  using latest_scan_window [of m "rev fs"] assms by (simp add: TransactionIdLatest_def rev_map)

end
