(* ===== verification/FsmPage.thy ===== *)
theory FsmPage
  imports Prelude
begin

text \<open>
  One page of a free space map (\<^verbatim>\<open>src/backend/storage/freespace/fsmpage.c\<close>): an implicit
  binary tree in an array of bytes, whose leaves hold the free-space categories of heap pages and
  whose inner nodes hold the maximum of their children.  The last inner nodes have no children,
  because the page is not large enough for a complete tree.

  \<open>fsm_page_ok\<close> is the tree invariant.  The lemmas show that \<open>fsm_set_avail\<close>,
  \<open>fsm_truncate_avail\<close> and \<open>fsm_rebuild_page\<close> establish or keep it, that they change only the
  leaves they should, and that \<open>fsm_search_avail\<close> always returns and is sound and complete.
  Node numbers are natural numbers; the functions that return \<^verbatim>\<open>-1\<close> return \<open>None\<close>.
\<close>

section \<open>Layout\<close>

record FSMPageData =
  fp_next_slot :: int
  fp_nodes :: "uint8 list"

definition SizeOfPageHeaderData :: nat where "SizeOfPageHeaderData = 24"

definition NodesPerPage :: nat where
  "NodesPerPage = BLCKSZ - MAXALIGN SizeOfPageHeaderData - 4"

definition NonLeafNodesPerPage :: nat where "NonLeafNodesPerPage = BLCKSZ div 2 - 1"

definition LeafNodesPerPage :: nat where "LeafNodesPerPage = NodesPerPage - NonLeafNodesPerPage"

lemma fsm_sizes:
  "NodesPerPage = 8164" "NonLeafNodesPerPage = 4095" "LeafNodesPerPage = 4069"
  by (simp_all add: NodesPerPage_def NonLeafNodesPerPage_def LeafNodesPerPage_def BLCKSZ_def
      MAXALIGN_def SizeOfPageHeaderData_def)

definition leftchild :: "nat \<Rightarrow> nat" where "leftchild x = 2 * x + 1"
definition rightchild :: "nat \<Rightarrow> nat" where "rightchild x = 2 * x + 2"
definition parentof :: "nat \<Rightarrow> nat" where "parentof x = (x - 1) div 2"

definition rightneighbor :: "nat \<Rightarrow> nat" where
  "rightneighbor x =
     (let x = x + 1 in if (x + 1) AND x = 0 then parentof x else x)"

section \<open>Rebuilding the upper levels\<close>

definition rebuild_step :: "nat \<Rightarrow> uint8 list \<times> bool \<Rightarrow> uint8 list \<times> bool" where
  "rebuild_step nodeno = (\<lambda>(nodes, changed).
     let lchild = leftchild nodeno;
         rchild = lchild + 1;
         newvalue = 0;
         newvalue = (if lchild < NodesPerPage then nodes ! lchild else newvalue);
         newvalue = (if rchild < NodesPerPage then max newvalue (nodes ! rchild) else newvalue)
     in if nodes ! nodeno \<noteq> newvalue then (nodes[nodeno := newvalue], True) else (nodes, changed))"

fun rebuild_loop :: "nat \<Rightarrow> uint8 list \<times> bool \<Rightarrow> uint8 list \<times> bool" where
  "rebuild_loop 0 st = st"
| "rebuild_loop (Suc nodeno) st = rebuild_loop nodeno (rebuild_step nodeno st)"

definition fsm_rebuild_page :: "FSMPageData \<Rightarrow> bool \<times> FSMPageData" where
  "fsm_rebuild_page page =
     (let (nodes, changed) = rebuild_loop NonLeafNodesPerPage (fp_nodes page, False)
      in (changed, page\<lparr>fp_nodes := nodes\<rparr>))"

section \<open>Setting and reading a leaf\<close>

text \<open>The \<^verbatim>\<open>do ... while (nodeno > 0)\<close> loop that propagates a new leaf value upwards.\<close>

function fsm_propagate :: "uint8 list \<Rightarrow> nat \<Rightarrow> uint8 list" where
  "fsm_propagate nodes nodeno =
     (let nodeno = parentof nodeno;
          lchild = leftchild nodeno;
          rchild = lchild + 1;
          newvalue = nodes ! lchild;
          newvalue = (if rchild < NodesPerPage then max newvalue (nodes ! rchild) else newvalue);
          oldvalue = nodes ! nodeno
      in if oldvalue = newvalue then nodes
         else let nodes = nodes[nodeno := newvalue]
              in if nodeno > 0 then fsm_propagate nodes nodeno else nodes)"
  by pat_completeness auto
termination
  by (relation "measure snd") (auto simp: parentof_def)

declare fsm_propagate.simps [simp del]

definition fsm_set_avail :: "FSMPageData \<Rightarrow> nat \<Rightarrow> uint8 \<Rightarrow> bool \<times> FSMPageData" where
  "fsm_set_avail page slot v =
     (let nodeno = NonLeafNodesPerPage + slot;
          oldvalue = fp_nodes page ! nodeno
      in if oldvalue = v \<and> v \<le> fp_nodes page ! 0 then (False, page)
         else
           let nodes = fsm_propagate ((fp_nodes page)[nodeno := v]) nodeno;
               page = page\<lparr>fp_nodes := nodes\<rparr>;
               page = (if v > fp_nodes page ! 0 then snd (fsm_rebuild_page page) else page)
           in (True, page))"

definition fsm_get_avail :: "FSMPageData \<Rightarrow> nat \<Rightarrow> uint8" where
  "fsm_get_avail page slot = fp_nodes page ! (NonLeafNodesPerPage + slot)"

definition fsm_get_max_avail :: "FSMPageData \<Rightarrow> uint8" where
  "fsm_get_max_avail page = fp_nodes page ! 0"

section \<open>Searching\<close>

text \<open>The climb: \<^verbatim>\<open>while (nodeno > 0)\<close>, moving right and then up until a node is large enough.\<close>

function fsm_climb :: "uint8 list \<Rightarrow> uint8 \<Rightarrow> nat \<Rightarrow> nat" where
  "fsm_climb nodes minvalue nodeno =
     (if nodeno > 0 then
        if nodes ! nodeno \<ge> minvalue then nodeno
        else fsm_climb nodes minvalue (parentof (rightneighbor nodeno))
      else nodeno)"
  by pat_completeness auto
termination
  by (relation "measure (\<lambda>(_, _, n). n)") (auto simp: parentof_def rightneighbor_def Let_def)

declare fsm_climb.simps [simp del]

text \<open>
  The descent: \<^verbatim>\<open>while (nodeno < NonLeafNodesPerPage)\<close>, preferring the left child.  \<open>None\<close> is the
  branch that found neither child large enough, a corrupt page.
\<close>

function fsm_descend :: "uint8 list \<Rightarrow> uint8 \<Rightarrow> nat \<Rightarrow> nat option" where
  "fsm_descend nodes minvalue nodeno =
     (if nodeno < NonLeafNodesPerPage then
        let childnodeno = leftchild nodeno in
        if childnodeno < NodesPerPage \<and> nodes ! childnodeno \<ge> minvalue
        then fsm_descend nodes minvalue childnodeno
        else
          let childnodeno = childnodeno + 1 in
          if childnodeno < NodesPerPage \<and> nodes ! childnodeno \<ge> minvalue
          then fsm_descend nodes minvalue childnodeno
          else None
      else Some nodeno)"
  by pat_completeness auto
termination
  by (relation "measure (\<lambda>(_, _, n). NodesPerPage - n)")
    (auto simp: fsm_sizes leftchild_def)

declare fsm_descend.simps [simp del]

text \<open>
  The whole search.  \<open>Some (None, page)\<close> is the result \<^verbatim>\<open>-1\<close>; a corrupt page is rebuilt and the
  search restarted, so the function is partial until shown to return.
\<close>

partial_function (option) fsm_search_avail ::
    "FSMPageData \<Rightarrow> uint8 \<Rightarrow> bool \<Rightarrow> (nat option \<times> FSMPageData) option" where
  "fsm_search_avail page minvalue advancenext =
     (if fp_nodes page ! 0 < minvalue then Some (None, page)
      else
        let target = fp_next_slot page;
            target = (if target < 0 \<or> target \<ge> int LeafNodesPerPage then 0 else nat target);
            target = target + NonLeafNodesPerPage
        in case fsm_descend (fp_nodes page) minvalue (fsm_climb (fp_nodes page) minvalue target) of
             None \<Rightarrow> fsm_search_avail (snd (fsm_rebuild_page page)) minvalue advancenext
           | Some nodeno \<Rightarrow>
               let slot = nodeno - NonLeafNodesPerPage
               in Some (Some slot, page\<lparr>fp_next_slot := int slot + (if advancenext then 1 else 0)\<rparr>))"

section \<open>Truncating\<close>

fun truncate_loop :: "nat \<Rightarrow> nat \<Rightarrow> uint8 list \<times> bool \<Rightarrow> uint8 list \<times> bool" where
  "truncate_loop p 0 st = st"
| "truncate_loop p (Suc k) (nodes, changed) =
     truncate_loop (Suc p) k (nodes[p := 0], changed \<or> nodes ! p \<noteq> 0)"

definition fsm_truncate_avail :: "FSMPageData \<Rightarrow> nat \<Rightarrow> bool \<times> FSMPageData" where
  "fsm_truncate_avail page nslots =
     (let ptr = NonLeafNodesPerPage + nslots;
          (nodes, changed) = truncate_loop ptr (NodesPerPage - ptr) (fp_nodes page, False);
          page = page\<lparr>fp_nodes := nodes\<rparr>;
          page = (if changed then snd (fsm_rebuild_page page) else page)
      in (changed, page))"

section \<open>The tree invariant\<close>

definition child_max :: "uint8 list \<Rightarrow> nat \<Rightarrow> uint8" where
  "child_max nodes n =
     (let l = leftchild n; v = (if l < NodesPerPage then nodes ! l else 0)
      in if l + 1 < NodesPerPage then max v (nodes ! (l + 1)) else v)"

definition fsm_page_wf :: "FSMPageData \<Rightarrow> bool" where
  "fsm_page_wf page \<longleftrightarrow> length (fp_nodes page) = NodesPerPage"

definition fsm_page_ok :: "FSMPageData \<Rightarrow> bool" where
  "fsm_page_ok page \<longleftrightarrow> fsm_page_wf page \<and>
     (\<forall>n < NonLeafNodesPerPage. fp_nodes page ! n = child_max (fp_nodes page) n)"

lemma child_max_cong:
  assumes "\<And>j. n < j \<Longrightarrow> j < NodesPerPage \<Longrightarrow> a ! j = b ! j"
  shows "child_max a n = child_max b n"
  using assms by (simp add: child_max_def leftchild_def Let_def)

lemma child_max_ge:
  assumes "0 < n" "n < NodesPerPage"
  shows "nodes ! n \<le> child_max nodes (parentof n)"
proof -
  have "n = leftchild (parentof n) \<or> n = leftchild (parentof n) + 1"
    using assms by (auto simp: leftchild_def parentof_def)
  then show ?thesis using assms by (auto simp: child_max_def Let_def)
qed

lemma parentof_less: "0 < n \<Longrightarrow> parentof n < n"
  by (auto simp: parentof_def)

lemma parentof_nonleaf: "n < NodesPerPage \<Longrightarrow> parentof n < NonLeafNodesPerPage"
  by (auto simp: parentof_def fsm_sizes)

lemma rebuild_step_spec:
  assumes "length nodes = NodesPerPage" "n < NonLeafNodesPerPage"
    and "rebuild_step n (nodes, c) = (nodes', c')"
  shows "nodes' = nodes[n := child_max nodes n] \<and> c' = (c \<or> nodes' \<noteq> nodes)"
proof -
  have eq: "rebuild_step n (nodes, c) =
      (if nodes ! n \<noteq> child_max nodes n then (nodes[n := child_max nodes n], True) else (nodes, c))"
    by (simp add: rebuild_step_def child_max_def Let_def)
  have "n < length nodes" using assms(1,2) by (simp add: fsm_sizes)
  then have "nodes[n := child_max nodes n] \<noteq> nodes \<longleftrightarrow> nodes ! n \<noteq> child_max nodes n"
    by (metis list_update_id nth_list_update_eq)
  then show ?thesis
    using assms(3) eq by (auto split: if_splits)
qed

lemma fp_nodes_update_eq_iff: "page\<lparr>fp_nodes := nodes\<rparr> = page \<longleftrightarrow> nodes = fp_nodes (page :: FSMPageData)"
proof
  assume "page\<lparr>fp_nodes := nodes\<rparr> = page"
  then have "fp_nodes (page\<lparr>fp_nodes := nodes\<rparr>) = fp_nodes page" by simp
  then show "nodes = fp_nodes page" by simp
qed simp

lemma rebuild_loop_spec:
  assumes "length nodes = NodesPerPage" "k \<le> NonLeafNodesPerPage"
    and "rebuild_loop k (nodes, c) = (nodes', c')"
  shows "length nodes' = NodesPerPage \<and> (\<forall>i \<ge> k. nodes' ! i = nodes ! i) \<and>
         (\<forall>i < k. nodes' ! i = child_max nodes' i)"
  using assms
proof (induction k arbitrary: nodes c)
  case 0
  then show ?case by simp
next
  case (Suc k)
  obtain n1 c1 where st: "rebuild_step k (nodes, c) = (n1, c1)" by fastforce
  have n1: "n1 = nodes[k := child_max nodes k]"
    using rebuild_step_spec [OF Suc.prems(1) _ st] Suc.prems(2) by simp
  have len1: "length n1 = NodesPerPage" using n1 Suc.prems(1) by simp
  have ih: "length nodes' = NodesPerPage" "\<forall>i \<ge> k. nodes' ! i = n1 ! i"
    "\<forall>i < k. nodes' ! i = child_max nodes' i"
    using Suc.IH [OF len1] Suc.prems st by auto
  have "k < length nodes" using Suc.prems by (simp add: fsm_sizes)
  then have "nodes' ! k = child_max nodes k" using ih(2) n1 by simp
  also have "\<dots> = child_max nodes' k"
    by (rule child_max_cong) (use ih(2) n1 in auto)
  finally have "\<forall>i < Suc k. nodes' ! i = child_max nodes' i"
    using ih(3) by (simp add: less_Suc_eq)
  moreover have "\<forall>i \<ge> Suc k. nodes' ! i = nodes ! i" using ih(2) n1 by simp
  ultimately show ?case using ih(1) by blast
qed

lemma rebuild_loop_changed:
  assumes "length nodes = NodesPerPage" "k \<le> NonLeafNodesPerPage"
    and "rebuild_loop k (nodes, c) = (nodes', c')"
  shows "c' = (c \<or> nodes' \<noteq> nodes)"
  using assms
proof (induction k arbitrary: nodes c)
  case 0
  then show ?case by simp
next
  case (Suc k)
  obtain n1 c1 where st: "rebuild_step k (nodes, c) = (n1, c1)" by fastforce
  have n1: "n1 = nodes[k := child_max nodes k]" "c1 = (c \<or> n1 \<noteq> nodes)"
    using rebuild_step_spec [OF Suc.prems(1) _ st] Suc.prems(2) by simp_all
  have len1: "length n1 = NodesPerPage" using n1 Suc.prems(1) by simp
  have ih: "c' = (c1 \<or> nodes' \<noteq> n1)"
    using Suc.IH [OF len1] Suc.prems st by auto
  have "\<forall>i \<ge> k. nodes' ! i = n1 ! i"
    using rebuild_loop_spec [OF len1, of k c1 nodes' c'] Suc.prems st by simp
  moreover have "k < length nodes" using Suc.prems by (simp add: fsm_sizes)
  ultimately have "n1 \<noteq> nodes \<Longrightarrow> nodes' \<noteq> nodes"
    using n1 by (metis list_update_id nth_list_update_eq order_refl)
  then show ?case using ih n1(2) by blast
qed

lemma fsm_rebuild_page_spec:
  assumes "fsm_page_wf page"
  shows "fsm_page_ok (snd (fsm_rebuild_page page))"
    and "fp_next_slot (snd (fsm_rebuild_page page)) = fp_next_slot page"
    and "fsm_get_avail (snd (fsm_rebuild_page page)) slot = fsm_get_avail page slot"
    and "fst (fsm_rebuild_page page) \<longleftrightarrow> snd (fsm_rebuild_page page) \<noteq> page"
proof -
  obtain nodes c where r: "rebuild_loop NonLeafNodesPerPage (fp_nodes page, False) = (nodes, c)"
    by fastforce
  have len: "length (fp_nodes page) = NodesPerPage" using assms by (simp add: fsm_page_wf_def)
  note sp = rebuild_loop_spec [OF len order_refl r] rebuild_loop_changed [OF len order_refl r]
  have e: "fsm_rebuild_page page = (c, page\<lparr>fp_nodes := nodes\<rparr>)"
    by (simp add: fsm_rebuild_page_def r)
  show "fsm_page_ok (snd (fsm_rebuild_page page))"
    using sp by (simp add: e fsm_page_ok_def fsm_page_wf_def)
  show "fp_next_slot (snd (fsm_rebuild_page page)) = fp_next_slot page" by (simp add: e)
  show "fsm_get_avail (snd (fsm_rebuild_page page)) slot = fsm_get_avail page slot"
    using sp by (simp add: e fsm_get_avail_def)
  show "fst (fsm_rebuild_page page) \<longleftrightarrow> snd (fsm_rebuild_page page) \<noteq> page"
    using sp by (simp add: e fp_nodes_update_eq_iff)
qed

section \<open>Propagation and lookup\<close>

lemma child_max_left:
  "leftchild n < NodesPerPage \<Longrightarrow> child_max nodes n =
     (if leftchild n + 1 < NodesPerPage then max (nodes ! leftchild n) (nodes ! (leftchild n + 1))
      else nodes ! leftchild n)"
  by (simp add: child_max_def Let_def)

lemma leftchild_parentof: "n < NodesPerPage \<Longrightarrow> leftchild (parentof n) < NodesPerPage"
  by (auto simp: leftchild_def parentof_def fsm_sizes)

lemma fsm_propagate_unfold:
  assumes "n < NodesPerPage"
  shows "fsm_propagate nodes n =
      (let p = parentof n; v = child_max nodes p; u = nodes[p := v]
       in if nodes ! p = v then nodes else if 0 < p then fsm_propagate u p else u)"
  unfolding Let_def child_max_left [OF leftchild_parentof [OF assms]]
  by (subst fsm_propagate.simps) (simp add: Let_def)

lemma fsm_propagate_induct [consumes 1, case_names step]:
  assumes "n < NodesPerPage"
    and "\<And>nodes n. n < NodesPerPage \<Longrightarrow>
      (parentof n < n \<Longrightarrow> 0 < parentof n \<Longrightarrow> P (nodes[parentof n := child_max nodes (parentof n)]) (parentof n)) \<Longrightarrow> P nodes n"
  shows "P nodes n"
  using assms(1)
proof (induction n arbitrary: nodes rule: less_induct)
  case (less n)
  show ?case by (rule assms(2)) (use less in auto)
qed

lemma fsm_propagate_wf:
  assumes "n < NodesPerPage" "length nodes = NodesPerPage"
  shows "length (fsm_propagate nodes n) = NodesPerPage \<and>
         (\<forall>i \<ge> NonLeafNodesPerPage. fsm_propagate nodes n ! i = nodes ! i)"
  using assms
proof (induction nodes n rule: fsm_propagate_induct)
  case (step nodes n)
  have "parentof n < NonLeafNodesPerPage" using step(1) by (rule parentof_nonleaf)
  moreover have "0 < parentof n \<Longrightarrow> parentof n < n"
    by (auto simp: parentof_def)
  ultimately show ?case
    using step by (simp add: fsm_propagate_unfold Let_def)
qed

lemma fsm_propagate_ok:
  assumes "n < NodesPerPage" "length nodes = NodesPerPage" "0 < n"
    and "\<forall>i < NonLeafNodesPerPage. i \<noteq> parentof n \<longrightarrow> nodes ! i = child_max nodes i"
  shows "\<forall>i < NonLeafNodesPerPage. fsm_propagate nodes n ! i = child_max (fsm_propagate nodes n) i"
  using assms
proof (induction nodes n rule: fsm_propagate_induct)
  case (step nodes n)
  let ?p = "parentof n"
  let ?v = "child_max nodes ?p"
  let ?u = "nodes[?p := ?v]"
  have p: "?p < NonLeafNodesPerPage" "?p < length nodes" "?p < n"
    using parentof_nonleaf [OF step(1)] parentof_less step by (auto simp: fsm_sizes)
  have eq: "fsm_propagate nodes n =
      (if nodes ! ?p = ?v then nodes else if 0 < ?p then fsm_propagate ?u ?p else ?u)"
    using step(1) by (simp add: fsm_propagate_unfold Let_def)
  have cm: "child_max ?u i = child_max nodes i" if "?p = 0 \<or> i \<noteq> parentof ?p" for i
  proof -
    have "leftchild i \<noteq> ?p" "leftchild i + 1 \<noteq> ?p"
      using that by (auto simp: leftchild_def parentof_def)
    then show ?thesis by (simp add: child_max_def Let_def)
  qed
  have cp: "child_max ?u ?p = ?v"
    by (rule child_max_cong) simp
  have fx: "?u ! i = child_max ?u i" if "i < NonLeafNodesPerPage" "?p = 0 \<or> i \<noteq> parentof ?p" for i
    using step.prems(3) cm [OF that(2)] cp p that by (cases "i = ?p") auto
  show ?case
  proof (cases "nodes ! ?p = ?v")
    case True
    then show ?thesis using eq step.prems(3) by auto
  next
    case False
    show ?thesis
    proof (cases "0 < ?p")
      case True
      then show ?thesis using eq False step.IH fx p step.prems(1) by simp
    next
      case z: False
      then show ?thesis using eq False fx by simp
    qed
  qed
qed

lemma fsm_page_ok_le_root:
  assumes "fsm_page_ok page" "n < NodesPerPage"
  shows "fp_nodes page ! n \<le> fp_nodes page ! 0"
  using assms(2)
proof (induction n rule: less_induct)
  case (less n)
  show ?case
  proof (cases "n = 0")
    case False
    then have "fp_nodes page ! n \<le> child_max (fp_nodes page) (parentof n)"
      using less.prems by (intro child_max_ge) auto
    also have "\<dots> = fp_nodes page ! parentof n"
      using assms(1) parentof_nonleaf [OF less.prems] by (simp add: fsm_page_ok_def)
    also have "\<dots> \<le> fp_nodes page ! 0"
      using less parentof_less False parentof_nonleaf [OF less.prems] by (simp add: fsm_sizes)
    finally show ?thesis .
  qed simp
qed

lemma fsm_set_avail_leaf:
  assumes "fsm_page_wf page" "slot < LeafNodesPerPage"
  shows "fsm_page_wf (snd (fsm_set_avail page slot v))"
    and "fsm_get_avail (snd (fsm_set_avail page slot v)) s =
           (if s = slot then v else fsm_get_avail page s)"
    and "fp_next_slot (snd (fsm_set_avail page slot v)) = fp_next_slot page"
    and "v \<le> fsm_get_max_avail (snd (fsm_set_avail page slot v))"
proof -
  let ?n = "NonLeafNodesPerPage + slot"
  let ?u = "(fp_nodes page)[?n := v]"
  let ?q = "page\<lparr>fp_nodes := fsm_propagate ?u ?n\<rparr>"
  have n: "?n < NodesPerPage" using assms(2) by (simp add: LeafNodesPerPage_def)
  have len: "length (fp_nodes page) = NodesPerPage" using assms(1) by (simp add: fsm_page_wf_def)
  have pw: "length (fsm_propagate ?u ?n) = NodesPerPage"
      "\<forall>i \<ge> NonLeafNodesPerPage. fsm_propagate ?u ?n ! i = ?u ! i"
    using fsm_propagate_wf [of ?n ?u] len n by auto
  have wq: "fsm_page_wf ?q" using pw by (simp add: fsm_page_wf_def)
  have gq: "fsm_get_avail ?q t = (if t = slot then v else fsm_get_avail page t)" for t
    using pw(2) len n by (simp add: fsm_get_avail_def)
  note R = fsm_rebuild_page_spec [OF wq]
  have eq: "snd (fsm_set_avail page slot v) =
      (if fsm_get_avail page slot = v \<and> v \<le> fp_nodes page ! 0 then page
       else if v > fp_nodes ?q ! 0 then snd (fsm_rebuild_page ?q) else ?q)"
    by (simp add: fsm_set_avail_def fsm_get_avail_def Let_def)
  show "fsm_page_wf (snd (fsm_set_avail page slot v))"
    using assms(1) wq R(1) by (simp add: eq fsm_page_ok_def)
  show "fsm_get_avail (snd (fsm_set_avail page slot v)) s =
           (if s = slot then v else fsm_get_avail page s)"
    using gq R(3) by (simp add: eq)
  show "fp_next_slot (snd (fsm_set_avail page slot v)) = fp_next_slot page"
    using R(2) by (simp add: eq)
  have "v \<le> fp_nodes (snd (fsm_rebuild_page ?q)) ! 0"
    using fsm_page_ok_le_root [OF R(1) n] R(3) [of slot] gq pw(2) len n
    by (simp add: fsm_get_avail_def)
  then show "v \<le> fsm_get_max_avail (snd (fsm_set_avail page slot v))"
    by (simp add: eq fsm_get_max_avail_def not_less)
qed

lemma fsm_set_avail_ok:
  assumes "fsm_page_ok page" "slot < LeafNodesPerPage"
  shows "fsm_page_ok (snd (fsm_set_avail page slot v))"
proof -
  let ?n = "NonLeafNodesPerPage + slot"
  let ?u = "(fp_nodes page)[?n := v]"
  have n: "?n < NodesPerPage" "0 < ?n" using assms(2) by (simp_all add: fsm_sizes)
  have len: "length (fp_nodes page) = NodesPerPage"
    using assms(1) by (simp add: fsm_page_ok_def fsm_page_wf_def)
  have cm: "child_max ?u i = child_max (fp_nodes page) i"
    if "i < NonLeafNodesPerPage" "i \<noteq> parentof ?n" for i
  proof -
    have "leftchild i \<noteq> ?n" "leftchild i + 1 \<noteq> ?n"
      using that by (auto simp: leftchild_def parentof_def fsm_sizes)
    then show ?thesis by (simp add: child_max_def Let_def)
  qed
  have "\<forall>i < NonLeafNodesPerPage. i \<noteq> parentof ?n \<longrightarrow> ?u ! i = child_max ?u i"
    using assms(1) cm by (simp add: fsm_page_ok_def)
  then have ok: "fsm_page_ok (page\<lparr>fp_nodes := fsm_propagate ?u ?n\<rparr>)"
    using fsm_propagate_ok [of ?n ?u] fsm_propagate_wf [of ?n ?u] len n
    by (simp add: fsm_page_ok_def fsm_page_wf_def)
  then have "fsm_page_ok (snd (fsm_rebuild_page (page\<lparr>fp_nodes := fsm_propagate ?u ?n\<rparr>)))"
    by (intro fsm_rebuild_page_spec) (simp add: fsm_page_ok_def)
  with ok assms(1) show ?thesis by (simp add: fsm_set_avail_def Let_def)
qed

section \<open>Search\<close>

lemma rightneighbor_le: "rightneighbor n \<le> n + 1"
  by (auto simp: rightneighbor_def parentof_def Let_def)

lemma fsm_climb_spec:
  assumes "n < NodesPerPage"
  shows "fsm_climb nodes v n < NodesPerPage \<and> (v \<le> nodes ! 0 \<longrightarrow> v \<le> nodes ! fsm_climb nodes v n)"
  using assms
proof (induction nodes v n rule: fsm_climb.induct)
  case (1 nodes v n)
  have "parentof (rightneighbor n) < NodesPerPage"
    using 1(2) rightneighbor_le [of n] by (auto simp: parentof_def fsm_sizes)
  with 1 show ?case by (subst (1 2) fsm_climb.simps) auto
qed

lemma fsm_descend_sound:
  assumes "fsm_descend nodes v n = Some m" "n < NodesPerPage" "v \<le> nodes ! n"
  shows "NonLeafNodesPerPage \<le> m \<and> m < NodesPerPage \<and> v \<le> nodes ! m"
  using assms
proof (induction nodes v n rule: fsm_descend.induct)
  case (1 nodes v n)
  from "1.prems"(1) show ?case
    by (subst (asm) fsm_descend.simps) (use 1 in \<open>auto simp: Let_def split: if_splits\<close>)
qed

lemma fsm_descend_complete:
  assumes "fsm_page_ok page" "0 < v" "v \<le> fp_nodes page ! n"
  shows "\<exists>m. fsm_descend (fp_nodes page) v n = Some m"
  using assms(3)
proof (induction "NodesPerPage - n" arbitrary: n rule: less_induct)
  case less
  show ?case
  proof (cases "n < NonLeafNodesPerPage")
    case False
    then show ?thesis by (simp add: fsm_descend.simps)
  next
    case True
    then have "v \<le> child_max (fp_nodes page) n"
      using less.prems assms(1) by (simp add: fsm_page_ok_def)
    then consider "leftchild n < NodesPerPage" "v \<le> fp_nodes page ! leftchild n"
      | "leftchild n + 1 < NodesPerPage" "v \<le> fp_nodes page ! (leftchild n + 1)"
      using assms(2) by (auto simp: child_max_def Let_def max_def split: if_splits)
    then show ?thesis
      using True less.hyps [of "leftchild n"] less.hyps [of "leftchild n + 1"]
      by (cases, subst fsm_descend.simps, auto simp: leftchild_def Let_def, subst fsm_descend.simps)
        (auto simp: leftchild_def Let_def)
  qed
qed

definition fsm_target :: "FSMPageData \<Rightarrow> nat" where
  "fsm_target page = (if fp_next_slot page < 0 \<or> fp_next_slot page \<ge> int LeafNodesPerPage then 0
     else nat (fp_next_slot page)) + NonLeafNodesPerPage"

lemma fsm_target_less: "fsm_target page < NodesPerPage"
  by (auto simp: fsm_target_def fsm_sizes)

lemma fsm_search_avail_step:
  "fsm_search_avail page v adv =
     (if fp_nodes page ! 0 < v then Some (None, page)
      else case fsm_descend (fp_nodes page) v (fsm_climb (fp_nodes page) v (fsm_target page)) of
             None \<Rightarrow> fsm_search_avail (snd (fsm_rebuild_page page)) v adv
           | Some m \<Rightarrow> Some (Some (m - NonLeafNodesPerPage),
               page\<lparr>fp_next_slot := int (m - NonLeafNodesPerPage) + (if adv then 1 else 0)\<rparr>))"
  by (subst fsm_search_avail.simps) (simp add: fsm_target_def Let_def cong: option.case_cong)

text \<open>One pass either finds a sound slot or meets a corrupt page.\<close>

lemma fsm_search_pass:
  assumes "\<not> fp_nodes page ! 0 < v"
    and "fsm_descend (fp_nodes page) v (fsm_climb (fp_nodes page) v (fsm_target page)) = Some m"
  shows "NonLeafNodesPerPage \<le> m \<and> m < NodesPerPage \<and> v \<le> fp_nodes page ! m"
  using fsm_descend_sound [OF assms(2)] fsm_climb_spec [OF fsm_target_less [of page], of "fp_nodes page" v] assms(1)
  by simp

lemma fsm_search_avail_ok:
  assumes "fsm_page_ok page"
  obtains "fp_nodes page ! 0 < v" "fsm_search_avail page v adv = Some (None, page)"
  | slot where "slot < LeafNodesPerPage" "v \<le> fsm_get_avail page slot"
      "fsm_search_avail page v adv =
         Some (Some slot, page\<lparr>fp_next_slot := int slot + (if adv then 1 else 0)\<rparr>)"
proof (cases "fp_nodes page ! 0 < v")
  case True
  then show thesis using that(1) by (simp add: fsm_search_avail_step)
next
  case False
  let ?c = "fsm_climb (fp_nodes page) v (fsm_target page)"
  have c: "?c < NodesPerPage" "v \<le> fp_nodes page ! ?c"
    using fsm_climb_spec [OF fsm_target_less [of page], of "fp_nodes page" v] False by auto
  have "\<exists>m. fsm_descend (fp_nodes page) v ?c = Some m"
  proof (cases "v = 0")
    case True
    have "?c = fsm_target page" using True by (subst fsm_climb.simps) simp
    then show ?thesis by (subst fsm_descend.simps) (simp add: fsm_target_def)
  next
    case False
    then show ?thesis using fsm_descend_complete [OF assms _ c(2)] by (simp add: word_neq_0_conv)
  qed
  then obtain m where m: "fsm_descend (fp_nodes page) v ?c = Some m" ..
  have "NonLeafNodesPerPage \<le> m" "m < NodesPerPage" "v \<le> fp_nodes page ! m"
    using fsm_search_pass [OF False m] by auto
  then show thesis
    using False m by (intro that(2) [of "m - NonLeafNodesPerPage"])
      (auto simp: fsm_search_avail_step fsm_get_avail_def LeafNodesPerPage_def)
qed

lemma fsm_search_avail_wf:
  assumes "fsm_page_wf page"
  obtains r page' where "fsm_search_avail page v adv = Some (r, page')"
    and "fsm_page_wf page'" and "fsm_page_ok page \<Longrightarrow> fsm_page_ok page'"
    and "\<And>s. fsm_get_avail page' s = fsm_get_avail page s"
    and "\<And>slot. r = Some slot \<Longrightarrow> slot < LeafNodesPerPage \<and> v \<le> fsm_get_avail page slot"
    and "r = None \<Longrightarrow> fsm_get_max_avail page' < v"
proof -
  note result = that
  have ok_case: thesis if ok: "fsm_page_ok q"
      and eq: "fsm_search_avail page v adv = fsm_search_avail q v adv"
      and same: "\<And>s. fsm_get_avail q s = fsm_get_avail page s" for q
  proof (rule fsm_search_avail_ok [OF ok, of v adv])
    assume "fp_nodes q ! 0 < v" "fsm_search_avail q v adv = Some (None, q)"
    then show thesis using ok eq same
      by (intro result [of None q]) (auto simp: fsm_page_ok_def fsm_get_max_avail_def)
  next
    fix slot assume "slot < LeafNodesPerPage" "v \<le> fsm_get_avail q slot"
      "fsm_search_avail q v adv = Some (Some slot, q\<lparr>fp_next_slot := int slot + (if adv then 1 else 0)\<rparr>)"
    then show thesis using ok eq same
      by (intro result [of "Some slot" "q\<lparr>fp_next_slot := int slot + (if adv then 1 else 0)\<rparr>"])
        (auto simp: fsm_page_ok_def fsm_page_wf_def fsm_get_avail_def)
  qed
  show thesis
  proof (cases "fsm_page_ok page")
    case True
    then show thesis by (rule ok_case) simp_all
  next
    case bad: False
    show thesis
    proof (cases "fp_nodes page ! 0 < v")
      case True
      then show thesis using assms bad
        by (intro result [of None page]) (simp_all add: fsm_search_avail_step fsm_get_max_avail_def)
    next
      case False
      show thesis
      proof (cases "fsm_descend (fp_nodes page) v (fsm_climb (fp_nodes page) v (fsm_target page))")
        case None
        then show thesis
          using False fsm_rebuild_page_spec [OF assms]
          by (intro ok_case [of "snd (fsm_rebuild_page page)"]) (simp_all add: fsm_search_avail_step)
      next
        case (Some m)
        then show thesis
          using False fsm_search_pass [OF False Some] assms bad
          by (intro result [of "Some (m - NonLeafNodesPerPage)"
                "page\<lparr>fp_next_slot := int (m - NonLeafNodesPerPage) + (if adv then 1 else 0)\<rparr>"])
            (auto simp: fsm_search_avail_step fsm_get_avail_def fsm_page_wf_def LeafNodesPerPage_def)
      qed
    qed
  qed
qed

section \<open>Truncation\<close>

lemma truncate_loop_spec:
  assumes "p + k \<le> length nodes"
  shows "truncate_loop p k (nodes, c) =
     (map (\<lambda>i. if p \<le> i \<and> i < p + k then 0 else nodes ! i) [0..<length nodes],
      c \<or> (\<exists>i. p \<le> i \<and> i < p + k \<and> nodes ! i \<noteq> 0))"
  using assms
proof (induction k arbitrary: p nodes c)
  case 0
  then show ?case by (auto intro!: nth_equalityI)
next
  case (Suc k)
  have split: "(p \<le> i \<and> i < p + Suc k) \<longleftrightarrow> i = p \<or> (Suc p \<le> i \<and> i < Suc p + k)" for i by auto
  show ?case using Suc.prems
    by (simp add: Suc.IH split) (auto simp: nth_list_update intro!: nth_equalityI)
qed

lemma fsm_truncate_avail_spec:
  assumes "fsm_page_ok page" "nslots < LeafNodesPerPage"
  shows "fsm_page_ok (snd (fsm_truncate_avail page nslots))"
    and "slot < LeafNodesPerPage \<Longrightarrow> fsm_get_avail (snd (fsm_truncate_avail page nslots)) slot =
           (if slot < nslots then fsm_get_avail page slot else 0)"
proof -
  let ?p = "NonLeafNodesPerPage + nslots"
  let ?ns = "fp_nodes page"
  have len: "length ?ns = NodesPerPage" using assms(1) by (simp add: fsm_page_ok_def fsm_page_wf_def)
  have p: "?p + (NodesPerPage - ?p) = NodesPerPage" using assms(2) by (simp add: fsm_sizes)
  obtain nodes c where t: "truncate_loop ?p (NodesPerPage - ?p) (?ns, False) = (nodes, c)" by fastforce
  have nodes: "nodes = map (\<lambda>i. if ?p \<le> i \<and> i < NodesPerPage then 0 else ?ns ! i) [0..<NodesPerPage]"
    and c: "c = (\<exists>i. ?p \<le> i \<and> i < NodesPerPage \<and> ?ns ! i \<noteq> 0)"
    using t truncate_loop_spec [of ?p "NodesPerPage - ?p" ?ns False] p len by auto
  let ?q = "page\<lparr>fp_nodes := nodes\<rparr>"
  have wf: "fsm_page_wf ?q" using nodes by (simp add: fsm_page_wf_def)
  have eq: "snd (fsm_truncate_avail page nslots) = (if c then snd (fsm_rebuild_page ?q) else ?q)"
    by (simp add: fsm_truncate_avail_def t Let_def)
  have nc: "\<not> c \<Longrightarrow> nodes = ?ns"
    using nodes c len by (intro nth_equalityI) auto
  show "fsm_page_ok (snd (fsm_truncate_avail page nslots))"
    using eq nc fsm_rebuild_page_spec(1) [OF wf] assms(1) by (cases c) simp_all
  show "fsm_get_avail (snd (fsm_truncate_avail page nslots)) slot =
           (if slot < nslots then fsm_get_avail page slot else 0)" if "slot < LeafNodesPerPage"
  proof -
    have "fsm_get_avail ?q slot = (if slot < nslots then fsm_get_avail page slot else 0)"
      using that nodes by (auto simp: fsm_get_avail_def fsm_sizes)
    then show ?thesis using eq fsm_rebuild_page_spec(3) [OF wf] by (cases c) simp_all
  qed
qed


section \<open>The page as a store of slots\<close>

text \<open>
  The interface that the multi-level map relies on: slots that read back what was stored, and a
  top value that is the maximum of the slots.
\<close>

locale fsm_store =
  fixes ok :: "'p \<Rightarrow> bool" and nslots :: nat and avail :: "'p \<Rightarrow> nat \<Rightarrow> uint8"
    and top_avail :: "'p \<Rightarrow> uint8" and set_avail :: "'p \<Rightarrow> nat \<Rightarrow> uint8 \<Rightarrow> 'p"
  assumes nslots_pos: "0 < nslots"
    and ok_set: "ok p \<Longrightarrow> s < nslots \<Longrightarrow> ok (set_avail p s v)"
    and avail_set: "ok p \<Longrightarrow> s < nslots \<Longrightarrow> avail (set_avail p s v) t = (if t = s then v else avail p t)"
    and top_upper: "ok p \<Longrightarrow> s < nslots \<Longrightarrow> avail p s \<le> top_avail p"
    and top_attained: "ok p \<Longrightarrow> 0 < top_avail p \<Longrightarrow> \<exists>s < nslots. avail p s = top_avail p"
begin

lemma top_is_Max: "ok p \<Longrightarrow> top_avail p = Max (avail p ` {..<nslots})"
proof (rule Max_eqI [symmetric])
  assume "ok p"
  show "top_avail p \<in> avail p ` {..<nslots}"
  proof (cases "0 < top_avail p")
    case False
    then have "top_avail p = avail p 0"
      using top_upper [OF \<open>ok p\<close> nslots_pos] by (simp add: word_gt_0)
    then show ?thesis using nslots_pos by blast
  qed (use top_attained [OF \<open>ok p\<close>] in force)
qed (use top_upper in auto)

lemma top_set: "ok p \<Longrightarrow> s < nslots \<Longrightarrow>
    top_avail (set_avail p s v) = Max ((\<lambda>t. if t = s then v else avail p t) ` {..<nslots})"
  by (simp add: top_is_Max ok_set avail_set cong: image_cong)

fun set_all :: "'p \<Rightarrow> (nat \<times> uint8) list \<Rightarrow> 'p" where
  "set_all p [] = p"
| "set_all p ((s, v) # us) = set_all (set_avail p s v) us"

lemma ok_set_all: "ok p \<Longrightarrow> \<forall>(s, v) \<in> set us. s < nslots \<Longrightarrow> ok (set_all p us)"
  by (induction p us rule: set_all.induct) (auto simp: ok_set)

lemma avail_set_all:
  "ok p \<Longrightarrow> \<forall>(s, v) \<in> set us. s < nslots \<Longrightarrow> distinct (map fst us) \<Longrightarrow>
     avail (set_all p us) t = (case map_of us t of None \<Rightarrow> avail p t | Some v \<Rightarrow> v)"
proof (induction p us rule: set_all.induct)
  case (2 p s v us)
  have "t = s \<Longrightarrow> map_of us t = None" using 2(4) by (simp add: map_of_eq_None_iff)
  then show ?case using 2 by (auto simp: ok_set avail_set split: option.splits)
qed simp

end

lemma fsm_top_attained:
  assumes "fsm_page_ok page" "0 < fsm_get_max_avail page"
  shows "\<exists>s < LeafNodesPerPage. fsm_get_avail page s = fsm_get_max_avail page"
proof -
  let ?v = "fsm_get_max_avail page"
  obtain m where m: "fsm_descend (fp_nodes page) ?v 0 = Some m"
    using fsm_descend_complete [OF assms, of 0] by (auto simp: fsm_get_max_avail_def)
  have s: "NonLeafNodesPerPage \<le> m" "m < NodesPerPage" "?v \<le> fp_nodes page ! m"
    using fsm_descend_sound [OF m] by (auto simp: fsm_sizes fsm_get_max_avail_def)
  then have "fp_nodes page ! m = ?v"
    using fsm_page_ok_le_root [OF assms(1), of m] by (simp add: fsm_get_max_avail_def)
  with s show ?thesis
    by (intro exI [of _ "m - NonLeafNodesPerPage"]) (auto simp: fsm_get_avail_def LeafNodesPerPage_def)
qed

interpretation fsm_tree: fsm_store fsm_page_ok LeafNodesPerPage fsm_get_avail fsm_get_max_avail
    "\<lambda>p s v. snd (fsm_set_avail p s v)"
proof unfold_locales
  fix p :: FSMPageData and s t v
  show "0 < LeafNodesPerPage" by (simp add: fsm_sizes)
  assume ok: "fsm_page_ok p"
  show "0 < fsm_get_max_avail p \<Longrightarrow> \<exists>s < LeafNodesPerPage. fsm_get_avail p s = fsm_get_max_avail p"
    by (rule fsm_top_attained [OF ok])
  assume s: "s < LeafNodesPerPage"
  show "fsm_page_ok (snd (fsm_set_avail p s v))" by (rule fsm_set_avail_ok [OF ok s])
  show "fsm_get_avail (snd (fsm_set_avail p s v)) t = (if t = s then v else fsm_get_avail p t)"
    using ok s by (intro fsm_set_avail_leaf) (simp_all add: fsm_page_ok_def)
  show "fsm_get_avail p s \<le> fsm_get_max_avail p"
    using fsm_page_ok_le_root [OF ok] s by (simp add: fsm_get_avail_def fsm_get_max_avail_def LeafNodesPerPage_def)
qed

section \<open>Properties\<close>

definition fsm_zero_page :: FSMPageData where
  "fsm_zero_page = \<lparr>fp_next_slot = 0, fp_nodes = replicate NodesPerPage 0\<rparr>"

lemma fsm_zero_page_ok: "fsm_page_ok fsm_zero_page"
  by (auto simp: fsm_page_ok_def fsm_page_wf_def fsm_zero_page_def child_max_def Let_def fsm_sizes)

lemma fsm_zero_page_avail: "s < LeafNodesPerPage \<Longrightarrow> fsm_get_avail fsm_zero_page s = 0"
  by (simp add: fsm_get_avail_def fsm_zero_page_def fsm_sizes)

text \<open>
  C17: On a consistent page, \<open>fsm_set_avail\<close> keeps every inner node equal to the maximum of its
  children, stores the value in the given slot, leaves every other slot and the search hint as they
  were, and the root is afterwards the maximum over all slots.
\<close>

theorem fsm_set_avail_correct:
  assumes "fsm_page_ok page" and "slot < LeafNodesPerPage"
  shows "fsm_page_ok (snd (fsm_set_avail page slot v)) \<and>
         (\<forall>s. fsm_get_avail (snd (fsm_set_avail page slot v)) s = (if s = slot then v else fsm_get_avail page s)) \<and>
         fp_next_slot (snd (fsm_set_avail page slot v)) = fp_next_slot page \<and>
         fsm_get_max_avail (snd (fsm_set_avail page slot v)) =
           Max ((\<lambda>s. if s = slot then v else fsm_get_avail page s) ` {..<LeafNodesPerPage})"
  using assms fsm_tree.ok_set fsm_tree.avail_set fsm_tree.top_set fsm_set_avail_leaf(3)
  by (simp add: fsm_page_ok_def)

theorem fsm_set_avail_correct_witness:
  "fsm_get_avail (snd (fsm_set_avail fsm_zero_page 7 200)) 7 = 200 \<and>
   fsm_get_avail (snd (fsm_set_avail fsm_zero_page 7 200)) 8 = 0"
  using fsm_set_avail_correct [OF fsm_zero_page_ok, of 7 200] fsm_zero_page_avail [of 8]
  by (simp add: fsm_sizes)

text \<open>
  C20: \<open>fsm_search_avail\<close> returns on every page of the right size, whatever its contents (a
  corrupt page is rebuilt at most once).  A slot it returns is in range and has at least the
  requested category, and no slot value changes.  On a consistent page it fails only if every slot
  is too small, and the page stays consistent.
\<close>

theorem fsm_search_avail_correct:
  assumes "fsm_page_wf page"
  shows "\<exists>r page'. fsm_search_avail page v adv = Some (r, page') \<and> fsm_page_wf page' \<and>
           (\<forall>s. fsm_get_avail page' s = fsm_get_avail page s) \<and>
           (\<forall>slot. r = Some slot \<longrightarrow> slot < LeafNodesPerPage \<and> v \<le> fsm_get_avail page slot) \<and>
           (fsm_page_ok page \<longrightarrow> fsm_page_ok page' \<and>
              (r = None \<longleftrightarrow> (\<forall>slot < LeafNodesPerPage. fsm_get_avail page slot < v)))"
proof (rule fsm_search_avail_wf [OF assms, of v adv])
  fix r page'
  assume s: "fsm_search_avail page v adv = Some (r, page')" "fsm_page_wf page'"
    "fsm_page_ok page \<Longrightarrow> fsm_page_ok page'"
    "\<And>s. fsm_get_avail page' s = fsm_get_avail page s"
    "\<And>slot. r = Some slot \<Longrightarrow> slot < LeafNodesPerPage \<and> v \<le> fsm_get_avail page slot"
    "r = None \<Longrightarrow> fsm_get_max_avail page' < v"
  have "r = None \<longleftrightarrow> (\<forall>slot < LeafNodesPerPage. fsm_get_avail page slot < v)" if "fsm_page_ok page"
    using s(4-6) fsm_tree.top_upper [OF s(3) [OF that]]
    by (metis leD not_None_eq order_le_less_trans)
  then show ?thesis using s by blast
qed

theorem fsm_search_avail_correct_witness:
  "\<exists>page'. fsm_search_avail (snd (fsm_set_avail fsm_zero_page 7 200)) 100 False = Some (Some 7, page')"
proof -
  let ?p = "snd (fsm_set_avail fsm_zero_page 7 200)"
  have ok: "fsm_page_ok ?p" by (rule fsm_set_avail_ok [OF fsm_zero_page_ok]) (simp add: fsm_sizes)
  have av: "fsm_get_avail ?p s = (if s = 7 then 200 else 0)" if "s < LeafNodesPerPage" for s
    using that fsm_tree.avail_set [OF fsm_zero_page_ok, of 7 200 s] by (simp add: fsm_sizes fsm_zero_page_avail)
  obtain r page' where r: "fsm_search_avail ?p 100 False = Some (r, page')"
      "\<forall>slot. r = Some slot \<longrightarrow> slot < LeafNodesPerPage \<and> 100 \<le> fsm_get_avail ?p slot"
      "r = None \<longleftrightarrow> (\<forall>slot < LeafNodesPerPage. fsm_get_avail ?p slot < 100)"
    using fsm_search_avail_correct [of ?p 100 False] ok by (auto simp: fsm_page_ok_def)
  have "\<not> fsm_get_avail ?p 7 < 100" using av [of 7] by (simp add: fsm_sizes)
  then obtain slot where "r = Some slot" using r(3) by (force simp: fsm_sizes)
  moreover from this have "slot = 7" using r(2) av [of slot] by (auto split: if_splits)
  ultimately show ?thesis using r(1) by blast
qed

text \<open>
  C21: \<open>fsm_rebuild_page\<close> makes any page of the right size consistent without touching a slot or
  the hint, and reports \<open>True\<close> exactly when it changed the page; after \<open>fsm_set_avail\<close>, even on a
  corrupt page, the slot holds the value, the other slots are unchanged and the root is no smaller
  than the value.
\<close>

theorem fsm_repair_correct:
  assumes "fsm_page_wf page" and "slot < LeafNodesPerPage"
  shows "fsm_page_ok (snd (fsm_rebuild_page page)) \<and>
         (\<forall>s. fsm_get_avail (snd (fsm_rebuild_page page)) s = fsm_get_avail page s) \<and>
         (fst (fsm_rebuild_page page) \<longleftrightarrow> snd (fsm_rebuild_page page) \<noteq> page) \<and>
         (\<forall>s. fsm_get_avail (snd (fsm_set_avail page slot v)) s = (if s = slot then v else fsm_get_avail page s)) \<and>
         v \<le> fsm_get_max_avail (snd (fsm_set_avail page slot v))"
  using fsm_rebuild_page_spec [OF assms(1)] fsm_set_avail_leaf [OF assms] by simp

theorem fsm_repair_correct_witness:
  "fsm_page_ok (snd (fsm_rebuild_page \<lparr>fp_next_slot = 0, fp_nodes = replicate NodesPerPage 9\<rparr>))"
  using fsm_repair_correct [of "\<lparr>fp_next_slot = 0, fp_nodes = replicate NodesPerPage 9\<rparr>" 0 0]
  by (simp add: fsm_page_wf_def fsm_sizes)

text \<open>
  \<open>fsm_truncate_avail\<close> zeroes exactly the slots from the given one on and keeps the page
  consistent.
\<close>

lemma fsm_truncate_avail_correct:
  assumes "fsm_page_ok page" and "nslots < LeafNodesPerPage" and "slot < LeafNodesPerPage"
  shows "fsm_page_ok (snd (fsm_truncate_avail page nslots)) \<and>
         fsm_get_avail (snd (fsm_truncate_avail page nslots)) slot =
           (if slot < nslots then fsm_get_avail page slot else 0)"
  using fsm_truncate_avail_spec [OF assms(1,2)] assms(3) by blast

end
