(* ===== verification/FreeSpace.thy ===== *)
theory FreeSpace
  imports FsmPage
begin

text \<open>
  The free space map of a relation, \<^verbatim>\<open>src/src/backend/storage/freespace/freespace.c\<close>: free space
  categories, the addressing of the three-level tree of FSM pages, reading and extending the FSM
  fork, and the public operations on it.

  The fork is a list of blocks, \<open>None\<close> for a block whose page is new (all zeros on disk, or zeroed
  because it failed verification); \<open>smgr_cached_nblocks\<close> is the cached fork size that \<open>fsm_readbuf\<close>
  consults.  Operations run one at a time; buffer pins and locks do not appear.  Page numbers are
  natural numbers, with the reduction to 32 bits written out where the code can reach it.
\<close>

section \<open>Categories\<close>

definition SizeOfItemIdData :: nat where "SizeOfItemIdData = 4"

definition MaxHeapTupleSize :: nat where
  "MaxHeapTupleSize = BLCKSZ - MAXALIGN (SizeOfPageHeaderData + SizeOfItemIdData)"

definition FSM_CATEGORIES :: nat where "FSM_CATEGORIES = 256"
definition FSM_CAT_STEP :: nat where "FSM_CAT_STEP = BLCKSZ div FSM_CATEGORIES"
definition MaxFSMRequestSize :: nat where "MaxFSMRequestSize = MaxHeapTupleSize"

datatype fsm_error = InvalidFSMRequestSize nat

definition fsm_space_avail_to_cat :: "nat \<Rightarrow> uint8" where
  "fsm_space_avail_to_cat avail =
     (if avail \<ge> MaxFSMRequestSize then 255
      else let cat = avail div FSM_CAT_STEP;
               cat = (if cat > 254 then 254 else cat)
           in word_of_nat cat)"

definition fsm_space_cat_to_avail :: "uint8 \<Rightarrow> nat" where
  "fsm_space_cat_to_avail cat = (if cat = 255 then MaxFSMRequestSize else unat cat * FSM_CAT_STEP)"

definition fsm_space_needed_to_cat :: "nat \<Rightarrow> fsm_error + uint8" where
  "fsm_space_needed_to_cat needed =
     (if needed > MaxFSMRequestSize then Inl (InvalidFSMRequestSize needed)
      else if needed = 0 then Inr 1
      else let cat = (needed + FSM_CAT_STEP - 1) div FSM_CAT_STEP;
               cat = (if cat > 255 then 255 else cat)
           in Inr (word_of_nat cat))"

section \<open>Addresses\<close>

type_synonym BlockNumber = nat

definition InvalidBlockNumber :: BlockNumber where "InvalidBlockNumber = 0xFFFFFFFF"

definition SlotsPerFSMPage :: nat where "SlotsPerFSMPage = LeafNodesPerPage"

definition FSM_TREE_DEPTH :: nat where "FSM_TREE_DEPTH = (if SlotsPerFSMPage \<ge> 1626 then 3 else 4)"
definition FSM_ROOT_LEVEL :: nat where "FSM_ROOT_LEVEL = FSM_TREE_DEPTH - 1"
definition FSM_BOTTOM_LEVEL :: nat where "FSM_BOTTOM_LEVEL = 0"

record FSMAddress =
  level :: nat
  logpageno :: nat

definition FSM_ROOT_ADDRESS :: FSMAddress where
  "FSM_ROOT_ADDRESS = \<lparr>level = FSM_ROOT_LEVEL, logpageno = 0\<rparr>"

fun count_upper :: "nat \<Rightarrow> nat \<Rightarrow> nat" where
  "count_upper 0 leafno = 0"
| "count_upper (Suc l) leafno = (leafno + 1) + count_upper l (leafno div SlotsPerFSMPage)"

definition fsm_logical_to_physical :: "FSMAddress \<Rightarrow> BlockNumber" where
  "fsm_logical_to_physical addr =
     (let leafno = logpageno addr * SlotsPerFSMPage ^ level addr;
          pages = count_upper FSM_TREE_DEPTH leafno;
          pages = pages - level addr
      in pages - 1)"

definition fsm_get_location :: "BlockNumber \<Rightarrow> FSMAddress \<times> nat" where
  "fsm_get_location heapblk =
     (\<lparr>level = FSM_BOTTOM_LEVEL, logpageno = heapblk div SlotsPerFSMPage\<rparr>, heapblk mod SlotsPerFSMPage)"

definition fsm_get_heap_blk :: "FSMAddress \<Rightarrow> nat \<Rightarrow> BlockNumber" where
  "fsm_get_heap_blk addr slot = (logpageno addr * SlotsPerFSMPage + slot) mod 2 ^ 32"

definition fsm_get_parent :: "FSMAddress \<Rightarrow> FSMAddress \<times> nat" where
  "fsm_get_parent child =
     (\<lparr>level = level child + 1, logpageno = logpageno child div SlotsPerFSMPage\<rparr>,
      logpageno child mod SlotsPerFSMPage)"

definition fsm_get_child :: "FSMAddress \<Rightarrow> nat \<Rightarrow> FSMAddress" where
  "fsm_get_child parent slot =
     \<lparr>level = level parent - 1, logpageno = logpageno parent * SlotsPerFSMPage + slot\<rparr>"

section \<open>The fork\<close>

record FsmRel =
  smgr_exists :: bool
  smgr_cached_nblocks :: BlockNumber
  fsm_blocks :: "FSMPageData option list"

definition smgrnblocks :: "FsmRel \<Rightarrow> FsmRel" where
  "smgrnblocks rel = rel\<lparr>smgr_cached_nblocks := length (fsm_blocks rel)\<rparr>"

text \<open>Extending creates the fork if needed, appends new pages and leaves the exact size cached.\<close>

definition fsm_extend :: "FsmRel \<Rightarrow> BlockNumber \<Rightarrow> FsmRel" where
  "fsm_extend rel fsm_nblocks =
     smgrnblocks (rel\<lparr>smgr_exists := True,
       fsm_blocks := fsm_blocks rel @ replicate (fsm_nblocks - length (fsm_blocks rel)) None\<rparr>)"

definition page_init :: "FsmRel \<Rightarrow> BlockNumber \<Rightarrow> FsmRel" where
  "page_init rel blkno =
     (if fsm_blocks rel ! blkno = None
      then rel\<lparr>fsm_blocks := (fsm_blocks rel)[blkno := Some fsm_zero_page]\<rparr> else rel)"

text \<open>The result \<open>None\<close> is \<^verbatim>\<open>InvalidBuffer\<close>; otherwise the block number stands for the pinned buffer.\<close>

definition fsm_readbuf :: "FsmRel \<Rightarrow> FSMAddress \<Rightarrow> bool \<Rightarrow> BlockNumber option \<times> FsmRel" where
  "fsm_readbuf rel addr extend_p =
     (let blkno = fsm_logical_to_physical addr;
          rel = (if smgr_cached_nblocks rel = InvalidBlockNumber \<or> blkno \<ge> smgr_cached_nblocks rel
                 then if smgr_exists rel then smgrnblocks rel else rel\<lparr>smgr_cached_nblocks := 0\<rparr>
                 else rel)
      in if blkno \<ge> smgr_cached_nblocks rel
         then if extend_p then (Some blkno, page_init (fsm_extend rel (blkno + 1)) blkno)
              else (None, rel)
         else (Some blkno, page_init rel blkno))"

definition buf_page :: "FsmRel \<Rightarrow> BlockNumber \<Rightarrow> FSMPageData" where
  "buf_page rel blkno = the (fsm_blocks rel ! blkno)"

definition put_page :: "FsmRel \<Rightarrow> BlockNumber \<Rightarrow> FSMPageData \<Rightarrow> FsmRel" where
  "put_page rel blkno page = rel\<lparr>fsm_blocks := (fsm_blocks rel)[blkno := Some page]\<rparr>"

section \<open>Operations\<close>

text \<open>
  \<open>Some (r, rel)\<close>: the call returns the slot \<open>r\<close> (\<open>None\<close> for \<^verbatim>\<open>-1\<close>).  The outer option is the
  one of \<^const>\<open>fsm_search_avail\<close>.
\<close>

definition fsm_set_and_search ::
    "FsmRel \<Rightarrow> FSMAddress \<Rightarrow> nat \<Rightarrow> uint8 \<Rightarrow> uint8 \<Rightarrow> (nat option \<times> FsmRel) option" where
  "fsm_set_and_search rel addr slot newValue minValue =
     (case fsm_readbuf rel addr True of
        (None, rel) \<Rightarrow> None
      | (Some buf, rel) \<Rightarrow>
          let rel = put_page rel buf (snd (fsm_set_avail (buf_page rel buf) slot newValue))
          in if minValue \<noteq> 0 then
               case fsm_search_avail (buf_page rel buf) minValue (level addr = FSM_BOTTOM_LEVEL) of
                 None \<Rightarrow> None
               | Some (newslot, page) \<Rightarrow> Some (newslot, put_page rel buf page)
             else Some (None, rel))"

definition search_page ::
    "FsmRel \<Rightarrow> FSMAddress \<Rightarrow> uint8 \<Rightarrow> (nat option \<times> uint8 \<times> FsmRel) option" where
  "search_page rel addr min_cat =
     (case fsm_readbuf rel addr False of
        (None, rel) \<Rightarrow> Some (None, 0, rel)
      | (Some buf, rel) \<Rightarrow>
          (case fsm_search_avail (buf_page rel buf) min_cat (level addr = FSM_BOTTOM_LEVEL) of
             None \<Rightarrow> None
           | Some (slot, page) \<Rightarrow>
               let rel = put_page rel buf page
               in Some (slot, if slot = None then fsm_get_max_avail (buf_page rel buf) else 0, rel)))"

text \<open>The \<^verbatim>\<open>for (;;)\<close> loop of \<open>fsm_search\<close>, with its emergency valve on the number of restarts.\<close>

partial_function (option) fsm_search_loop ::
    "uint8 \<Rightarrow> nat \<Rightarrow> FSMAddress \<Rightarrow> FsmRel \<Rightarrow> (BlockNumber \<times> FsmRel) option" where
  "fsm_search_loop min_cat restarts addr rel =
     (case search_page rel addr min_cat of
        None \<Rightarrow> None
      | Some (slot, max_avail, rel) \<Rightarrow>
          (case slot of
             Some slot \<Rightarrow>
               if level addr = FSM_BOTTOM_LEVEL then Some (fsm_get_heap_blk addr slot, rel)
               else fsm_search_loop min_cat restarts (fsm_get_child addr slot) rel
           | None \<Rightarrow>
               if level addr = FSM_ROOT_LEVEL then Some (InvalidBlockNumber, rel)
               else
                 let (parent, parentslot) = fsm_get_parent addr in
                 (case fsm_set_and_search rel parent parentslot max_avail 0 of
                    None \<Rightarrow> None
                  | Some (_, rel) \<Rightarrow>
                      if restarts > 10000 then Some (InvalidBlockNumber, rel)
                      else fsm_search_loop min_cat (restarts + 1) FSM_ROOT_ADDRESS rel)))"

definition fsm_search :: "FsmRel \<Rightarrow> uint8 \<Rightarrow> (BlockNumber \<times> FsmRel) option" where
  "fsm_search rel min_cat = fsm_search_loop min_cat 0 FSM_ROOT_ADDRESS rel"

definition GetPageWithFreeSpace :: "FsmRel \<Rightarrow> nat \<Rightarrow> (fsm_error + BlockNumber \<times> FsmRel) option" where
  "GetPageWithFreeSpace rel spaceNeeded =
     (case fsm_space_needed_to_cat spaceNeeded of
        Inl e \<Rightarrow> Some (Inl e)
      | Inr min_cat \<Rightarrow> map_option Inr (fsm_search rel min_cat))"

definition RecordAndGetPageWithFreeSpace ::
    "FsmRel \<Rightarrow> BlockNumber \<Rightarrow> nat \<Rightarrow> nat \<Rightarrow> (fsm_error + BlockNumber \<times> FsmRel) option" where
  "RecordAndGetPageWithFreeSpace rel oldPage oldSpaceAvail spaceNeeded =
     (let old_cat = fsm_space_avail_to_cat oldSpaceAvail in
      case fsm_space_needed_to_cat spaceNeeded of
        Inl e \<Rightarrow> Some (Inl e)
      | Inr search_cat \<Rightarrow>
          let (addr, slot) = fsm_get_location oldPage in
          (case fsm_set_and_search rel addr slot old_cat search_cat of
             None \<Rightarrow> None
           | Some (Some search_slot, rel) \<Rightarrow> Some (Inr (fsm_get_heap_blk addr search_slot, rel))
           | Some (None, rel) \<Rightarrow> map_option Inr (fsm_search rel search_cat)))"

definition RecordPageWithFreeSpace :: "FsmRel \<Rightarrow> BlockNumber \<Rightarrow> nat \<Rightarrow> FsmRel option" where
  "RecordPageWithFreeSpace rel heapBlk spaceAvail =
     (let new_cat = fsm_space_avail_to_cat spaceAvail;
          (addr, slot) = fsm_get_location heapBlk
      in map_option snd (fsm_set_and_search rel addr slot new_cat 0))"

text \<open>In WAL replay \<^verbatim>\<open>XLogReadBufferExtended\<close> extends a fork that is too short.\<close>

definition XLogRecordPageWithFreeSpace :: "FsmRel \<Rightarrow> BlockNumber \<Rightarrow> nat \<Rightarrow> FsmRel" where
  "XLogRecordPageWithFreeSpace rel heapBlk spaceAvail =
     (let new_cat = fsm_space_avail_to_cat spaceAvail;
          (addr, slot) = fsm_get_location heapBlk;
          blkno = fsm_logical_to_physical addr;
          rel = fsm_extend rel (blkno + 1);
          rel = page_init rel blkno
      in put_page rel blkno (snd (fsm_set_avail (buf_page rel blkno) slot new_cat)))"

definition GetRecordedFreeSpace :: "FsmRel \<Rightarrow> BlockNumber \<Rightarrow> nat \<times> FsmRel" where
  "GetRecordedFreeSpace rel heapBlk =
     (let (addr, slot) = fsm_get_location heapBlk in
      case fsm_readbuf rel addr False of
        (None, rel) \<Rightarrow> (0, rel)
      | (Some buf, rel) \<Rightarrow> (fsm_space_cat_to_avail (fsm_get_avail (buf_page rel buf) slot), rel))"

definition FreeSpaceMapPrepareTruncateRel :: "FsmRel \<Rightarrow> BlockNumber \<Rightarrow> BlockNumber \<times> FsmRel" where
  "FreeSpaceMapPrepareTruncateRel rel nblocks =
     (if \<not> smgr_exists rel then (InvalidBlockNumber, rel)
      else
        let (first_removed_address, first_removed_slot) = fsm_get_location nblocks in
        if first_removed_slot > 0 then
          (case fsm_readbuf rel first_removed_address False of
             (None, rel) \<Rightarrow> (InvalidBlockNumber, rel)
           | (Some buf, rel) \<Rightarrow>
               (fsm_logical_to_physical first_removed_address + 1,
                put_page rel buf (snd (fsm_truncate_avail (buf_page rel buf) first_removed_slot))))
        else
          let new_nfsmblocks = fsm_logical_to_physical first_removed_address;
              rel = smgrnblocks rel
          in if smgr_cached_nblocks rel \<le> new_nfsmblocks then (InvalidBlockNumber, rel)
             else (new_nfsmblocks, rel))"

section \<open>Vacuuming the upper levels\<close>

fun up_to_level :: "nat \<Rightarrow> FSMAddress \<times> nat \<Rightarrow> FSMAddress \<times> nat" where
  "up_to_level 0 (addr, slot) = (addr, slot)"
| "up_to_level (Suc k) (addr, slot) = up_to_level k (fsm_get_parent addr)"

text \<open>The slots of a page that cover the requested range, as the two nested conditionals compute them.\<close>

definition vacuum_range :: "FSMAddress \<Rightarrow> BlockNumber \<Rightarrow> BlockNumber \<Rightarrow> int \<times> int" where
  "vacuum_range addr start end =
     (let (fsm_start, fsm_start_slot) = up_to_level (level addr) (fsm_get_location start);
          (fsm_end, fsm_end_slot) =
            up_to_level (level addr) (fsm_get_location ((end + 2 ^ 32 - 1) mod 2 ^ 32));
          start_slot = (if logpageno fsm_start = logpageno addr then int fsm_start_slot
                        else if logpageno fsm_start > logpageno addr then int SlotsPerFSMPage else 0);
          end_slot = (if logpageno fsm_end = logpageno addr then int fsm_end_slot
                      else if logpageno fsm_end > logpageno addr then int SlotsPerFSMPage - 1 else - 1)
      in (start_slot, end_slot))"

text \<open>
  \<open>fsm_vacuum_page\<close> returns the maximum on the page, the end-of-file flag and the relation;
  \<open>vacuum_slots\<close> is its loop over the slots of an upper-level page.
\<close>

function (sequential) fsm_vacuum_page ::
    "FsmRel \<Rightarrow> FSMAddress \<Rightarrow> BlockNumber \<Rightarrow> BlockNumber \<Rightarrow> uint8 \<times> bool \<times> FsmRel"
  and vacuum_slots ::
    "FsmRel \<Rightarrow> BlockNumber \<Rightarrow> FSMAddress \<Rightarrow> BlockNumber \<Rightarrow> BlockNumber \<Rightarrow> int \<Rightarrow> int \<Rightarrow> bool \<Rightarrow> FsmRel"
where
  "fsm_vacuum_page rel addr start end =
     (case fsm_readbuf rel addr False of
        (None, rel) \<Rightarrow> (0, True, rel)
      | (Some buf, rel) \<Rightarrow>
          let rel = (if level addr > FSM_BOTTOM_LEVEL
                     then let (start_slot, end_slot) = vacuum_range addr start end
                          in vacuum_slots rel buf addr start end start_slot end_slot False
                     else rel);
              max_avail = fsm_get_max_avail (buf_page rel buf)
          in (max_avail, False, put_page rel buf ((buf_page rel buf)\<lparr>fp_next_slot := 0\<rparr>)))"
| "vacuum_slots rel buf addr start end slot end_slot eof =
     (if slot \<le> end_slot \<and> level addr > 0 then
        let (child_avail, eof, rel) =
              (if \<not> eof then fsm_vacuum_page rel (fsm_get_child addr (nat slot)) start end
               else (0, eof, rel));
            rel = (if fsm_get_avail (buf_page rel buf) (nat slot) \<noteq> child_avail
                   then put_page rel buf (snd (fsm_set_avail (buf_page rel buf) (nat slot) child_avail))
                   else rel)
        in vacuum_slots rel buf addr start end (slot + 1) end_slot eof
      else rel)"
  by pat_completeness auto
termination
  by (relation "inv_image (less_than <*lex*> less_than)
        (\<lambda>x. case x of Inl (rel, addr, _) \<Rightarrow> (2 * level addr + 1, 0)
               | Inr (rel, buf, addr, _, _, slot, end_slot, _) \<Rightarrow> (2 * level addr, nat (end_slot + 1 - slot)))")
    (auto simp: fsm_get_child_def FSM_BOTTOM_LEVEL_def)

declare fsm_vacuum_page.simps [simp del] vacuum_slots.simps [simp del]

definition FreeSpaceMapVacuum :: "FsmRel \<Rightarrow> FsmRel" where
  "FreeSpaceMapVacuum rel = snd (snd (fsm_vacuum_page rel FSM_ROOT_ADDRESS 0 InvalidBlockNumber))"

definition FreeSpaceMapVacuumRange :: "FsmRel \<Rightarrow> BlockNumber \<Rightarrow> BlockNumber \<Rightarrow> FsmRel" where
  "FreeSpaceMapVacuumRange rel start end =
     (if end > start then snd (snd (fsm_vacuum_page rel FSM_ROOT_ADDRESS start end)) else rel)"

section \<open>Truncating the fork\<close>

definition smgrtruncate_fsm :: "FsmRel \<Rightarrow> BlockNumber \<Rightarrow> FsmRel" where
  "smgrtruncate_fsm rel nblocks =
     rel\<lparr>fsm_blocks := take nblocks (fsm_blocks rel), smgr_cached_nblocks := nblocks\<rparr>"

text \<open>The caller's protocol: prepare, then truncate the fork unless there is nothing to truncate.\<close>

definition truncate_fsm :: "FsmRel \<Rightarrow> BlockNumber \<Rightarrow> FsmRel" where
  "truncate_fsm rel nblocks =
     (case FreeSpaceMapPrepareTruncateRel rel nblocks of
        (n, rel) \<Rightarrow> if n = InvalidBlockNumber then rel else smgrtruncate_fsm rel n)"

section \<open>Categories and addresses\<close>

lemma fsm_consts:
  "MaxFSMRequestSize = 8160" "FSM_CAT_STEP = 32" "SlotsPerFSMPage = 4069" "FSM_TREE_DEPTH = 3"
  "FSM_ROOT_LEVEL = 2" "FSM_BOTTOM_LEVEL = 0" "InvalidBlockNumber = 4294967295"
  by (simp_all add: MaxFSMRequestSize_def MaxHeapTupleSize_def BLCKSZ_def MAXALIGN_def SizeOfItemIdData_def
      SizeOfPageHeaderData_def FSM_CAT_STEP_def FSM_CATEGORIES_def SlotsPerFSMPage_def fsm_sizes
      FSM_TREE_DEPTH_def FSM_ROOT_LEVEL_def FSM_BOTTOM_LEVEL_def InvalidBlockNumber_def)

lemma unat_word8_of_nat: "n < 256 \<Longrightarrow> unat (word_of_nat n :: uint8) = n"
  by (simp add: unat_of_nat)

lemma unat_avail_to_cat:
  "unat (fsm_space_avail_to_cat avail) = (if avail \<ge> 8160 then 255 else avail div 32)"
proof (cases "avail \<ge> 8160")
  case False
  then have "avail div 32 \<le> 254" by linarith
  then show ?thesis using False by (simp add: fsm_space_avail_to_cat_def fsm_consts Let_def unat_of_nat)
qed (simp add: fsm_space_avail_to_cat_def fsm_consts)

lemma unat_needed_to_cat:
  "fsm_space_needed_to_cat needed = Inr c \<Longrightarrow>
     needed \<le> 8160 \<and> unat c = (if needed = 0 then 1 else min 255 ((needed + 31) div 32))"
  by (auto simp: fsm_space_needed_to_cat_def fsm_consts Let_def unat_of_nat split: if_splits)

definition fsm_addr_ok :: "FSMAddress \<Rightarrow> bool" where
  "fsm_addr_ok a \<longleftrightarrow> level a \<le> FSM_ROOT_LEVEL \<and> logpageno a < SlotsPerFSMPage ^ (FSM_ROOT_LEVEL - level a)"

lemma level_cases: "l \<le> FSM_ROOT_LEVEL \<Longrightarrow> (l = 0 \<Longrightarrow> P) \<Longrightarrow> (l = 1 \<Longrightarrow> P) \<Longrightarrow> (l = 2 \<Longrightarrow> P) \<Longrightarrow> P"
  unfolding fsm_consts by linarith

lemma fsm_physical:
  assumes "fsm_addr_ok a"
  shows "fsm_logical_to_physical a =
    (if level a = 0 then logpageno a + logpageno a div SlotsPerFSMPage + 2
     else if level a = 1 then logpageno a * Suc SlotsPerFSMPage + 1 else 0)"
proof -
  have d: "count_upper 3 n = n + n div 4069 + n div 4069 div 4069 + 3" for n
    by (simp add: fsm_consts numeral_3_eq_3)
  from assms have l: "level a \<le> FSM_ROOT_LEVEL" by (simp add: fsm_addr_ok_def)
  show ?thesis
  proof (rule level_cases [OF l])
    assume "level a = 0"
    with assms have "logpageno a div 4069 div 4069 = 0"
      by (simp add: fsm_addr_ok_def fsm_consts div_mult2_eq [symmetric])
    then show ?thesis using \<open>level a = 0\<close> by (simp add: fsm_logical_to_physical_def d fsm_consts Let_def)
  next
    assume "level a = 1"
    with assms have "logpageno a div 4069 = 0" by (simp add: fsm_addr_ok_def fsm_consts)
    then show ?thesis using \<open>level a = 1\<close> by (simp add: fsm_logical_to_physical_def d fsm_consts)
  next
    assume "level a = 2"
    with assms show ?thesis by (simp add: fsm_logical_to_physical_def d fsm_addr_ok_def fsm_consts Let_def)
  qed
qed

lemma FSMAddress_eqI: "level a = level b \<Longrightarrow> logpageno a = logpageno b \<Longrightarrow> a = (b :: FSMAddress)"
  by simp

lemma fsm_physical_inj:
  assumes "fsm_addr_ok a" "fsm_addr_ok b" "fsm_logical_to_physical a = fsm_logical_to_physical b"
  shows "a = b"
proof -
  let ?S = SlotsPerFSMPage
  have lv: "level a \<le> 2" "level b \<le> 2" using assms(1,2) by (simp_all add: fsm_addr_ok_def fsm_consts)
  have leaf: "p + p div ?S + 2 = (p div ?S) * Suc ?S + (p mod ?S + 2)" for p
    by (metis (no_types, opaque_lifting) add.assoc add.commute div_mult_mod_eq mult_Suc_right)
  have m: "p mod ?S < ?S" for p by (simp add: fsm_consts)
  have eq: "fsm_logical_to_physical a = fsm_logical_to_physical b" by (rule assms(3))
  have ne: "p + p div ?S + 2 \<noteq> q * Suc ?S + 1" for p q
  proof
    assume *: "p + p div ?S + 2 = q * Suc ?S + 1"
    show False
    proof (cases "q \<le> p div ?S")
      case True
      then show False using * leaf [of p] mult_le_mono1 [OF True, of "Suc ?S"] by linarith
    next
      case False
      then have "Suc (p div ?S) * Suc ?S \<le> q * Suc ?S" by (intro mult_le_mono1) simp
      then have "Suc ?S + p div ?S * Suc ?S \<le> q * Suc ?S" by simp
      then show False using * leaf [of p] m [of p] by linarith
    qed
  qed
  have mono: "p + p div ?S < q + q div ?S" if "p < q" for p q :: nat
    using that div_le_mono [of p q ?S] by linarith
  have "logpageno a = logpageno b" if "level a = 0" "level b = 0"
    using eq that assms mono [of "logpageno a" "logpageno b"] mono [of "logpageno b" "logpageno a"]
    by (cases "logpageno a" "logpageno b" rule: linorder_cases) (simp_all add: fsm_physical)
  moreover have "logpageno a = logpageno b" if "level a = 1" "level b = 1"
    using eq that assms by (simp add: fsm_physical fsm_consts)
  moreover have "logpageno a = logpageno b" if "level a = 2" "level b = 2"
    using that assms by (simp add: fsm_addr_ok_def fsm_consts)
  moreover have "level a = level b"
    using eq lv ne [of "logpageno a" "logpageno b"] ne [of "logpageno b" "logpageno a"]
    unfolding fsm_physical [OF assms(1)] fsm_physical [OF assms(2)]
    by (simp split: if_splits)
  ultimately show ?thesis using lv by (intro FSMAddress_eqI) linarith+
qed

lemma fsm_physical_bound: "fsm_addr_ok a \<Longrightarrow> fsm_logical_to_physical a < 16560831"
proof -
  assume a: "fsm_addr_ok a"
  have "logpageno a div 4069 \<le> 4068" if "logpageno a < 16556761"
    using that by (simp add: less_mult_imp_div_less less_Suc_eq_le [symmetric])
  then show ?thesis
    using a by (auto simp: fsm_physical fsm_addr_ok_def fsm_consts le_Suc_eq numeral_2_eq_2 split: if_splits)
qed

lemma fsm_root_ok [simp]: "fsm_addr_ok FSM_ROOT_ADDRESS"
  by (simp add: fsm_addr_ok_def FSM_ROOT_ADDRESS_def fsm_consts)

lemma fsm_child_ok:
  assumes "fsm_addr_ok a" "0 < level a" "slot < SlotsPerFSMPage"
  shows "fsm_addr_ok (fsm_get_child a slot)"
proof -
  have "level a = 1 \<or> level a = 2" using assms(1,2) by (auto simp: fsm_addr_ok_def fsm_consts)
  then show ?thesis using assms by (auto simp: fsm_addr_ok_def fsm_get_child_def fsm_consts)
qed

lemma fsm_parent_ok: "fsm_addr_ok a \<Longrightarrow> level a < FSM_ROOT_LEVEL \<Longrightarrow>
    fsm_addr_ok (fst (fsm_get_parent a)) \<and> snd (fsm_get_parent a) < SlotsPerFSMPage"
  by (auto simp: fsm_addr_ok_def fsm_get_parent_def fsm_consts numeral_2_eq_2 less_Suc_eq
      less_mult_imp_div_less)

lemma fsm_parent_child: "slot < SlotsPerFSMPage \<Longrightarrow> 0 < level a \<Longrightarrow> fsm_get_parent (fsm_get_child a slot) = (a, slot)"
  by (simp add: fsm_get_parent_def fsm_get_child_def)

lemma fsm_child_parent: "fsm_get_child (fst (fsm_get_parent a)) (snd (fsm_get_parent a)) = a"
  by (simp add: fsm_get_parent_def fsm_get_child_def)

lemma fsm_location_ok: "b < SlotsPerFSMPage ^ 3 \<Longrightarrow>
    fsm_addr_ok (fst (fsm_get_location b)) \<and> snd (fsm_get_location b) < SlotsPerFSMPage"
  by (simp add: fsm_addr_ok_def fsm_get_location_def fsm_consts less_mult_imp_div_less)

lemma fsm_child_before:
  assumes "fsm_addr_ok a" "0 < level a" "s < t" "t < SlotsPerFSMPage"
  shows "fsm_logical_to_physical a < fsm_logical_to_physical (fsm_get_child a s) \<and>
         fsm_logical_to_physical (fsm_get_child a s) < fsm_logical_to_physical (fsm_get_child a t)"
proof -
  have l: "level a = 1 \<or> level a = 2" using assms(1,2) by (auto simp: fsm_addr_ok_def fsm_consts)
  have ok: "fsm_addr_ok (fsm_get_child a s)" "fsm_addr_ok (fsm_get_child a t)"
    using assms by (simp_all add: fsm_child_ok)
  from l show ?thesis
    using assms(3,4) unfolding fsm_physical [OF ok(1)] fsm_physical [OF ok(2)] fsm_physical [OF assms(1)]
    by (auto simp: fsm_get_child_def fsm_consts)
qed

section \<open>The fork as a map from addresses to pages\<close>

definition fsm_page_at :: "FsmRel \<Rightarrow> FSMAddress \<Rightarrow> FSMPageData option" where
  "fsm_page_at rel a =
     (let b = fsm_logical_to_physical a in
      if b < length (fsm_blocks rel)
      then Some (case fsm_blocks rel ! b of None \<Rightarrow> fsm_zero_page | Some p \<Rightarrow> p) else None)"

definition fsm_rel_wf :: "FsmRel \<Rightarrow> bool" where
  "fsm_rel_wf rel \<longleftrightarrow>
     (smgr_exists rel \<or> fsm_blocks rel = []) \<and>
     (smgr_cached_nblocks rel = InvalidBlockNumber \<or> smgr_cached_nblocks rel \<le> length (fsm_blocks rel)) \<and>
     (\<forall>p. Some p \<in> set (fsm_blocks rel) \<longrightarrow> fsm_page_wf p)"

definition fsm_rel_ok :: "FsmRel \<Rightarrow> bool" where
  "fsm_rel_ok rel \<longleftrightarrow> fsm_rel_wf rel \<and> (\<forall>p. Some p \<in> set (fsm_blocks rel) \<longrightarrow> fsm_page_ok p)"

text \<open>The category recorded for a heap block.\<close>

definition fsm_cat :: "FsmRel \<Rightarrow> BlockNumber \<Rightarrow> uint8" where
  "fsm_cat rel heapblk =
     (case fsm_page_at rel (fst (fsm_get_location heapblk)) of
        None \<Rightarrow> 0 | Some p \<Rightarrow> fsm_get_avail p (snd (fsm_get_location heapblk)))"

lemma fsm_zero_page_wf: "fsm_page_wf fsm_zero_page"
  using fsm_zero_page_ok by (simp add: fsm_page_ok_def)

lemma fsm_page_at_wf: "fsm_rel_wf rel \<Longrightarrow> fsm_page_at rel a = Some p \<Longrightarrow> fsm_page_wf p"
  by (auto simp: fsm_page_at_def fsm_rel_wf_def fsm_zero_page_wf Let_def split: if_splits option.splits
      dest!: nth_mem)

lemma fsm_page_at_ok: "fsm_rel_ok rel \<Longrightarrow> fsm_page_at rel a = Some p \<Longrightarrow> fsm_page_ok p"
  by (auto simp: fsm_page_at_def fsm_rel_ok_def fsm_zero_page_ok Let_def split: if_splits option.splits
      dest!: nth_mem)

lemma fsm_blocks_eqI:
  assumes "length (fsm_blocks rel') = length (fsm_blocks rel)"
    "\<And>b. b < length (fsm_blocks rel) \<Longrightarrow>
       (case fsm_blocks rel' ! b of None \<Rightarrow> fsm_zero_page | Some p \<Rightarrow> p) =
       (case fsm_blocks rel ! b of None \<Rightarrow> fsm_zero_page | Some p \<Rightarrow> p)"
  shows "fsm_page_at rel' = fsm_page_at rel"
  using assms by (auto simp: fsm_page_at_def Let_def)

lemma page_at_cached [simp]: "fsm_page_at (rel\<lparr>smgr_cached_nblocks := n\<rparr>) = fsm_page_at rel"
  by (simp add: fun_eq_iff fsm_page_at_def Let_def)

lemma page_at_smgrnblocks [simp]: "fsm_page_at (smgrnblocks rel) = fsm_page_at rel"
  by (simp add: smgrnblocks_def)

lemma page_at_page_init [simp]: "fsm_page_at (page_init rel b) = fsm_page_at rel"
proof (rule fsm_blocks_eqI)
  fix c assume "c < length (fsm_blocks rel)"
  then show "(case fsm_blocks (page_init rel b) ! c of None \<Rightarrow> fsm_zero_page | Some p \<Rightarrow> p) =
             (case fsm_blocks rel ! c of None \<Rightarrow> fsm_zero_page | Some p \<Rightarrow> p)"
    by (cases "c = b") (simp_all add: page_init_def)
qed (simp add: page_init_def)

lemma length_page_init [simp]: "length (fsm_blocks (page_init rel b)) = length (fsm_blocks rel)"
  by (simp add: page_init_def)

lemma set_list_update_Some: "Some q \<in> set (bs[b := Some p]) \<Longrightarrow> q = p \<or> Some q \<in> set bs"
  using set_update_subset_insert [of bs b "Some p"] by auto

lemma rel_wf_smgrnblocks: "fsm_rel_wf rel \<Longrightarrow> fsm_rel_wf (smgrnblocks rel)"
  by (simp add: fsm_rel_wf_def smgrnblocks_def)

lemma rel_wf_page_init: "fsm_rel_wf rel \<Longrightarrow> fsm_rel_wf (page_init rel b)"
  by (auto simp: fsm_rel_wf_def page_init_def fsm_zero_page_wf dest!: set_list_update_Some)

lemma rel_ok_page_init: "fsm_rel_ok rel \<Longrightarrow> fsm_rel_ok (page_init rel b)"
  by (auto simp: fsm_rel_ok_def rel_wf_page_init)
    (auto simp: page_init_def fsm_zero_page_ok split: if_splits dest!: set_list_update_Some)

lemma rel_wf_extend: "fsm_rel_wf rel \<Longrightarrow> fsm_rel_wf (fsm_extend rel n)"
  by (auto simp: fsm_rel_wf_def fsm_extend_def smgrnblocks_def)

lemma page_at_extend:
  "fsm_page_at (fsm_extend rel n) a =
     (if fsm_logical_to_physical a < max n (length (fsm_blocks rel))
      then Some (case fsm_page_at rel a of None \<Rightarrow> fsm_zero_page | Some p \<Rightarrow> p) else None)"
  by (auto simp: fsm_page_at_def fsm_extend_def smgrnblocks_def Let_def nth_append)

lemma rel_wf_put: "fsm_rel_wf rel \<Longrightarrow> fsm_page_wf p \<Longrightarrow> fsm_rel_wf (put_page rel b p)"
  by (auto simp: fsm_rel_wf_def put_page_def dest!: set_list_update_Some)

lemma rel_ok_put: "fsm_rel_ok rel \<Longrightarrow> fsm_page_ok p \<Longrightarrow> fsm_rel_ok (put_page rel b p)"
  unfolding fsm_rel_ok_def
  by (auto simp: rel_wf_put fsm_page_ok_def) (auto simp: put_page_def dest!: set_list_update_Some)

lemma page_at_put:
  assumes "fsm_addr_ok a" "fsm_addr_ok addr" "fsm_logical_to_physical addr < length (fsm_blocks rel)"
  shows "fsm_page_at (put_page rel (fsm_logical_to_physical addr) p) a =
           (if a = addr then Some p else fsm_page_at rel a)"
  using assms fsm_physical_inj [OF assms(1,2)] by (auto simp: fsm_page_at_def put_page_def Let_def nth_list_update)

lemma length_put [simp]: "length (fsm_blocks (put_page rel b p)) = length (fsm_blocks rel)"
  by (simp add: put_page_def)

text \<open>What \<open>fsm_readbuf\<close> promises its callers.\<close>

definition same_map :: "FsmRel \<Rightarrow> FsmRel \<Rightarrow> bool" where
  "same_map rel rel' \<longleftrightarrow> fsm_page_at rel' = fsm_page_at rel \<and> length (fsm_blocks rel') = length (fsm_blocks rel) \<and>
     (fsm_rel_ok rel \<longrightarrow> fsm_rel_ok rel') \<and>
     (\<forall>b < length (fsm_blocks rel). fsm_blocks rel ! b \<noteq> None \<longrightarrow> fsm_blocks rel' ! b \<noteq> None)"

lemma page_init_Some: "b < length (fsm_blocks rel) \<Longrightarrow>
    fsm_blocks (page_init rel b) ! b = Some (case fsm_blocks rel ! b of None \<Rightarrow> fsm_zero_page | Some p \<Rightarrow> p)"
  by (auto simp: page_init_def split: option.splits)

lemma page_init_Some':
  "fsm_blocks rel ! c \<noteq> None \<Longrightarrow> fsm_blocks (page_init rel b) ! c = fsm_blocks rel ! c"
  by (cases "c = b") (auto simp: page_init_def)

lemma same_map_page_init: "same_map rel rel' \<Longrightarrow> same_map rel (page_init rel' b)"
  by (auto simp: same_map_def rel_ok_page_init page_init_Some')

lemma fsm_readbuf_no_extend:
  assumes "fsm_rel_wf rel"
  obtains (eof) rel' where "fsm_readbuf rel addr False = (None, rel')" "fsm_page_at rel addr = None"
      "fsm_rel_wf rel'" "same_map rel rel'"
  | (page) p rel' where "fsm_readbuf rel addr False = (Some (fsm_logical_to_physical addr), rel')"
      "fsm_page_at rel addr = Some p" "fsm_rel_wf rel'" "same_map rel rel'"
      "buf_page rel' (fsm_logical_to_physical addr) = p" "fsm_blocks rel' ! fsm_logical_to_physical addr \<noteq> None"
      "fsm_logical_to_physical addr < length (fsm_blocks rel')"
proof -
  let ?b = "fsm_logical_to_physical addr"
  define rel1 where "rel1 = (if smgr_cached_nblocks rel = InvalidBlockNumber \<or> ?b \<ge> smgr_cached_nblocks rel
                 then if smgr_exists rel then smgrnblocks rel else rel\<lparr>smgr_cached_nblocks := 0\<rparr> else rel)"
  have wf1: "fsm_rel_wf rel1" and sm: "same_map rel rel1"
    using assms by (auto simp: rel1_def rel_wf_smgrnblocks same_map_def smgrnblocks_def fsm_rel_wf_def fsm_rel_ok_def)
  have ge: "?b \<ge> smgr_cached_nblocks rel1 \<longleftrightarrow> ?b \<ge> length (fsm_blocks rel)"
    using assms by (auto simp: rel1_def smgrnblocks_def fsm_rel_wf_def)
  have rb: "fsm_readbuf rel addr False =
      (if ?b \<ge> smgr_cached_nblocks rel1 then (None, rel1) else (Some ?b, page_init rel1 ?b))"
    by (simp add: fsm_readbuf_def rel1_def Let_def)
  show ?thesis
  proof (cases "?b \<ge> length (fsm_blocks rel)")
    case True
    then show ?thesis using eof [of rel1] rb ge wf1 sm by (simp add: fsm_page_at_def)
  next
    case False
    have len: "length (fsm_blocks rel1) = length (fsm_blocks rel)" using sm by (simp add: same_map_def)
    have at: "fsm_page_at rel addr = Some (buf_page (page_init rel1 ?b) ?b)"
      using False len sm [unfolded same_map_def, THEN conjunct1, THEN fun_cong, of addr]
      by (simp add: buf_page_def page_init_Some fsm_page_at_def Let_def)
    show ?thesis
      using False rb ge wf1 same_map_page_init [OF sm] len at
      by (intro page [of "page_init rel1 ?b"]) (simp_all add: rel_wf_page_init page_init_Some)
  qed
qed

section \<open>Storing a category\<close>

text \<open>The contents of an address, a missing page reading as zeros.\<close>

definition fsm_page0 :: "FsmRel \<Rightarrow> FSMAddress \<Rightarrow> FSMPageData" where
  "fsm_page0 rel a = (case fsm_page_at rel a of None \<Rightarrow> fsm_zero_page | Some p \<Rightarrow> p)"

lemma fsm_page_at_page0:
  "fsm_page_at rel a =
     (if fsm_logical_to_physical a < length (fsm_blocks rel) then Some (fsm_page0 rel a) else None)"
  by (simp add: fsm_page0_def fsm_page_at_def Let_def)

lemma fsm_page0_wf: "fsm_rel_wf rel \<Longrightarrow> fsm_page_wf (fsm_page0 rel a)"
  by (auto simp: fsm_page0_def fsm_zero_page_wf fsm_page_at_wf split: option.splits)

lemma fsm_page0_ok: "fsm_rel_ok rel \<Longrightarrow> fsm_page_ok (fsm_page0 rel a)"
  by (auto simp: fsm_page0_def fsm_zero_page_ok fsm_page_at_ok split: option.splits)

lemma fsm_cat_page0: "b < SlotsPerFSMPage ^ 3 \<Longrightarrow>
    fsm_cat rel b = fsm_get_avail (fsm_page0 rel (fst (fsm_get_location b))) (snd (fsm_get_location b))"
  using fsm_location_ok [of b]
  by (auto simp: fsm_cat_def fsm_page0_def fsm_zero_page_avail SlotsPerFSMPage_def split: option.splits)

lemma page0_put:
  assumes "fsm_addr_ok a" "fsm_addr_ok addr" "fsm_logical_to_physical addr < length (fsm_blocks rel)"
  shows "fsm_page0 (put_page rel (fsm_logical_to_physical addr) p) a = (if a = addr then p else fsm_page0 rel a)"
  using assms by (simp add: fsm_page0_def page_at_put)

lemma page0_extend [simp]: "fsm_page0 (fsm_extend rel n) a = fsm_page0 rel a"
proof (cases "fsm_logical_to_physical a < length (fsm_blocks rel)")
  case False
  then have "fsm_page_at rel a = None" by (simp add: fsm_page_at_def)
  then show ?thesis by (simp add: fsm_page0_def page_at_extend)
qed (simp add: fsm_page0_def page_at_extend)

lemma page0_init [simp]: "fsm_page0 (page_init rel b) = fsm_page0 rel"
  by (simp add: fsm_page0_def fun_eq_iff)

lemma rel_ok_extend: "fsm_rel_ok rel \<Longrightarrow> fsm_rel_ok (fsm_extend rel n)"
  by (auto simp: fsm_rel_ok_def rel_wf_extend) (auto simp: fsm_extend_def smgrnblocks_def)

lemma length_extend [simp]: "length (fsm_blocks (fsm_extend rel n)) = max n (length (fsm_blocks rel))"
  by (simp add: fsm_extend_def smgrnblocks_def)

lemma buf_page_init: "fsm_logical_to_physical a < length (fsm_blocks rel) \<Longrightarrow>
    buf_page (page_init rel (fsm_logical_to_physical a)) (fsm_logical_to_physical a) = fsm_page0 rel a"
  by (simp add: buf_page_def page_init_Some fsm_page0_def fsm_page_at_def Let_def)

lemma buf_page_put [simp]: "b < length (fsm_blocks rel) \<Longrightarrow> buf_page (put_page rel b p) b = p"
  by (simp add: buf_page_def put_page_def)

lemma put_put [simp]: "put_page (put_page rel b p) b q = put_page rel b q"
  by (simp add: put_page_def)

lemma fsm_readbuf_extend:
  assumes "fsm_rel_wf rel"
  obtains rel' where "fsm_readbuf rel addr True = (Some (fsm_logical_to_physical addr), rel')"
      "fsm_rel_wf rel'" "fsm_rel_ok rel \<Longrightarrow> fsm_rel_ok rel'" "fsm_page0 rel' = fsm_page0 rel"
      "length (fsm_blocks rel') = max (Suc (fsm_logical_to_physical addr)) (length (fsm_blocks rel))"
      "buf_page rel' (fsm_logical_to_physical addr) = fsm_page0 rel addr"
proof -
  let ?b = "fsm_logical_to_physical addr"
  from assms show ?thesis
  proof (cases rule: fsm_readbuf_no_extend [of rel addr])
    case (eof rel1)
    have rb: "fsm_readbuf rel addr True = (Some ?b, page_init (fsm_extend rel1 (Suc ?b)) ?b)"
      using eof(1) by (auto simp: fsm_readbuf_def Let_def split: if_splits)
    have p0: "fsm_page0 rel1 = fsm_page0 rel" using eof(4) by (simp add: same_map_def fsm_page0_def fun_eq_iff)
    show ?thesis
      using rb eof p0
      by (intro that [of "page_init (fsm_extend rel1 (Suc ?b)) ?b"])
        (auto simp: rel_wf_page_init rel_wf_extend rel_ok_page_init rel_ok_extend same_map_def fun_eq_iff buf_page_init)
  next
    case (page p rel1)
    have rb: "fsm_readbuf rel addr True = (Some ?b, rel1)"
      using page(1) by (auto simp: fsm_readbuf_def Let_def split: if_splits)
    then show ?thesis
      using page by (intro that [of rel1]) (auto simp: same_map_def fsm_page0_def fun_eq_iff)
  qed
qed

lemma fsm_set_and_search_spec:
  assumes wf: "fsm_rel_wf rel" and addr: "fsm_addr_ok addr" and slot: "slot < SlotsPerFSMPage"
  obtains r rel' where "fsm_set_and_search rel addr slot v m = Some (r, rel')" "fsm_rel_wf rel'"
      "fsm_rel_ok rel \<Longrightarrow> fsm_rel_ok rel'"
      "length (fsm_blocks rel') = max (Suc (fsm_logical_to_physical addr)) (length (fsm_blocks rel))"
      "\<And>a s. fsm_addr_ok a \<Longrightarrow> fsm_get_avail (fsm_page0 rel' a) s =
         (if a = addr \<and> s = slot then v else fsm_get_avail (fsm_page0 rel a) s)"
      "\<And>a. fsm_addr_ok a \<Longrightarrow> a \<noteq> addr \<Longrightarrow> fsm_page0 rel' a = fsm_page0 rel a"
      "\<And>s. r = Some s \<Longrightarrow> s < SlotsPerFSMPage \<and> m \<le> fsm_get_avail (fsm_page0 rel' addr) s"
proof -
  let ?b = "fsm_logical_to_physical addr"
  obtain rel1 where r1: "fsm_readbuf rel addr True = (Some ?b, rel1)" "fsm_rel_wf rel1"
      "fsm_rel_ok rel \<Longrightarrow> fsm_rel_ok rel1" "fsm_page0 rel1 = fsm_page0 rel"
      "length (fsm_blocks rel1) = max (Suc ?b) (length (fsm_blocks rel))" "buf_page rel1 ?b = fsm_page0 rel addr"
    using fsm_readbuf_extend [OF wf] by blast
  define p where "p = snd (fsm_set_avail (fsm_page0 rel addr) slot v)"
  have slot': "slot < LeafNodesPerPage" using slot by (simp add: SlotsPerFSMPage_def)
  have pwf: "fsm_page_wf p" and pok: "fsm_rel_ok rel \<Longrightarrow> fsm_page_ok p"
    and pav: "fsm_get_avail p s = (if s = slot then v else fsm_get_avail (fsm_page0 rel addr) s)" for s
    using fsm_set_avail_leaf [OF fsm_page0_wf [OF wf] slot'] fsm_set_avail_ok [OF fsm_page0_ok slot']
    by (auto simp: p_def)
  have b: "?b < length (fsm_blocks rel1)" using r1(5) by simp
  note result = that
  have done_: ?thesis
    if eq: "fsm_set_and_search rel addr slot v m = Some (r, put_page rel1 ?b q)"
      and q: "fsm_page_wf q" "fsm_page_ok p \<Longrightarrow> fsm_page_ok q" "\<And>s. fsm_get_avail q s = fsm_get_avail p s"
        "\<And>s. r = Some s \<Longrightarrow> s < SlotsPerFSMPage \<and> m \<le> fsm_get_avail p s" for r q
    using eq q r1 b pok addr
    by (intro result [of r "put_page rel1 ?b q"]) (auto simp: rel_wf_put rel_ok_put page0_put pav)
  show ?thesis
  proof (cases "m = 0")
    case True
    then show ?thesis
      using r1(1,6) pwf by (intro done_ [of None p]) (simp_all add: fsm_set_and_search_def p_def)
  next
    case False
    obtain r q where "fsm_search_avail p m (level addr = FSM_BOTTOM_LEVEL) = Some (r, q)" "fsm_page_wf q"
        "fsm_page_ok p \<Longrightarrow> fsm_page_ok q" "\<And>s. fsm_get_avail q s = fsm_get_avail p s"
        "\<And>s. r = Some s \<Longrightarrow> s < LeafNodesPerPage \<and> m \<le> fsm_get_avail p s"
      by (rule fsm_search_avail_wf [OF pwf, of m "level addr = FSM_BOTTOM_LEVEL"]) blast
    then show ?thesis
      using False r1(1,6) b
      by (intro done_ [of r q]) (simp_all add: fsm_set_and_search_def p_def [symmetric] SlotsPerFSMPage_def)
  qed
qed

section \<open>Searching the tree\<close>

text \<open>A step that keeps every slot of every page.\<close>

definition same_slots :: "FsmRel \<Rightarrow> FsmRel \<Rightarrow> bool" where
  "same_slots rel rel' \<longleftrightarrow> fsm_rel_wf rel' \<and> (fsm_rel_ok rel \<longrightarrow> fsm_rel_ok rel') \<and>
     (\<forall>a s. fsm_addr_ok a \<longrightarrow> fsm_get_avail (fsm_page0 rel' a) s = fsm_get_avail (fsm_page0 rel a) s)"

text \<open>A step that keeps the slots of the bottom level.\<close>

definition same_leaves :: "FsmRel \<Rightarrow> FsmRel \<Rightarrow> bool" where
  "same_leaves rel rel' \<longleftrightarrow> fsm_rel_wf rel' \<and> (fsm_rel_ok rel \<longrightarrow> fsm_rel_ok rel') \<and>
     (\<forall>a s. fsm_addr_ok a \<longrightarrow> level a = FSM_BOTTOM_LEVEL \<longrightarrow> s < SlotsPerFSMPage \<longrightarrow>
        fsm_get_avail (fsm_page0 rel' a) s = fsm_get_avail (fsm_page0 rel a) s)"

lemma same_slots_leaves: "same_slots rel rel' \<Longrightarrow> same_leaves rel rel'"
  by (simp add: same_slots_def same_leaves_def)

lemma same_leaves_refl: "fsm_rel_wf rel \<Longrightarrow> same_leaves rel rel"
  by (simp add: same_leaves_def)

lemma same_leaves_trans: "same_leaves r1 r2 \<Longrightarrow> same_leaves r2 r3 \<Longrightarrow> same_leaves r1 r3"
  by (auto simp: same_leaves_def)

lemma same_leaves_cat:
  assumes "same_leaves rel rel'" "b < SlotsPerFSMPage ^ 3"
  shows "fsm_cat rel' b = fsm_cat rel b"
proof -
  have "level (fst (fsm_get_location b)) = FSM_BOTTOM_LEVEL" by (simp add: fsm_get_location_def)
  then show ?thesis using assms fsm_location_ok [OF assms(2)] by (auto simp: fsm_cat_page0 same_leaves_def)
qed

lemma fsm_max_cong:
  assumes "fsm_page_ok p" "fsm_page_ok q" "\<And>s. fsm_get_avail p s = fsm_get_avail q s"
  shows "fsm_get_max_avail p = fsm_get_max_avail q"
  using assms by (simp add: fsm_tree.top_is_Max)

lemma level_child: "level (fsm_get_child a s) = level a - 1"
  by (simp add: fsm_get_child_def)

lemma level_parent: "level (fst (fsm_get_parent a)) = Suc (level a)"
  by (simp add: fsm_get_parent_def)

lemma search_page_spec:
  assumes wf: "fsm_rel_wf rel" and addr: "fsm_addr_ok addr"
  obtains r mx rel' where "search_page rel addr c = Some (r, mx, rel')" "same_slots rel rel'"
      "\<And>s. r = Some s \<Longrightarrow> s < SlotsPerFSMPage \<and> c \<le> fsm_get_avail (fsm_page0 rel addr) s"
      "fsm_rel_ok rel \<Longrightarrow> 0 < c \<Longrightarrow> r = None \<longleftrightarrow> fsm_get_max_avail (fsm_page0 rel addr) < c"
proof -
  let ?b = "fsm_logical_to_physical addr"
  from wf show ?thesis
  proof (cases rule: fsm_readbuf_no_extend [of rel addr])
    case (eof rel1)
    then have "fsm_page0 rel1 = fsm_page0 rel" by (simp add: same_map_def fsm_page0_def fun_eq_iff)
    moreover have "fsm_get_max_avail (fsm_page0 rel addr) = 0"
      using eof(2) by (simp add: fsm_page0_def fsm_get_max_avail_def fsm_zero_page_def fsm_sizes)
    ultimately show ?thesis
      using eof by (intro that [of None 0 rel1]) (auto simp: search_page_def same_slots_def same_map_def)
  next
    case (page p rel1)
    have p0: "fsm_page0 rel1 = fsm_page0 rel" "p = fsm_page0 rel addr"
      using page by (simp_all add: same_map_def fsm_page0_def fun_eq_iff)
    obtain r q where q: "fsm_search_avail p c (level addr = FSM_BOTTOM_LEVEL) = Some (r, q)" "fsm_page_wf q"
        "fsm_page_ok p \<Longrightarrow> fsm_page_ok q" "\<And>s. fsm_get_avail q s = fsm_get_avail p s"
        "\<And>s. r = Some s \<Longrightarrow> s < LeafNodesPerPage \<and> c \<le> fsm_get_avail p s"
        "r = None \<Longrightarrow> fsm_get_max_avail q < c"
      by (rule fsm_search_avail_wf [OF fsm_page_at_wf [OF wf page(2)], of c "level addr = FSM_BOTTOM_LEVEL"]) blast
    have none: "r = None \<longleftrightarrow> fsm_get_max_avail p < c" if ok: "fsm_rel_ok rel"
    proof -
      have pok: "fsm_page_ok p" by (rule fsm_page_at_ok [OF ok page(2)])
      have "r = None \<Longrightarrow> fsm_get_max_avail p < c"
        using q(6) fsm_max_cong [OF q(3) [OF pok] pok q(4)] by simp
      moreover have "\<not> fsm_get_max_avail p < c" if "r = Some s" for s
        using q(5) [OF that] fsm_tree.top_upper [OF pok, of s] by auto
      ultimately show ?thesis by (cases r) auto
    qed
    show ?thesis
      using page(1,3-5,7) q none addr
      by (intro that [of r "if r = None then fsm_get_max_avail q else 0" "put_page rel1 ?b q"])
        (auto simp: search_page_def same_slots_def same_map_def rel_wf_put rel_ok_put page0_put p0
          SlotsPerFSMPage_def intro!: rel_ok_put q(3) fsm_page0_ok)
  qed
qed

lemma fsm_search_loop_returns:
  assumes "fsm_rel_wf rel" "fsm_addr_ok addr"
  shows "\<exists>b rel'. fsm_search_loop c n addr rel = Some (b, rel') \<and> same_leaves rel rel' \<and>
     (b = InvalidBlockNumber \<or>
       (\<exists>a s. fsm_addr_ok a \<and> level a = FSM_BOTTOM_LEVEL \<and> s < SlotsPerFSMPage \<and> b = fsm_get_heap_blk a s \<and>
          c \<le> fsm_get_avail (fsm_page0 rel a) s))" (is "\<exists>b rel'. ?P n addr rel b rel'")
  using assms
proof (induction "(10002 - n) * 3 + level addr" arbitrary: n addr rel rule: less_induct)
  case less
  obtain r mx rel1 where sp: "search_page rel addr c = Some (r, mx, rel1)" "same_slots rel rel1"
      "\<And>s. r = Some s \<Longrightarrow> s < SlotsPerFSMPage \<and> c \<le> fsm_get_avail (fsm_page0 rel addr) s"
    using search_page_spec [OF less.prems] by metis
  have wf1: "fsm_rel_wf rel1" and sl1: "same_leaves rel rel1"
    using sp(2) same_slots_leaves by (auto simp: same_slots_def)
  note unf = fsm_search_loop.simps [of c n addr rel] sp(1)
  have lift: "\<exists>b rel'. ?P n addr rel b rel'"
    if "?P n' addr' rel2 b rel'" "fsm_search_loop c n addr rel = fsm_search_loop c n' addr' rel2"
      "same_leaves rel rel2" for n' addr' rel2 b rel'
    using that same_leaves_trans [OF that(3)] by (fastforce simp: same_leaves_def)
  show ?case
  proof (cases r)
    case (Some s)
    show ?thesis
    proof (cases "level addr = FSM_BOTTOM_LEVEL")
      case True
      then show ?thesis using unf Some sp(3) less.prems sl1 by auto
    next
      case False
      then have "0 < level addr" by (simp add: fsm_consts)
      then obtain b rel' where "?P n (fsm_get_child addr s) rel1 b rel'"
        using less.hyps [of n "fsm_get_child addr s" rel1] wf1 less.prems(2) sp(3) [OF Some]
        by (auto simp: fsm_child_ok level_child)
      then show ?thesis using lift [of n "fsm_get_child addr s" rel1] unf Some False sl1 by auto
    qed
  next
    case None
    show ?thesis
    proof (cases "level addr = FSM_ROOT_LEVEL")
      case True
      then show ?thesis using unf None sl1 by auto
    next
      case False
      obtain parent ps where pp: "fsm_get_parent addr = (parent, ps)" by fastforce
      have lt: "level addr < FSM_ROOT_LEVEL" using False less.prems(2) by (simp add: fsm_addr_ok_def)
      have pok: "fsm_addr_ok parent" "ps < SlotsPerFSMPage" "level parent \<noteq> FSM_BOTTOM_LEVEL"
        using fsm_parent_ok [OF less.prems(2) lt] pp by (auto simp: fsm_get_parent_def fsm_consts)
      obtain r2 rel2 where s2: "fsm_set_and_search rel1 parent ps mx 0 = Some (r2, rel2)" "same_leaves rel1 rel2"
        by (rule fsm_set_and_search_spec [OF wf1 pok(1,2), of mx 0]) (use pok(3) in \<open>fastforce simp: same_leaves_def\<close>)
      have sl2: "same_leaves rel rel2" by (rule same_leaves_trans [OF sl1 s2(2)])
      show ?thesis
      proof (cases "n > 10000")
        case True
        then show ?thesis using unf None False pp s2 sl2 by auto
      next
        case n: False
        have "fsm_rel_wf rel2" using s2(2) by (simp add: same_leaves_def)
        moreover have "(10002 - (n + 1)) * 3 + level FSM_ROOT_ADDRESS < (10002 - n) * 3 + level addr"
          using n by (simp add: FSM_ROOT_ADDRESS_def fsm_consts)
        ultimately obtain b rel' where "?P (n + 1) FSM_ROOT_ADDRESS rel2 b rel'"
          using less.hyps [of "n + 1" FSM_ROOT_ADDRESS rel2] fsm_root_ok by blast
        then show ?thesis using lift [of "n + 1" FSM_ROOT_ADDRESS rel2] unf None False pp s2 sl2 n by auto
      qed
    qed
  qed
qed

section \<open>Exact upper levels\<close>

text \<open>Every slot of an upper page holds the maximum of the page below it.\<close>

definition fsm_exact :: "FsmRel \<Rightarrow> bool" where
  "fsm_exact rel \<longleftrightarrow> (\<forall>a s. fsm_addr_ok a \<longrightarrow> 0 < level a \<longrightarrow> s < SlotsPerFSMPage \<longrightarrow>
     fsm_get_avail (fsm_page0 rel a) s = fsm_get_max_avail (fsm_page0 rel (fsm_get_child a s)))"

lemma fsm_exactD:
  "fsm_exact rel \<Longrightarrow> fsm_addr_ok a \<Longrightarrow> 0 < level a \<Longrightarrow> s < SlotsPerFSMPage \<Longrightarrow>
     fsm_get_avail (fsm_page0 rel a) s = fsm_get_max_avail (fsm_page0 rel (fsm_get_child a s))"
  by (simp add: fsm_exact_def)

lemma same_slots_max:
  "same_slots rel rel' \<Longrightarrow> fsm_rel_ok rel \<Longrightarrow> fsm_addr_ok a \<Longrightarrow>
     fsm_get_max_avail (fsm_page0 rel' a) = fsm_get_max_avail (fsm_page0 rel a)"
  by (rule fsm_max_cong) (auto simp: same_slots_def fsm_page0_ok)

lemma same_slots_exact: "same_slots rel rel' \<Longrightarrow> fsm_rel_ok rel \<Longrightarrow> fsm_exact rel \<Longrightarrow> fsm_exact rel'"
  unfolding fsm_exact_def by (simp add: same_slots_max fsm_child_ok) (simp add: same_slots_def)

lemma fsm_search_loop_complete:
  assumes "fsm_rel_ok rel" "fsm_exact rel" "fsm_addr_ok addr" "0 < c"
    "c \<le> fsm_get_max_avail (fsm_page0 rel addr)"
  shows "\<exists>a s rel'. fsm_search_loop c n addr rel = Some (fsm_get_heap_blk a s, rel') \<and> fsm_addr_ok a \<and>
     level a = FSM_BOTTOM_LEVEL \<and> s < SlotsPerFSMPage \<and> c \<le> fsm_get_avail (fsm_page0 rel a) s"
  using assms
proof (induction "level addr" arbitrary: addr rel)
  case 0
  have wf: "fsm_rel_wf rel" using 0(2) by (simp add: fsm_rel_ok_def)
  obtain r mx rel1 where sp: "search_page rel addr c = Some (r, mx, rel1)"
      "\<And>s. r = Some s \<Longrightarrow> s < SlotsPerFSMPage \<and> c \<le> fsm_get_avail (fsm_page0 rel addr) s" "r \<noteq> None"
    by (rule search_page_spec [OF wf 0(4), of c]) (use 0 in \<open>auto simp: not_less\<close>)
  then obtain s where "r = Some s" "s < SlotsPerFSMPage" "c \<le> fsm_get_avail (fsm_page0 rel addr) s" by auto
  then show ?case
    using 0(1,4) sp(1)
    by (intro exI [of _ addr] exI [of _ s]) (simp add: fsm_search_loop.simps [of c n addr rel] FSM_BOTTOM_LEVEL_def)
next
  case (Suc k)
  have wf: "fsm_rel_wf rel" using Suc(3) by (simp add: fsm_rel_ok_def)
  obtain r mx rel1 where sp: "search_page rel addr c = Some (r, mx, rel1)" "same_slots rel rel1"
      "\<And>s. r = Some s \<Longrightarrow> s < SlotsPerFSMPage \<and> c \<le> fsm_get_avail (fsm_page0 rel addr) s" "r \<noteq> None"
    by (rule search_page_spec [OF wf Suc(5), of c]) (use Suc in \<open>auto simp: not_less\<close>)
  then obtain s where s: "r = Some s" "s < SlotsPerFSMPage" "c \<le> fsm_get_avail (fsm_page0 rel addr) s" by auto
  have child: "fsm_addr_ok (fsm_get_child addr s)" using Suc(2,5) s by (simp add: fsm_child_ok)
  have "c \<le> fsm_get_max_avail (fsm_page0 rel1 (fsm_get_child addr s))"
    using s fsm_exactD [OF Suc(4,5) _ s(2)] Suc(2) same_slots_max [OF sp(2) Suc(3) child] by simp
  moreover have "fsm_rel_ok rel1" "fsm_exact rel1"
    using sp(2) Suc(3,4) same_slots_exact by (auto simp: same_slots_def)
  moreover have "k = level (fsm_get_child addr s)" using Suc(2) by (simp add: level_child)
  ultimately obtain a t rel' where "fsm_search_loop c n (fsm_get_child addr s) rel1 = Some (fsm_get_heap_blk a t, rel')"
      "fsm_addr_ok a" "level a = FSM_BOTTOM_LEVEL" "t < SlotsPerFSMPage" "c \<le> fsm_get_avail (fsm_page0 rel1 a) t"
    using Suc(1) [of "fsm_get_child addr s" rel1] Suc(6) child by blast
  then show ?case
    using sp(1,2) s Suc(2)
    by (auto simp: fsm_search_loop.simps [of c n addr rel] FSM_BOTTOM_LEVEL_def same_slots_def)
qed

text \<open>In an exact tree the maximum on a page bounds every slot of every page below it.\<close>

lemma fsm_exact_bound:
  assumes "fsm_rel_ok rel" "fsm_exact rel" "fsm_addr_ok a" "s < SlotsPerFSMPage"
  shows "fsm_get_avail (fsm_page0 rel a) s \<le> fsm_get_max_avail (fsm_page0 rel FSM_ROOT_ADDRESS)"
  using assms
proof (induction "FSM_ROOT_LEVEL - level a" arbitrary: a s)
  case 0
  then have "a = FSM_ROOT_ADDRESS"
    by (auto simp: fsm_addr_ok_def FSM_ROOT_ADDRESS_def intro!: FSMAddress_eqI)
  then show ?case using 0(5) fsm_tree.top_upper [OF fsm_page0_ok [OF assms(1)]] by (simp add: SlotsPerFSMPage_def)
next
  case (Suc k)
  obtain p t where pt: "fsm_get_parent a = (p, t)" by fastforce
  have lt: "level a < FSM_ROOT_LEVEL" using Suc(2) by simp
  have p: "fsm_addr_ok p" "t < SlotsPerFSMPage" "level p = Suc (level a)" "fsm_get_child p t = a"
    using fsm_parent_ok [OF Suc(5) lt] pt fsm_child_parent [of a] level_parent [of a] by simp_all
  have "fsm_get_avail (fsm_page0 rel a) s \<le> fsm_get_max_avail (fsm_page0 rel a)"
    using fsm_tree.top_upper [OF fsm_page0_ok [OF assms(1)]] Suc(6) by (simp add: SlotsPerFSMPage_def)
  also have "\<dots> = fsm_get_avail (fsm_page0 rel p) t" using fsm_exactD [OF assms(2) p(1) _ p(2)] p(3,4) by simp
  also have "\<dots> \<le> fsm_get_max_avail (fsm_page0 rel FSM_ROOT_ADDRESS)"
    using Suc(1) [of p t] Suc(2) p assms(1,2) by simp
  finally show ?case .
qed

end
