(* ===== verification/FreeSpaceMaint.thy ===== *)
theory FreeSpaceMaint
  imports FreeSpace
begin

text \<open>
  Properties of the free space map of a relation: what a search finds, what
  \<open>FreeSpaceMapVacuum\<close> establishes, and what truncation leaves.  The definitions are those of
  \<open>FreeSpace\<close>; this theory holds the subtree argument for the recursive vacuum and the properties
  of the public operations.
\<close>

section \<open>Subtrees and ranges\<close>

definition subtree :: "FSMAddress \<Rightarrow> FSMAddress \<Rightarrow> bool" where
  "subtree a addr \<longleftrightarrow> level a \<le> level addr \<and>
     logpageno a div SlotsPerFSMPage ^ (level addr - level a) = logpageno addr"

text \<open>Slot \<open>s\<close> of page \<open>a\<close> covers a heap block of the range from \<open>start\<close> to \<open>lst\<close>.\<close>

definition covered :: "BlockNumber \<Rightarrow> BlockNumber \<Rightarrow> FSMAddress \<Rightarrow> nat \<Rightarrow> bool" where
  "covered start lst a s \<longleftrightarrow>
     start div SlotsPerFSMPage ^ level a \<le> logpageno a * SlotsPerFSMPage + s \<and>
     logpageno a * SlotsPerFSMPage + s \<le> lst div SlotsPerFSMPage ^ level a"

lemma slots_pos: "0 < SlotsPerFSMPage"
  by (simp add: fsm_consts)

lemma subtree_refl [simp]: "subtree a a"
  by (simp add: subtree_def)

lemma subtree_level: "subtree a addr \<Longrightarrow> level a \<le> level addr"
  by (simp add: subtree_def)

lemma subtree_child:
  assumes "subtree a (fsm_get_child addr t)" "0 < level addr" "t < SlotsPerFSMPage"
  shows "subtree a addr" "a \<noteq> addr"
proof -
  let ?k = "level addr - 1 - level a"
  have l: "level a \<le> level addr - 1" and e: "logpageno a div SlotsPerFSMPage ^ ?k = logpageno addr * SlotsPerFSMPage + t"
    using assms(1) by (simp_all add: subtree_def fsm_get_child_def)
  have k: "level addr - level a = Suc ?k" using l assms(2) by simp
  have "logpageno a div SlotsPerFSMPage ^ Suc ?k = logpageno a div SlotsPerFSMPage ^ ?k div SlotsPerFSMPage"
    by (simp add: div_mult2_eq mult.commute [of SlotsPerFSMPage])
  also have "\<dots> = logpageno addr" using e assms(3) by simp
  finally show "subtree a addr" using l k by (simp add: subtree_def)
  show "a \<noteq> addr" using l assms(2) by auto
qed

lemma subtree_cases:
  assumes "subtree a addr" "a \<noteq> addr"
  obtains t where "t < SlotsPerFSMPage" "subtree a (fsm_get_child addr t)" "0 < level addr"
proof -
  have lt: "level a < level addr"
    using assms by (cases "level a = level addr") (auto simp: subtree_def intro: FSMAddress_eqI)
  let ?k = "level addr - 1 - level a" and ?q = "logpageno a div SlotsPerFSMPage ^ (level addr - 1 - level a)"
  have "level addr - level a = Suc ?k" using lt by simp
  then have "?q div SlotsPerFSMPage = logpageno addr"
    using assms(1) by (simp add: subtree_def div_mult2_eq mult.commute [of SlotsPerFSMPage])
  then have "logpageno addr * SlotsPerFSMPage + ?q mod SlotsPerFSMPage = ?q" by (metis div_mult_mod_eq)
  then show ?thesis
    using lt slots_pos by (intro that [of "?q mod SlotsPerFSMPage"]) (auto simp: subtree_def fsm_get_child_def)
qed

lemma subtree_child_unique:
  "subtree a (fsm_get_child addr s) \<Longrightarrow> subtree a (fsm_get_child addr t) \<Longrightarrow> s = t"
  by (auto simp: subtree_def fsm_get_child_def)

lemma subtree_down:
  assumes "subtree a addr" "0 < level a" "s < SlotsPerFSMPage"
  shows "subtree (fsm_get_child a s) addr"
proof -
  have "level addr - (level a - 1) = Suc (level addr - level a)"
    using assms(2) subtree_level [OF assms(1)] by arith
  moreover have "(logpageno a * SlotsPerFSMPage + s) div SlotsPerFSMPage = logpageno a" using assms(3) by simp
  ultimately show ?thesis
    using assms by (simp add: subtree_def fsm_get_child_def div_mult2_eq)
qed

lemma covered_parent:
  assumes "covered start lst a s" "subtree a (fsm_get_child addr t)" "0 < level addr" "s < SlotsPerFSMPage"
  shows "covered start lst addr t"
proof -
  let ?d = "level addr - level a" and ?key = "logpageno a * SlotsPerFSMPage + s"
  have l: "level a \<le> level addr - 1" and
    e: "logpageno a div SlotsPerFSMPage ^ (level addr - 1 - level a) = logpageno addr * SlotsPerFSMPage + t"
    using assms(2) by (simp_all add: subtree_def fsm_get_child_def)
  have d: "?d = Suc (level addr - 1 - level a)" "level addr = level a + ?d" using l assms(3) by simp_all
  have key: "?key div SlotsPerFSMPage ^ ?d = logpageno addr * SlotsPerFSMPage + t"
    unfolding d(1) using e assms(4) by (simp add: div_mult2_eq)
  have "x div SlotsPerFSMPage ^ level addr = x div SlotsPerFSMPage ^ level a div SlotsPerFSMPage ^ ?d" for x
    by (metis d(2) div_mult2_eq power_add)
  then show ?thesis
    using assms(1) key [symmetric] by (simp add: covered_def div_le_mono)
qed

lemma up_to_level_eq:
  "up_to_level k (\<lparr>level = l, logpageno = x div SlotsPerFSMPage\<rparr>, x mod SlotsPerFSMPage) =
     (\<lparr>level = l + k, logpageno = x div SlotsPerFSMPage ^ Suc k\<rparr>, x div SlotsPerFSMPage ^ k mod SlotsPerFSMPage)"
proof (induction k arbitrary: l x)
  case (Suc k)
  show ?case
    using Suc [of "Suc l" "x div SlotsPerFSMPage"] by (simp add: fsm_get_parent_def div_mult2_eq)
qed simp

lemma div_mod_le_iff:
  assumes "s < (S :: nat)"
  shows "x \<le> p * S + s \<longleftrightarrow> x div S < p \<or> (x div S = p \<and> x mod S \<le> s)"
    and "p * S + s \<le> x \<longleftrightarrow> p < x div S \<or> (x div S = p \<and> s \<le> x mod S)"
proof -
  obtain q r where x: "x = q * S + r" "r < S" "x div S = q" "x mod S = r"
    using assms by (metis div_mult_mod_eq mod_less_divisor not_gr_zero not_less_zero)
  have m: "a * S + S \<le> b * S" if "a < b" for a b :: nat
    using mult_le_mono1 [of "Suc a" b S] that by simp
  have "q < p \<Longrightarrow> q * S + S \<le> p * S" "p < q \<Longrightarrow> p * S + S \<le> q * S" by (rule m, assumption)+
  then show "x \<le> p * S + s \<longleftrightarrow> x div S < p \<or> (x div S = p \<and> x mod S \<le> s)"
    and "p * S + s \<le> x \<longleftrightarrow> p < x div S \<or> (x div S = p \<and> s \<le> x mod S)"
    using assms x(2) unfolding x(3,4) x(1) by (cases q p rule: linorder_cases; auto)+
qed

lemma vacuum_range_covered:
  assumes "s < SlotsPerFSMPage"
  shows "fst (vacuum_range addr start en) \<le> int s \<and> int s \<le> snd (vacuum_range addr start en) \<longleftrightarrow>
         covered start ((en + 2 ^ 32 - 1) mod 2 ^ 32) addr s"
  unfolding vacuum_range_def fsm_get_location_def FSM_BOTTOM_LEVEL_def up_to_level_eq covered_def
    div_mod_le_iff [OF assms]
  using assms by (auto simp: Let_def div_mult2_eq power_Suc2 simp del: power_Suc)

lemma vacuum_range_bounds:
  "0 \<le> fst (vacuum_range addr start en)" "snd (vacuum_range addr start en) < int SlotsPerFSMPage"
  using slots_pos
  by (auto simp: vacuum_range_def fsm_get_location_def up_to_level_eq Let_def)

section \<open>Vacuuming\<close>

text \<open>The slots of the subtree at \<open>addr\<close> that cover the range hold the maximum of the page below.\<close>

definition vac_done :: "BlockNumber \<Rightarrow> BlockNumber \<Rightarrow> FsmRel \<Rightarrow> FSMAddress \<Rightarrow> bool" where
  "vac_done start lst rel addr \<longleftrightarrow> (\<forall>a s. fsm_addr_ok a \<longrightarrow> subtree a addr \<longrightarrow> 0 < level a \<longrightarrow>
     s < SlotsPerFSMPage \<longrightarrow> covered start lst a s \<longrightarrow>
     fsm_get_avail (fsm_page0 rel a) s = fsm_get_max_avail (fsm_page0 rel (fsm_get_child a s)))"

definition vac_keeps :: "FsmRel \<Rightarrow> FsmRel \<Rightarrow> bool" where
  "vac_keeps rel rel' \<longleftrightarrow> fsm_rel_wf rel' \<and> (fsm_rel_ok rel \<longrightarrow> fsm_rel_ok rel') \<and>
     length (fsm_blocks rel') = length (fsm_blocks rel) \<and>
     (\<forall>b < length (fsm_blocks rel). fsm_blocks rel ! b \<noteq> None \<longrightarrow> fsm_blocks rel' ! b \<noteq> None)"

definition vac_post :: "BlockNumber \<Rightarrow> BlockNumber \<Rightarrow> FSMAddress \<Rightarrow> FsmRel \<Rightarrow> FsmRel \<Rightarrow> bool" where
  "vac_post start lst addr rel rel' \<longleftrightarrow> vac_keeps rel rel' \<and> vac_done start lst rel' addr \<and>
     (\<forall>a. fsm_addr_ok a \<longrightarrow> \<not> subtree a addr \<longrightarrow> fsm_page0 rel' a = fsm_page0 rel a) \<and>
     (\<forall>a s. fsm_addr_ok a \<longrightarrow> s < SlotsPerFSMPage \<longrightarrow> level a = 0 \<or> \<not> covered start lst a s \<longrightarrow>
        fsm_get_avail (fsm_page0 rel' a) s = fsm_get_avail (fsm_page0 rel a) s)"

text \<open>The same for the slots \<open>T\<close> of one page and the pages below them.\<close>

definition vac_slots_post ::
    "BlockNumber \<Rightarrow> BlockNumber \<Rightarrow> FSMAddress \<Rightarrow> nat set \<Rightarrow> FsmRel \<Rightarrow> FsmRel \<Rightarrow> bool" where
  "vac_slots_post start lst addr T rel rel' \<longleftrightarrow> vac_keeps rel rel' \<and>
     (\<forall>t \<in> T. vac_done start lst rel' (fsm_get_child addr t) \<and>
        fsm_get_avail (fsm_page0 rel' addr) t = fsm_get_max_avail (fsm_page0 rel' (fsm_get_child addr t))) \<and>
     (\<forall>s < SlotsPerFSMPage. s \<notin> T \<longrightarrow> fsm_get_avail (fsm_page0 rel' addr) s = fsm_get_avail (fsm_page0 rel addr) s) \<and>
     (\<forall>a. fsm_addr_ok a \<longrightarrow> a \<noteq> addr \<longrightarrow> (\<forall>t \<in> T. \<not> subtree a (fsm_get_child addr t)) \<longrightarrow>
        fsm_page0 rel' a = fsm_page0 rel a) \<and>
     (\<forall>a s. fsm_addr_ok a \<longrightarrow> a \<noteq> addr \<longrightarrow> s < SlotsPerFSMPage \<longrightarrow> level a = 0 \<or> \<not> covered start lst a s \<longrightarrow>
        fsm_get_avail (fsm_page0 rel' a) s = fsm_get_avail (fsm_page0 rel a) s)"

lemma vac_keeps_trans: "vac_keeps r1 r2 \<Longrightarrow> vac_keeps r2 r3 \<Longrightarrow> vac_keeps r1 r3"
  by (auto simp: vac_keeps_def)

lemma vac_done_cong:
  assumes "vac_done start lst rel addr" "\<And>a. fsm_addr_ok a \<Longrightarrow> subtree a addr \<Longrightarrow> fsm_page0 rel' a = fsm_page0 rel a"
  shows "vac_done start lst rel' addr"
  using assms by (auto simp: vac_done_def fsm_child_ok subtree_down)

lemma vac_slots_postD:
  assumes "vac_slots_post start lst addr T rel rel'"
  shows "vac_keeps rel rel'"
    and "t \<in> T \<Longrightarrow> vac_done start lst rel' (fsm_get_child addr t)"
    and "t \<in> T \<Longrightarrow> fsm_get_avail (fsm_page0 rel' addr) t = fsm_get_max_avail (fsm_page0 rel' (fsm_get_child addr t))"
    and "s < SlotsPerFSMPage \<Longrightarrow> s \<notin> T \<Longrightarrow> fsm_get_avail (fsm_page0 rel' addr) s = fsm_get_avail (fsm_page0 rel addr) s"
    and "fsm_addr_ok a \<Longrightarrow> a \<noteq> addr \<Longrightarrow> (\<And>t. t \<in> T \<Longrightarrow> \<not> subtree a (fsm_get_child addr t)) \<Longrightarrow>
           fsm_page0 rel' a = fsm_page0 rel a"
    and "fsm_addr_ok a \<Longrightarrow> a \<noteq> addr \<Longrightarrow> s < SlotsPerFSMPage \<Longrightarrow> level a = 0 \<or> \<not> covered start lst a s \<Longrightarrow>
           fsm_get_avail (fsm_page0 rel' a) s = fsm_get_avail (fsm_page0 rel a) s"
  using assms unfolding vac_slots_post_def by blast+

lemma vac_slots_empty: "fsm_rel_wf rel \<Longrightarrow> vac_slots_post start lst addr {} rel rel"
  by (simp add: vac_slots_post_def vac_keeps_def)

lemma vac_slots_insert:
  assumes p1: "vac_slots_post start lst addr {t} r1 r2" and p2: "vac_slots_post start lst addr T r2 r3"
    and t: "t \<notin> T" "t < SlotsPerFSMPage" and addr: "fsm_addr_ok addr" "0 < level addr"
  shows "vac_slots_post start lst addr (insert t T) r1 r3"
proof -
  let ?c = "fsm_get_child addr t"
  have same: "fsm_page0 r3 a = fsm_page0 r2 a" if "fsm_addr_ok a" "subtree a ?c" for a
  proof -
    have "\<not> subtree a (fsm_get_child addr u)" if "u \<in> T" for u
      using subtree_child_unique [OF \<open>subtree a ?c\<close>] that t(1) by blast
    then show ?thesis using vac_slots_postD(5) [OF p2 that(1) subtree_child(2) [OF that(2) addr(2) t(2)]] by blast
  qed
  have "vac_done start lst r3 ?c"
    by (rule vac_done_cong [OF vac_slots_postD(2) [OF p1]]) (simp_all add: same)
  moreover have "fsm_get_avail (fsm_page0 r3 addr) t = fsm_get_max_avail (fsm_page0 r3 ?c)"
    using vac_slots_postD(3) [OF p1, of t] vac_slots_postD(4) [OF p2 t(2,1)] same [of ?c] fsm_child_ok [OF addr t(2)]
    by simp
  ultimately show ?thesis
    unfolding vac_slots_post_def
    using vac_keeps_trans [OF vac_slots_postD(1) [OF p1] vac_slots_postD(1) [OF p2]]
      vac_slots_postD(2,3) [OF p2] vac_slots_postD(4,5,6) [OF p1] vac_slots_postD(4,5,6) [OF p2]
    by (intro conjI allI impI ballI) (simp_all add: Ball_def, blast+)
qed

lemma vac_slots_page:
  assumes p: "vac_slots_post start lst addr {t. t < SlotsPerFSMPage \<and> covered start lst addr t} rel rel'"
    and addr: "fsm_addr_ok addr" "0 < level addr"
  shows "vac_post start lst addr rel rel'"
proof -
  let ?T = "{t. t < SlotsPerFSMPage \<and> covered start lst addr t}"
  have "vac_done start lst rel' addr"
    unfolding vac_done_def
  proof (intro allI impI)
    fix a s assume a: "fsm_addr_ok a" "subtree a addr" "0 < level a" "s < SlotsPerFSMPage" "covered start lst a s"
    show "fsm_get_avail (fsm_page0 rel' a) s = fsm_get_max_avail (fsm_page0 rel' (fsm_get_child a s))"
    proof (cases "a = addr")
      case True
      then show ?thesis using vac_slots_postD(3) [OF p, of s] a by simp
    next
      case False
      obtain t where t: "t < SlotsPerFSMPage" "subtree a (fsm_get_child addr t)"
        using subtree_cases [OF a(2) False] by blast
      have "t \<in> ?T" using t covered_parent [OF a(5) t(2) addr(2) a(4)] by simp
      then show ?thesis using vac_slots_postD(2) [OF p, of t] a t unfolding vac_done_def by blast
    qed
  qed
  moreover have "fsm_page0 rel' a = fsm_page0 rel a" if "fsm_addr_ok a" "\<not> subtree a addr" for a
  proof -
    have "\<not> subtree a (fsm_get_child addr t)" if "t \<in> ?T" for t
      using that \<open>\<not> subtree a addr\<close> subtree_child(1) [OF _ addr(2)] by blast
    moreover have "a \<noteq> addr" using that by auto
    ultimately show ?thesis using vac_slots_postD(5) [OF p that(1)] by blast
  qed
  moreover have "fsm_get_avail (fsm_page0 rel' a) s = fsm_get_avail (fsm_page0 rel a) s"
    if "fsm_addr_ok a" "s < SlotsPerFSMPage" "level a = 0 \<or> \<not> covered start lst a s" for a s
    using vac_slots_postD(4) [OF p that(2)] vac_slots_postD(6) [OF p that(1) _ that(2,3)] that addr(2)
    by (cases "a = addr") auto
  ultimately show ?thesis using vac_slots_postD(1) [OF p] unfolding vac_post_def by blast
qed

lemma fsm_parent_before:
  assumes "fsm_addr_ok a" "0 < level a" "s < SlotsPerFSMPage"
  shows "fsm_logical_to_physical a < fsm_logical_to_physical (fsm_get_child a s)"
proof -
  have l: "level a = 1 \<or> level a = 2" using assms(1,2) by (auto simp: fsm_addr_ok_def fsm_consts)
  show ?thesis
    using l assms unfolding fsm_physical [OF assms(1)] fsm_physical [OF fsm_child_ok [OF assms]]
    by (auto simp: fsm_get_child_def fsm_consts)
qed

lemma fsm_subtree_after:
  "fsm_addr_ok c \<Longrightarrow> fsm_addr_ok a \<Longrightarrow> subtree a c \<Longrightarrow> fsm_logical_to_physical c \<le> fsm_logical_to_physical a"
proof (induction "level c" arbitrary: c)
  case 0
  then show ?case by (metis subtree_cases less_irrefl order_refl)
next
  case (Suc k)
  show ?case
  proof (cases "a = c")
    case False
    obtain t where t: "t < SlotsPerFSMPage" "subtree a (fsm_get_child c t)"
      using subtree_cases [OF Suc(5) False] by blast
    have pos: "0 < level c" using Suc(2) by simp
    have "fsm_logical_to_physical (fsm_get_child c t) \<le> fsm_logical_to_physical a"
      using Suc(1) [of "fsm_get_child c t"] Suc(2,4) t fsm_child_ok [OF Suc(3) pos t(1)] by (simp add: level_child)
    then show ?thesis using fsm_parent_before [OF Suc(3) pos t(1)] by simp
  qed simp
qed

lemma fsm_page0_missing: "length (fsm_blocks rel) \<le> fsm_logical_to_physical a \<Longrightarrow> fsm_page0 rel a = fsm_zero_page"
  by (simp add: fsm_page0_def fsm_page_at_def)

lemma fsm_zero_page_max [simp]: "fsm_get_max_avail fsm_zero_page = 0"
  by (simp add: fsm_get_max_avail_def fsm_zero_page_def fsm_sizes)

lemma vac_missing:
  assumes "fsm_rel_wf rel" "fsm_addr_ok c" "length (fsm_blocks rel) \<le> fsm_logical_to_physical c"
  shows "vac_post start lst c rel rel"
proof -
  have "fsm_page0 rel a = fsm_zero_page" if "fsm_addr_ok a" "subtree a c" for a
    using fsm_subtree_after [OF assms(2) that] assms(3) by (simp add: fsm_page0_missing)
  then show ?thesis
    using assms(1)
    by (auto simp: vac_post_def vac_keeps_def vac_done_def fsm_child_ok subtree_down fsm_zero_page_avail
        SlotsPerFSMPage_def)
qed

definition fsm_pinned :: "FsmRel \<Rightarrow> FSMAddress \<Rightarrow> bool" where
  "fsm_pinned rel addr \<longleftrightarrow> fsm_logical_to_physical addr < length (fsm_blocks rel) \<and>
     fsm_blocks rel ! fsm_logical_to_physical addr \<noteq> None"

lemma buf_page_pinned: "fsm_pinned rel addr \<Longrightarrow> buf_page rel (fsm_logical_to_physical addr) = fsm_page0 rel addr"
  by (auto simp: fsm_pinned_def buf_page_def fsm_page0_def fsm_page_at_def Let_def)

lemma pinned_keeps: "fsm_pinned rel addr \<Longrightarrow> vac_keeps rel rel' \<Longrightarrow> fsm_pinned rel' addr"
  by (auto simp: fsm_pinned_def vac_keeps_def)

lemma nth_put_Some:
  "c < length (fsm_blocks rel) \<Longrightarrow> (\<exists>y. fsm_blocks rel ! c = Some y) \<Longrightarrow> \<exists>y. fsm_blocks (put_page rel b p) ! c = Some y"
  by (cases "c = b") (simp_all add: put_page_def)

lemma vac_keeps_put:
  "fsm_rel_wf rel \<Longrightarrow> fsm_page_wf p \<Longrightarrow> (fsm_rel_ok rel \<Longrightarrow> fsm_page_ok p) \<Longrightarrow> vac_keeps rel (put_page rel b p)"
  by (simp add: vac_keeps_def rel_wf_put rel_ok_put nth_put_Some)

lemma not_subtree_child: "0 < level addr \<Longrightarrow> t < SlotsPerFSMPage \<Longrightarrow> \<not> subtree addr (fsm_get_child addr t)"
  using subtree_child(2) by blast

lemma vac_step:
  fixes rel1 t
  assumes p: "vac_post start lst (fsm_get_child addr t) rel rel1"
    and pin: "fsm_pinned rel addr" and addr: "fsm_addr_ok addr" "0 < level addr" and t: "t < SlotsPerFSMPage"
  defines "b \<equiv> fsm_logical_to_physical addr" and "m \<equiv> fsm_get_max_avail (fsm_page0 rel1 (fsm_get_child addr t))"
  shows "vac_slots_post start lst addr {t} rel
    (if fsm_get_avail (buf_page rel1 b) t \<noteq> m then put_page rel1 b (snd (fsm_set_avail (buf_page rel1 b) t m)) else rel1)"
    (is "vac_slots_post _ _ _ _ _ ?rel2")
proof -
  let ?c = "fsm_get_child addr t" and ?p = "fsm_page0 rel addr"
  have keeps: "vac_keeps rel rel1" and done1: "vac_done start lst rel1 ?c"
    and out: "\<And>a. fsm_addr_ok a \<Longrightarrow> \<not> subtree a ?c \<Longrightarrow> fsm_page0 rel1 a = fsm_page0 rel a"
    and unc: "\<And>a s. fsm_addr_ok a \<Longrightarrow> s < SlotsPerFSMPage \<Longrightarrow> level a = 0 \<or> \<not> covered start lst a s \<Longrightarrow>
        fsm_get_avail (fsm_page0 rel1 a) s = fsm_get_avail (fsm_page0 rel a) s"
    using p unfolding vac_post_def by blast+
  have wf1: "fsm_rel_wf rel1" using keeps by (simp add: vac_keeps_def)
  have pg: "buf_page rel1 b = ?p" "fsm_page0 rel1 addr = ?p"
    using buf_page_pinned [OF pinned_keeps [OF pin keeps]] out [OF addr(1) not_subtree_child [OF addr(2) t]]
    by (simp_all add: b_def)
  have b: "b < length (fsm_blocks rel1)" using pinned_keeps [OF pin keeps] by (simp add: fsm_pinned_def b_def)
  have t': "t < LeafNodesPerPage" using t by (simp add: SlotsPerFSMPage_def)
  have pwf: "fsm_page_wf ?p" using fsm_page0_wf [OF wf1, of addr] pg by simp
  have other: "fsm_page0 ?rel2 a = fsm_page0 rel1 a" if "fsm_addr_ok a" "a \<noteq> addr" for a
    using that b addr(1) by (simp add: page0_put b_def)
  have k2: "vac_keeps rel1 ?rel2"
  proof (cases "fsm_get_avail (buf_page rel1 b) t \<noteq> m")
    case True
    have "vac_keeps rel1 (put_page rel1 b (snd (fsm_set_avail ?p t m)))"
      using fsm_page0_ok [of rel1 addr] pg(2)
      by (intro vac_keeps_put wf1 fsm_set_avail_leaf(1) [OF pwf t'] fsm_set_avail_ok [OF _ t']) simp
    then show ?thesis using True pg(1) by simp
  qed (simp add: vac_keeps_def wf1)
  have av: "fsm_get_avail (fsm_page0 ?rel2 addr) s = (if s = t then m else fsm_get_avail ?p s)" for s
    using b addr(1) pg fsm_set_avail_leaf(2) [OF pwf t', of m s] by (auto simp: page0_put b_def)
  have child: "fsm_page0 ?rel2 ?c = fsm_page0 rel1 ?c" "fsm_addr_ok ?c"
    using other [of ?c] fsm_child_ok [OF addr t] not_subtree_child [OF addr(2) t] by (metis subtree_refl)+
  have "vac_done start lst ?rel2 ?c"
    by (rule vac_done_cong [OF done1]) (metis other subtree_child(2) [OF _ addr(2) t])
  moreover have "fsm_page0 ?rel2 a = fsm_page0 rel a" if "fsm_addr_ok a" "a \<noteq> addr" "\<not> subtree a ?c" for a
    using other [OF that(1,2)] out [OF that(1,3)] by simp
  ultimately show ?thesis
    using vac_keeps_trans [OF keeps k2] av child other unc
    unfolding vac_slots_post_def by (simp add: m_def)
qed

text \<open>What one call of \<open>fsm_vacuum_page\<close> guarantees; \<open>lst\<close> is the last block of the range.\<close>

definition vac_page_spec :: "BlockNumber \<Rightarrow> BlockNumber \<Rightarrow> BlockNumber \<Rightarrow> FsmRel \<Rightarrow> FSMAddress \<Rightarrow> bool" where
  "vac_page_spec start en lst rel addr \<longleftrightarrow>
     (case fsm_vacuum_page rel addr start en of (m, eof, rel') \<Rightarrow>
        vac_post start lst addr rel rel' \<and> m = fsm_get_max_avail (fsm_page0 rel' addr) \<and>
        (eof \<longleftrightarrow> length (fsm_blocks rel) \<le> fsm_logical_to_physical addr))"

lemma vacuum_slots_spec:
  assumes IH: "\<And>rel t. fsm_rel_wf rel \<Longrightarrow> t < SlotsPerFSMPage \<Longrightarrow> vac_page_spec start en lst rel (fsm_get_child addr t)"
    and addr: "fsm_addr_ok addr" "0 < level addr" and e: "end_slot < int SlotsPerFSMPage"
  shows "\<lbrakk>fsm_rel_wf rel; fsm_pinned rel addr; 0 \<le> slot;
     eof \<Longrightarrow> \<forall>t < SlotsPerFSMPage. slot \<le> int t \<longrightarrow> length (fsm_blocks rel) \<le> fsm_logical_to_physical (fsm_get_child addr t)\<rbrakk>
   \<Longrightarrow> vac_slots_post start lst addr {t. slot \<le> int t \<and> int t \<le> end_slot} rel
        (vacuum_slots rel (fsm_logical_to_physical addr) addr start en slot end_slot eof)"
proof (induction "nat (end_slot + 1 - slot)" arbitrary: rel slot eof rule: less_induct)
  case less
  let ?b = "fsm_logical_to_physical addr"
  show ?case
  proof (cases "slot \<le> end_slot")
    case False
    then have eq: "{t. slot \<le> int t \<and> int t \<le> end_slot} = {}" by auto
    show ?thesis
      unfolding eq using False less.prems(1) by (simp add: vacuum_slots.simps [of rel] vac_slots_empty)
  next
    case True
    define t where "t = nat slot"
    let ?c = "fsm_get_child addr t"
    have t: "slot = int t" "t < SlotsPerFSMPage" using True less.prems(3) e by (simp_all add: t_def)
    have cok: "fsm_addr_ok ?c" by (rule fsm_child_ok [OF addr t(2)])
    obtain m eof1 rel1 where step: "(if \<not> eof then fsm_vacuum_page rel ?c start en else (0, eof, rel)) = (m, eof1, rel1)"
      using prod_cases3 by blast
    have sp: "vac_post start lst ?c rel rel1 \<and> m = fsm_get_max_avail (fsm_page0 rel1 ?c) \<and>
        (eof1 \<longleftrightarrow> length (fsm_blocks rel) \<le> fsm_logical_to_physical ?c)"
    proof (cases eof)
      case True
      have miss: "length (fsm_blocks rel) \<le> fsm_logical_to_physical ?c" using less.prems(4) [OF True] t by simp
      then show ?thesis
        using True step vac_missing [OF less.prems(1) cok miss] by (auto simp: fsm_page0_missing)
    next
      case False
      then show ?thesis using IH [OF less.prems(1) t(2)] step by (simp add: vac_page_spec_def)
    qed
    define rel2 where "rel2 = (if fsm_get_avail (buf_page rel1 ?b) t \<noteq> m
        then put_page rel1 ?b (snd (fsm_set_avail (buf_page rel1 ?b) t m)) else rel1)"
    have p1: "vac_slots_post start lst addr {t} rel rel2"
      using vac_step [OF _ less.prems(2) addr t(2)] sp unfolding rel2_def by blast
    have k: "vac_keeps rel rel2" by (rule vac_slots_postD(1) [OF p1])
    have unf: "vacuum_slots rel ?b addr start en slot end_slot eof =
        vacuum_slots rel2 ?b addr start en (slot + 1) end_slot eof1"
      unfolding vacuum_slots.simps [of rel ?b addr start en slot end_slot eof] t_def [symmetric] step
      using True addr(2) by (simp add: rel2_def)
    have "length (fsm_blocks rel2) \<le> fsm_logical_to_physical (fsm_get_child addr u)"
      if "eof1" "u < SlotsPerFSMPage" "slot + 1 \<le> int u" for u
      using fsm_child_before [OF addr, of t u] sp that t k by (auto simp: vac_keeps_def)
    then have p2: "vac_slots_post start lst addr {u. slot + 1 \<le> int u \<and> int u \<le> end_slot} rel2
        (vacuum_slots rel2 ?b addr start en (slot + 1) end_slot eof1)"
      using True less.prems(3) k pinned_keeps [OF less.prems(2) k]
      by (intro less.hyps) (auto simp: vac_keeps_def)
    have "{u. slot \<le> int u \<and> int u \<le> end_slot} = insert t {u. slot + 1 \<le> int u \<and> int u \<le> end_slot}"
      using True t by auto
    then show ?thesis using vac_slots_insert [OF p1 p2 _ t(2) addr] t(1) unf by simp
  qed
qed

lemma vac_bottom: "fsm_rel_wf rel \<Longrightarrow> level addr = 0 \<Longrightarrow> vac_post start lst addr rel rel"
  using subtree_level by (fastforce simp: vac_post_def vac_keeps_def vac_done_def)

lemma vac_hint:
  assumes p: "vac_post start lst addr rel rel'" and pin: "fsm_pinned rel' addr" and addr: "fsm_addr_ok addr"
  defines "b \<equiv> fsm_logical_to_physical addr"
  defines "q \<equiv> put_page rel' b ((buf_page rel' b)\<lparr>fp_next_slot := 0\<rparr>)"
  shows "vac_post start lst addr rel q \<and>
         fsm_get_max_avail (buf_page rel' b) = fsm_get_max_avail (fsm_page0 q addr)"
proof -
  have wf: "fsm_rel_wf rel'" and k: "vac_keeps rel rel'" using p by (simp_all add: vac_post_def vac_keeps_def)
  have pg: "buf_page rel' b = fsm_page0 rel' addr" using buf_page_pinned [OF pin] by (simp add: b_def)
  have q: "fsm_page0 q a = (if a = addr then (fsm_page0 rel' addr)\<lparr>fp_next_slot := 0\<rparr> else fsm_page0 rel' a)"
    if "fsm_addr_ok a" for a
    using page0_put [OF that addr] pin by (simp add: q_def b_def pg [unfolded b_def] fsm_pinned_def)
  have av: "fsm_get_avail (fsm_page0 q a) s = fsm_get_avail (fsm_page0 rel' a) s"
    and mx: "fsm_get_max_avail (fsm_page0 q a) = fsm_get_max_avail (fsm_page0 rel' a)" if "fsm_addr_ok a" for a s
    using q [OF that] by (simp_all add: fsm_get_avail_def fsm_get_max_avail_def)
  have "vac_keeps rel' q"
    unfolding q_def pg using fsm_page0_wf [OF wf, of addr] fsm_page0_ok [of rel' addr]
    by (intro vac_keeps_put wf) (auto simp: fsm_page_wf_def fsm_page_ok_def)
  then have "vac_keeps rel q" by (rule vac_keeps_trans [OF k])
  moreover have "vac_done start lst q addr"
    using p unfolding vac_post_def vac_done_def by (simp add: av mx fsm_child_ok)
  moreover have "fsm_page0 q a = fsm_page0 rel a" if "fsm_addr_ok a" "\<not> subtree a addr" for a
    using q [OF that(1)] p that unfolding vac_post_def by auto
  ultimately show ?thesis using p av mx [OF addr] pg unfolding vac_post_def by simp
qed

lemma fsm_vacuum_page_spec:
  assumes lst: "lst = (en + 2 ^ 32 - 1) mod 2 ^ 32"
  shows "fsm_rel_wf rel \<Longrightarrow> fsm_addr_ok addr \<Longrightarrow> vac_page_spec start en lst rel addr"
proof (induction "level addr" arbitrary: addr rel rule: less_induct)
  case less
  let ?b = "fsm_logical_to_physical addr"
  from less.prems(1) show ?case
  proof (cases rule: fsm_readbuf_no_extend [of rel addr])
    case (eof rel1)
    have len: "length (fsm_blocks rel) \<le> ?b" using eof(2) by (simp add: fsm_page_at_def Let_def split: if_splits)
    have "vac_post start lst addr rel rel1"
      using eof(3,4) vac_missing [OF less.prems len]
      by (auto simp: vac_post_def same_map_def fsm_page0_def vac_done_def vac_keeps_def)
    then show ?thesis
      using eof len by (simp add: vac_page_spec_def fsm_vacuum_page.simps [of rel] fsm_page0_missing same_map_def)
  next
    case (page p rel1)
    have k1: "vac_keeps rel rel1" and p0: "fsm_page0 rel1 = fsm_page0 rel" and pin: "fsm_pinned rel1 addr"
      using page by (simp_all add: vac_keeps_def same_map_def fsm_page0_def fun_eq_iff fsm_pinned_def)
    define rel2 where "rel2 = (if level addr > FSM_BOTTOM_LEVEL
        then vacuum_slots rel1 ?b addr start en (fst (vacuum_range addr start en)) (snd (vacuum_range addr start en)) False
        else rel1)"
    have "vac_post start lst addr rel1 rel2"
    proof (cases "level addr > 0")
      case True
      have "{t. fst (vacuum_range addr start en) \<le> int t \<and> int t \<le> snd (vacuum_range addr start en)} =
            {t. t < SlotsPerFSMPage \<and> covered start lst addr t}"
      proof (intro Collect_cong)
        fix t
        have "int t \<le> snd (vacuum_range addr start en) \<Longrightarrow> t < SlotsPerFSMPage"
          using vacuum_range_bounds(2) [of addr start en] by linarith
        then show "fst (vacuum_range addr start en) \<le> int t \<and> int t \<le> snd (vacuum_range addr start en) \<longleftrightarrow>
            t < SlotsPerFSMPage \<and> covered start lst addr t"
          unfolding lst using vacuum_range_covered [of t addr start en] by blast
      qed
      moreover have "vac_slots_post start lst addr
          {t. fst (vacuum_range addr start en) \<le> int t \<and> int t \<le> snd (vacuum_range addr start en)} rel1 rel2"
        unfolding rel2_def using True less.prems(2) page(3) pin vacuum_range_bounds
        by (simp add: FSM_BOTTOM_LEVEL_def) (intro vacuum_slots_spec less.hyps, auto simp: level_child fsm_child_ok)
      ultimately have "vac_slots_post start lst addr {t. t < SlotsPerFSMPage \<and> covered start lst addr t} rel1 rel2"
        by simp
      then show ?thesis by (rule vac_slots_page [OF _ less.prems(2) True])
    qed (use page(3) in \<open>simp add: rel2_def FSM_BOTTOM_LEVEL_def vac_bottom\<close>)
    then have post: "vac_post start lst addr rel rel2"
      using k1 p0 vac_keeps_trans by (auto simp: vac_post_def)
    have pin2: "fsm_pinned rel2 addr"
      using post page(6) pinned_keeps [OF pin] \<open>vac_post start lst addr rel1 rel2\<close> by (simp add: vac_post_def)
    have "?b < length (fsm_blocks rel)" using page(2) by (simp add: fsm_page_at_def Let_def split: if_splits)
    moreover have "fsm_vacuum_page rel addr start en = (fsm_get_max_avail (buf_page rel2 ?b), False,
        put_page rel2 ?b ((buf_page rel2 ?b)\<lparr>fp_next_slot := 0\<rparr>))"
      using page(1) by (simp add: fsm_vacuum_page.simps [of rel addr] rel2_def split_beta Let_def)
    ultimately show ?thesis
      using vac_hint [OF post pin2 less.prems(2)] by (simp add: vac_page_spec_def)
  qed
qed

section \<open>Consequences for the public operations\<close>

lemma fsm_needed_some: "n \<le> MaxFSMRequestSize \<Longrightarrow> \<exists>c. fsm_space_needed_to_cat n = Inr c"
  by (simp add: fsm_space_needed_to_cat_def Let_def)

lemma fsm_needed_iff:
  assumes "fsm_space_needed_to_cat n = Inr c" "0 < n"
  shows "c \<le> k \<longleftrightarrow> n \<le> fsm_space_cat_to_avail k"
proof -
  have c: "n \<le> 8160" "unat c = min 255 ((n + 31) div 32)" using unat_needed_to_cat [OF assms(1)] assms(2) by auto
  have k: "unat k < 256" using unsigned_less [of k, where 'a = nat] by simp
  have "k = 255 \<longleftrightarrow> unat k = 255" by (simp add: word_unat_eq_iff)
  then show ?thesis
    using c k by (auto simp: word_le_nat_alt fsm_space_cat_to_avail_def fsm_consts)
qed

lemma fsm_needed_pos: "fsm_space_needed_to_cat n = Inr c \<Longrightarrow> 0 < c"
  using unat_needed_to_cat [of n c] by (auto simp: word_less_nat_alt split: if_splits)

lemma fsm_cat_round_down: "fsm_space_cat_to_avail (fsm_space_avail_to_cat a) \<le> a"
proof -
  have "fsm_space_avail_to_cat a = 255 \<longleftrightarrow> unat (fsm_space_avail_to_cat a) = 255" by (simp add: word_unat_eq_iff)
  then show ?thesis using unat_avail_to_cat [of a] by (auto simp: fsm_space_cat_to_avail_def fsm_consts split: if_splits)
qed

lemma GetRecorded_cat:
  assumes "fsm_rel_wf rel"
  shows "fst (GetRecordedFreeSpace rel h) = fsm_space_cat_to_avail (fsm_cat rel h)"
proof -
  obtain addr slot where l: "fsm_get_location h = (addr, slot)" by fastforce
  from assms show ?thesis
    by (cases rule: fsm_readbuf_no_extend [of rel addr])
      (simp_all add: GetRecordedFreeSpace_def l fsm_cat_def fsm_space_cat_to_avail_def)
qed

lemma fsm_location_inj: "fsm_get_location h = fsm_get_location k \<longleftrightarrow> h = k"
  by (metis FSMAddress.ext_inject Pair_inject div_mult_mod_eq fsm_get_location_def)

lemma fsm_blk_range: "h < 2 ^ 32 \<Longrightarrow> h < SlotsPerFSMPage ^ 3"
  by (simp add: fsm_consts)

lemma record_spec:
  assumes wf: "fsm_rel_wf rel" and h: "h < 2 ^ 32"
  obtains rel' where "RecordPageWithFreeSpace rel h n = Some rel'" "fsm_rel_wf rel'"
      "fsm_rel_ok rel \<Longrightarrow> fsm_rel_ok rel'"
      "\<And>k. k < 2 ^ 32 \<Longrightarrow> fsm_cat rel' k = (if k = h then fsm_space_avail_to_cat n else fsm_cat rel k)"
      "\<And>a s. fsm_addr_ok a \<Longrightarrow> (a, s) \<noteq> fsm_get_location h \<Longrightarrow>
          fsm_get_avail (fsm_page0 rel' a) s = fsm_get_avail (fsm_page0 rel a) s"
proof -
  obtain addr slot where l: "fsm_get_location h = (addr, slot)" by fastforce
  have ok: "fsm_addr_ok addr" "slot < SlotsPerFSMPage" using fsm_location_ok [OF fsm_blk_range [OF h]] l by simp_all
  show ?thesis
  proof (rule fsm_set_and_search_spec [OF wf ok, of "fsm_space_avail_to_cat n" 0])
    fix r rel' assume s: "fsm_set_and_search rel addr slot (fsm_space_avail_to_cat n) 0 = Some (r, rel')"
      "fsm_rel_wf rel'" "fsm_rel_ok rel \<Longrightarrow> fsm_rel_ok rel'"
      "\<And>a s. fsm_addr_ok a \<Longrightarrow> fsm_get_avail (fsm_page0 rel' a) s =
         (if a = addr \<and> s = slot then fsm_space_avail_to_cat n else fsm_get_avail (fsm_page0 rel a) s)"
    have "fsm_cat rel' k = (if k = h then fsm_space_avail_to_cat n else fsm_cat rel k)" if "k < 2 ^ 32" for k
      using s(4) [of "fst (fsm_get_location k)" "snd (fsm_get_location k)"] fsm_location_ok [OF fsm_blk_range [OF that]]
        fsm_location_inj [of k h] l
      by (auto simp: fsm_cat_page0 fsm_blk_range [OF that] prod_eq_iff)
    then show ?thesis using s l by (intro that [of rel']) (auto simp: RecordPageWithFreeSpace_def)
  qed
qed

text \<open>No free space is recorded for block numbers that do not exist.\<close>

definition fsm_in_range :: "FsmRel \<Rightarrow> bool" where
  "fsm_in_range rel \<longleftrightarrow> (\<forall>a s. fsm_addr_ok a \<longrightarrow> s < SlotsPerFSMPage \<longrightarrow>
     InvalidBlockNumber \<le> (logpageno a * SlotsPerFSMPage + s) * SlotsPerFSMPage ^ level a \<longrightarrow>
     fsm_get_avail (fsm_page0 rel a) s = 0)"

lemma in_range_heap_blk:
  assumes "fsm_in_range rel" "fsm_addr_ok a" "level a = FSM_BOTTOM_LEVEL" "s < SlotsPerFSMPage"
    "0 < c" "c \<le> fsm_get_avail (fsm_page0 rel a) s"
  shows "fsm_get_heap_blk a s < InvalidBlockNumber \<and> c \<le> fsm_cat rel (fsm_get_heap_blk a s)"
proof -
  let ?b = "logpageno a * SlotsPerFSMPage + s"
  have "?b < InvalidBlockNumber"
  proof (rule ccontr)
    assume "\<not> ?b < InvalidBlockNumber"
    then have "fsm_get_avail (fsm_page0 rel a) s = 0"
      using assms(1-4) unfolding fsm_in_range_def by (auto simp: FSM_BOTTOM_LEVEL_def)
    then show False using assms(5,6) by simp
  qed
  then have b: "?b < InvalidBlockNumber" "fsm_get_heap_blk a s = ?b"
    by (simp_all add: fsm_get_heap_blk_def InvalidBlockNumber_def)
  have "fsm_get_location ?b = (a, s)" using assms(3,4) by (simp add: fsm_get_location_def)
  then show ?thesis using b assms(6) fsm_cat_page0 [of ?b rel] by (simp add: fsm_consts)
qed

lemma fsm_search_sound:
  assumes "fsm_rel_wf rel" "fsm_in_range rel" "0 < c"
  obtains b rel' where "fsm_search rel c = Some (b, rel')" "same_leaves rel rel'"
    "b \<noteq> InvalidBlockNumber \<Longrightarrow> b < InvalidBlockNumber \<and> c \<le> fsm_cat rel b"
proof -
  obtain b rel' where s: "fsm_search_loop c 0 FSM_ROOT_ADDRESS rel = Some (b, rel')" "same_leaves rel rel'"
    "b = InvalidBlockNumber \<or> (\<exists>a s. fsm_addr_ok a \<and> level a = FSM_BOTTOM_LEVEL \<and> s < SlotsPerFSMPage \<and>
       b = fsm_get_heap_blk a s \<and> c \<le> fsm_get_avail (fsm_page0 rel a) s)"
    using fsm_search_loop_returns [OF assms(1) fsm_root_ok] by blast
  then show ?thesis
    using that [of b rel'] in_range_heap_blk [OF assms(2) _ _ _ assms(3)] unfolding fsm_search_def by blast
qed

lemma fsm_search_complete:
  assumes ok: "fsm_rel_ok rel" and ex: "fsm_exact rel" and rg: "fsm_in_range rel" and c: "0 < c"
    and h: "h < InvalidBlockNumber" "c \<le> fsm_cat rel h"
  shows "\<exists>b rel'. fsm_search rel c = Some (b, rel') \<and> b < InvalidBlockNumber \<and> c \<le> fsm_cat rel b"
proof -
  have h3: "h < SlotsPerFSMPage ^ 3" using h(1) by (simp add: fsm_consts)
  have "fsm_cat rel h \<le> fsm_get_max_avail (fsm_page0 rel FSM_ROOT_ADDRESS)"
    using fsm_exact_bound [OF ok ex] fsm_location_ok [OF h3] by (simp add: fsm_cat_page0 [OF h3])
  then have "c \<le> fsm_get_max_avail (fsm_page0 rel FSM_ROOT_ADDRESS)" using h(2) by simp
  then obtain a s rel' where "fsm_search_loop c 0 FSM_ROOT_ADDRESS rel = Some (fsm_get_heap_blk a s, rel')"
      "fsm_addr_ok a" "level a = FSM_BOTTOM_LEVEL" "s < SlotsPerFSMPage" "c \<le> fsm_get_avail (fsm_page0 rel a) s"
    using fsm_search_loop_complete [OF ok ex fsm_root_ok c, of 0] by blast
  then show ?thesis using in_range_heap_blk [OF rg _ _ _ c] unfolding fsm_search_def by blast
qed

lemma subtree_root: "fsm_addr_ok a \<Longrightarrow> subtree a FSM_ROOT_ADDRESS"
  by (simp add: fsm_addr_ok_def subtree_def FSM_ROOT_ADDRESS_def)

lemma fsm_vacuum_range_post:
  assumes "fsm_rel_wf rel" "start < en" "en \<le> InvalidBlockNumber"
  shows "vac_post start (en - 1) FSM_ROOT_ADDRESS rel (FreeSpaceMapVacuumRange rel start en)"
proof -
  have "en - 1 = (en + 2 ^ 32 - 1) mod 2 ^ 32"
    using assms(2,3) by (simp add: fsm_consts mod_if)
  then show ?thesis
    using fsm_vacuum_page_spec [of "en - 1" en rel FSM_ROOT_ADDRESS start] assms
    by (simp add: vac_page_spec_def FreeSpaceMapVacuumRange_def split_beta)
qed

lemma FreeSpaceMapVacuum_range: "FreeSpaceMapVacuum rel = FreeSpaceMapVacuumRange rel 0 InvalidBlockNumber"
  by (simp add: FreeSpaceMapVacuum_def FreeSpaceMapVacuumRange_def fsm_consts)

lemma fsm_not_covered:
  assumes "\<not> covered 0 (InvalidBlockNumber - 1) a s"
  shows "InvalidBlockNumber \<le> (logpageno a * SlotsPerFSMPage + s) * SlotsPerFSMPage ^ level a"
proof -
  let ?k = "logpageno a * SlotsPerFSMPage + s" and ?n = "SlotsPerFSMPage ^ level a"
  have "(InvalidBlockNumber - 1) div ?n < ?k" using assms by (simp add: covered_def)
  then have "InvalidBlockNumber - 1 < ?k * ?n"
    using slots_pos by (simp add: div_less_iff_less_mult)
  then show ?thesis by (simp add: fsm_consts)
qed

text \<open>A missing or out-of-range page has nothing but zeros below it.\<close>

lemma in_range_child_max:
  assumes rg: "fsm_in_range rel" and ok: "fsm_rel_ok rel" and a: "fsm_addr_ok a" "0 < level a" "s < SlotsPerFSMPage"
    and out: "InvalidBlockNumber \<le> (logpageno a * SlotsPerFSMPage + s) * SlotsPerFSMPage ^ level a"
  shows "fsm_get_max_avail (fsm_page0 rel (fsm_get_child a s)) = 0"
proof -
  let ?c = "fsm_get_child a s"
  have c: "fsm_addr_ok ?c" by (rule fsm_child_ok [OF a])
  have "fsm_get_avail (fsm_page0 rel ?c) t = 0" if "t < SlotsPerFSMPage" for t
  proof -
    obtain l where l: "level a = Suc l" using a(2) by (cases "level a") auto
    have "(logpageno a * SlotsPerFSMPage + s) * SlotsPerFSMPage ^ level a
        \<le> (logpageno ?c * SlotsPerFSMPage + t) * SlotsPerFSMPage ^ level ?c"
      using l by (simp add: fsm_get_child_def algebra_simps)
    then show ?thesis using rg c that out unfolding fsm_in_range_def by (meson order_trans)
  qed
  then have "fsm_get_avail (fsm_page0 rel ?c) ` {..<LeafNodesPerPage} = {0}"
    using slots_pos by (auto simp: SlotsPerFSMPage_def image_iff)
  then show ?thesis using fsm_tree.top_is_Max [OF fsm_page0_ok [OF ok]] by simp
qed

lemma vacuum_exact:
  assumes ok: "fsm_rel_ok rel" and rg: "fsm_in_range rel"
  shows "fsm_rel_ok (FreeSpaceMapVacuum rel) \<and> fsm_exact (FreeSpaceMapVacuum rel) \<and>
         fsm_in_range (FreeSpaceMapVacuum rel) \<and> same_leaves rel (FreeSpaceMapVacuum rel)"
proof -
  let ?r = "FreeSpaceMapVacuum rel" and ?lst = "InvalidBlockNumber - 1"
  have wf: "fsm_rel_wf rel" using ok by (simp add: fsm_rel_ok_def)
  have post: "vac_post 0 ?lst FSM_ROOT_ADDRESS rel ?r"
    unfolding FreeSpaceMapVacuum_range by (rule fsm_vacuum_range_post [OF wf]) (simp_all add: fsm_consts)
  have keep: "fsm_get_avail (fsm_page0 ?r a) s = fsm_get_avail (fsm_page0 rel a) s"
    if "fsm_addr_ok a" "s < SlotsPerFSMPage" "level a = 0 \<or> \<not> covered 0 ?lst a s" for a s
    using post that unfolding vac_post_def by blast
  have okr: "fsm_rel_ok ?r" "fsm_rel_wf ?r" using post ok by (auto simp: vac_post_def vac_keeps_def)
  have rgr: "fsm_in_range ?r" unfolding fsm_in_range_def
  proof (intro allI impI)
    fix a s assume a: "fsm_addr_ok a" "s < SlotsPerFSMPage"
      "InvalidBlockNumber \<le> (logpageno a * SlotsPerFSMPage + s) * SlotsPerFSMPage ^ level a"
    have "\<not> covered 0 ?lst a s"
    proof
      assume "covered 0 ?lst a s"
      then have "(logpageno a * SlotsPerFSMPage + s) * SlotsPerFSMPage ^ level a \<le> ?lst"
        using slots_pos by (simp add: covered_def less_eq_div_iff_mult_less_eq)
      then show False using a(3) by (simp add: fsm_consts)
    qed
    then show "fsm_get_avail (fsm_page0 ?r a) s = 0"
      using keep [OF a(1,2)] rg a unfolding fsm_in_range_def by metis
  qed
  have "fsm_exact ?r" unfolding fsm_exact_def
  proof (intro allI impI)
    fix a s assume a: "fsm_addr_ok a" "0 < level a" "s < SlotsPerFSMPage"
    show "fsm_get_avail (fsm_page0 ?r a) s = fsm_get_max_avail (fsm_page0 ?r (fsm_get_child a s))"
    proof (cases "covered 0 ?lst a s")
      case True
      then show ?thesis using post a subtree_root [OF a(1)] unfolding vac_post_def vac_done_def by blast
    next
      case False
      note out = fsm_not_covered [OF False]
      show ?thesis
        using rgr a out in_range_child_max [OF rgr okr(1) a out] unfolding fsm_in_range_def by metis
    qed
  qed
  moreover have "same_leaves rel ?r" using okr keep by (simp add: same_leaves_def FSM_BOTTOM_LEVEL_def)
  ultimately show ?thesis using okr rgr by blast
qed

section \<open>Truncation\<close>

lemma leaf_physical_mono:
  assumes "fsm_addr_ok \<lparr>level = 0, logpageno = p\<rparr>" "fsm_addr_ok \<lparr>level = 0, logpageno = q\<rparr>"
  shows "fsm_logical_to_physical \<lparr>level = 0, logpageno = p\<rparr> < fsm_logical_to_physical \<lparr>level = 0, logpageno = q\<rparr> \<longleftrightarrow> p < q"
  using assms div_le_mono [of p q SlotsPerFSMPage] div_le_mono [of q p SlotsPerFSMPage]
  by (cases "p < q") (auto simp: fsm_physical)

lemma page0_truncate:
  "fsm_page0 (smgrtruncate_fsm rel n) a = (if fsm_logical_to_physical a < n then fsm_page0 rel a else fsm_zero_page)"
  by (simp add: fsm_page0_def fsm_page_at_def smgrtruncate_fsm_def Let_def)

lemma truncate_cat:
  assumes ok: "fsm_rel_ok rel" and n: "n < 2 ^ 32" and h: "h < 2 ^ 32"
  shows "fsm_cat (truncate_fsm rel n) h = (if h < n then fsm_cat rel h else 0)"
proof -
  have wf: "fsm_rel_wf rel" using ok by (simp add: fsm_rel_ok_def)
  let ?S = SlotsPerFSMPage
  let ?A = "\<lambda>h. \<lparr>level = 0, logpageno = h div ?S\<rparr>" and ?ph = "\<lambda>h. fsm_logical_to_physical \<lparr>level = 0, logpageno = h div ?S\<rparr>"
  have loc: "fsm_get_location k = (?A k, k mod ?S)" for k by (simp add: fsm_get_location_def FSM_BOTTOM_LEVEL_def)
  have aok: "fsm_addr_ok (?A k)" if "k < 2 ^ 32" for k using fsm_location_ok [OF fsm_blk_range [OF that]] loc by simp
  have cat: "fsm_cat r h = fsm_get_avail (fsm_page0 r (?A h)) (h mod ?S)" for r
    using fsm_cat_page0 [OF fsm_blk_range [OF h]] loc by simp
  have lt: "?ph h < ?ph n \<longleftrightarrow> h div ?S < n div ?S" "?ph n < ?ph h \<longleftrightarrow> n div ?S < h div ?S"
    using leaf_physical_mono [OF aok aok] h n by simp_all
  have dm: "h < n \<longleftrightarrow> h div ?S < n div ?S \<or> h div ?S = n div ?S \<and> h mod ?S < n mod ?S"
    using div_mod_le_iff(2) [of "h mod ?S" ?S "h div ?S" n] slots_pos
    by (metis div_mod_decomp le_neq_implies_less linorder_not_less mod_less_divisor order_less_le)
  have ms: "h mod ?S < LeafNodesPerPage" "n mod ?S < LeafNodesPerPage"
    using slots_pos by (simp_all add: SlotsPerFSMPage_def)
  have bd: "?ph n + 1 \<noteq> InvalidBlockNumber" "?ph n \<noteq> InvalidBlockNumber"
    using fsm_physical_bound [OF aok [OF n]] by (simp_all add: fsm_consts)
  have missing: "fsm_cat r h = 0" if "length (fsm_blocks r) \<le> ?ph h" for r
    using that ms(1) by (simp add: cat fsm_page0_missing fsm_zero_page_avail)
  show ?thesis
  proof (cases "smgr_exists rel")
    case False
    then have "fsm_blocks rel = []" using wf by (simp add: fsm_rel_wf_def)
    then show ?thesis using False missing [of rel] by (simp add: truncate_fsm_def FreeSpaceMapPrepareTruncateRel_def)
  next
    case ex: True
    show ?thesis
    proof (cases "n mod ?S > 0")
      case False
      let ?r = "smgrnblocks rel"
      have sm: "fsm_page0 ?r = fsm_page0 rel" by (simp add: fsm_page0_def fun_eq_iff)
      show ?thesis
      proof (cases "length (fsm_blocks rel) \<le> ?ph n")
        case True
        then have "truncate_fsm rel n = ?r"
          using ex False loc by (simp add: truncate_fsm_def FreeSpaceMapPrepareTruncateRel_def smgrnblocks_def)
        then show ?thesis using missing [of rel] True False dm lt sm by (auto simp: cat)
      next
        case notall: False
        then have "truncate_fsm rel n = smgrtruncate_fsm ?r (?ph n)"
          using ex False loc bd by (simp add: truncate_fsm_def FreeSpaceMapPrepareTruncateRel_def smgrnblocks_def)
        then show ?thesis
          using False dm lt sm ms(1) by (auto simp: cat page0_truncate fsm_zero_page_avail)
      qed
    next
      case True
      from wf show ?thesis
      proof (cases rule: fsm_readbuf_no_extend [of rel "?A n"])
        case (eof r)
        have "length (fsm_blocks rel) \<le> ?ph n" using eof(2) by (simp add: fsm_page_at_def Let_def split: if_splits)
        moreover have "truncate_fsm rel n = r"
          using eof(1) ex True loc by (simp add: truncate_fsm_def FreeSpaceMapPrepareTruncateRel_def)
        moreover have "fsm_page0 r = fsm_page0 rel" using eof(4) by (simp add: same_map_def fsm_page0_def fun_eq_iff)
        ultimately show ?thesis using missing [of rel] dm lt by (cases "h div ?S" "n div ?S" rule: linorder_cases) (auto simp: cat)
      next
        case (page p r)
        let ?q = "snd (fsm_truncate_avail p (n mod ?S))"
        have eq: "truncate_fsm rel n = smgrtruncate_fsm (put_page r (?ph n) ?q) (Suc (?ph n))"
          using page(1,5) ex True loc bd by (simp add: truncate_fsm_def FreeSpaceMapPrepareTruncateRel_def)
        have p0: "fsm_page0 r = fsm_page0 rel" "p = fsm_page0 rel (?A n)"
          using page by (simp_all add: same_map_def fsm_page0_def fun_eq_iff)
        have "fsm_get_avail ?q (h mod ?S) = (if h mod ?S < n mod ?S then fsm_get_avail p (h mod ?S) else 0)"
          using fsm_truncate_avail_spec [OF fsm_page_at_ok [OF ok page(2)] ms(2)] ms(1) by blast
        then show ?thesis
          using dm lt page(7) p0 aok [OF h] aok [OF n] ms(1)
          by (cases "h div ?S" "n div ?S" rule: linorder_cases)
            (auto simp: cat eq page0_truncate page0_put fsm_zero_page_avail less_Suc_eq_le not_less [symmetric])
      qed
    qed
  qed
qed

section \<open>Properties\<close>

definition fsm_empty_rel :: FsmRel where
  "fsm_empty_rel = \<lparr>smgr_exists = False, smgr_cached_nblocks = InvalidBlockNumber, fsm_blocks = []\<rparr>"

lemma fsm_empty_rel_ok: "fsm_rel_ok fsm_empty_rel" "fsm_rel_wf fsm_empty_rel"
  by (simp_all add: fsm_rel_ok_def fsm_rel_wf_def fsm_empty_rel_def)

lemma fsm_page0_empty: "fsm_page0 fsm_empty_rel a = fsm_zero_page"
  by (simp add: fsm_page0_missing fsm_empty_rel_def)

lemma fsm_in_range_empty: "fsm_in_range fsm_empty_rel"
  by (simp add: fsm_in_range_def fsm_page0_empty fsm_zero_page_avail SlotsPerFSMPage_def)

text \<open>
  A request for at most \<open>MaxFSMRequestSize\<close> bytes has a category, never 0, such that every
  page recorded with at least that category has the requested space, and an empty page always
  qualifies; a larger request is an error; recorded space is never rounded up.
\<close>

lemma fsm_categories_sound:
  assumes "n \<le> MaxFSMRequestSize"
  shows "\<exists>c. fsm_space_needed_to_cat n = Inr c \<and> 0 < c \<and>
           (\<forall>avail. c \<le> fsm_space_avail_to_cat avail \<longrightarrow> n \<le> avail) \<and>
           c \<le> fsm_space_avail_to_cat MaxFSMRequestSize \<and>
           (\<forall>avail. fsm_space_cat_to_avail (fsm_space_avail_to_cat avail) \<le> avail) \<and>
           (\<forall>m > MaxFSMRequestSize. fsm_space_needed_to_cat m = Inl (InvalidFSMRequestSize m))"
proof -
  obtain c where c: "fsm_space_needed_to_cat n = Inr c" using fsm_needed_some [OF assms] by blast
  have "n \<le> avail" if "c \<le> fsm_space_avail_to_cat avail" for avail
    using that fsm_needed_iff [OF c] fsm_cat_round_down [of avail] by (cases "n = 0") auto
  moreover have "c \<le> fsm_space_avail_to_cat MaxFSMRequestSize"
    using unsigned_less [of c, where 'a = nat]
    by (simp add: word_le_nat_alt unat_avail_to_cat fsm_consts)
  ultimately show ?thesis
    using c fsm_needed_pos [OF c] fsm_cat_round_down by (auto simp: fsm_space_needed_to_cat_def)
qed



text \<open>
  C23: Recording the free space of a heap block always succeeds, on an empty, short or complete
  fork; reading it back gives the recorded amount rounded down to its category, and the recorded
  space of every other block is unchanged.
\<close>

theorem record_free_space_roundtrip:
  assumes "fsm_rel_wf rel" and "h < 2 ^ 32"
  shows "\<exists>rel'. RecordPageWithFreeSpace rel h n = Some rel' \<and> fsm_rel_wf rel' \<and>
           (fsm_rel_ok rel \<longrightarrow> fsm_rel_ok rel') \<and>
           fst (GetRecordedFreeSpace rel' h) = fsm_space_cat_to_avail (fsm_space_avail_to_cat n) \<and>
           (\<forall>k < 2 ^ 32. k \<noteq> h \<longrightarrow> fst (GetRecordedFreeSpace rel' k) = fst (GetRecordedFreeSpace rel k))"
  by (rule record_spec [OF assms, of n]) (use assms in \<open>simp add: GetRecorded_cat\<close>)

theorem record_free_space_roundtrip_witness:
  "\<exists>rel'. RecordPageWithFreeSpace fsm_empty_rel 5000 1000 = Some rel' \<and> fst (GetRecordedFreeSpace rel' 5000) = 992"
  using record_free_space_roundtrip [OF fsm_empty_rel_ok(2), of 5000 1000]
  by (auto simp: fsm_space_avail_to_cat_def fsm_space_cat_to_avail_def fsm_consts)



text \<open>
  C10: After \<open>FreeSpaceMapVacuum\<close> the search is complete: \<open>GetPageWithFreeSpace\<close> returns a block
  with enough recorded space if there is one, and \<open>InvalidBlockNumber\<close> only if there is none.
  Vacuuming itself changes no recorded space.
\<close>

theorem vacuum_makes_search_complete:
  assumes "fsm_rel_ok rel" and "fsm_in_range rel" and "0 < n" and "n \<le> MaxFSMRequestSize"
  shows "(\<forall>k < 2 ^ 32. fst (GetRecordedFreeSpace (FreeSpaceMapVacuum rel) k) = fst (GetRecordedFreeSpace rel k)) \<and>
         (\<exists>b rel'. GetPageWithFreeSpace (FreeSpaceMapVacuum rel) n = Some (Inr (b, rel')) \<and>
           (if \<exists>h < InvalidBlockNumber. n \<le> fst (GetRecordedFreeSpace rel h)
            then b < InvalidBlockNumber \<and> n \<le> fst (GetRecordedFreeSpace rel b)
            else b = InvalidBlockNumber))"
proof -
  let ?r = "FreeSpaceMapVacuum rel"
  have v: "fsm_rel_ok ?r" "fsm_exact ?r" "fsm_in_range ?r" "same_leaves rel ?r"
    using vacuum_exact [OF assms(1,2)] by simp_all
  have wf: "fsm_rel_wf ?r" "fsm_rel_wf rel" using v(1) assms(1) by (simp_all add: fsm_rel_ok_def)
  obtain c where c: "fsm_space_needed_to_cat n = Inr c" using fsm_needed_some [OF assms(4)] by blast
  note iff = fsm_needed_iff [OF c assms(3), symmetric]
  have cat: "fsm_cat ?r h = fsm_cat rel h" if "h < 2 ^ 32" for h by (rule same_leaves_cat [OF v(4) fsm_blk_range [OF that]])
  obtain b rel' where s: "fsm_search ?r c = Some (b, rel')"
      "b \<noteq> InvalidBlockNumber \<Longrightarrow> b < InvalidBlockNumber \<and> c \<le> fsm_cat ?r b"
    by (rule fsm_search_sound [OF wf(1) v(3) fsm_needed_pos [OF c]]) blast
  have lt: "h < 2 ^ 32" if "h < InvalidBlockNumber" for h using that by (simp add: fsm_consts)
  have found: "b < InvalidBlockNumber" if "h < InvalidBlockNumber" "c \<le> fsm_cat rel h" for h
    using fsm_search_complete [OF v(1-3) fsm_needed_pos [OF c] that(1)] cat [OF lt [OF that(1)]] that(2) s(1) by auto
  have "b = InvalidBlockNumber \<or> b < InvalidBlockNumber \<and> c \<le> fsm_cat rel b"
    using s(2) cat [OF lt] by (cases "b = InvalidBlockNumber") auto
  with found have "if \<exists>h < InvalidBlockNumber. c \<le> fsm_cat rel h
      then b < InvalidBlockNumber \<and> c \<le> fsm_cat rel b else b = InvalidBlockNumber"
    by (metis less_irrefl)
  then show ?thesis
    using s(1) c wf cat by (simp add: GetPageWithFreeSpace_def GetRecorded_cat iff)
qed

lemma fsm_900: "(0 :: nat) < 900" "900 \<le> MaxFSMRequestSize"
  by (simp_all add: fsm_consts)

theorem vacuum_makes_search_complete_witness:
  "\<exists>rel b rel'. RecordPageWithFreeSpace fsm_empty_rel 5 1000 = Some rel \<and>
     GetPageWithFreeSpace (FreeSpaceMapVacuum rel) 900 = Some (Inr (b, rel')) \<and> b < InvalidBlockNumber"
proof -
  obtain rel where r: "RecordPageWithFreeSpace fsm_empty_rel 5 1000 = Some rel" "fsm_rel_ok rel"
      "fsm_cat rel 5 = fsm_space_avail_to_cat 1000"
      "\<And>a s. fsm_addr_ok a \<Longrightarrow> (a, s) \<noteq> fsm_get_location 5 \<Longrightarrow>
         fsm_get_avail (fsm_page0 rel a) s = fsm_get_avail (fsm_page0 fsm_empty_rel a) s"
    by (rule record_spec [OF fsm_empty_rel_ok(2), of 5 1000]) (use fsm_empty_rel_ok(1) in auto)
  have rg: "fsm_in_range rel" unfolding fsm_in_range_def
  proof (intro allI impI)
    fix a s assume a: "fsm_addr_ok a" "s < SlotsPerFSMPage"
      "InvalidBlockNumber \<le> (logpageno a * SlotsPerFSMPage + s) * SlotsPerFSMPage ^ level a"
    then have "(a, s) \<noteq> fsm_get_location 5" by (auto simp: fsm_get_location_def fsm_consts)
    then show "fsm_get_avail (fsm_page0 rel a) s = 0"
      using r(4) [OF a(1)] a(2) by (simp add: fsm_page0_empty fsm_zero_page_avail SlotsPerFSMPage_def)
  qed
  have "900 \<le> fst (GetRecordedFreeSpace rel 5)"
    using r(2,3) by (simp add: GetRecorded_cat fsm_rel_ok_def fsm_space_avail_to_cat_def fsm_space_cat_to_avail_def fsm_consts)
  moreover have "(5 :: nat) < InvalidBlockNumber" by (simp add: fsm_consts)
  ultimately show ?thesis
    using vacuum_makes_search_complete [OF r(2) rg, of 900] r(1) by (metis (no_types, lifting) fsm_900)
qed

text \<open>
  C24: After \<open>FreeSpaceMapVacuumRange\<close> every upper-level slot covering a heap block of the range
  holds the maximum of the page below it, and no slot outside the range and no bottom-level slot
  has changed, whatever the pages contained before.
\<close>

theorem vacuum_range_correct:
  assumes "fsm_rel_wf rel" and "start < en" and "en \<le> InvalidBlockNumber"
    and "fsm_addr_ok a" and "s < SlotsPerFSMPage"
  shows "fsm_get_avail (fsm_page0 (FreeSpaceMapVacuumRange rel start en) a) s =
           (if 0 < level a \<and> covered start (en - 1) a s
            then fsm_get_max_avail (fsm_page0 (FreeSpaceMapVacuumRange rel start en) (fsm_get_child a s))
            else fsm_get_avail (fsm_page0 rel a) s)"
  using fsm_vacuum_range_post [OF assms(1-3)] assms(4,5) subtree_root [OF assms(4)]
  unfolding vac_post_def vac_done_def by simp

theorem vacuum_range_correct_witness:
  "fsm_get_avail (fsm_page0 (FreeSpaceMapVacuumRange fsm_empty_rel 0 10) FSM_ROOT_ADDRESS) 4000 = 0"
  using vacuum_range_correct [OF fsm_empty_rel_ok(2) _ _ fsm_root_ok, of 0 10 4000]
  by (simp add: fsm_consts covered_def FSM_ROOT_ADDRESS_def fsm_page0_empty fsm_zero_page_avail fsm_sizes)

text \<open>
  C26: Truncating the map for a heap of \<open>n\<close> blocks forgets the recorded space of exactly the blocks
  from \<open>n\<close> on.
\<close>

theorem fsm_truncate_correct:
  assumes "fsm_rel_ok rel" and "n < 2 ^ 32" and "h < 2 ^ 32"
  shows "fsm_cat (truncate_fsm rel n) h = (if h < n then fsm_cat rel h else 0)"
  by (rule truncate_cat [OF assms])

theorem fsm_truncate_correct_witness: "fsm_cat (truncate_fsm fsm_empty_rel 3) 7 = 0"
  using fsm_truncate_correct [OF fsm_empty_rel_ok(1), of 3 7] by simp

end
