(* ===== verification/Bitmapset.thy ===== *)
theory Bitmapset
  imports Prelude
begin

text \<open>
  The generic integer-set package, \<^verbatim>\<open>src/src/backend/nodes/bitmapset.c\<close>.  A set is a pointer to a
  counted array of 64-bit words: \<open>None\<close> is \<^verbatim>\<open>NULL\<close>, and the length of the list is \<^verbatim>\<open>nwords\<close>.  The
  functions that recycle an input return the value the C function returns.  Members are C ints;
  a negative member is an error, as in the code.
\<close>

section \<open>Representation\<close>

type_synonym bitmapword = uint64
type_synonym Bitmapset = "bitmapword list"

abbreviation nwords :: "Bitmapset \<Rightarrow> nat" where "nwords a \<equiv> length a"

datatype bms_error = NegativeMember | SetIsEmpty | MultipleMembers

datatype BMS_Comparison = BMS_EQUAL | BMS_SUBSET1 | BMS_SUBSET2 | BMS_DIFFERENT

datatype BMS_Membership = BMS_EMPTY_SET | BMS_SINGLETON | BMS_MULTIPLE

definition BITS_PER_BITMAPWORD :: nat where "BITS_PER_BITMAPWORD = 64"
definition WORDNUM :: "int \<Rightarrow> nat" where "WORDNUM x = nat x div BITS_PER_BITMAPWORD"
definition BITNUM :: "int \<Rightarrow> nat" where "BITNUM x = nat x mod BITS_PER_BITMAPWORD"

definition RIGHTMOST_ONE :: "bitmapword \<Rightarrow> bitmapword" where "RIGHTMOST_ONE x = x AND - x"
definition HAS_MULTIPLE_ONES :: "bitmapword \<Rightarrow> bool" where "HAS_MULTIPLE_ONES x \<longleftrightarrow> RIGHTMOST_ONE x \<noteq> x"

text \<open>The bit-twiddling primitives of \<^verbatim>\<open>port/pg_bitutils.h\<close>, on words that are not zero.\<close>

definition bmw_rightmost_one_pos :: "bitmapword \<Rightarrow> nat" where
  "bmw_rightmost_one_pos w = length (takeWhile (\<lambda>i. \<not> bit w i) [0..<64])"

definition bmw_leftmost_one_pos :: "bitmapword \<Rightarrow> nat" where
  "bmw_leftmost_one_pos w = 63 - length (takeWhile (\<lambda>i. \<not> bit w i) (rev [0..<64]))"

definition bmw_popcount :: "bitmapword \<Rightarrow> nat" where
  "bmw_popcount w = length (filter (bit w) [0..<64])"

section \<open>Copy and comparison\<close>

definition bms_copy :: "Bitmapset option \<Rightarrow> Bitmapset option" where
  "bms_copy a = (case a of None \<Rightarrow> None | Some ws \<Rightarrow> Some ws)"

text \<open>The two loops of \<open>bms_equal\<close>: the common words, then the rest of the longer input.\<close>

fun equal_words :: "Bitmapset \<Rightarrow> Bitmapset \<Rightarrow> bool" where
  "equal_words (s # shorter) (l # longer) = (if s \<noteq> l then False else equal_words shorter longer)"
| "equal_words [] (l # longer) = (if l \<noteq> 0 then False else equal_words [] longer)"
| "equal_words _ [] = True"

definition bms_equal :: "Bitmapset option \<Rightarrow> Bitmapset option \<Rightarrow> bool" where
  "bms_equal a b =
     (case a of
        None \<Rightarrow> (case b of None \<Rightarrow> True | Some _ \<Rightarrow> False)
      | Some a \<Rightarrow> (case b of
          None \<Rightarrow> False
        | Some b \<Rightarrow> if nwords a \<le> nwords b then equal_words a b else equal_words b a))"

fun some_word :: "Bitmapset \<Rightarrow> bool" where
  "some_word [] = False"
| "some_word (w # ws) = (if w \<noteq> 0 then True else some_word ws)"

fun compare_down :: "nat \<Rightarrow> Bitmapset \<Rightarrow> Bitmapset \<Rightarrow> int" where
  "compare_down 0 a b = 0"
| "compare_down (Suc i) a b =
     (let aw = a ! i; bw = b ! i in
      if aw \<noteq> bw then (if aw > bw then 1 else - 1) else compare_down i a b)"

definition bms_compare :: "Bitmapset option \<Rightarrow> Bitmapset option \<Rightarrow> int" where
  "bms_compare a b =
     (case a of
        None \<Rightarrow> (case b of None \<Rightarrow> 0 | Some _ \<Rightarrow> - 1)
      | Some a \<Rightarrow> (case b of
          None \<Rightarrow> 1
        | Some b \<Rightarrow>
            let shortlen = min (nwords a) (nwords b) in
            if some_word (drop shortlen a) then 1
            else if some_word (drop shortlen b) then - 1
            else compare_down shortlen a b))"

section \<open>Constructing sets\<close>

definition bms_make_singleton :: "int \<Rightarrow> bms_error + Bitmapset option" where
  "bms_make_singleton x =
     (if x < 0 then Inl NegativeMember
      else Inr (Some ((replicate (WORDNUM x + 1) 0)[WORDNUM x := push_bit (BITNUM x) 1])))"

text \<open>\<^verbatim>\<open>for (i = 0; i < otherlen; i++) result->words[i] op= other->words[i]\<close>\<close>

fun or_words :: "Bitmapset \<Rightarrow> Bitmapset \<Rightarrow> Bitmapset" where
  "or_words (r # result) (w # other) = (r OR w) # or_words result other"
| "or_words result _ = result"

fun and_words :: "Bitmapset \<Rightarrow> Bitmapset \<Rightarrow> Bitmapset" where
  "and_words (r # result) (w # other) = (r AND w) # and_words result other"
| "and_words result _ = result"

fun andnot_words :: "Bitmapset \<Rightarrow> Bitmapset \<Rightarrow> Bitmapset" where
  "andnot_words (r # result) (w # other) = (r AND NOT w) # andnot_words result other"
| "andnot_words result _ = result"

fun bms_is_empty_internal :: "Bitmapset \<Rightarrow> bool" where
  "bms_is_empty_internal [] = True"
| "bms_is_empty_internal (w # ws) = (if w \<noteq> 0 then False else bms_is_empty_internal ws)"

definition bms_union :: "Bitmapset option \<Rightarrow> Bitmapset option \<Rightarrow> Bitmapset option" where
  "bms_union a b =
     (case a of None \<Rightarrow> bms_copy b | Some wa \<Rightarrow>
      case b of None \<Rightarrow> bms_copy a | Some wb \<Rightarrow>
        if nwords wa \<le> nwords wb then Some (or_words wb wa) else Some (or_words wa wb))"

definition bms_intersect :: "Bitmapset option \<Rightarrow> Bitmapset option \<Rightarrow> Bitmapset option" where
  "bms_intersect a b =
     (case a of None \<Rightarrow> None | Some wa \<Rightarrow>
      case b of None \<Rightarrow> None | Some wb \<Rightarrow>
        let result = (if nwords wa \<le> nwords wb then and_words wa wb else and_words wb wa)
        in if bms_is_empty_internal result then None else Some result)"

fun nonempty_diff_words :: "Bitmapset \<Rightarrow> Bitmapset \<Rightarrow> bool" where
  "nonempty_diff_words (a # as) (b # bs) = (if a AND NOT b \<noteq> 0 then True else nonempty_diff_words as bs)"
| "nonempty_diff_words (a # as) [] = (if a \<noteq> 0 then True else nonempty_diff_words as [])"
| "nonempty_diff_words [] _ = False"

definition bms_nonempty_difference :: "Bitmapset option \<Rightarrow> Bitmapset option \<Rightarrow> bool" where
  "bms_nonempty_difference a b =
     (case a of None \<Rightarrow> False | Some wa \<Rightarrow>
      case b of None \<Rightarrow> True | Some wb \<Rightarrow> nonempty_diff_words wa wb)"

definition bms_difference :: "Bitmapset option \<Rightarrow> Bitmapset option \<Rightarrow> Bitmapset option" where
  "bms_difference a b =
     (case a of None \<Rightarrow> None | Some wa \<Rightarrow>
      case b of None \<Rightarrow> bms_copy a | Some wb \<Rightarrow>
        if \<not> bms_nonempty_difference a b then None else Some (andnot_words wa wb))"

fun subset_words :: "Bitmapset \<Rightarrow> Bitmapset \<Rightarrow> bool" where
  "subset_words (a # as) (b # bs) = (if a AND NOT b \<noteq> 0 then False else subset_words as bs)"
| "subset_words (a # as) [] = (if a \<noteq> 0 then False else subset_words as [])"
| "subset_words [] _ = True"

definition bms_is_subset :: "Bitmapset option \<Rightarrow> Bitmapset option \<Rightarrow> bool" where
  "bms_is_subset a b =
     (case a of None \<Rightarrow> True | Some wa \<Rightarrow> case b of None \<Rightarrow> False | Some wb \<Rightarrow> subset_words wa wb)"

text \<open>
  The status of \<open>bms_subset_compare\<close> after one word shows that \<open>a\<close> is not a subset of \<open>b\<close>, or \<open>b\<close>
  not of \<open>a\<close>; \<open>None\<close> is the early \<^verbatim>\<open>return BMS_DIFFERENT\<close>.
\<close>

definition a_not_subset :: "BMS_Comparison \<Rightarrow> BMS_Comparison option" where
  "a_not_subset result = (if result = BMS_SUBSET1 then None else Some BMS_SUBSET2)"

definition b_not_subset :: "BMS_Comparison \<Rightarrow> BMS_Comparison option" where
  "b_not_subset result = (if result = BMS_SUBSET2 then None else Some BMS_SUBSET1)"

fun subset_compare_words :: "BMS_Comparison \<Rightarrow> Bitmapset \<Rightarrow> Bitmapset \<Rightarrow> BMS_Comparison" where
  "subset_compare_words result (a # as) (b # bs) =
     (case (if a AND NOT b \<noteq> 0 then a_not_subset result else Some result) of
        None \<Rightarrow> BMS_DIFFERENT
      | Some result \<Rightarrow>
          (case (if b AND NOT a \<noteq> 0 then b_not_subset result else Some result) of
             None \<Rightarrow> BMS_DIFFERENT
           | Some result \<Rightarrow> subset_compare_words result as bs))"
| "subset_compare_words result (a # as) [] =
     (case (if a \<noteq> 0 then a_not_subset result else Some result) of
        None \<Rightarrow> BMS_DIFFERENT | Some result \<Rightarrow> subset_compare_words result as [])"
| "subset_compare_words result [] (b # bs) =
     (case (if b \<noteq> 0 then b_not_subset result else Some result) of
        None \<Rightarrow> BMS_DIFFERENT | Some result \<Rightarrow> subset_compare_words result [] bs)"
| "subset_compare_words result [] [] = result"

definition bms_subset_compare :: "Bitmapset option \<Rightarrow> Bitmapset option \<Rightarrow> BMS_Comparison" where
  "bms_subset_compare a b =
     (case a of
        None \<Rightarrow> (case b of None \<Rightarrow> BMS_EQUAL | Some _ \<Rightarrow> BMS_SUBSET1)
      | Some wa \<Rightarrow> (case b of None \<Rightarrow> BMS_SUBSET2 | Some wb \<Rightarrow> subset_compare_words BMS_EQUAL wa wb))"

section \<open>Queries\<close>

definition bms_is_member :: "int \<Rightarrow> Bitmapset option \<Rightarrow> bms_error + bool" where
  "bms_is_member x a =
     (if x < 0 then Inl NegativeMember
      else case a of None \<Rightarrow> Inr False | Some ws \<Rightarrow>
        if WORDNUM x \<ge> nwords ws then Inr False
        else Inr (ws ! WORDNUM x AND push_bit (BITNUM x) 1 \<noteq> 0))"

fun count_words :: "Bitmapset \<Rightarrow> nat \<Rightarrow> nat" where
  "count_words [] result = result"
| "count_words (w # ws) result = count_words ws (if w \<noteq> 0 then result + bmw_popcount w else result)"

definition bms_member_index :: "Bitmapset option \<Rightarrow> int \<Rightarrow> bms_error + int" where
  "bms_member_index a x =
     (case bms_is_member x a of
        Inl e \<Rightarrow> Inl e
      | Inr False \<Rightarrow> Inr (- 1)
      | Inr True \<Rightarrow>
          let ws = the a;
              result = count_words (take (WORDNUM x) ws) 0;
              msk = push_bit (BITNUM x) 1 - 1
          in Inr (int (result + bmw_popcount (ws ! WORDNUM x AND msk))))"

fun overlap_words :: "Bitmapset \<Rightarrow> Bitmapset \<Rightarrow> bool" where
  "overlap_words (a # as) (b # bs) = (if a AND b \<noteq> 0 then True else overlap_words as bs)"
| "overlap_words _ _ = False"

definition bms_overlap :: "Bitmapset option \<Rightarrow> Bitmapset option \<Rightarrow> bool" where
  "bms_overlap a b =
     (case a of None \<Rightarrow> False | Some wa \<Rightarrow> case b of None \<Rightarrow> False | Some wb \<Rightarrow> overlap_words wa wb)"

fun overlap_list_loop :: "Bitmapset \<Rightarrow> int list \<Rightarrow> bms_error + bool" where
  "overlap_list_loop ws [] = Inr False"
| "overlap_list_loop ws (x # xs) =
     (if x < 0 then Inl NegativeMember
      else if WORDNUM x < nwords ws \<and> ws ! WORDNUM x AND push_bit (BITNUM x) 1 \<noteq> 0 then Inr True
      else overlap_list_loop ws xs)"

definition bms_overlap_list :: "Bitmapset option \<Rightarrow> int list \<Rightarrow> bms_error + bool" where
  "bms_overlap_list a b =
     (case a of None \<Rightarrow> Inr False | Some ws \<Rightarrow> if b = [] then Inr False else overlap_list_loop ws b)"

text \<open>\<open>None\<close> is the exit on a second member; the result \<open>-1\<close> is no member so far.\<close>

fun singleton_loop :: "nat \<Rightarrow> Bitmapset \<Rightarrow> int \<Rightarrow> int option" where
  "singleton_loop wordnum [] result = Some result"
| "singleton_loop wordnum (w # ws) result =
     (if w \<noteq> 0 then
        if result \<ge> 0 \<or> HAS_MULTIPLE_ONES w then None
        else singleton_loop (wordnum + 1) ws
               (int (wordnum * BITS_PER_BITMAPWORD) + int (bmw_rightmost_one_pos w))
      else singleton_loop (wordnum + 1) ws result)"

definition bms_singleton_member :: "Bitmapset option \<Rightarrow> bms_error + int" where
  "bms_singleton_member a =
     (case a of None \<Rightarrow> Inl SetIsEmpty | Some ws \<Rightarrow>
      case singleton_loop 0 ws (- 1) of
        None \<Rightarrow> Inl MultipleMembers
      | Some result \<Rightarrow> if result < 0 then Inl SetIsEmpty else Inr result)"

definition bms_get_singleton_member :: "Bitmapset option \<Rightarrow> int option" where
  "bms_get_singleton_member a =
     (case a of None \<Rightarrow> None | Some ws \<Rightarrow>
      case singleton_loop 0 ws (- 1) of
        None \<Rightarrow> None
      | Some result \<Rightarrow> if result < 0 then None else Some result)"

definition bms_num_members :: "Bitmapset option \<Rightarrow> nat" where
  "bms_num_members a = (case a of None \<Rightarrow> 0 | Some ws \<Rightarrow> count_words ws 0)"

fun membership_loop :: "Bitmapset \<Rightarrow> BMS_Membership \<Rightarrow> BMS_Membership" where
  "membership_loop [] result = result"
| "membership_loop (w # ws) result =
     (if w \<noteq> 0 then
        if result \<noteq> BMS_EMPTY_SET \<or> HAS_MULTIPLE_ONES w then BMS_MULTIPLE
        else membership_loop ws BMS_SINGLETON
      else membership_loop ws result)"

definition bms_membership :: "Bitmapset option \<Rightarrow> BMS_Membership" where
  "bms_membership a = (case a of None \<Rightarrow> BMS_EMPTY_SET | Some ws \<Rightarrow> membership_loop ws BMS_EMPTY_SET)"

section \<open>Operations that recycle their input\<close>

definition enlarge :: "Bitmapset \<Rightarrow> nat \<Rightarrow> Bitmapset" where
  "enlarge ws wordnum = (if wordnum \<ge> nwords ws then ws @ replicate (wordnum + 1 - nwords ws) 0 else ws)"

definition bms_add_member :: "Bitmapset option \<Rightarrow> int \<Rightarrow> bms_error + Bitmapset option" where
  "bms_add_member a x =
     (if x < 0 then Inl NegativeMember
      else case a of None \<Rightarrow> bms_make_singleton x | Some ws \<Rightarrow>
        let ws = enlarge ws (WORDNUM x)
        in Inr (Some (ws[WORDNUM x := ws ! WORDNUM x OR push_bit (BITNUM x) 1])))"

definition bms_del_member :: "Bitmapset option \<Rightarrow> int \<Rightarrow> bms_error + Bitmapset option" where
  "bms_del_member a x =
     (if x < 0 then Inl NegativeMember
      else case a of None \<Rightarrow> Inr None | Some ws \<Rightarrow>
        let ws = (if WORDNUM x < nwords ws
                  then ws[WORDNUM x := ws ! WORDNUM x AND NOT (push_bit (BITNUM x) 1)] else ws)
        in if bms_is_empty_internal ws then Inr None else Inr (Some ws))"

definition bms_add_members :: "Bitmapset option \<Rightarrow> Bitmapset option \<Rightarrow> Bitmapset option" where
  "bms_add_members a b =
     (case a of None \<Rightarrow> bms_copy b | Some wa \<Rightarrow>
      case b of None \<Rightarrow> a | Some wb \<Rightarrow>
        if nwords wa < nwords wb then Some (or_words wb wa) else Some (or_words wa wb))"

fun fill_words :: "nat \<Rightarrow> nat \<Rightarrow> Bitmapset \<Rightarrow> Bitmapset" where
  "fill_words wordnum 0 ws = ws"
| "fill_words wordnum (Suc k) ws = fill_words (wordnum + 1) k (ws[wordnum := NOT 0])"

definition bms_add_range :: "Bitmapset option \<Rightarrow> int \<Rightarrow> int \<Rightarrow> bms_error + Bitmapset option" where
  "bms_add_range a lower upper =
     (if upper < lower then Inr a
      else if lower < 0 then Inl NegativeMember
      else
        let uwordnum = WORDNUM upper;
            ws = (case a of None \<Rightarrow> replicate (uwordnum + 1) 0 | Some ws \<Rightarrow> enlarge ws uwordnum);
            lwordnum = WORDNUM lower;
            lbitnum = BITNUM lower;
            ushiftbits = BITS_PER_BITMAPWORD - (BITNUM upper + 1)
        in if lwordnum = uwordnum then
             Inr (Some (ws[lwordnum := ws ! lwordnum OR
               (NOT (push_bit lbitnum 1 - 1) AND drop_bit ushiftbits (NOT 0))]))
           else
             let ws = ws[lwordnum := ws ! lwordnum OR NOT (push_bit lbitnum 1 - 1)];
                 ws = fill_words (lwordnum + 1) (uwordnum - (lwordnum + 1)) ws
             in Inr (Some (ws[uwordnum := ws ! uwordnum OR drop_bit ushiftbits (NOT 0)])))"

definition bms_int_members :: "Bitmapset option \<Rightarrow> Bitmapset option \<Rightarrow> Bitmapset option" where
  "bms_int_members a b =
     (case a of None \<Rightarrow> None | Some wa \<Rightarrow>
      case b of None \<Rightarrow> None | Some wb \<Rightarrow>
        let shortlen = min (nwords wa) (nwords wb);
            ws = and_words (take shortlen wa) wb @ replicate (nwords wa - shortlen) 0
        in if bms_is_empty_internal ws then None else Some ws)"

definition bms_del_members :: "Bitmapset option \<Rightarrow> Bitmapset option \<Rightarrow> Bitmapset option" where
  "bms_del_members a b =
     (case a of None \<Rightarrow> None | Some wa \<Rightarrow>
      case b of None \<Rightarrow> a | Some wb \<Rightarrow>
        let ws = andnot_words wa wb in if bms_is_empty_internal ws then None else Some ws)"

definition bms_join :: "Bitmapset option \<Rightarrow> Bitmapset option \<Rightarrow> Bitmapset option" where
  "bms_join a b =
     (case a of None \<Rightarrow> b | Some wa \<Rightarrow>
      case b of None \<Rightarrow> a | Some wb \<Rightarrow>
        if nwords wa < nwords wb then Some (or_words wb wa) else Some (or_words wa wb))"

section \<open>Iteration and hashing\<close>

fun next_loop :: "nat \<Rightarrow> Bitmapset \<Rightarrow> bitmapword \<Rightarrow> int" where
  "next_loop wordnum [] msk = - 2"
| "next_loop wordnum (w # ws) msk =
     (let w = w AND msk in
      if w \<noteq> 0 then int (wordnum * BITS_PER_BITMAPWORD) + int (bmw_rightmost_one_pos w)
      else next_loop (wordnum + 1) ws (NOT 0))"

definition bms_next_member :: "Bitmapset option \<Rightarrow> int \<Rightarrow> int" where
  "bms_next_member a prevbit =
     (case a of None \<Rightarrow> - 2 | Some ws \<Rightarrow>
        let prevbit = prevbit + 1;
            msk = push_bit (BITNUM prevbit) (NOT 0)
        in next_loop (WORDNUM prevbit) (drop (WORDNUM prevbit) ws) msk)"

text \<open>The downward loop; the first argument is \<^verbatim>\<open>wordnum + 1\<close>.\<close>

fun prev_loop :: "nat \<Rightarrow> Bitmapset \<Rightarrow> bitmapword \<Rightarrow> int" where
  "prev_loop 0 ws msk = - 2"
| "prev_loop (Suc wordnum) ws msk =
     (let w = ws ! wordnum AND msk in
      if w \<noteq> 0 then int (wordnum * BITS_PER_BITMAPWORD) + int (bmw_leftmost_one_pos w)
      else prev_loop wordnum ws (NOT 0))"

definition bms_prev_member :: "Bitmapset option \<Rightarrow> int \<Rightarrow> int" where
  "bms_prev_member a prevbit =
     (case a of None \<Rightarrow> - 2 | Some ws \<Rightarrow>
        if prevbit = 0 then - 2
        else
          let prevbit = (if prevbit = - 1 then int (nwords ws * BITS_PER_BITMAPWORD) - 1 else prevbit - 1);
              ushiftbits = BITS_PER_BITMAPWORD - (BITNUM prevbit + 1);
              msk = drop_bit ushiftbits (NOT 0)
          in prev_loop (WORDNUM prevbit + 1) ws msk)"

text \<open>\<^verbatim>\<open>hash_any\<close> is an argument: the hash of the given words.\<close>

fun last_word :: "nat \<Rightarrow> Bitmapset \<Rightarrow> nat option" where
  "last_word 0 ws = None"
| "last_word (Suc lastword) ws = (if ws ! lastword \<noteq> 0 then Some lastword else last_word lastword ws)"

definition bms_hash_value :: "(bitmapword list \<Rightarrow> uint32) \<Rightarrow> Bitmapset option \<Rightarrow> uint32" where
  "bms_hash_value hash_any a =
     (case a of None \<Rightarrow> 0 | Some ws \<Rightarrow>
      case last_word (nwords ws) ws of
        None \<Rightarrow> 0
      | Some lastword \<Rightarrow> hash_any (take (lastword + 1) ws))"

definition bitmap_match :: "Bitmapset option \<Rightarrow> Bitmapset option \<Rightarrow> int" where
  "bitmap_match key1 key2 = (if bms_equal key1 key2 then 0 else 1)"

section \<open>Sets represented by words\<close>

text \<open>Word \<open>i\<close> of the infinite word sequence that a set stands for.\<close>

definition wd :: "Bitmapset \<Rightarrow> nat \<Rightarrow> bitmapword" where
  "wd ws i = (if i < length ws then ws ! i else 0)"

definition words_of :: "Bitmapset option \<Rightarrow> nat \<Rightarrow> bitmapword" where
  "words_of a = (case a of None \<Rightarrow> (\<lambda>_. 0) | Some ws \<Rightarrow> wd ws)"

definition bms_set :: "Bitmapset option \<Rightarrow> nat set" where
  "bms_set a = {n. bit (words_of a (n div 64)) (n mod 64)}"

text \<open>The representation invariant: the empty set is \<^verbatim>\<open>NULL\<close> and nothing else.\<close>

definition bms_valid :: "Bitmapset option \<Rightarrow> bool" where
  "bms_valid a = (case a of None \<Rightarrow> True | Some ws \<Rightarrow> \<not> bms_is_empty_internal ws)"

lemma wd_simps [simp]: "wd [] i = 0" "wd (w # ws) 0 = w" "wd (w # ws) (Suc i) = wd ws i"
  by (simp_all add: wd_def)

lemma words_of_simps [simp]: "words_of None i = 0" "words_of (Some ws) = wd ws"
  by (simp_all add: words_of_def)

lemma all_nat_Suc: "(\<forall>i. P i) \<longleftrightarrow> P 0 \<and> (\<forall>i. P (Suc i))"
  by (metis not0_implies_Suc)

lemma ex_nat_Suc: "(\<exists>i. P i) \<longleftrightarrow> P 0 \<or> (\<exists>i. P (Suc i))"
  by (metis not0_implies_Suc)

lemma bms_set_None [simp]: "bms_set None = {}"
  by (simp add: bms_set_def)

lemma mem_bms_set: "n \<in> bms_set a \<longleftrightarrow> bit (words_of a (n div 64)) (n mod 64)"
  by (simp add: bms_set_def)

lemma word_nonzero_iff: "(w :: bitmapword) \<noteq> 0 \<longleftrightarrow> (\<exists>k < 64. bit w k)"
  by (auto simp: bit_eq_iff)

lemma bit_lt64: "bit (w :: bitmapword) k \<Longrightarrow> k < 64"
  using bit_imp_le_length [of w k] by simp

lemma ex_div_mod: "(\<exists>i. \<exists>k < 64. P i k) \<longleftrightarrow> (\<exists>n. P (n div 64) (n mod (64 :: nat)))"
proof
  assume "\<exists>i. \<exists>k < 64. P i k"
  then obtain i k where "k < 64" "P i k" by blast
  then have "P ((i * 64 + k) div 64) ((i * 64 + k) mod 64)" by simp
  then show "\<exists>n. P (n div 64) (n mod 64)" by blast
next
  assume "\<exists>n. P (n div 64) (n mod 64)"
  then show "\<exists>i. \<exists>k < 64. P i k" by (metis mod_less_divisor zero_less_numeral)
qed

lemma ex_word_nonzero:
  "(\<exists>i. f i \<noteq> (0 :: bitmapword)) \<longleftrightarrow> (\<exists>n. bit (f (n div 64)) (n mod 64))"
  unfolding word_nonzero_iff by (rule ex_div_mod)

lemma all_word_zero:
  "(\<forall>i. f i = (0 :: bitmapword)) \<longleftrightarrow> (\<forall>n. \<not> bit (f (n div 64)) (n mod 64))"
  using ex_word_nonzero [of f] by blast

lemma words_eq_iff: "words_of a = words_of b \<longleftrightarrow> bms_set a = bms_set b"
proof -
  have eq: "w = v \<longleftrightarrow> \<not> (\<exists>k < 64. bit w k \<noteq> bit v k)" for w v :: bitmapword by (auto simp: bit_eq_iff)
  have "words_of a = words_of b \<longleftrightarrow> \<not> (\<exists>i. \<exists>k < 64. bit (words_of a i) k \<noteq> bit (words_of b i) k)"
    unfolding fun_eq_iff eq by blast
  also have "\<dots> \<longleftrightarrow> bms_set a = bms_set b" unfolding ex_div_mod by (auto simp: bms_set_def)
  finally show ?thesis .
qed

lemma is_empty_internal_iff: "bms_is_empty_internal ws \<longleftrightarrow> (\<forall>i. wd ws i = 0)"
  by (induction ws) (simp_all add: all_nat_Suc [of "\<lambda>i. wd (_ # _) i = 0"])

lemma is_empty_internal_set: "bms_is_empty_internal ws \<longleftrightarrow> bms_set (Some ws) = {}"
  using all_word_zero [of "wd ws"] by (auto simp: is_empty_internal_iff bms_set_def)

lemma bms_valid_iff: "bms_valid a \<longleftrightarrow> (bms_set a = {} \<longrightarrow> a = None)"
  by (cases a) (auto simp: bms_valid_def is_empty_internal_set)

lemma some_word_iff: "some_word ws \<longleftrightarrow> (\<exists>i. wd ws i \<noteq> 0)"
  by (induction ws) (simp_all add: ex_nat_Suc [of "\<lambda>i. wd (_ # _) i \<noteq> 0"])

lemma wd_Cons_eq: "wd (a # as) = wd (b # bs) \<longleftrightarrow> a = b \<and> wd as = wd bs"
  unfolding fun_eq_iff by (subst all_nat_Suc) simp

lemma wd_Nil_eq: "wd [] = wd (b # bs) \<longleftrightarrow> b = 0 \<and> wd [] = wd bs"
  unfolding fun_eq_iff by (subst all_nat_Suc) auto

lemma equal_words_iff: "length a \<le> length b \<Longrightarrow> equal_words a b \<longleftrightarrow> wd a = wd b"
  by (induction a b rule: equal_words.induct) (simp_all add: wd_Cons_eq wd_Nil_eq)

lemma wd_or_words: "wd (or_words r w) i = (if i < length r then wd r i OR wd w i else 0)"
proof (induction r w arbitrary: i rule: or_words.induct)
  case (1 r rs w ws)
  then show ?case by (cases i) simp_all
qed (auto simp: wd_def)

lemma wd_and_words: "wd (and_words r w) i = (if i < length w then wd r i AND wd w i else wd r i)"
proof (induction r w arbitrary: i rule: and_words.induct)
  case (1 r rs w ws)
  then show ?case by (cases i) simp_all
qed (auto simp: wd_def)

lemma wd_andnot_words: "wd (andnot_words r w) i = wd r i AND NOT (wd w i)"
proof (induction r w arbitrary: i rule: andnot_words.induct)
  case (1 r rs w ws)
  then show ?case by (cases i) simp_all
qed (auto simp: wd_def)

lemma length_or_words [simp]: "length (or_words r w) = length r"
  by (induction r w rule: or_words.induct) simp_all

lemma nonempty_diff_iff: "nonempty_diff_words a b \<longleftrightarrow> (\<exists>i. wd a i AND NOT (wd b i) \<noteq> 0)"
  by (induction a b rule: nonempty_diff_words.induct)
    (simp_all add: ex_nat_Suc [of "\<lambda>i. wd (_ # _) i AND _ i \<noteq> 0"] ex_nat_Suc [of "\<lambda>i. wd (_ # _) i \<noteq> 0"])

lemma subset_words_iff: "subset_words a b \<longleftrightarrow> \<not> nonempty_diff_words a b"
  by (induction a b rule: subset_words.induct) simp_all

lemma overlap_words_iff: "overlap_words a b \<longleftrightarrow> (\<exists>i. wd a i AND wd b i \<noteq> 0)"
  by (induction a b rule: overlap_words.induct)
    (simp_all add: ex_nat_Suc [of "\<lambda>i. wd (_ # _) i AND _ i \<noteq> 0"])

section \<open>The operations on sets\<close>

lemma bms_setI: "(\<And>i. words_of c i = f i) \<Longrightarrow> bms_set c = {n. bit (f (n div 64)) (n mod 64)}"
  by (simp add: bms_set_def)

lemma bms_set_empty_case:
  "bms_set (if bms_is_empty_internal ws then None else Some ws) = bms_set (Some ws)"
  "bms_valid (if bms_is_empty_internal ws then None else Some ws)"
  by (simp_all add: is_empty_internal_set bms_valid_def)

lemma or_words_set:
  assumes "length b \<le> length a"
  shows "bms_set (Some (or_words a b)) = bms_set (Some a) \<union> bms_set (Some b)"
proof -
  have "wd (or_words a b) i = wd a i OR wd b i" for i using assms by (simp add: wd_or_words) (simp add: wd_def)
  then show ?thesis by (auto simp: mem_bms_set bit_or_iff)
qed

lemma and_words_set:
  assumes "length a \<le> length b"
  shows "bms_set (Some (and_words a b)) = bms_set (Some a) \<inter> bms_set (Some b)"
proof -
  have "wd (and_words a b) i = wd a i AND wd b i" for i using assms by (simp add: wd_and_words) (simp add: wd_def)
  then show ?thesis by (auto simp: mem_bms_set bit_and_iff)
qed

lemma andnot_words_set: "bms_set (Some (andnot_words a b)) = bms_set (Some a) - bms_set (Some b)"
  by (auto simp: mem_bms_set wd_andnot_words bit_and_iff bit_not_iff)

lemma valid_mono: "bms_valid (Some a) \<Longrightarrow> bms_set (Some a) \<subseteq> bms_set (Some b) \<Longrightarrow> bms_valid (Some b)"
  by (auto simp: bms_valid_iff)

lemma bms_copy_id [simp]: "bms_copy a = a"
  by (simp add: bms_copy_def split: option.split)

lemma bms_union_set:
  "bms_set (bms_union a b) = bms_set a \<union> bms_set b"
  "bms_valid a \<Longrightarrow> bms_valid b \<Longrightarrow> bms_valid (bms_union a b)"
  by (auto simp: bms_union_def or_words_set bms_valid_iff split: option.splits)

lemma bms_add_members_set:
  "bms_set (bms_add_members a b) = bms_set a \<union> bms_set b"
  "bms_valid a \<Longrightarrow> bms_valid b \<Longrightarrow> bms_valid (bms_add_members a b)"
  by (auto simp: bms_add_members_def or_words_set bms_valid_iff split: option.splits)

lemma bms_join_set:
  "bms_set (bms_join a b) = bms_set a \<union> bms_set b"
  "bms_valid a \<Longrightarrow> bms_valid b \<Longrightarrow> bms_valid (bms_join a b)"
  by (auto simp: bms_join_def or_words_set bms_valid_iff split: option.splits)

lemma bms_intersect_set:
  "bms_set (bms_intersect a b) = bms_set a \<inter> bms_set b" "bms_valid (bms_intersect a b)"
  by (auto simp: bms_intersect_def bms_set_empty_case and_words_set Let_def bms_valid_def split: option.splits)

lemma bms_int_members_set:
  "bms_set (bms_int_members a b) = bms_set a \<inter> bms_set b" "bms_valid (bms_int_members a b)"
proof -
  have w: "wd (and_words (take (min (length x) (length y)) x) y @ replicate (length x - min (length x) (length y)) 0) i =
      wd x i AND wd y i" for x y i
  proof (induction x y arbitrary: i rule: and_words.induct)
    case (1 r rs w ws)
    then show ?case by (cases i) simp_all
  qed (simp_all add: wd_def)
  show "bms_set (bms_int_members a b) = bms_set a \<inter> bms_set b"
    by (auto simp: bms_int_members_def bms_set_empty_case Let_def mem_bms_set w bit_and_iff split: option.splits)
  show "bms_valid (bms_int_members a b)"
    by (auto simp: bms_int_members_def bms_set_empty_case Let_def bms_valid_def split: option.splits)
qed

lemma nonempty_diff_set: "nonempty_diff_words a b \<longleftrightarrow> bms_set (Some a) - bms_set (Some b) \<noteq> {}"
  unfolding nonempty_diff_iff ex_word_nonzero by (auto simp: mem_bms_set bit_and_iff bit_not_iff)

lemma bms_nonempty_difference_set:
  "bms_valid a \<Longrightarrow> bms_nonempty_difference a b \<longleftrightarrow> bms_set a - bms_set b \<noteq> {}"
  by (auto simp: bms_nonempty_difference_def nonempty_diff_set bms_valid_def is_empty_internal_set split: option.splits)

lemma bms_difference_set:
  assumes "bms_valid a"
  shows "bms_set (bms_difference a b) = bms_set a - bms_set b" "bms_valid (bms_difference a b)"
proof -
  have "bms_set (bms_difference a b) = bms_set a - bms_set b \<and> bms_valid (bms_difference a b)"
    using bms_nonempty_difference_set [OF assms, of b] assms
    by (auto simp: bms_difference_def andnot_words_set bms_valid_iff split: option.splits)
  then show "bms_set (bms_difference a b) = bms_set a - bms_set b" "bms_valid (bms_difference a b)" by simp_all
qed

lemma bms_del_members_set:
  "bms_set (bms_del_members a b) = bms_set a - bms_set b" "bms_valid a \<Longrightarrow> bms_valid (bms_del_members a b)"
  by (auto simp: bms_del_members_def bms_set_empty_case andnot_words_set Let_def bms_valid_def split: option.splits)

lemma bms_is_subset_set: "bms_valid a \<Longrightarrow> bms_is_subset a b \<longleftrightarrow> bms_set a \<subseteq> bms_set b"
  by (auto simp: bms_is_subset_def subset_words_iff nonempty_diff_set bms_valid_def is_empty_internal_set split: option.splits)

lemma bms_overlap_set: "bms_overlap a b \<longleftrightarrow> bms_set a \<inter> bms_set b \<noteq> {}"
proof -
  have "overlap_words x y \<longleftrightarrow> bms_set (Some x) \<inter> bms_set (Some y) \<noteq> {}" for x y
    unfolding overlap_words_iff ex_word_nonzero by (auto simp: mem_bms_set bit_and_iff)
  then show ?thesis by (simp add: bms_overlap_def split: option.split)
qed

lemma bms_equal_set:
  assumes "bms_valid a" "bms_valid b"
  shows "bms_equal a b \<longleftrightarrow> bms_set a = bms_set b"
proof -
  have "equal_words x y \<longleftrightarrow> bms_set (Some x) = bms_set (Some y)" if "length x \<le> length y" for x y
    using equal_words_iff [OF that] words_eq_iff [of "Some x" "Some y"] by simp
  then show ?thesis
    using assms by (auto simp: bms_equal_def bms_valid_def is_empty_internal_set split: option.splits)
qed

lemma WORDNUM_BITNUM: "0 \<le> x \<Longrightarrow> WORDNUM x = nat x div 64 \<and> BITNUM x = nat x mod 64"
  by (simp add: WORDNUM_def BITNUM_def BITS_PER_BITMAPWORD_def)

lemma push_bit_1_iff: "k < 64 \<Longrightarrow> bit (2 ^ k :: bitmapword) i \<longleftrightarrow> i = k"
  by (auto simp: bit_exp_iff)

lemma and_push_bit: "k < 64 \<Longrightarrow> (w :: bitmapword) AND 2 ^ k = 0 \<longleftrightarrow> \<not> bit w k"
  using word_nonzero_iff [of "w AND 2 ^ k"] by (auto simp: bit_and_iff push_bit_1_iff)

lemma bms_is_member_set: "bms_is_member x a = (if x < 0 then Inl NegativeMember else Inr (nat x \<in> bms_set a))"
  by (auto simp: bms_is_member_def WORDNUM_BITNUM mem_bms_set and_push_bit wd_def split: option.splits)

lemma set_bit_set:
  assumes "\<And>i. wd ws' i = (if i = n div 64 then wd ws i OR 2 ^ (n mod 64) else wd ws i)"
  shows "bms_set (Some ws') = insert n (bms_set (Some ws))"
proof (rule set_eqI)
  fix m
  have "m = n \<longleftrightarrow> m div 64 = n div 64 \<and> m mod 64 = n mod 64" by (metis div_mult_mod_eq)
  then show "m \<in> bms_set (Some ws') \<longleftrightarrow> m \<in> insert n (bms_set (Some ws))"
    by (auto simp: mem_bms_set assms bit_or_iff push_bit_1_iff)
qed

lemma clear_bit_set:
  assumes "\<And>i. wd ws' i = (if i = n div 64 then wd ws i AND NOT (2 ^ (n mod 64)) else wd ws i)"
  shows "bms_set (Some ws') = bms_set (Some ws) - {n}"
proof (rule set_eqI)
  fix m
  have "m = n \<longleftrightarrow> m div 64 = n div 64 \<and> m mod 64 = n mod 64" by (metis div_mult_mod_eq)
  then show "m \<in> bms_set (Some ws') \<longleftrightarrow> m \<in> bms_set (Some ws) - {n}"
    by (auto simp: mem_bms_set assms bit_and_iff bit_not_iff push_bit_1_iff)
qed

lemma wd_enlarge: "wd (enlarge ws k) i = wd ws i" "k < length (enlarge ws k)" "length ws \<le> length (enlarge ws k)"
  by (auto simp: enlarge_def wd_def nth_append)

lemma wd_replicate [simp]: "wd (replicate k 0) i = 0"
  by (simp add: wd_def)

lemma wd_update: "k < length ws \<Longrightarrow> wd (ws[k := w]) i = (if i = k then w else wd ws i)"
  by (auto simp: wd_def)

lemma bms_make_singleton_set:
  "bms_make_singleton x = (if x < 0 then Inl NegativeMember else Inr (Some (the (projr (bms_make_singleton x)))))"
  "0 \<le> x \<Longrightarrow> bms_set (projr (bms_make_singleton x)) = {nat x}"
proof -
  assume x: "0 \<le> x"
  have "bms_set (Some ((replicate (nat x div 64 + 1) 0)[nat x div 64 := push_bit (nat x mod 64) 1])) =
      insert (nat x) (bms_set (Some (replicate (nat x div 64 + 1) 0)))"
    by (rule set_bit_set) (simp add: wd_update del: replicate_Suc)
  then show "bms_set (projr (bms_make_singleton x)) = {nat x}"
    using x by (simp add: bms_make_singleton_def WORDNUM_BITNUM mem_bms_set set_eq_iff del: replicate_Suc)
qed (simp add: bms_make_singleton_def)

lemma bms_add_member_set:
  "x < 0 \<Longrightarrow> bms_add_member a x = Inl NegativeMember"
  "0 \<le> x \<Longrightarrow> \<exists>c. bms_add_member a x = Inr c \<and> bms_set c = insert (nat x) (bms_set a) \<and> bms_valid c"
proof -
  assume x: "0 \<le> x"
  show "\<exists>c. bms_add_member a x = Inr c \<and> bms_set c = insert (nat x) (bms_set a) \<and> bms_valid c"
  proof (cases a)
    case None
    then show ?thesis
      using x bms_make_singleton_set by (auto simp: bms_add_member_def bms_valid_iff) (simp add: bms_make_singleton_def)
  next
    case (Some ws)
    let ?e = "enlarge ws (nat x div 64)"
    let ?c = "?e[nat x div 64 := ?e ! (nat x div 64) OR push_bit (nat x mod 64) 1]"
    have "bms_set (Some ?c) = insert (nat x) (bms_set (Some ?e))"
      by (rule set_bit_set) (auto simp: wd_update wd_enlarge wd_def)
    moreover have "bms_set (Some ?e) = bms_set (Some ws)" by (simp add: bms_set_def wd_enlarge)
    ultimately show ?thesis
      using x Some by (auto simp: bms_add_member_def WORDNUM_BITNUM bms_valid_iff Let_def)
  qed
qed (simp add: bms_add_member_def)

lemma bms_del_member_set:
  "x < 0 \<Longrightarrow> bms_del_member a x = Inl NegativeMember"
  "0 \<le> x \<Longrightarrow> \<exists>c. bms_del_member a x = Inr c \<and> bms_set c = bms_set a - {nat x} \<and> bms_valid c"
proof -
  assume x: "0 \<le> x"
  show "\<exists>c. bms_del_member a x = Inr c \<and> bms_set c = bms_set a - {nat x} \<and> bms_valid c"
  proof (cases a)
    case None
    then show ?thesis using x by (simp add: bms_del_member_def bms_valid_def)
  next
    case (Some ws)
    let ?k = "nat x div 64" and ?b = "nat x mod 64"
    let ?c = "if ?k < length ws then ws[?k := ws ! ?k AND NOT (push_bit ?b 1)] else ws"
    have "bms_set (Some ?c) = bms_set (Some ws) - {nat x}"
      by (rule clear_bit_set) (auto simp: wd_update wd_def)
    then show ?thesis
      using x Some bms_set_empty_case [of ?c]
      by (auto simp: bms_del_member_def WORDNUM_BITNUM Let_def split: if_splits)
  qed
qed (simp add: bms_del_member_def)

section \<open>Single words\<close>

abbreviation word_bits :: "bitmapword \<Rightarrow> nat set" where "word_bits w \<equiv> {k. bit w k}"

lemma finite_word_bits [simp]: "finite (word_bits w)"
  by (rule finite_subset [of _ "{..<64}"]) (auto dest: bit_lt64)

lemma word_bits_empty: "word_bits w = {} \<longleftrightarrow> w = 0"
  using word_nonzero_iff [of w] bit_lt64 by blast

lemma Collect_bot [simp]: "Collect bot = {}"
  by (simp add: bot_fun_def)

lemma bmw_popcount_card: "bmw_popcount w = card (word_bits w)"
proof -
  have "bmw_popcount w = card {i. i < 64 \<and> bit w ([0..<64] ! i)}"
    by (simp add: bmw_popcount_def length_filter_conv_card)
  also have "{i. i < 64 \<and> bit w ([0..<64] ! i)} = word_bits w"
  proof (rule Collect_cong)
    show "i < 64 \<and> bit w ([0..<64] ! i) \<longleftrightarrow> bit w i" for i using bit_lt64 [of w i] by (cases "i < 64") auto
  qed
  finally show ?thesis .
qed

lemma bmw_rightmost_one_pos_Min:
  assumes "w \<noteq> 0"
  shows "bmw_rightmost_one_pos w = Min (word_bits w)"
proof -
  let ?P = "\<lambda>i. \<not> bit w i" and ?xs = "[0..<64::nat]"
  let ?k = "length (takeWhile ?P ?xs)"
  have below: "\<not> bit w j" if "j < ?k" for j
  proof -
    have "takeWhile ?P ?xs ! j = ?xs ! j" by (rule takeWhile_nth [OF that])
    moreover have "takeWhile ?P ?xs ! j \<in> set (takeWhile ?P ?xs)" using that by (rule nth_mem)
    moreover have "j < 64" using that length_takeWhile_le [of ?P ?xs] by simp
    ultimately show ?thesis using set_takeWhileD [of "?xs ! j" ?P ?xs] by simp
  qed
  obtain j where j: "j < 64" "bit w j" using assms word_nonzero_iff by blast
  then have "?k < 64" using below [of j] by (metis not_less order_less_le_trans)
  then have "bit w ?k" using nth_length_takeWhile [of ?P ?xs] by simp
  then show ?thesis
    unfolding bmw_rightmost_one_pos_def by (intro Min_eqI [symmetric]) (auto intro: leI dest: below)
qed

lemma bmw_leftmost_one_pos_Max:
  assumes "w \<noteq> 0"
  shows "bmw_leftmost_one_pos w = Max (word_bits w)"
proof -
  let ?P = "\<lambda>i. \<not> bit w i" and ?xs = "rev [0..<64::nat]"
  let ?k = "length (takeWhile ?P ?xs)"
  have nth: "?xs ! j = 63 - j" if "j < 64" for j using that by (simp add: rev_nth)
  have below: "\<not> bit w (63 - j)" if "j < ?k" for j
  proof -
    have "takeWhile ?P ?xs ! j = ?xs ! j" by (rule takeWhile_nth [OF that])
    moreover have "takeWhile ?P ?xs ! j \<in> set (takeWhile ?P ?xs)" using that by (rule nth_mem)
    moreover have "j < 64" using that length_takeWhile_le [of ?P ?xs] by simp
    ultimately show ?thesis using set_takeWhileD [of "?xs ! j" ?P ?xs] nth by simp
  qed
  obtain j where j: "j < 64" "bit w j" using assms word_nonzero_iff by blast
  have "?k \<le> 63 - j" using below [of "63 - j"] j by (cases "?k \<le> 63 - j") auto
  then have k: "?k < 64" by simp
  then have "bit w (63 - ?k)" using nth_length_takeWhile [of ?P ?xs] nth by simp
  moreover have "i \<le> 63 - ?k" if "bit w i" for i
    using below [of "63 - i"] that bit_lt64 [OF that] k by (cases "63 - i < ?k") auto
  ultimately show ?thesis
    unfolding bmw_leftmost_one_pos_def by (intro Max_eqI [symmetric]) auto
qed

text \<open>The two's complement trick: \<open>x AND - x\<close> is the lowest bit of \<open>x\<close>.\<close>

lemma rightmost_one_bits:
  assumes "bit w k" "\<And>j. j < k \<Longrightarrow> \<not> bit w j"
  shows "RIGHTMOST_ONE w = 2 ^ k"
proof -
  have k: "k < 64" by (rule bit_lt64 [OF assms(1)])
  define hi :: bitmapword where "hi = w AND NOT (2 ^ k)"
  have b_hi: "bit hi i \<longleftrightarrow> bit w i \<and> i \<noteq> k" for i
    by (auto simp: hi_def bit_and_iff bit_not_iff push_bit_1_iff [OF k] dest: bit_lt64)
  have "w = hi OR 2 ^ k" by (rule bit_eqI) (use assms(1) in \<open>auto simp: bit_or_iff b_hi push_bit_1_iff [OF k]\<close>)
  also have "\<dots> = hi + 2 ^ k" by (rule disjunctive_add [symmetric]) (simp add: b_hi push_bit_1_iff [OF k])
  finally have "w - 1 = hi + mask k" by (simp add: mask_eq_exp_minus_1)
  also have "\<dots> = hi OR mask k" by (rule disjunctive_add) (use assms(2) in \<open>auto simp: b_hi bit_mask_iff\<close>)
  finally have "- w = NOT (hi OR mask k)" by (simp add: minus_eq_not_minus_1)
  then show ?thesis
    unfolding RIGHTMOST_ONE_def
    by (intro bit_eqI) (use assms in \<open>auto simp: bit_and_iff bit_not_iff bit_or_iff b_hi bit_mask_iff push_bit_1_iff [OF k]\<close>)
qed

lemma HAS_MULTIPLE_ONES_card:
  assumes "w \<noteq> 0"
  shows "HAS_MULTIPLE_ONES w \<longleftrightarrow> (\<nexists>k. word_bits w = {k})"
proof -
  have ne: "word_bits w \<noteq> {}" using assms word_bits_empty [of w] by blast
  obtain k where k: "bit w k" "\<And>j. j < k \<Longrightarrow> \<not> bit w j"
    using Min_in [OF finite_word_bits ne] Min_le [OF finite_word_bits, of _ w] by (metis mem_Collect_eq not_less)
  note iff = push_bit_1_iff [OF bit_lt64 [OF k(1)]]
  have conv: "2 ^ k = w" if *: "\<forall>i. bit w i = (i = k)"
    by (rule bit_eqI) (simp only: iff *)
  have "RIGHTMOST_ONE w = w \<longleftrightarrow> 2 ^ k = w" using rightmost_one_bits [OF k] by simp
  also have "\<dots> \<longleftrightarrow> (\<forall>i. bit w i = (i = k))" using conv iff by blast
  also have "\<dots> \<longleftrightarrow> (\<exists>k. word_bits w = {k})" using k(1) unfolding set_eq_iff mem_Collect_eq singleton_iff by metis
  finally show ?thesis by (simp add: HAS_MULTIPLE_ONES_def)
qed

section \<open>Counting and singletons\<close>

lemma bms_set_Cons: "bms_set (Some (w # ws)) = word_bits w \<union> (\<lambda>n. n + 64) ` bms_set (Some ws)"
proof (rule set_eqI)
  fix n
  show "n \<in> bms_set (Some (w # ws)) \<longleftrightarrow> n \<in> word_bits w \<union> (\<lambda>n. n + 64) ` bms_set (Some ws)"
  proof (cases "n < 64")
    case True
    then show ?thesis by (auto simp: mem_bms_set)
  next
    case False
    then obtain m where m: "n = m + 64" by (metis add.commute le_Suc_ex not_less)
    have "(m + 64) div 64 = Suc (m div 64)" by simp
    moreover have "\<not> bit w n" using bit_lt64 False by blast
    ultimately show ?thesis by (auto simp: mem_bms_set m image_iff)
  qed
qed

lemma bms_set_Nil [simp]: "bms_set (Some []) = {}"
  by (simp add: bms_set_def)

lemma finite_bms_set [simp]: "finite (bms_set a)"
proof (cases a)
  case (Some ws)
  have "finite (bms_set (Some ws))" by (induction ws) (simp_all add: bms_set_Cons)
  then show ?thesis using Some by simp
qed simp

lemma bms_set_Cons_disjoint: "word_bits w \<inter> (\<lambda>n. n + 64) ` A = {}"
  using bit_lt64 [of w] by force

lemma count_words_card: "count_words ws r = r + card (bms_set (Some ws))"
proof (induction ws arbitrary: r)
  case (Cons w ws)
  have "card (bms_set (Some (w # ws))) = card (word_bits w) + card (bms_set (Some ws))"
    unfolding bms_set_Cons
    by (subst card_Un_disjoint) (simp_all add: bms_set_Cons_disjoint card_image)
  then show ?case using Cons by (simp add: bmw_popcount_card)
qed simp

lemma Cons_empty: "bms_set (Some (w # ws)) = {} \<longleftrightarrow> w = 0 \<and> bms_set (Some ws) = {}"
  using word_bits_empty [of w] by (auto simp: bms_set_Cons)

lemma Cons_singleton:
  assumes "w \<noteq> 0"
  shows "bms_set (Some (w # ws)) = {n} \<longleftrightarrow> word_bits w = {n} \<and> bms_set (Some ws) = {}"
proof
  assume s: "bms_set (Some (w # ws)) = {n}"
  have "word_bits w \<noteq> {}" using assms word_bits_empty [of w] by blast
  then have "word_bits w = {n}" using s by (auto simp: bms_set_Cons)
  then have "n < 64" using bit_lt64 [of w n] by blast
  moreover have "(\<lambda>n. n + 64) ` bms_set (Some ws) \<subseteq> {n}" using s by (auto simp: bms_set_Cons)
  ultimately show "word_bits w = {n} \<and> bms_set (Some ws) = {}" using \<open>word_bits w = {n}\<close> by auto
qed (auto simp: bms_set_Cons)

lemma shift_singleton: "(\<lambda>n. n + 64) ` S = {n} \<longleftrightarrow> (\<exists>m. S = {m} \<and> n = m + (64 :: nat))"
proof
  assume s: "(\<lambda>n. n + 64) ` S = {n}"
  then obtain m where m: "m \<in> S" "n = m + 64" by blast
  have "(\<lambda>n. n + 64) ` S = (\<lambda>n. n + 64) ` {m}" using s m by simp
  then have "S = {m}" by (subst (asm) inj_image_eq_iff) (auto intro: injI)
  then show "\<exists>m. S = {m} \<and> n = m + 64" using m by blast
qed auto

lemma Cons_zero: "bms_set (Some (0 # ws)) = (\<lambda>n. n + 64) ` bms_set (Some ws)"
  by (simp add: bms_set_Cons)

lemma singleton_loop_found: "0 \<le> r \<Longrightarrow> singleton_loop i ws r = (if bms_set (Some ws) = {} then Some r else None)"
  by (induction ws arbitrary: i) (simp_all add: Cons_empty)

lemma singleton_loop_spec:
  "r < 0 \<Longrightarrow> singleton_loop i ws r =
     (if bms_set (Some ws) = {} then Some r
      else if \<exists>n. bms_set (Some ws) = {n} then Some (int (i * 64 + the_elem (bms_set (Some ws)))) else None)"
proof (induction ws arbitrary: i)
  case (Cons w ws)
  show ?case
  proof (cases "w = 0")
    case True
    show ?thesis
    proof (cases "\<exists>n. bms_set (Some ws) = {n}")
      case single: True
      then obtain n where "bms_set (Some ws) = {n}" by blast
      then show ?thesis using Cons True by (simp add: Cons_zero)
    qed (use Cons True in \<open>auto simp: Cons_zero shift_singleton\<close>)
  next
    case False
    have ex: "(\<exists>n. bms_set (Some (w # ws)) = {n}) \<longleftrightarrow> \<not> HAS_MULTIPLE_ONES w \<and> bms_set (Some ws) = {}"
      using Cons_singleton [OF False] HAS_MULTIPLE_ONES_card [OF False] by auto
    have "the_elem (bms_set (Some (w # ws))) = bmw_rightmost_one_pos w" if one: "\<exists>n. bms_set (Some (w # ws)) = {n}"
    proof -
      from one obtain n where n: "bms_set (Some (w # ws)) = {n}" by blast
      then have "word_bits w = {n}" using Cons_singleton [OF False] by blast
      then show ?thesis using n bmw_rightmost_one_pos_Min [OF False] by simp
    qed
    then show ?thesis
      using False Cons.prems ex
      by (auto simp: singleton_loop_found Cons_empty BITS_PER_BITMAPWORD_def)
  qed
qed simp

lemma membership_loop_spec:
  "membership_loop ws r =
     (if bms_set (Some ws) = {} then r
      else if r = BMS_EMPTY_SET \<and> (\<exists>n. bms_set (Some ws) = {n}) then BMS_SINGLETON else BMS_MULTIPLE)"
proof (induction ws arbitrary: r)
  case (Cons w ws)
  show ?case
  proof (cases "w = 0")
    case True
    then show ?thesis using Cons by (auto simp: Cons_zero shift_singleton)
  next
    case False
    have "(\<exists>n. bms_set (Some (w # ws)) = {n}) \<longleftrightarrow> \<not> HAS_MULTIPLE_ONES w \<and> bms_set (Some ws) = {}"
      using Cons_singleton [OF False] HAS_MULTIPLE_ONES_card [OF False] by auto
    then show ?thesis using Cons False by (auto simp: Cons_empty)
  qed
qed simp

lemma le_div_mod: "0 < S \<Longrightarrow> (n :: nat) \<le> u \<longleftrightarrow> n div S < u div S \<or> n div S = u div S \<and> n mod S \<le> u mod S"
proof -
  assume S: "0 < S"
  show ?thesis
  proof (cases "n div S" "u div S" rule: linorder_cases)
    case less
    then have "n < u" by (metis div_le_mono not_less)
    then show ?thesis using less by simp
  next
    case equal
    have "n = n div S * S + n mod S" "u = u div S * S + u mod S" by simp_all
    then show ?thesis using equal by (metis add_le_cancel_left less_irrefl)
  next
    case greater
    then have "u < n" by (metis div_le_mono not_less)
    then show ?thesis using greater by simp
  qed
qed

section \<open>Ranges\<close>

lemma bit_from: "bit (NOT (2 ^ l - 1) :: bitmapword) i \<longleftrightarrow> l \<le> i \<and> i < 64"
  by (auto simp: bit_not_iff bit_mask_iff simp flip: mask_eq_exp_minus_1)

lemma bit_upto: "b < 64 \<Longrightarrow> bit (drop_bit (63 - b) (- 1) :: bitmapword) i \<longleftrightarrow> i \<le> b"
  by (auto simp: bit_mask_iff)

lemma length_fill_words [simp]: "length (fill_words j k ws) = length ws"
  by (induction j k ws rule: fill_words.induct) simp_all

lemma wd_fill_words:
  "j + k \<le> length ws \<Longrightarrow> wd (fill_words j k ws) i = (if j \<le> i \<and> i < j + k then - 1 else wd ws i)"
proof (induction j k ws rule: fill_words.induct)
  case (2 j k ws)
  then show ?case by (cases "i = j") (simp_all add: wd_update)
qed auto

lemma add_range_set:
  assumes w: "\<And>i. wd ws' i = wd ws i OR r i"
    and r: "\<And>n. bit (r (n div 64)) (n mod 64) \<longleftrightarrow> l \<le> n \<and> n \<le> u"
  shows "bms_set (Some ws') = bms_set (Some ws) \<union> {l..u}"
  by (auto simp: mem_bms_set w bit_or_iff r)

lemma bms_add_range_set:
  assumes lu: "lower \<le> upper" and l: "0 \<le> lower"
  shows "\<exists>c. bms_add_range a lower upper = Inr c \<and> bms_set c = bms_set a \<union> {nat lower..nat upper} \<and> bms_valid c"
proof -
  define l' u' where "l' = nat lower" and "u' = nat upper"
  have le: "l' \<le> u'" using lu by (simp add: l'_def u'_def)
  define ws where "ws = (case a of None \<Rightarrow> replicate (u' div 64 + 1) 0 | Some ws \<Rightarrow> enlarge ws (u' div 64))"
  have ws: "bms_set (Some ws) = bms_set a" "u' div 64 < length ws"
    by (auto simp: ws_def bms_set_def wd_enlarge simp del: replicate_Suc split: option.split)
  have lw: "l' div 64 \<le> u' div 64" by (rule div_le_mono [OF le])
  define lmsk umsk :: bitmapword where "lmsk = NOT (2 ^ (l' mod 64) - 1)" and "umsk = drop_bit (63 - u' mod 64) (- 1)"
  have bits: "bit lmsk i \<longleftrightarrow> l' mod 64 \<le> i \<and> i < 64" "bit umsk i \<longleftrightarrow> i \<le> u' mod 64" for i
    unfolding lmsk_def umsk_def by (simp_all only: bit_from bit_upto mod_less_divisor zero_less_numeral)
  define r where "r i = (if i = l' div 64 \<and> i = u' div 64 then lmsk AND umsk
     else if i = l' div 64 then lmsk else if i = u' div 64 then umsk
     else if l' div 64 < i \<and> i < u' div 64 then - 1 else 0)" for i
  have rb: "bit (r (n div 64)) (n mod 64) \<longleftrightarrow> l' \<le> n \<and> n \<le> u'" for n
    using le_div_mod [of 64 l' n] le_div_mod [of 64 n u'] lw by (auto simp: r_def bits bit_and_iff)
  define ws' where "ws' = (if l' div 64 = u' div 64 then ws[l' div 64 := ws ! (l' div 64) OR (lmsk AND umsk)]
     else let v = fill_words (l' div 64 + 1) (u' div 64 - (l' div 64 + 1)) (ws[l' div 64 := ws ! (l' div 64) OR lmsk])
          in v[u' div 64 := v ! (u' div 64) OR umsk])"
  have "wd ws' i = wd ws i OR r i" for i
  proof (cases "l' div 64 = u' div 64")
    case True
    then show ?thesis using ws(2) by (auto simp: ws'_def r_def wd_update) (simp add: wd_def)
  next
    case False
    have nl: "ws ! (l' div 64) = wd ws (l' div 64)" using ws(2) lw by (simp add: wd_def)
    let ?v = "fill_words (l' div 64 + 1) (u' div 64 - (l' div 64 + 1)) (ws[l' div 64 := ws ! (l' div 64) OR lmsk])"
    have v: "wd ?v i = (if l' div 64 < i \<and> i < u' div 64 then - 1 else if i = l' div 64 then wd ws i OR lmsk else wd ws i)" for i
      using ws(2) lw False nl by (auto simp: wd_fill_words wd_update)
    have "?v ! (u' div 64) = wd ws (u' div 64)" using v [of "u' div 64"] ws(2) False lw by (simp add: wd_def split: if_splits)
    then show ?thesis using v ws(2) False by (auto simp: ws'_def r_def wd_update Let_def)
  qed
  then have set': "bms_set (Some ws') = bms_set (Some ws) \<union> {l'..u'}" by (rule add_range_set [OF _ rb])
  have W: "WORDNUM lower = l' div 64" "BITNUM lower = l' mod 64" "WORDNUM upper = u' div 64" "BITNUM upper = u' mod 64"
    using lu l by (simp_all add: WORDNUM_BITNUM l'_def u'_def)
  have "bms_add_range a lower upper = Inr (Some ws')"
    unfolding bms_add_range_def W BITS_PER_BITMAPWORD_def Let_def ws_def [symmetric]
    using lu l by (simp add: ws'_def lmsk_def umsk_def Let_def)
  then show ?thesis using set' ws(1) le by (auto simp: bms_valid_iff l'_def u'_def)
qed

section \<open>Iteration\<close>

lemma Min_shift: "finite S \<Longrightarrow> S \<noteq> {} \<Longrightarrow> Min ((\<lambda>n. n + 64) ` S) = Min S + (64 :: nat)"
  by (rule mono_Min_commute [symmetric]) (auto intro: monoI)

lemma next_loop_spec:
  "next_loop i ws (- 1) = (if bms_set (Some ws) = {} then - 2 else int (i * 64 + Min (bms_set (Some ws))))"
proof (induction ws arbitrary: i)
  case (Cons w ws)
  show ?case
  proof (cases "w = 0")
    case True
    then show ?thesis using Cons by (simp add: Cons_zero Min_shift)
  next
    case False
    have ne: "word_bits w \<noteq> {}" using False word_bits_empty [of w] by blast
    have m: "Min (word_bits w) < 64" using Min_in [OF finite_word_bits ne] bit_lt64 by blast
    have "Min (bms_set (Some (w # ws))) = Min (word_bits w)"
      using Min_in [OF finite_word_bits ne] m by (intro Min_eqI) (auto simp: bms_set_Cons)
    then show ?thesis
      using False by (simp add: bmw_rightmost_one_pos_Min Cons_empty BITS_PER_BITMAPWORD_def)
  qed
qed simp

lemma next_loop_mask: "next_loop i (w # ws) m = next_loop i ((w AND m) # ws) (- 1)"
  by simp

lemma bit_shifted: "k < 64 \<Longrightarrow> bit (NOT (mask b) :: bitmapword) k \<longleftrightarrow> b \<le> k"
  by (auto simp: bit_not_iff bit_mask_iff)

lemma bms_next_member_set:
  assumes "- 1 \<le> p"
  shows "bms_next_member a p =
    (let T = {n \<in> bms_set a. p < int n} in if T = {} then - 2 else int (Min T))"
proof (cases a)
  case None
  then show ?thesis by (simp add: bms_next_member_def)
next
  case (Some ws)
  define q where "q = nat (p + 1)"
  have q: "p < int n \<longleftrightarrow> q \<le> n" for n using assms by (auto simp: q_def)
  have W: "WORDNUM (p + 1) = q div 64" "BITNUM (p + 1) = q mod 64" using assms by (simp_all add: WORDNUM_BITNUM q_def)
  have eq: "bms_next_member a p = next_loop (q div 64) (drop (q div 64) ws) (NOT (mask (q mod 64)))"
    using Some by (simp add: bms_next_member_def W Let_def)
  show ?thesis
  proof (cases "drop (q div 64) ws")
    case Nil
    have "\<not> (q \<le> n \<and> n \<in> bms_set a)" for n
    proof
      assume n: "q \<le> n \<and> n \<in> bms_set a"
      then have "n div 64 < length ws" using Some by (auto simp: mem_bms_set wd_def split: if_splits)
      moreover have "q div 64 \<le> n div 64" using n by (simp add: div_le_mono)
      ultimately show False using Nil by simp
    qed
    then have "{n \<in> bms_set a. q \<le> n} = {}" by blast
    then show ?thesis using Nil eq by (simp add: q)
  next
    case (Cons w rest)
    let ?i = "q div 64" and ?v = "(w AND NOT (mask (q mod 64))) # rest"
    have wd: "wd (w # rest) j = wd ws (?i + j)" for j
      using Cons [symmetric] by (auto simp: wd_def nth_append)
    have vw: "wd ?v j = (if j = 0 then wd ws ?i AND NOT (mask (q mod 64)) else wd ws (?i + j))" for j
      using wd [of j] wd [of 0] by (cases j) auto
    have mem: "n \<in> bms_set (Some ?v) \<longleftrightarrow> ?i * 64 + n \<in> bms_set a \<and> q \<le> ?i * 64 + n" for n
      using le_div_mod [of 64 q "?i * 64 + n"]
      by (auto simp: mem_bms_set Some vw bit_and_iff bit_shifted)
    have T: "{n \<in> bms_set a. q \<le> n} = (\<lambda>n. ?i * 64 + n) ` bms_set (Some ?v)"
    proof (intro equalityI subsetI)
      fix n assume n: "n \<in> {n \<in> bms_set a. q \<le> n}"
      then have "?i * 64 \<le> n" by (metis (no_types, lifting) div_times_less_eq_dividend le_trans mem_Collect_eq)
      then obtain k where k: "n = ?i * 64 + k" using le_Suc_ex by blast
      then show "n \<in> (\<lambda>n. ?i * 64 + n) ` bms_set (Some ?v)" using n mem [of k] by blast
    qed (use mem in blast)
    have "Min ((\<lambda>n. ?i * 64 + n) ` S) = ?i * 64 + Min S" if "finite S" "S \<noteq> {}" for S
      by (rule mono_Min_commute [symmetric]) (use that in \<open>auto intro: monoI\<close>)
    then show ?thesis
      unfolding eq Cons next_loop_mask next_loop_spec q T Let_def by auto
  qed
qed

lemma bms_set_snoc: "bms_set (Some (ws @ [w])) = bms_set (Some ws) \<union> (\<lambda>n. length ws * 64 + n) ` word_bits w"
proof (induction ws)
  case Nil
  then show ?case by (simp add: bms_set_Cons)
next
  case (Cons v ws)
  then show ?case by (auto simp: bms_set_Cons image_Un image_image algebra_simps)
qed

lemma prev_loop_update: "k \<le> j \<Longrightarrow> prev_loop k (ws[j := x]) m = prev_loop k ws m"
  by (induction k arbitrary: m) (simp_all add: Let_def)

lemma bms_set_bound: "n \<in> bms_set (Some ws) \<Longrightarrow> n < length ws * 64"
  by (auto simp: mem_bms_set wd_def split: if_splits)

lemma prev_loop_spec:
  "k \<le> length ws \<Longrightarrow> prev_loop k ws (- 1) =
     (if bms_set (Some (take k ws)) = {} then - 2 else int (Max (bms_set (Some (take k ws)))))"
proof (induction k)
  case (Suc k)
  have S: "bms_set (Some (take (Suc k) ws)) = bms_set (Some (take k ws)) \<union> (\<lambda>n. k * 64 + n) ` word_bits (ws ! k)"
    using Suc.prems bms_set_snoc [of "take k ws" "ws ! k"] by (simp add: take_Suc_conv_app_nth min_def)
  show ?case
  proof (cases "ws ! k = 0")
    case True
    then show ?thesis using Suc S by simp
  next
    case False
    have ne: "word_bits (ws ! k) \<noteq> {}" using False word_bits_empty by blast
    have "Max (bms_set (Some (take (Suc k) ws))) = k * 64 + Max (word_bits (ws ! k))"
      using Max_in [OF finite_word_bits ne] bms_set_bound [of _ "take k ws"] Suc.prems
      unfolding S by (intro Max_eqI) (fastforce simp: min_def)+
    moreover have "bms_set (Some (take (Suc k) ws)) \<noteq> {}" using ne unfolding S by blast
    ultimately show ?thesis
      using False by (simp add: bmw_leftmost_one_pos_Max BITS_PER_BITMAPWORD_def)
  qed
qed simp

text \<open>The members up to bit \<open>b\<close> of word \<open>k\<close>, as the first \<open>k\<close> words and a masked word.\<close>

lemma bms_set_prefix:
  assumes k: "k < length ws" and m: "\<And>i. i < 64 \<Longrightarrow> bit m i \<longleftrightarrow> i < b" and b: "b \<le> 64"
  shows "bms_set (Some (take k ws @ [ws ! k AND m])) = {n \<in> bms_set (Some ws). n < k * 64 + b}"
proof (rule set_eqI)
  fix n
  have w: "wd (take k ws @ [ws ! k AND m]) j = (if j < k then wd ws j else if j = k then wd ws k AND m else 0)" for j
    using k by (auto simp: wd_def nth_append min_def)
  have "n < k * 64 + b \<longleftrightarrow> n div 64 < k \<or> n div 64 = k \<and> n mod 64 < b"
  proof (cases "n div 64" k rule: linorder_cases)
    case less
    then have "n < k * 64" by (simp add: div_less_iff_less_mult)
    then show ?thesis using less by simp
  next
    case equal
    then have "n = k * 64 + n mod 64" by (metis div_mult_mod_eq)
    then show ?thesis using equal by (metis add_less_cancel_left less_irrefl)
  next
    case greater
    then have "Suc k * 64 \<le> n" by (metis Suc_leI div_times_less_eq_dividend le_trans mult_le_mono1)
    then show ?thesis using greater b by simp
  qed
  then show "n \<in> bms_set (Some (take k ws @ [ws ! k AND m])) \<longleftrightarrow> n \<in> {n \<in> bms_set (Some ws). n < k * 64 + b}"
    using m [of "n mod 64"] by (auto simp: mem_bms_set w bit_and_iff)
qed

lemma bms_prev_member_set:
  assumes "ws \<noteq> []" "- 1 \<le> p" "p \<le> int (length ws * 64)"
  shows "bms_prev_member (Some ws) p =
    (let T = {n \<in> bms_set (Some ws). p = - 1 \<or> int n < p} in if T = {} then - 2 else int (Max T))"
proof (cases "p = 0")
  case False
  define q where "q = (if p = - 1 then length ws * 64 - 1 else nat p - 1)"
  have len: "0 < length ws" "Suc 0 \<le> length ws * 64" using assms(1) by (cases ws; simp)+
  have q: "q < length ws * 64" using assms False len by (auto simp: q_def)
  have pq: "(if p = - 1 then int (length ws * 64) - 1 else p - 1) = int q" using assms False len by (auto simp: q_def of_nat_diff)
  have T: "(p = - 1 \<or> int n < p) \<longleftrightarrow> n \<le> q" if "n \<in> bms_set (Some ws)" for n
    using bms_set_bound [OF that] assms False by (auto simp: q_def)
  let ?k = "q div 64" and ?m = "mask (Suc (q mod 64)) :: bitmapword"
  have k: "?k < length ws" using q by (simp add: div_less_iff_less_mult)
  have "q mod 64 < 64" by simp
  then have sh: "64 - (63 - q mod 64) = Suc (q mod 64)" by linarith
  have "bms_prev_member (Some ws) p = prev_loop (Suc ?k) ws ?m"
    unfolding bms_prev_member_def Let_def BITS_PER_BITMAPWORD_def option.case pq
    using False by (simp add: WORDNUM_BITNUM sh)
  also have "\<dots> = prev_loop (Suc ?k) (ws[?k := ws ! ?k AND ?m]) (- 1)"
    using k by (simp add: prev_loop_update Let_def)
  also have "take (Suc ?k) (ws[?k := ws ! ?k AND ?m]) = take ?k ws @ [ws ! ?k AND ?m]"
    using k by (simp add: take_Suc_conv_app_nth)
  then have "prev_loop (Suc ?k) (ws[?k := ws ! ?k AND ?m]) (- 1) =
      (let T = {n \<in> bms_set (Some ws). n < ?k * 64 + Suc (q mod 64)} in if T = {} then - 2 else int (Max T))"
    using k bms_set_prefix [OF k, of ?m "Suc (q mod 64)"]
    by (subst prev_loop_spec) (auto simp: bit_mask_iff Let_def Suc_le_eq)
  also have "?k * 64 + Suc (q mod 64) = Suc q" by simp
  finally show ?thesis using T by (simp add: Let_def less_Suc_eq_le cong: conj_cong)
qed (simp add: bms_prev_member_def)

lemma bms_member_index_set:
  "bms_member_index a x =
     (if x < 0 then Inl NegativeMember
      else if nat x \<in> bms_set a then Inr (int (card {n \<in> bms_set a. n < nat x})) else Inr (- 1))"
proof (cases "0 \<le> x \<and> nat x \<in> bms_set a")
  case True
  then obtain ws where a: "a = Some ws" by (cases a) auto
  let ?k = "nat x div 64" and ?m = "mask (nat x mod 64) :: bitmapword"
  have k: "?k < length ws" using True a bms_set_bound [of "nat x" ws] by (simp add: div_less_iff_less_mult)
  have "card {n \<in> bms_set a. n < nat x} = card (bms_set (Some (take ?k ws @ [ws ! ?k AND ?m])))"
    using bms_set_prefix [OF k, of ?m "nat x mod 64"] a by (simp add: bit_mask_iff)
  also have "\<dots> = card (bms_set (Some (take ?k ws))) + card (word_bits (ws ! ?k AND ?m))"
  proof -
    have "bms_set (Some (take ?k ws)) \<inter> (\<lambda>n. ?k * 64 + n) ` word_bits (ws ! ?k AND ?m) = {}"
      using bms_set_bound [of _ "take ?k ws"] k by (fastforce simp: min_def)
    then show ?thesis
      unfolding bms_set_snoc using k by (subst card_Un_disjoint) (simp_all add: min_def card_image)
  qed
  finally show ?thesis
    using True a
    by (simp add: bms_member_index_def bms_is_member_set WORDNUM_BITNUM count_words_card bmw_popcount_card
        Let_def mask_eq_exp_minus_1)
qed (auto simp: bms_member_index_def bms_is_member_set)

lemma bms_overlap_list_set:
  "\<forall>x \<in> set xs. 0 \<le> x \<Longrightarrow> bms_overlap_list a xs = Inr (\<exists>x \<in> set xs. nat x \<in> bms_set a)"
proof (cases a)
  case (Some ws)
  have "\<forall>x \<in> set xs. 0 \<le> x \<Longrightarrow> overlap_list_loop ws xs = Inr (\<exists>x \<in> set xs. nat x \<in> bms_set (Some ws))"
    by (induction xs) (auto simp: WORDNUM_BITNUM mem_bms_set and_push_bit wd_def)
  then show "\<forall>x \<in> set xs. 0 \<le> x \<Longrightarrow> ?thesis" using Some by (simp add: bms_overlap_list_def)
qed (simp add: bms_overlap_list_def)

section \<open>Comparison and hashing\<close>

definition cmp_of :: "bool \<Rightarrow> bool \<Rightarrow> BMS_Comparison" where
  "cmp_of a_not b_not =
     (if a_not \<and> b_not then BMS_DIFFERENT else if a_not then BMS_SUBSET2
      else if b_not then BMS_SUBSET1 else BMS_EQUAL)"

lemma subset_compare_step:
  assumes "\<not> (A \<and> B)"
  shows "subset_compare_words (cmp_of A B) (a # as) (b # bs) =
     (let A' = (A \<or> a AND NOT b \<noteq> 0); B' = (B \<or> b AND NOT a \<noteq> 0) in
      if A' \<and> B' then BMS_DIFFERENT else subset_compare_words (cmp_of A' B') as bs)"
    and "subset_compare_words (cmp_of A B) (a # as) [] =
     (let A' = (A \<or> a \<noteq> 0) in if A' \<and> B then BMS_DIFFERENT else subset_compare_words (cmp_of A' B) as [])"
    and "subset_compare_words (cmp_of A B) [] (b # bs) =
     (let B' = (B \<or> b \<noteq> 0) in if A \<and> B' then BMS_DIFFERENT else subset_compare_words (cmp_of A B') [] bs)"
  using assms
  by (cases "a AND NOT b = 0"; cases "b AND NOT a = 0"; cases "a = 0"; cases "b = 0"; cases A; cases B;
      simp add: cmp_of_def a_not_subset_def b_not_subset_def)+

lemma subset_compare_words_spec:
  "\<not> (A \<and> B) \<Longrightarrow> subset_compare_words (cmp_of A B) a b =
     cmp_of (A \<or> nonempty_diff_words a b) (B \<or> nonempty_diff_words b a)"
proof (induction a arbitrary: A B b)
  case Nil
  then show ?case
    by (induction b arbitrary: B) (auto simp: subset_compare_step Let_def cmp_of_def [of True True] simp del: subset_compare_words.simps(1-3))
next
  case (Cons a as)
  then show ?case
    by (cases b) (auto simp: subset_compare_step Let_def cmp_of_def [of True True] simp del: subset_compare_words.simps(1-3))
qed

lemma bms_subset_compare_set:
  assumes "bms_valid a" "bms_valid b"
  shows "bms_subset_compare a b = cmp_of (\<not> bms_set a \<subseteq> bms_set b) (\<not> bms_set b \<subseteq> bms_set a)"
proof -
  have "cmp_of False False = BMS_EQUAL" by (simp add: cmp_of_def)
  then have "subset_compare_words BMS_EQUAL x y =
      cmp_of (\<not> bms_set (Some x) \<subseteq> bms_set (Some y)) (\<not> bms_set (Some y) \<subseteq> bms_set (Some x))" for x y
    using subset_compare_words_spec [of False False x y] by (simp add: nonempty_diff_set)
  then show ?thesis
    using assms by (auto simp: bms_subset_compare_def bms_valid_def is_empty_internal_set cmp_of_def split: option.splits)
qed

text \<open>The number whose binary digits are the members.\<close>

definition bms_value :: "Bitmapset option \<Rightarrow> nat" where
  "bms_value a = (\<Sum>n \<in> bms_set a. 2 ^ n)"

fun wval :: "Bitmapset \<Rightarrow> nat" where
  "wval [] = 0"
| "wval (w # ws) = unat w + 2 ^ 64 * wval ws"

lemma unat_sum_bits: "unat w = (\<Sum>k \<in> word_bits w. 2 ^ k)" for w :: bitmapword
proof -
  have "unat w = take_bit 64 (unat w)" by (simp add: take_bit_nat_eq_self unsigned_less [of w, where 'a = nat, simplified])
  also have "\<dots> = horner_sum of_bool 2 (map (bit (unat w)) [0..<64])"
    by (simp add: horner_sum_bit_eq_take_bit)
  also have "\<dots> = (\<Sum>k \<in> {0..<64} \<inter> word_bits w. 2 ^ k)"
    by (simp add: horner_sum_eq_sum bit_unsigned_iff)
  also have "{0..<64} \<inter> word_bits w = word_bits w" using bit_lt64 by auto
  finally show ?thesis .
qed

lemma wval_value: "wval ws = bms_value (Some ws)"
proof (induction ws)
  case (Cons w ws)
  have "(\<Sum>n \<in> (\<lambda>n. n + 64) ` S. 2 ^ n) = (2 :: nat) ^ 64 * (\<Sum>n \<in> S. 2 ^ n)" for S :: "nat set"
    by (subst sum.reindex) (simp_all add: power_add sum_distrib_right mult.commute)
  then show ?case
    using Cons unfolding bms_value_def bms_set_Cons
    by (subst sum.union_disjoint) (simp_all add: bms_set_Cons_disjoint unat_sum_bits)
qed (simp add: bms_value_def)

lemma wval_bound: "wval ws < 2 ^ (64 * length ws)"
proof (induction ws)
  case (Cons w ws)
  have "unat w < 2 ^ 64" using unsigned_less [of w, where 'a = nat] by simp
  moreover have "2 ^ 64 * wval ws + 2 ^ 64 \<le> 2 ^ 64 * 2 ^ (64 * length ws)"
    using Cons mult_le_mono2 [of "Suc (wval ws)" "2 ^ (64 * length ws)" "2 ^ 64"] by simp
  moreover have "2 ^ (64 * length (w # ws)) = (2 :: nat) ^ 64 * 2 ^ (64 * length ws)"
    by (simp only: list.size power_add [symmetric]) simp
  ultimately show ?case by (simp only: wval.simps)
qed simp

lemma wval_append: "wval (xs @ ys) = wval xs + 2 ^ (64 * length xs) * wval ys"
  by (induction xs) (simp_all add: algebra_simps power_add)

lemma wval_zero: "wval ws = 0 \<longleftrightarrow> \<not> some_word ws"
  by (induction ws) (simp_all add: unat_eq_zero)

lemma compare_down_spec:
  "i \<le> length a \<Longrightarrow> i \<le> length b \<Longrightarrow>
     compare_down i a b = sgn (int (wval (take i a)) - int (wval (take i b)))"
proof (induction i)
  case (Suc i)
  let ?A = "wval (take i a)" and ?B = "wval (take i b)" and ?P = "2 ^ (64 * i) :: nat"
  have v: "wval (take (Suc i) a) = ?A + ?P * unat (a ! i)" "wval (take (Suc i) b) = ?B + ?P * unat (b ! i)"
    using Suc.prems by (simp_all add: take_Suc_conv_app_nth wval_append)
  have bd: "?A < ?P" "?B < ?P" using wval_bound [of "take i a"] wval_bound [of "take i b"] Suc.prems by simp_all
  have gt: "x + ?P * m < y + ?P * n" if "x < ?P" "m < n" for x y m n
    using that mult_le_mono2 [of "Suc m" n ?P] by simp
  show ?case
  proof (cases "unat (a ! i)" "unat (b ! i)" rule: linorder_cases)
    case less
    then have "wval (take (Suc i) a) < wval (take (Suc i) b)" using gt [OF bd(1) less, of ?B] v by simp
    moreover have "compare_down (Suc i) a b = - 1" using less by (auto simp: word_less_nat_alt Let_def)
    ultimately show ?thesis by simp
  next
    case equal
    then have "a ! i = b ! i" by (simp add: word_unat_eq_iff)
    then show ?thesis using Suc v by simp
  next
    case greater
    then have "wval (take (Suc i) b) < wval (take (Suc i) a)" using gt [OF bd(2) greater, of ?A] v by simp
    moreover have "compare_down (Suc i) a b = 1" using greater by (auto simp: word_less_nat_alt Let_def)
    ultimately show ?thesis by simp
  qed
qed simp

lemma bms_value_pos: "bms_valid (Some ws) \<Longrightarrow> 0 < bms_value (Some ws)"
  using wval_value [of ws] wval_zero [of ws] by (auto simp: bms_valid_def some_word_iff is_empty_internal_iff)

lemma bms_compare_value:
  assumes "bms_valid a" "bms_valid b"
  shows "bms_compare a b = sgn (int (bms_value a) - int (bms_value b))"
proof (cases "a = None \<or> b = None")
  case True
  have "bms_value None = 0" by (simp add: bms_value_def)
  then show ?thesis using True assms by (auto simp: bms_compare_def split: option.splits dest!: bms_value_pos)
next
  case False
  then obtain x y where xy: "a = Some x" "b = Some y" by auto
  let ?s = "min (length x) (length y)"
  have split: "wval z = wval (take ?s z) + 2 ^ (64 * min ?s (length z)) * wval (drop ?s z)" for z
    using wval_append [of "take ?s z" "drop ?s z"] by (simp add: min.commute)
  have big: "2 ^ (64 * length z) \<le> 2 ^ (64 * length z) * wval zs" if "some_word zs" for z zs
    using that wval_zero [of zs] by simp
  show ?thesis
  proof (cases "some_word (drop ?s x) \<or> some_word (drop ?s y)")
    case True
    show ?thesis
    proof (cases "length x \<le> length y")
      case le: True
      then have sy: "some_word (drop ?s y)" using True by simp
      have "wval y = wval (take ?s y) + 2 ^ (64 * length x) * wval (drop ?s y)"
        using split [of y] le by (simp add: min_def)
      then have "wval x < wval y" using wval_bound [of x] big [OF sy, of x] by linarith
      then show ?thesis using True le xy by (simp add: bms_compare_def wval_value [symmetric] Let_def)
    next
      case gt: False
      then have sx: "some_word (drop ?s x)" using True by simp
      have "wval x = wval (take ?s x) + 2 ^ (64 * length y) * wval (drop ?s x)"
        using split [of x] gt by (simp add: min_def)
      then have "wval y < wval x" using wval_bound [of y] big [OF sx, of y] by linarith
      then show ?thesis using sx xy by (simp add: bms_compare_def wval_value [symmetric] Let_def)
    qed
  next
    case no: False
    then have "wval (take ?s x) = wval x" "wval (take ?s y) = wval y"
      using split [of x] split [of y] wval_zero by auto
    then show ?thesis
      using no xy compare_down_spec [of ?s x y] by (simp add: bms_compare_def wval_value [symmetric] Let_def)
  qed
qed

lemma bit_sum_powers: "finite S \<Longrightarrow> bit (\<Sum>n \<in> S. 2 ^ n :: nat) m \<longleftrightarrow> m \<in> S"
proof (induction S arbitrary: m rule: finite_induct)
  case (insert n S)
  have "2 ^ n + (\<Sum>n \<in> S. 2 ^ n :: nat) = 2 ^ n OR (\<Sum>n \<in> S. 2 ^ n)"
    by (rule disjunctive_add) (use insert in \<open>auto simp: bit_exp_iff\<close>)
  then show ?case using insert by (auto simp: bit_or_iff bit_exp_iff)
qed simp

lemma bms_value_inj: "bms_value a = bms_value b \<longleftrightarrow> bms_set a = bms_set b"
proof
  assume "bms_value a = bms_value b"
  then have "bit (bms_value a) n = bit (bms_value b) n" for n by simp
  then show "bms_set a = bms_set b" by (auto simp: bms_value_def bit_sum_powers)
qed (simp add: bms_value_def)

lemma last_word_None: "last_word k ws = None \<longleftrightarrow> (\<forall>j < k. ws ! j = 0)"
  by (induction k) (auto simp: less_Suc_eq)

lemma last_word_Some:
  "last_word k ws = Some l \<Longrightarrow> l < k \<and> ws ! l \<noteq> 0 \<and> (\<forall>j. l < j \<and> j < k \<longrightarrow> ws ! j = 0)"
  by (induction k) (auto split: if_splits simp: less_Suc_eq)

lemma last_word_wd:
  assumes "last_word (length ws) ws = Some l"
  shows "take (l + 1) ws = map (wd ws) [0..<l + 1]" "wd ws l \<noteq> 0" "\<And>j. l < j \<Longrightarrow> wd ws j = 0"
  using last_word_Some [OF assms] by (auto simp: wd_def list_eq_iff_nth_eq less_Suc_eq simp del: upt_Suc)

lemma bms_hash_value_cong:
  assumes "wd x = wd y"
  shows "bms_hash_value h (Some x) = bms_hash_value h (Some y)"
proof -
  have none: "last_word (length z) z = None \<longleftrightarrow> (\<forall>j. wd z j = 0)" for z by (auto simp: last_word_None wd_def)
  show ?thesis
  proof (cases "last_word (length x) x")
    case None
    then show ?thesis using none [of x] none [of y] assms by (simp add: bms_hash_value_def)
  next
    case (Some l)
    then obtain m where m: "last_word (length y) y = Some m" using none [of x] none [of y] assms by (cases "last_word (length y) y") auto
    have "l = m"
      using last_word_wd(2,3) [OF Some] last_word_wd(2,3) [OF m] assms by (metis linorder_neqE_nat)
    then show ?thesis using Some m last_word_wd(1) [OF Some] last_word_wd(1) [OF m] assms by (simp add: bms_hash_value_def)
  qed
qed

section \<open>The set interface\<close>

text \<open>
  What the planner relies on: a representation with an invariant, whose operations compute the set
  operations.  It is provided twice, by the functions that copy and by those that recycle.
\<close>

locale set_repr =
  fixes inv :: "'r \<Rightarrow> bool" and abs :: "'r \<Rightarrow> nat set" and empty :: 'r
    and union :: "'r \<Rightarrow> 'r \<Rightarrow> 'r" and inter :: "'r \<Rightarrow> 'r \<Rightarrow> 'r" and diff :: "'r \<Rightarrow> 'r \<Rightarrow> 'r"
    and equal :: "'r \<Rightarrow> 'r \<Rightarrow> bool"
  assumes inv_empty: "inv empty" and abs_empty: "abs empty = {}"
    and inv_union: "inv a \<Longrightarrow> inv b \<Longrightarrow> inv (union a b)" and abs_union: "inv a \<Longrightarrow> inv b \<Longrightarrow> abs (union a b) = abs a \<union> abs b"
    and inv_inter: "inv a \<Longrightarrow> inv b \<Longrightarrow> inv (inter a b)" and abs_inter: "inv a \<Longrightarrow> inv b \<Longrightarrow> abs (inter a b) = abs a \<inter> abs b"
    and inv_diff: "inv a \<Longrightarrow> inv b \<Longrightarrow> inv (diff a b)" and abs_diff: "inv a \<Longrightarrow> inv b \<Longrightarrow> abs (diff a b) = abs a - abs b"
    and equal_iff: "inv a \<Longrightarrow> inv b \<Longrightarrow> equal a b \<longleftrightarrow> abs a = abs b"
begin

lemmas repr_simps = inv_union abs_union inv_inter abs_inter inv_diff abs_diff equal_iff

lemma union_absorb: "inv a \<Longrightarrow> inv b \<Longrightarrow> equal (union a (inter a b)) a"
  by (simp add: repr_simps Un_absorb2)

lemma diff_split: "inv a \<Longrightarrow> inv b \<Longrightarrow> equal (union (inter a b) (diff a b)) a"
  by (simp add: repr_simps Int_Diff_Un)

lemma union_list:
  "\<forall>r \<in> set rs. inv r \<Longrightarrow> inv a \<Longrightarrow> inv (foldl union a rs) \<and> abs (foldl union a rs) = abs a \<union> \<Union> (abs ` set rs)"
  by (induction rs arbitrary: a) (auto simp: repr_simps)

end

interpretation bms_copying: set_repr bms_valid bms_set None bms_union bms_intersect bms_difference bms_equal
  by unfold_locales
    (simp_all add: bms_union_set bms_intersect_set bms_difference_set bms_equal_set bms_valid_def [of None])

interpretation bms_recycling: set_repr bms_valid bms_set None bms_add_members bms_int_members bms_del_members bms_equal
  by unfold_locales
    (simp_all add: bms_add_members_set bms_int_members_set bms_del_members_set bms_equal_set bms_valid_def [of None])

section \<open>Properties\<close>

text \<open>
  C16: Union, intersection and difference, in the copying and in the recycling variants, compute the
  set operations and keep the invariant that the empty set is represented by \<^verbatim>\<open>NULL\<close> only; the
  variants agree up to \<open>bms_equal\<close>.
\<close>

theorem bms_set_algebra:
  assumes "bms_valid a" and "bms_valid b"
  shows "bms_set (bms_union a b) = bms_set a \<union> bms_set b \<and> bms_valid (bms_union a b) \<and>
         bms_set (bms_intersect a b) = bms_set a \<inter> bms_set b \<and> bms_valid (bms_intersect a b) \<and>
         bms_set (bms_difference a b) = bms_set a - bms_set b \<and> bms_valid (bms_difference a b) \<and>
         bms_equal (bms_add_members a b) (bms_union a b) \<and> bms_equal (bms_join a b) (bms_union a b) \<and>
         bms_equal (bms_int_members a b) (bms_intersect a b) \<and>
         bms_equal (bms_del_members a b) (bms_difference a b)"
  using assms
  by (simp add: bms_copying.repr_simps bms_recycling.repr_simps bms_join_set bms_equal_set)

theorem bms_set_algebra_witness:
  "bms_set (bms_intersect (Some [6]) (Some [3, 1])) = bms_set (Some [6]) \<inter> bms_set (Some [3, 1])"
  using bms_set_algebra [of "Some [6]" "Some [3, 1]"] by (simp add: bms_valid_def)

text \<open>
  C27: Adding or deleting a member or adding a range does what it says, on sets of any size, and
  keeps the invariant; a negative member is an error, an empty range is not.
\<close>

theorem bms_update_correct:
  "(x < 0 \<longrightarrow> bms_add_member a x = Inl NegativeMember \<and> bms_del_member a x = Inl NegativeMember \<and>
              bms_make_singleton x = Inl NegativeMember) \<and>
   (0 \<le> x \<longrightarrow>
      (\<exists>c. bms_add_member a x = Inr c \<and> bms_set c = insert (nat x) (bms_set a) \<and> bms_valid c) \<and>
      (\<exists>c. bms_del_member a x = Inr c \<and> bms_set c = bms_set a - {nat x} \<and> bms_valid c)) \<and>
   (y < x \<longrightarrow> bms_add_range a x y = Inr a) \<and>
   (x \<le> y \<longrightarrow> x < 0 \<longrightarrow> bms_add_range a x y = Inl NegativeMember) \<and>
   (x \<le> y \<longrightarrow> 0 \<le> x \<longrightarrow>
      (\<exists>c. bms_add_range a x y = Inr c \<and> bms_set c = bms_set a \<union> {nat x..nat y} \<and> bms_valid c))"
  using bms_add_member_set [of x a] bms_del_member_set [of x a] bms_add_range_set [of x y a]
  by (auto simp: bms_make_singleton_def bms_add_range_def)

theorem bms_update_correct_witness:
  "\<exists>c. bms_add_range (Some [1]) 60 200 = Inr c \<and> bms_set c = bms_set (Some [1]) \<union> {60..200} \<and> bms_valid c"
  using bms_update_correct [of 60 "Some [1]" 200] by simp


text \<open>
  C29: On sets that respect the invariant, \<open>bms_equal\<close>, \<open>bms_is_subset\<close>, \<open>bms_subset_compare\<close>,
  \<open>bms_overlap\<close> and \<open>bms_nonempty_difference\<close> decide the corresponding relations.
\<close>

theorem bms_relations_correct:
  assumes "bms_valid a" and "bms_valid b"
  shows "(bms_equal a b \<longleftrightarrow> bms_set a = bms_set b) \<and>
         (bms_is_subset a b \<longleftrightarrow> bms_set a \<subseteq> bms_set b) \<and>
         (bms_overlap a b \<longleftrightarrow> bms_set a \<inter> bms_set b \<noteq> {}) \<and>
         (bms_nonempty_difference a b \<longleftrightarrow> bms_set a - bms_set b \<noteq> {}) \<and>
         bms_subset_compare a b =
           (if bms_set a = bms_set b then BMS_EQUAL else if bms_set a \<subseteq> bms_set b then BMS_SUBSET1
            else if bms_set b \<subseteq> bms_set a then BMS_SUBSET2 else BMS_DIFFERENT)"
  using assms
  by (auto simp: bms_equal_set bms_is_subset_set bms_overlap_set bms_nonempty_difference_set
      bms_subset_compare_set cmp_of_def)

theorem bms_relations_correct_witness:
  "bms_is_subset (Some [2]) (Some [6, 1]) \<longleftrightarrow> bms_set (Some [2]) \<subseteq> bms_set (Some [6, 1])"
  using bms_relations_correct [of "Some [2]" "Some [6, 1]"] by (simp add: bms_valid_def)

text \<open>
  C30: \<open>bms_compare\<close> is the comparison of the numbers whose binary digits are the members, so it is
  a total order decided by the highest differing member; it reports equality exactly when
  \<open>bms_equal\<close> does, and sets that are equal hash alike, for every hash function of the words.
\<close>

theorem bms_compare_total_order:
  assumes "bms_valid a" and "bms_valid b"
  shows "bms_compare a b = sgn (int (\<Sum>n \<in> bms_set a. 2 ^ n) - int (\<Sum>n \<in> bms_set b. 2 ^ n)) \<and>
         (bms_compare a b = 0 \<longleftrightarrow> bms_equal a b) \<and>
         (bms_equal a b \<longrightarrow> bms_hash_value hash_any a = bms_hash_value hash_any b)"
proof -
  have eq: "bms_equal a b \<longleftrightarrow> words_of a = words_of b"
    unfolding words_eq_iff by (rule bms_equal_set [OF assms])
  have hash: "bms_hash_value hash_any a = bms_hash_value hash_any b" if e: "bms_equal a b"
  proof (cases "a = None \<or> b = None")
    case True
    then have "a = b" using e by (cases a; cases b) (simp_all add: bms_equal_def)
    then show ?thesis by simp
  next
    case False
    then obtain x y where xy: "a = Some x" "b = Some y" by auto
    then have "wd x = wd y" using e eq by simp
    then show ?thesis unfolding xy by (rule bms_hash_value_cong)
  qed
  have zero: "sgn (int m - int n) = 0 \<longleftrightarrow> m = n" for m n by (simp add: sgn_0_0)
  have "bms_compare a b = 0 \<longleftrightarrow> bms_equal a b"
    unfolding bms_compare_value [OF assms] zero bms_value_inj bms_equal_set [OF assms] by (rule refl)
  then show ?thesis using hash bms_compare_value [OF assms] unfolding bms_value_def by blast
qed

theorem bms_compare_total_order_witness: "bms_compare (Some [4]) (Some [3]) = 0 \<longleftrightarrow> bms_equal (Some [4]) (Some [3])"
proof -
  have "bms_valid (Some [4])" "bms_valid (Some [3])" by (simp_all add: bms_valid_def)
  then show ?thesis by (rule bms_compare_total_order [THEN conjunct2, THEN conjunct1])
qed



end
