(* ===== verification/Clog.thy ===== *)
theory Clog
  imports Transam
begin

text \<open>
  The commit log of \<^verbatim>\<open>src/src/backend/access/transam/clog.c\<close>: two status bits per transaction, packed
  four to a byte into pages, with one LSN per group of 32 transactions.  The log is a map from page
  numbers to pages; reading a page that does not exist is the error of \<^verbatim>\<open>SimpleLruReadPage\<close>.  The
  lemmas show that the bit operations act on one transaction only, and what sequence of single-bit
  updates \<open>TransactionIdSetTreeStatus\<close> performs.
\<close>

section \<open>Addressing\<close>

type_synonym XidStatus = uint8
type_synonym XLogRecPtr = uint64

definition TRANSACTION_STATUS_IN_PROGRESS :: XidStatus where "TRANSACTION_STATUS_IN_PROGRESS = 0x00"
definition TRANSACTION_STATUS_COMMITTED :: XidStatus where "TRANSACTION_STATUS_COMMITTED = 0x01"
definition TRANSACTION_STATUS_ABORTED :: XidStatus where "TRANSACTION_STATUS_ABORTED = 0x02"
definition TRANSACTION_STATUS_SUB_COMMITTED :: XidStatus where "TRANSACTION_STATUS_SUB_COMMITTED = 0x03"

definition InvalidXLogRecPtr :: XLogRecPtr where "InvalidXLogRecPtr = 0"

definition CLOG_BITS_PER_XACT :: nat where "CLOG_BITS_PER_XACT = 2"
definition CLOG_XACTS_PER_BYTE :: nat where "CLOG_XACTS_PER_BYTE = 4"
definition CLOG_XACTS_PER_PAGE :: nat where "CLOG_XACTS_PER_PAGE = BLCKSZ * CLOG_XACTS_PER_BYTE"
definition CLOG_XACT_BITMASK :: uint8 where "CLOG_XACT_BITMASK = push_bit CLOG_BITS_PER_XACT 1 - 1"
definition CLOG_XACTS_PER_LSN_GROUP :: nat where "CLOG_XACTS_PER_LSN_GROUP = 32"
definition CLOG_LSNS_PER_PAGE :: nat where "CLOG_LSNS_PER_PAGE = CLOG_XACTS_PER_PAGE div CLOG_XACTS_PER_LSN_GROUP"

definition TransactionIdToPage :: "TransactionId \<Rightarrow> nat" where
  "TransactionIdToPage xid = unat xid div CLOG_XACTS_PER_PAGE"

definition TransactionIdToPgIndex :: "TransactionId \<Rightarrow> nat" where
  "TransactionIdToPgIndex xid = unat xid mod CLOG_XACTS_PER_PAGE"

definition TransactionIdToByte :: "TransactionId \<Rightarrow> nat" where
  "TransactionIdToByte xid = TransactionIdToPgIndex xid div CLOG_XACTS_PER_BYTE"

definition TransactionIdToBIndex :: "TransactionId \<Rightarrow> nat" where
  "TransactionIdToBIndex xid = unat xid mod CLOG_XACTS_PER_BYTE"

text \<open>\<^verbatim>\<open>GetLSNIndex\<close> within the page: the slot's offset is left out, as a page carries its own LSNs.\<close>

definition GetLSNIndex :: "TransactionId \<Rightarrow> nat" where
  "GetLSNIndex xid = unat xid mod CLOG_XACTS_PER_PAGE div CLOG_XACTS_PER_LSN_GROUP"

section \<open>Pages and status bits\<close>

record ClogPage =
  page_buffer :: "uint8 list"
  group_lsn :: "XLogRecPtr list"

type_synonym clog = "nat \<Rightarrow> ClogPage option"

datatype clog_error = CouldNotAccessStatus TransactionId

definition SimpleLruReadPage :: "clog \<Rightarrow> nat \<Rightarrow> TransactionId \<Rightarrow> clog_error + ClogPage" where
  "SimpleLruReadPage log pageno xid =
     (case log pageno of None \<Rightarrow> Inl (CouldNotAccessStatus xid) | Some p \<Rightarrow> Inr p)"

definition clog_bits :: "ClogPage \<Rightarrow> TransactionId \<Rightarrow> XidStatus" where
  "clog_bits p xid =
     drop_bit (TransactionIdToBIndex xid * CLOG_BITS_PER_XACT) (page_buffer p ! TransactionIdToByte xid)
     AND CLOG_XACT_BITMASK"

definition TransactionIdSetStatusBit ::
    "bool \<Rightarrow> TransactionId \<Rightarrow> XidStatus \<Rightarrow> XLogRecPtr \<Rightarrow> ClogPage \<Rightarrow> ClogPage" where
  "TransactionIdSetStatusBit InRecovery xid status lsn p =
     (let byteno = TransactionIdToByte xid;
          bshift = TransactionIdToBIndex xid * CLOG_BITS_PER_XACT;
          curval = clog_bits p xid
      in if InRecovery \<and> status = TRANSACTION_STATUS_SUB_COMMITTED \<and> curval = TRANSACTION_STATUS_COMMITTED
         then p
         else
           let byteval = page_buffer p ! byteno;
               byteval = byteval AND NOT (push_bit bshift (push_bit CLOG_BITS_PER_XACT 1 - 1));
               byteval = byteval OR push_bit bshift status;
               p = p\<lparr>page_buffer := (page_buffer p)[byteno := byteval]\<rparr>
           in if lsn \<noteq> InvalidXLogRecPtr \<and> group_lsn p ! GetLSNIndex xid < lsn
              then p\<lparr>group_lsn := (group_lsn p)[GetLSNIndex xid := lsn]\<rparr>
              else p)"

definition TransactionIdGetStatus :: "clog \<Rightarrow> TransactionId \<Rightarrow> clog_error + XidStatus \<times> XLogRecPtr" where
  "TransactionIdGetStatus log xid =
     (case SimpleLruReadPage log (TransactionIdToPage xid) xid of
        Inl e \<Rightarrow> Inl e
      | Inr p \<Rightarrow> Inr (clog_bits p xid, group_lsn p ! GetLSNIndex xid))"

section \<open>Setting the status of a transaction tree\<close>

text \<open>
  Each loop over an array of subtransactions is a \<open>fold\<close> over the list.
\<close>

definition TransactionIdSetPageStatusInternal ::
    "bool \<Rightarrow> TransactionId \<Rightarrow> TransactionId list \<Rightarrow> XidStatus \<Rightarrow> XLogRecPtr \<Rightarrow> nat \<Rightarrow> clog \<Rightarrow> clog_error + clog" where
  "TransactionIdSetPageStatusInternal rec xid subxids status lsn pageno log =
     (case SimpleLruReadPage log pageno xid of
        Inl e \<Rightarrow> Inl e
      | Inr p \<Rightarrow>
          let p = (if TransactionIdIsValid xid then
                     let p = (if status = TRANSACTION_STATUS_COMMITTED
                              then fold (\<lambda>s. TransactionIdSetStatusBit rec s TRANSACTION_STATUS_SUB_COMMITTED lsn) subxids p
                              else p)
                     in TransactionIdSetStatusBit rec xid status lsn p
                   else p);
              p = fold (\<lambda>s. TransactionIdSetStatusBit rec s status lsn) subxids p
          in Inr (log(pageno \<mapsto> p)))"

text \<open>
  Every branch of \<^verbatim>\<open>TransactionIdSetPageStatus\<close> ends in one call of
  \<^verbatim>\<open>TransactionIdSetPageStatusInternal\<close> for these arguments, made by this process or, with the group
  update, by the leader of its group while this process sleeps.
\<close>

definition TransactionIdSetPageStatus ::
    "bool \<Rightarrow> TransactionId \<Rightarrow> TransactionId list \<Rightarrow> XidStatus \<Rightarrow> XLogRecPtr \<Rightarrow> nat \<Rightarrow> clog \<Rightarrow> clog_error + clog" where
  "TransactionIdSetPageStatus = TransactionIdSetPageStatusInternal"

function set_status_by_pages ::
    "bool \<Rightarrow> TransactionId list \<Rightarrow> XidStatus \<Rightarrow> XLogRecPtr \<Rightarrow> clog \<Rightarrow> clog_error + clog" where
  "set_status_by_pages rec [] status lsn log = Inr log"
| "set_status_by_pages rec (s # subxids) status lsn log =
     (let pageno = TransactionIdToPage s;
          on_page = takeWhile (\<lambda>x. TransactionIdToPage x = pageno) (s # subxids);
          others = dropWhile (\<lambda>x. TransactionIdToPage x = pageno) (s # subxids)
      in case TransactionIdSetPageStatus rec InvalidTransactionId on_page status lsn pageno log of
           Inl e \<Rightarrow> Inl e
         | Inr log \<Rightarrow> set_status_by_pages rec others status lsn log)"
  by pat_completeness auto
termination
  by (relation "measure (\<lambda>(rec, subs, status, lsn, log). length subs)")
    (auto simp: le_imp_less_Suc length_dropWhile_le)

definition TransactionIdSetTreeStatus ::
    "bool \<Rightarrow> TransactionId \<Rightarrow> TransactionId list \<Rightarrow> XidStatus \<Rightarrow> XLogRecPtr \<Rightarrow> clog \<Rightarrow> clog_error + clog" where
  "TransactionIdSetTreeStatus rec xid subxids status lsn log =
     (let pageno = TransactionIdToPage xid;
          first = takeWhile (\<lambda>s. TransactionIdToPage s = pageno) subxids;
          others = dropWhile (\<lambda>s. TransactionIdToPage s = pageno) subxids
      in if others = [] then TransactionIdSetPageStatus rec xid subxids status lsn pageno log
         else
           case (if status = TRANSACTION_STATUS_COMMITTED
                 then set_status_by_pages rec others TRANSACTION_STATUS_SUB_COMMITTED lsn log
                 else Inr log) of
             Inl e \<Rightarrow> Inl e
           | Inr log \<Rightarrow>
               (case TransactionIdSetPageStatus rec xid first status lsn pageno log of
                  Inl e \<Rightarrow> Inl e
                | Inr log \<Rightarrow> set_status_by_pages rec others status lsn log))"

section \<open>The bits of one transaction\<close>

lemmas clog_consts = CLOG_BITS_PER_XACT_def CLOG_XACTS_PER_BYTE_def CLOG_XACTS_PER_PAGE_def BLCKSZ_def
  CLOG_XACT_BITMASK_def CLOG_XACTS_PER_LSN_GROUP_def CLOG_LSNS_PER_PAGE_def

lemmas status_defs = TRANSACTION_STATUS_IN_PROGRESS_def TRANSACTION_STATUS_COMMITTED_def
  TRANSACTION_STATUS_ABORTED_def TRANSACTION_STATUS_SUB_COMMITTED_def

lemma clog_mask [simp]: "CLOG_XACT_BITMASK = mask 2" "push_bit CLOG_BITS_PER_XACT 1 - 1 = (mask 2 :: uint8)"
  by (simp_all add: CLOG_XACT_BITMASK_def CLOG_BITS_PER_XACT_def mask_eq_exp_minus_1)

lemma status_bit_lt: "bit (st :: uint8) n \<Longrightarrow> st < 4 \<Longrightarrow> n < 2"
proof -
  assume a: "bit st n" "st < 4"
  have "take_bit 2 st = st" using a(2) by (simp add: take_bit_eq_mod word_mod_def word_less_def)
  with a(1) show ?thesis by (metis bit_take_bit_iff)
qed

definition put_status :: "nat \<Rightarrow> uint8 \<Rightarrow> uint8 \<Rightarrow> uint8" where
  "put_status i st b = (b AND NOT (push_bit (i * 2) (mask 2))) OR push_bit (i * 2) st"

definition get_status :: "nat \<Rightarrow> uint8 \<Rightarrow> uint8" where
  "get_status i b = drop_bit (i * 2) b AND mask 2"

lemma get_put_same:
  assumes "i < 4" "st < 4" shows "get_status i (put_status i st b) = st"
  unfolding get_status_def put_status_def
proof (rule bit_word_eqI)
  fix n assume "n < LENGTH(8)"
  then show "bit (drop_bit (i * 2) ((b AND NOT (push_bit (i * 2) (mask 2))) OR push_bit (i * 2) st) AND mask 2) n = bit st n"
    using assms status_bit_lt [of st n] by (auto simp: bit_simps)
qed

lemma get_put_other:
  assumes "i < 4" "j < 4" "i \<noteq> j" "st < 4" shows "get_status j (put_status i st b) = get_status j b"
  unfolding get_status_def put_status_def
proof (rule bit_word_eqI)
  fix n assume "n < LENGTH(8)"
  have "n < 2 \<Longrightarrow> \<not> (i * 2 \<le> j * 2 + n \<and> j * 2 + n - i * 2 < 2)" using assms(3) by linarith
  then show "bit (drop_bit (j * 2) ((b AND NOT (push_bit (i * 2) (mask 2))) OR push_bit (i * 2) st) AND mask 2) n =
      bit (drop_bit (j * 2) b AND mask 2) n"
    using status_bit_lt [of st "j * 2 + n - i * 2"] assms(2,4) by (auto simp: bit_simps)
qed

definition page_ok :: "ClogPage \<Rightarrow> bool" where
  "page_ok p \<longleftrightarrow> length (page_buffer p) = BLCKSZ \<and> length (group_lsn p) = CLOG_LSNS_PER_PAGE"

lemma clog_address:
  "TransactionIdToByte x < BLCKSZ" "TransactionIdToBIndex x < 4" "GetLSNIndex x < CLOG_LSNS_PER_PAGE"
  by (auto simp: TransactionIdToByte_def TransactionIdToPgIndex_def TransactionIdToBIndex_def GetLSNIndex_def
    clog_consts less_mult_imp_div_less)

lemma clog_address_inj:
  assumes "TransactionIdToPage x = TransactionIdToPage y" "TransactionIdToByte x = TransactionIdToByte y"
    "TransactionIdToBIndex x = TransactionIdToBIndex y"
  shows "x = y"
proof -
  have split: "unat z = TransactionIdToPage z * 32768 + TransactionIdToByte z * 4 + TransactionIdToBIndex z" for z
  proof -
    have "unat z mod 4 = unat z mod 32768 mod 4" by (simp add: mod_mod_cancel)
    then show ?thesis
      by (simp add: TransactionIdToPage_def TransactionIdToByte_def TransactionIdToPgIndex_def
        TransactionIdToBIndex_def clog_consts)
  qed
  have "unat x = unat y" using assms split by metis
  then show ?thesis by (simp add: word_unat_eq_iff)
qed

lemma clog_bits_eq: "clog_bits p x = get_status (TransactionIdToBIndex x) (page_buffer p ! TransactionIdToByte x)"
  by (simp add: clog_bits_def get_status_def CLOG_BITS_PER_XACT_def)

lemma page_buffer_set:
  "page_buffer (TransactionIdSetStatusBit rec x st lsn p) =
    (if rec \<and> st = TRANSACTION_STATUS_SUB_COMMITTED \<and> clog_bits p x = TRANSACTION_STATUS_COMMITTED
     then page_buffer p
     else (page_buffer p)[TransactionIdToByte x :=
       put_status (TransactionIdToBIndex x) st (page_buffer p ! TransactionIdToByte x)])"
  unfolding TransactionIdSetStatusBit_def put_status_def Let_def clog_mask
  by (simp add: CLOG_BITS_PER_XACT_def)

text \<open>What one call of \<open>TransactionIdSetStatusBit\<close> does to the status bits of a page.\<close>

lemma clog_bits_set:
  assumes "page_ok p" "st < 4" "TransactionIdToPage y = TransactionIdToPage x"
  shows "clog_bits (TransactionIdSetStatusBit rec x st lsn p) y =
    (if y = x then (if rec \<and> st = TRANSACTION_STATUS_SUB_COMMITTED \<and> clog_bits p x = TRANSACTION_STATUS_COMMITTED
                    then TRANSACTION_STATUS_COMMITTED else st)
     else clog_bits p y)"
proof -
  have len: "TransactionIdToByte x < length (page_buffer p)" using assms(1) clog_address(1) by (simp add: page_ok_def)
  have "TransactionIdToByte y = TransactionIdToByte x \<Longrightarrow> y \<noteq> x \<Longrightarrow> TransactionIdToBIndex x \<noteq> TransactionIdToBIndex y"
    using clog_address_inj assms(3) by metis
  then show ?thesis
    using len get_put_same [OF clog_address(2) assms(2)] get_put_other [OF clog_address(2) clog_address(2) _ assms(2)]
    by (auto simp: clog_bits_eq page_buffer_set nth_list_update)
qed

lemma page_ok_set [simp]: "page_ok (TransactionIdSetStatusBit rec x st lsn p) \<longleftrightarrow> page_ok p"
proof -
  have "length (group_lsn (TransactionIdSetStatusBit rec x st lsn p)) = length (group_lsn p)"
    by (simp add: TransactionIdSetStatusBit_def Let_def)
  then show ?thesis by (simp add: page_ok_def page_buffer_set)
qed

section \<open>The log as a map from transactions to statuses\<close>

definition log_has :: "clog \<Rightarrow> TransactionId \<Rightarrow> bool" where
  "log_has log x \<longleftrightarrow> (case log (TransactionIdToPage x) of None \<Rightarrow> False | Some p \<Rightarrow> page_ok p)"

definition xid_status :: "clog \<Rightarrow> TransactionId \<Rightarrow> XidStatus" where
  "xid_status log x = (case log (TransactionIdToPage x) of None \<Rightarrow> TRANSACTION_STATUS_IN_PROGRESS | Some p \<Rightarrow> clog_bits p x)"

text \<open>
  The single-transaction updates that setting a tree performs, in order.  A crash, or a reader that
  does not wait for the lock, can see the log after any prefix of them.
\<close>

definition write_status :: "bool \<Rightarrow> XLogRecPtr \<Rightarrow> TransactionId \<times> XidStatus \<Rightarrow> clog \<Rightarrow> clog" where
  "write_status rec lsn w log = (case log (TransactionIdToPage (fst w)) of None \<Rightarrow> log
     | Some p \<Rightarrow> log(TransactionIdToPage (fst w) \<mapsto> TransactionIdSetStatusBit rec (fst w) (snd w) lsn p))"

definition page_writes :: "TransactionId \<Rightarrow> TransactionId list \<Rightarrow> XidStatus \<Rightarrow> (TransactionId \<times> XidStatus) list" where
  "page_writes xid subxids status =
     (if TransactionIdIsValid xid then
        (if status = TRANSACTION_STATUS_COMMITTED then map (\<lambda>s. (s, TRANSACTION_STATUS_SUB_COMMITTED)) subxids else [])
        @ [(xid, status)]
      else []) @ map (\<lambda>s. (s, status)) subxids"

definition tree_writes :: "TransactionId \<Rightarrow> TransactionId list \<Rightarrow> XidStatus \<Rightarrow> (TransactionId \<times> XidStatus) list" where
  "tree_writes xid subxids status =
     (let first = takeWhile (\<lambda>s. TransactionIdToPage s = TransactionIdToPage xid) subxids;
          others = dropWhile (\<lambda>s. TransactionIdToPage s = TransactionIdToPage xid) subxids
      in (if status = TRANSACTION_STATUS_COMMITTED then map (\<lambda>s. (s, TRANSACTION_STATUS_SUB_COMMITTED)) others else [])
         @ page_writes xid first status @ map (\<lambda>s. (s, status)) others)"

abbreviation apply_writes :: "bool \<Rightarrow> XLogRecPtr \<Rightarrow> (TransactionId \<times> XidStatus) list \<Rightarrow> clog \<Rightarrow> clog" where
  "apply_writes rec lsn ws log \<equiv> fold (write_status rec lsn) ws log"

lemma log_has_write [simp]: "log_has (write_status rec lsn w log) x \<longleftrightarrow> log_has log x"
  by (simp add: log_has_def write_status_def split: option.splits)

lemma log_has_writes [simp]: "log_has (apply_writes rec lsn ws log) x \<longleftrightarrow> log_has log x"
  by (induction ws arbitrary: log) simp_all

lemma xid_status_write:
  assumes "log_has log (fst w)" "snd w < 4"
  shows "xid_status (write_status rec lsn w log) y =
    (if y = fst w then (if rec \<and> snd w = TRANSACTION_STATUS_SUB_COMMITTED \<and> xid_status log y = TRANSACTION_STATUS_COMMITTED
                    then TRANSACTION_STATUS_COMMITTED else snd w)
     else xid_status log y)"
  using assms clog_bits_set [of _ "snd w" y "fst w" rec lsn]
  by (auto simp: log_has_def xid_status_def write_status_def split: option.splits)

lemma write_on_page:
  "TransactionIdToPage x = pg \<Longrightarrow>
   write_status rec lsn (x, st) (log(pg \<mapsto> p)) = log(pg \<mapsto> TransactionIdSetStatusBit rec x st lsn p)"
  by (simp add: write_status_def)

lemma writes_on_page:
  "\<forall>s\<in>set subs. TransactionIdToPage s = pg \<Longrightarrow>
   apply_writes rec lsn (map (\<lambda>s. (s, st)) subs) (log(pg \<mapsto> p)) =
     log(pg \<mapsto> fold (\<lambda>s. TransactionIdSetStatusBit rec s st lsn) subs p)"
  by (induction subs arbitrary: p) (simp_all add: write_on_page)

lemma SetPageStatus_writes:
  assumes "\<forall>s\<in>set subs. TransactionIdToPage s = pg" "TransactionIdIsValid xid \<Longrightarrow> TransactionIdToPage xid = pg"
    and "log pg = Some p"
  shows "TransactionIdSetPageStatus rec xid subs status lsn pg log = Inr (apply_writes rec lsn (page_writes xid subs status) log)"
proof -
  have "apply_writes rec lsn (page_writes xid subs status) log = apply_writes rec lsn (page_writes xid subs status) (log(pg \<mapsto> p))"
    using assms(3) by (simp add: fun_upd_idem)
  then show ?thesis
    using assms(1,2,3)
    by (simp add: TransactionIdSetPageStatus_def TransactionIdSetPageStatusInternal_def SimpleLruReadPage_def page_writes_def
      writes_on_page write_on_page Let_def)
qed

lemma log_has_page: "log_has log x \<Longrightarrow> \<exists>p. log (TransactionIdToPage x) = Some p"
  by (auto simp: log_has_def split: option.splits)

lemma set_status_by_pages_writes:
  "\<forall>s\<in>set subs. log_has log s \<Longrightarrow>
   set_status_by_pages rec subs status lsn log = Inr (apply_writes rec lsn (map (\<lambda>s. (s, status)) subs) log)"
proof (induction "length subs" arbitrary: subs log rule: less_induct)
  case less
  show ?case
  proof (cases subs)
    case (Cons s rest)
    let ?on = "takeWhile (\<lambda>x. TransactionIdToPage x = TransactionIdToPage s) subs"
    let ?others = "dropWhile (\<lambda>x. TransactionIdToPage x = TransactionIdToPage s) subs"
    obtain p where p: "log (TransactionIdToPage s) = Some p"
      using less.prems log_has_page Cons by fastforce
    have on: "\<forall>x\<in>set ?on. TransactionIdToPage x = TransactionIdToPage s" by (auto dest: set_takeWhileD)
    have page: "TransactionIdSetPageStatus rec InvalidTransactionId ?on status lsn (TransactionIdToPage s) log =
        Inr (apply_writes rec lsn (page_writes InvalidTransactionId ?on status) log)"
      by (rule SetPageStatus_writes [OF on]) (simp_all add: p TransactionIdIsValid_def)
    let ?log = "apply_writes rec lsn (map (\<lambda>s. (s, status)) ?on) log"
    have "length ?others < length subs" using Cons by (simp add: le_imp_less_Suc length_dropWhile_le)
    moreover have "\<forall>s\<in>set ?others. log_has ?log s"
      using less.prems by (auto dest: set_dropWhileD)
    ultimately have "set_status_by_pages rec ?others status lsn ?log = Inr (apply_writes rec lsn (map (\<lambda>s. (s, status)) ?others) ?log)"
      by (rule less.hyps)
    moreover have "apply_writes rec lsn (map (\<lambda>s. (s, status)) ?others) ?log =
        apply_writes rec lsn (map (\<lambda>s. (s, status)) (?on @ ?others)) log"
      by (simp only: map_append fold_append o_apply)
    ultimately show ?thesis
      using page Cons by (simp add: page_writes_def TransactionIdIsValid_def Let_def)
  qed simp
qed

lemma SetTreeStatus_writes:
  assumes "\<forall>s\<in>set (xid # subs). log_has log s" "TransactionIdIsValid xid"
  shows "TransactionIdSetTreeStatus rec xid subs status lsn log = Inr (apply_writes rec lsn (tree_writes xid subs status) log)"
proof -
  let ?first = "takeWhile (\<lambda>s. TransactionIdToPage s = TransactionIdToPage xid) subs"
  let ?others = "dropWhile (\<lambda>s. TransactionIdToPage s = TransactionIdToPage xid) subs"
  have first: "\<forall>x\<in>set ?first. TransactionIdToPage x = TransactionIdToPage xid" by (auto dest: set_takeWhileD)
  have others: "\<forall>s\<in>set ?others. log_has log s" using assms(1) by (auto dest: set_dropWhileD)
  have page: "TransactionIdSetPageStatus rec xid ?first st lsn (TransactionIdToPage xid) l =
      Inr (apply_writes rec lsn (page_writes xid ?first st) l)" if "log_has l xid" for l st
    using log_has_page [OF that] SetPageStatus_writes [OF first refl] by auto
  show ?thesis
  proof (cases "?others = []")
    case True
    then have all: "?first = subs" by (metis append_Nil2 takeWhile_dropWhile_id)
    have "log_has log xid" using assms(1) by simp
    from page [OF this, of status] show ?thesis
      unfolding TransactionIdSetTreeStatus_def tree_writes_def Let_def True all by simp
  next
    case False
    have pages: "set_status_by_pages rec ?others st lsn l = Inr (apply_writes rec lsn (map (\<lambda>s. (s, st)) ?others) l)"
      if "\<And>s. log_has l s = log_has log s" for l st
      using others that by (intro set_status_by_pages_writes) blast
    have "log_has log xid" using assms(1) by simp
    then show ?thesis
      unfolding TransactionIdSetTreeStatus_def tree_writes_def Let_def if_not_P [OF False] by (simp add: page pages)
  qed
qed

section \<open>Properties\<close>

lemma group_lsn_set:
  assumes "page_ok p" "GetLSNIndex y < CLOG_LSNS_PER_PAGE"
  shows "group_lsn p ! GetLSNIndex y \<le> group_lsn (TransactionIdSetStatusBit rec x st lsn p) ! GetLSNIndex y"
    and "\<not> (rec \<and> st = TRANSACTION_STATUS_SUB_COMMITTED \<and> clog_bits p x = TRANSACTION_STATUS_COMMITTED) \<Longrightarrow>
      lsn \<le> group_lsn (TransactionIdSetStatusBit rec x st lsn p) ! GetLSNIndex x"
  using assms clog_address(3) [of x]
  by (auto simp: TransactionIdSetStatusBit_def Let_def page_ok_def nth_list_update InvalidXLogRecPtr_def)

text \<open>
  C37: Setting the status of one transaction in the commit log and reading any transaction of the log
  back: the transaction set has the new status (except that recovery never takes a commit back to
  sub-committed), every other transaction keeps its status, the LSN reported for the transaction is at
  least the LSN of its commit record, and no reported LSN ever goes backwards.
\<close>
theorem clog_status_roundtrip:
  assumes "log_has log x" "log_has log y" "st < 4"
    and "log (TransactionIdToPage x) = Some p"
    and "TransactionIdGetStatus log y = Inr (v, l)"
  shows "\<exists>v' l'. TransactionIdGetStatus (log(TransactionIdToPage x \<mapsto> TransactionIdSetStatusBit rec x st lsn p)) y = Inr (v', l') \<and>
    v' = (if y = x then (if rec \<and> st = TRANSACTION_STATUS_SUB_COMMITTED \<and> v = TRANSACTION_STATUS_COMMITTED
                         then TRANSACTION_STATUS_COMMITTED else st) else v) \<and>
    l \<le> l' \<and> (y = x \<longrightarrow> v' = st \<longrightarrow> st \<noteq> v \<longrightarrow> lsn \<le> l')"
proof (cases "TransactionIdToPage y = TransactionIdToPage x")
  case True
  have p: "page_ok p" using assms(1,4) by (simp add: log_has_def)
  have v: "v = clog_bits p y" "l = group_lsn p ! GetLSNIndex y"
    using assms(4,5) True by (simp_all add: TransactionIdGetStatus_def SimpleLruReadPage_def)
  show ?thesis
    using True v clog_bits_set [OF p assms(3) True] group_lsn_set(1) [OF p clog_address(3) [of y]]
      group_lsn_set(2) [OF p clog_address(3) [of y], of rec st x lsn]
    by (simp add: TransactionIdGetStatus_def SimpleLruReadPage_def)
next
  case False
  with assms(5) show ?thesis
    by (auto simp: TransactionIdGetStatus_def SimpleLruReadPage_def)
qed

definition example_page :: ClogPage where
  "example_page = \<lparr>page_buffer = replicate BLCKSZ 0, group_lsn = replicate CLOG_LSNS_PER_PAGE 0\<rparr>"

definition example_log :: clog where "example_log = (\<lambda>pageno. Some example_page)"

lemma example_log_has [simp]: "log_has example_log x"
  by (simp add: log_has_def example_log_def page_ok_def example_page_def)

lemma example_status: "TransactionIdGetStatus example_log x = Inr (TRANSACTION_STATUS_IN_PROGRESS, 0)"
  using clog_address [of x]
  by (simp add: TransactionIdGetStatus_def SimpleLruReadPage_def example_log_def example_page_def clog_bits_def status_defs)

theorem clog_status_roundtrip_witness:
  "\<exists>l'. TransactionIdGetStatus (example_log(TransactionIdToPage 1000 \<mapsto>
      TransactionIdSetStatusBit False 1000 TRANSACTION_STATUS_COMMITTED 77 example_page)) 1000
    = Inr (TRANSACTION_STATUS_COMMITTED, l') \<and> 77 \<le> l'"
  using clog_status_roundtrip [of example_log 1000 1000 TRANSACTION_STATUS_COMMITTED example_page
      TRANSACTION_STATUS_IN_PROGRESS 0 False 77]
  by (simp add: example_status) (simp add: example_log_def status_defs)

end
