(* ===== verification/XidLookup.thy ===== *)
theory XidLookup
  imports Clog
begin

text \<open>
  Transaction status lookups: the parent links of \<^verbatim>\<open>src/src/backend/access/transam/subtrans.c\<close> and the
  interface functions of \<^verbatim>\<open>src/src/backend/access/transam/transam.c\<close> with their one-entry cache.  The
  main result is that a commit of a transaction tree is atomic for every onlooker, although it takes
  many separate updates of the commit log.
\<close>

section \<open>Parent links\<close>

definition SUBTRANS_XACTS_PER_PAGE :: nat where "SUBTRANS_XACTS_PER_PAGE = BLCKSZ div 4"

definition SubTransToPage :: "TransactionId \<Rightarrow> nat" where
  "SubTransToPage xid = unat xid div SUBTRANS_XACTS_PER_PAGE"

definition SubTransToEntry :: "TransactionId \<Rightarrow> nat" where
  "SubTransToEntry xid = unat xid mod SUBTRANS_XACTS_PER_PAGE"

type_synonym subtrans = "nat \<Rightarrow> TransactionId list option"

definition SubTransSetParent :: "TransactionId \<Rightarrow> TransactionId \<Rightarrow> subtrans \<Rightarrow> clog_error + subtrans" where
  "SubTransSetParent xid parent st =
     (case st (SubTransToPage xid) of
        None \<Rightarrow> Inl (CouldNotAccessStatus xid)
      | Some page \<Rightarrow>
          if page ! SubTransToEntry xid \<noteq> parent
          then Inr (st(SubTransToPage xid \<mapsto> page[SubTransToEntry xid := parent]))
          else Inr st)"

definition SubTransGetParent :: "subtrans \<Rightarrow> TransactionId \<Rightarrow> clog_error + TransactionId" where
  "SubTransGetParent st xid =
     (if \<not> TransactionIdIsNormal xid then Inr InvalidTransactionId
      else case st (SubTransToPage xid) of
             None \<Rightarrow> Inl (CouldNotAccessStatus xid)
           | Some page \<Rightarrow> Inr (page ! SubTransToEntry xid))"

text \<open>
  The walk of \<^verbatim>\<open>SubTransGetTopmostTransaction\<close>; \<open>Some (Inl _)\<close> is one of the two errors.  Corrupt links
  could make the walk go round for ever, which is the value \<open>None\<close>.
\<close>

datatype subtrans_error = SubTransAccess clog_error | InvalidSubTransEntry TransactionId TransactionId

partial_function (option) topmost_walk ::
    "TransactionId \<Rightarrow> subtrans \<Rightarrow> TransactionId \<Rightarrow> TransactionId \<Rightarrow> (subtrans_error + TransactionId) option" where
  "topmost_walk xmin st parentXid previousXid =
     (if \<not> TransactionIdIsValid parentXid then Some (Inr previousXid)
      else if TransactionIdPrecedes parentXid xmin then Some (Inr parentXid)
      else case SubTransGetParent st parentXid of
             Inl e \<Rightarrow> Some (Inl (SubTransAccess e))
           | Inr nextXid \<Rightarrow>
               if \<not> TransactionIdPrecedes nextXid parentXid
               then Some (Inl (InvalidSubTransEntry parentXid nextXid))
               else topmost_walk xmin st nextXid parentXid)"

definition SubTransGetTopmostTransaction ::
    "TransactionId \<Rightarrow> subtrans \<Rightarrow> TransactionId \<Rightarrow> (subtrans_error + TransactionId) option" where
  "SubTransGetTopmostTransaction xmin st xid = topmost_walk xmin st xid xid"

section \<open>Status lookups\<close>

record StatusState =
  st_clog :: clog
  st_subtrans :: subtrans
  TransactionXmin :: TransactionId
  cachedFetchXid :: TransactionId
  cachedFetchXidStatus :: XidStatus
  cachedCommitLSN :: XLogRecPtr

definition TransactionLogFetch :: "TransactionId \<Rightarrow> StatusState \<Rightarrow> clog_error + XidStatus \<times> StatusState" where
  "TransactionLogFetch xid s =
     (if xid = cachedFetchXid s then Inr (cachedFetchXidStatus s, s)
      else if \<not> TransactionIdIsNormal xid then
        if xid = BootstrapTransactionId then Inr (TRANSACTION_STATUS_COMMITTED, s)
        else if xid = FrozenTransactionId then Inr (TRANSACTION_STATUS_COMMITTED, s)
        else Inr (TRANSACTION_STATUS_ABORTED, s)
      else case TransactionIdGetStatus (st_clog s) xid of
             Inl e \<Rightarrow> Inl e
           | Inr (xidstatus, xidlsn) \<Rightarrow>
               if xidstatus \<noteq> TRANSACTION_STATUS_IN_PROGRESS \<and> xidstatus \<noteq> TRANSACTION_STATUS_SUB_COMMITTED
               then Inr (xidstatus, s\<lparr>cachedFetchXid := xid, cachedFetchXidStatus := xidstatus, cachedCommitLSN := xidlsn\<rparr>)
               else Inr (xidstatus, s))"

text \<open>The recursion to the parent ends unless the parent links form a cycle.\<close>

partial_function (option) TransactionIdDidCommit ::
    "TransactionId \<Rightarrow> StatusState \<Rightarrow> (clog_error + bool \<times> StatusState) option" where
  "TransactionIdDidCommit xid s =
     (case TransactionLogFetch xid s of
        Inl e \<Rightarrow> Some (Inl e)
      | Inr (xidstatus, s) \<Rightarrow>
          if xidstatus = TRANSACTION_STATUS_COMMITTED then Some (Inr (True, s))
          else if xidstatus = TRANSACTION_STATUS_SUB_COMMITTED then
            if TransactionIdPrecedes xid (TransactionXmin s) then Some (Inr (False, s))
            else case SubTransGetParent (st_subtrans s) xid of
                   Inl e \<Rightarrow> Some (Inl e)
                 | Inr parentXid \<Rightarrow>
                     if \<not> TransactionIdIsValid parentXid then Some (Inr (False, s))
                     else TransactionIdDidCommit parentXid s
          else Some (Inr (False, s)))"

partial_function (option) TransactionIdDidAbort ::
    "TransactionId \<Rightarrow> StatusState \<Rightarrow> (clog_error + bool \<times> StatusState) option" where
  "TransactionIdDidAbort xid s =
     (case TransactionLogFetch xid s of
        Inl e \<Rightarrow> Some (Inl e)
      | Inr (xidstatus, s) \<Rightarrow>
          if xidstatus = TRANSACTION_STATUS_ABORTED then Some (Inr (True, s))
          else if xidstatus = TRANSACTION_STATUS_SUB_COMMITTED then
            if TransactionIdPrecedes xid (TransactionXmin s) then Some (Inr (True, s))
            else case SubTransGetParent (st_subtrans s) xid of
                   Inl e \<Rightarrow> Some (Inl e)
                 | Inr parentXid \<Rightarrow>
                     if \<not> TransactionIdIsValid parentXid then Some (Inr (True, s))
                     else TransactionIdDidAbort parentXid s
          else Some (Inr (False, s)))"

definition TransactionIdCommitTree :: "bool \<Rightarrow> TransactionId \<Rightarrow> TransactionId list \<Rightarrow> clog \<Rightarrow> clog_error + clog" where
  "TransactionIdCommitTree rec xid xids = TransactionIdSetTreeStatus rec xid xids TRANSACTION_STATUS_COMMITTED InvalidXLogRecPtr"

definition TransactionIdAsyncCommitTree ::
    "bool \<Rightarrow> TransactionId \<Rightarrow> TransactionId list \<Rightarrow> XLogRecPtr \<Rightarrow> clog \<Rightarrow> clog_error + clog" where
  "TransactionIdAsyncCommitTree rec xid xids lsn = TransactionIdSetTreeStatus rec xid xids TRANSACTION_STATUS_COMMITTED lsn"

definition TransactionIdAbortTree :: "bool \<Rightarrow> TransactionId \<Rightarrow> TransactionId list \<Rightarrow> clog \<Rightarrow> clog_error + clog" where
  "TransactionIdAbortTree rec xid xids = TransactionIdSetTreeStatus rec xid xids TRANSACTION_STATUS_ABORTED InvalidXLogRecPtr"

definition TransactionIdGetCommitLSN :: "TransactionId \<Rightarrow> StatusState \<Rightarrow> clog_error + XLogRecPtr" where
  "TransactionIdGetCommitLSN xid s =
     (if xid = cachedFetchXid s then Inr (cachedCommitLSN s)
      else if \<not> TransactionIdIsNormal xid then Inr InvalidXLogRecPtr
      else case TransactionIdGetStatus (st_clog s) xid of Inl e \<Rightarrow> Inl e | Inr (_, lsn) \<Rightarrow> Inr lsn)"

section \<open>The cache\<close>

text \<open>The cache is empty, or holds the final status of a transaction.\<close>

definition cache_ok :: "StatusState \<Rightarrow> bool" where
  "cache_ok s \<longleftrightarrow> cachedFetchXid s = InvalidTransactionId \<or>
     TransactionIdIsNormal (cachedFetchXid s) \<and> log_has (st_clog s) (cachedFetchXid s) \<and>
     cachedFetchXidStatus s = xid_status (st_clog s) (cachedFetchXid s) \<and>
     cachedFetchXidStatus s \<noteq> TRANSACTION_STATUS_IN_PROGRESS \<and> cachedFetchXidStatus s \<noteq> TRANSACTION_STATUS_SUB_COMMITTED"

definition same_logs :: "StatusState \<Rightarrow> StatusState \<Rightarrow> bool" where
  "same_logs s t \<longleftrightarrow> st_clog t = st_clog s \<and> st_subtrans t = st_subtrans s \<and> TransactionXmin t = TransactionXmin s"

lemma fetch_ok:
  assumes "cache_ok s" "TransactionIdIsNormal x" "log_has (st_clog s) x"
  obtains t where "TransactionLogFetch x s = Inr (xid_status (st_clog s) x, t)" "cache_ok t" "same_logs s t"
proof (cases "x = cachedFetchXid s")
  case True
  with assms(1,2) show ?thesis
    by (intro that [of s]) (auto simp: TransactionLogFetch_def cache_ok_def same_logs_def xid_defs)
next
  case False
  obtain p where p: "st_clog s (TransactionIdToPage x) = Some p" using log_has_page [OF assms(3)] by blast
  let ?st = "xid_status (st_clog s) x"
  let ?t = "if ?st \<noteq> TRANSACTION_STATUS_IN_PROGRESS \<and> ?st \<noteq> TRANSACTION_STATUS_SUB_COMMITTED
    then s\<lparr>cachedFetchXid := x, cachedFetchXidStatus := ?st, cachedCommitLSN := group_lsn p ! GetLSNIndex x\<rparr> else s"
  have "TransactionLogFetch x s = Inr (?st, ?t)"
    using False assms(2) p by (simp add: TransactionLogFetch_def TransactionIdGetStatus_def SimpleLruReadPage_def xid_status_def)
  moreover have "cache_ok ?t" "same_logs s ?t"
    using assms by (auto simp: cache_ok_def same_logs_def)
  ultimately show ?thesis by (rule that)
qed

text \<open>A lookup answers \<open>b\<close> for a transaction, whatever the cache holds.\<close>

definition answers ::
    "(TransactionId \<Rightarrow> StatusState \<Rightarrow> (clog_error + bool \<times> StatusState) option) \<Rightarrow> StatusState \<Rightarrow> bool \<Rightarrow> TransactionId \<Rightarrow> bool" where
  "answers f s b x \<longleftrightarrow> (\<forall>t. same_logs s t \<and> cache_ok t \<longrightarrow> (\<exists>u. f x t = Some (Inr (b, u)) \<and> cache_ok u \<and> same_logs s u))"

lemma answersD: "answers f s b x \<Longrightarrow> cache_ok s \<Longrightarrow> \<exists>t. f x s = Some (Inr (b, t))"
  by (auto simp: answers_def same_logs_def)

lemma same_logs_trans: "same_logs s t \<Longrightarrow> same_logs t u \<Longrightarrow> same_logs s u"
  by (simp add: same_logs_def)

lemma fetch_answer:
  assumes "TransactionIdIsNormal x" "log_has (st_clog s) x" "same_logs s t" "cache_ok t"
  obtains u where "TransactionLogFetch x t = Inr (xid_status (st_clog s) x, u)" "cache_ok u" "same_logs s u"
  using fetch_ok [of t x] assms by (metis same_logs_def same_logs_trans)

lemma status_distinct [simp]:
  "TRANSACTION_STATUS_IN_PROGRESS \<noteq> TRANSACTION_STATUS_COMMITTED" "TRANSACTION_STATUS_IN_PROGRESS \<noteq> TRANSACTION_STATUS_ABORTED"
  "TRANSACTION_STATUS_IN_PROGRESS \<noteq> TRANSACTION_STATUS_SUB_COMMITTED" "TRANSACTION_STATUS_COMMITTED \<noteq> TRANSACTION_STATUS_IN_PROGRESS"
  "TRANSACTION_STATUS_ABORTED \<noteq> TRANSACTION_STATUS_COMMITTED" "TRANSACTION_STATUS_ABORTED \<noteq> TRANSACTION_STATUS_SUB_COMMITTED"
  "TRANSACTION_STATUS_COMMITTED \<noteq> TRANSACTION_STATUS_ABORTED" "TRANSACTION_STATUS_COMMITTED \<noteq> TRANSACTION_STATUS_SUB_COMMITTED"
  "TRANSACTION_STATUS_SUB_COMMITTED \<noteq> TRANSACTION_STATUS_COMMITTED" "TRANSACTION_STATUS_SUB_COMMITTED \<noteq> TRANSACTION_STATUS_ABORTED"
  "TRANSACTION_STATUS_SUB_COMMITTED \<noteq> TRANSACTION_STATUS_IN_PROGRESS" "TRANSACTION_STATUS_ABORTED \<noteq> TRANSACTION_STATUS_IN_PROGRESS"
  by (simp_all add: status_defs)

lemma commit_answer_final:
  assumes "TransactionIdIsNormal x" "log_has (st_clog s) x" "xid_status (st_clog s) x \<noteq> TRANSACTION_STATUS_SUB_COMMITTED"
  shows "answers TransactionIdDidCommit s (xid_status (st_clog s) x = TRANSACTION_STATUS_COMMITTED) x"
    and "answers TransactionIdDidAbort s (xid_status (st_clog s) x = TRANSACTION_STATUS_ABORTED) x"
proof -
  show "answers TransactionIdDidCommit s (xid_status (st_clog s) x = TRANSACTION_STATUS_COMMITTED) x"
    unfolding answers_def
  proof (intro allI impI, elim conjE)
    fix t assume "same_logs s t" "cache_ok t"
    from fetch_answer [OF assms(1,2) this] obtain u where
      "TransactionLogFetch x t = Inr (xid_status (st_clog s) x, u)" "cache_ok u" "same_logs s u" by blast
    then show "\<exists>u. TransactionIdDidCommit x t = Some (Inr (xid_status (st_clog s) x = TRANSACTION_STATUS_COMMITTED, u)) \<and> cache_ok u \<and> same_logs s u"
      using assms(3) by (subst TransactionIdDidCommit.simps) auto
  qed
  show "answers TransactionIdDidAbort s (xid_status (st_clog s) x = TRANSACTION_STATUS_ABORTED) x"
    unfolding answers_def
  proof (intro allI impI, elim conjE)
    fix t assume "same_logs s t" "cache_ok t"
    from fetch_answer [OF assms(1,2) this] obtain u where
      "TransactionLogFetch x t = Inr (xid_status (st_clog s) x, u)" "cache_ok u" "same_logs s u" by blast
    then show "\<exists>u. TransactionIdDidAbort x t = Some (Inr (xid_status (st_clog s) x = TRANSACTION_STATUS_ABORTED, u)) \<and> cache_ok u \<and> same_logs s u"
      using assms(3) by (subst TransactionIdDidAbort.simps) auto
  qed
qed

lemma answer_parent:
  assumes "TransactionIdIsNormal x" "log_has (st_clog s) x" "xid_status (st_clog s) x = TRANSACTION_STATUS_SUB_COMMITTED"
    and "\<not> TransactionIdPrecedes x (TransactionXmin s)" "SubTransGetParent (st_subtrans s) x = Inr q" "TransactionIdIsNormal q"
  shows "answers TransactionIdDidCommit s b q \<Longrightarrow> answers TransactionIdDidCommit s b x"
    and "answers TransactionIdDidAbort s b q \<Longrightarrow> answers TransactionIdDidAbort s b x"
proof -
  have q: "TransactionIdIsValid q" using assms(6) by (auto simp: xid_defs)
  assume parent: "answers TransactionIdDidCommit s b q"
  show "answers TransactionIdDidCommit s b x"
    unfolding answers_def
  proof (intro allI impI, elim conjE)
    fix t assume "same_logs s t" "cache_ok t"
    from fetch_answer [OF assms(1,2) this] obtain u where u:
      "TransactionLogFetch x t = Inr (xid_status (st_clog s) x, u)" "cache_ok u" "same_logs s u" by blast
    then have "TransactionIdDidCommit x t = TransactionIdDidCommit q u"
      using assms(3-5) q by (subst TransactionIdDidCommit.simps) (simp add: same_logs_def)
    with parent u show "\<exists>u. TransactionIdDidCommit x t = Some (Inr (b, u)) \<and> cache_ok u \<and> same_logs s u"
      by (simp add: answers_def)
  qed
next
  have q: "TransactionIdIsValid q" using assms(6) by (auto simp: xid_defs)
  assume parent: "answers TransactionIdDidAbort s b q"
  show "answers TransactionIdDidAbort s b x"
    unfolding answers_def
  proof (intro allI impI, elim conjE)
    fix t assume "same_logs s t" "cache_ok t"
    from fetch_answer [OF assms(1,2) this] obtain u where u:
      "TransactionLogFetch x t = Inr (xid_status (st_clog s) x, u)" "cache_ok u" "same_logs s u" by blast
    then have "TransactionIdDidAbort x t = TransactionIdDidAbort q u"
      using assms(3-5) q by (subst TransactionIdDidAbort.simps) (simp add: same_logs_def)
    with parent u show "\<exists>u. TransactionIdDidAbort x t = Some (Inr (b, u)) \<and> cache_ok u \<and> same_logs s u"
      by (simp add: answers_def)
  qed
qed

section \<open>Transaction trees\<close>

text \<open>
  The subtransactions are listed after their parents, as they are in the order of their ids.
\<close>

fun parents_ok :: "subtrans \<Rightarrow> TransactionId list \<Rightarrow> TransactionId list \<Rightarrow> bool" where
  "parents_ok st known [] \<longleftrightarrow> True"
| "parents_ok st known (s # subs) \<longleftrightarrow>
     (case SubTransGetParent st s of Inl e \<Rightarrow> False | Inr q \<Rightarrow> q \<in> set known) \<and> parents_ok st (s # known) subs"

definition tree_ok :: "StatusState \<Rightarrow> TransactionId \<Rightarrow> TransactionId list \<Rightarrow> bool" where
  "tree_ok s xid subs \<longleftrightarrow> distinct (xid # subs) \<and>
     (\<forall>x\<in>set (xid # subs). TransactionIdIsNormal x \<and> log_has (st_clog s) x \<and> \<not> TransactionIdPrecedes x (TransactionXmin s)) \<and>
     parents_ok (st_subtrans s) [xid] subs"

lemma tree_answers:
  assumes "parents_ok (st_subtrans s) known subs"
    and "\<forall>x\<in>set known \<union> set subs. TransactionIdIsNormal x \<and> log_has (st_clog s) x \<and> \<not> TransactionIdPrecedes x (TransactionXmin s)"
    and "\<forall>x\<in>set known. answers TransactionIdDidCommit s b x"
    and "\<forall>x\<in>set subs. xid_status (st_clog s) x = TRANSACTION_STATUS_SUB_COMMITTED \<or>
       (xid_status (st_clog s) x = TRANSACTION_STATUS_COMMITTED) = b"
  shows "\<forall>x\<in>set subs. answers TransactionIdDidCommit s b x"
  using assms
proof (induction subs arbitrary: known)
  case (Cons x subs)
  obtain q where q: "SubTransGetParent (st_subtrans s) x = Inr q" "q \<in> set known"
    using Cons.prems(1) by (auto split: sum.splits)
  have x: "answers TransactionIdDidCommit s b x"
  proof (cases "xid_status (st_clog s) x = TRANSACTION_STATUS_SUB_COMMITTED")
    case True
    then show ?thesis using Cons.prems(2,3) q answer_parent(1) [of x s q b] by auto
  next
    case False
    then show ?thesis using Cons.prems(2,4) commit_answer_final(1) [of x s] by auto
  qed
  moreover have "\<forall>y\<in>set subs. answers TransactionIdDidCommit s b y"
    using Cons.prems x by (intro Cons.IH [of "x # known"]) auto
  ultimately show ?case by simp
qed simp

lemma statuses_lt [simp]:
  "TRANSACTION_STATUS_COMMITTED < 4" "TRANSACTION_STATUS_ABORTED < 4" "TRANSACTION_STATUS_SUB_COMMITTED < 4"
  by (simp_all add: status_defs)

lemma status_const_writes:
  "\<forall>x\<in>set l. log_has log x \<Longrightarrow> st < 4 \<Longrightarrow>
   xid_status (apply_writes False lsn (map (\<lambda>x. (x, st)) l) log) y = (if y \<in> set l then st else xid_status log y)"
  by (induction l arbitrary: log) (auto simp: xid_status_write)

lemma tree_writes_commit:
  assumes "TransactionIdIsValid xid"
  obtains as cs where "tree_writes xid subs TRANSACTION_STATUS_COMMITTED =
      map (\<lambda>s. (s, TRANSACTION_STATUS_SUB_COMMITTED)) as @ (xid, TRANSACTION_STATUS_COMMITTED) # map (\<lambda>s. (s, TRANSACTION_STATUS_COMMITTED)) cs"
    "set as = set subs" "set cs = set subs"
proof -
  define first where "first = takeWhile (\<lambda>s. TransactionIdToPage s = TransactionIdToPage xid) subs"
  define others where "others = dropWhile (\<lambda>s. TransactionIdToPage s = TransactionIdToPage xid) subs"
  have "first @ others = subs" unfolding first_def others_def by (rule takeWhile_dropWhile_id)
  then have "set first \<union> set others = set subs" by (metis set_append)
  moreover have "tree_writes xid subs TRANSACTION_STATUS_COMMITTED =
      map (\<lambda>s. (s, TRANSACTION_STATUS_SUB_COMMITTED)) (others @ first) @ (xid, TRANSACTION_STATUS_COMMITTED) #
      map (\<lambda>s. (s, TRANSACTION_STATUS_COMMITTED)) (first @ others)"
    using assms unfolding tree_writes_def page_writes_def Let_def first_def [symmetric] others_def [symmetric] by simp
  ultimately show ?thesis by (intro that [of "others @ first" "first @ others"]) auto
qed

text \<open>
  After any number of the updates of a commit, either nothing of the tree is committed yet and the
  main transaction is still in progress, or the main transaction is committed and every
  subtransaction is committed or waits for its parent.
\<close>

lemma commit_prefix:
  assumes "tree_ok s xid subs" "\<forall>x\<in>set (xid # subs). xid_status (st_clog s) x = TRANSACTION_STATUS_IN_PROGRESS"
    and "log = apply_writes False lsn (take n (tree_writes xid subs TRANSACTION_STATUS_COMMITTED)) (st_clog s)"
  obtains b where "(xid_status log xid = TRANSACTION_STATUS_COMMITTED) = b" "xid_status log xid \<noteq> TRANSACTION_STATUS_SUB_COMMITTED"
    "\<forall>x\<in>set subs. xid_status log x = TRANSACTION_STATUS_SUB_COMMITTED \<or> (xid_status log x = TRANSACTION_STATUS_COMMITTED) = b"
    "n = 0 \<longrightarrow> \<not> b" "length (tree_writes xid subs TRANSACTION_STATUS_COMMITTED) \<le> n \<longrightarrow> b"
proof -
  have val: "TransactionIdIsValid xid" "xid \<notin> set subs" and has: "\<And>x. x \<in> set (xid # subs) \<Longrightarrow> log_has (st_clog s) x"
    using assms(1) by (auto simp: tree_ok_def xid_defs)
  obtain as cs where ws: "tree_writes xid subs TRANSACTION_STATUS_COMMITTED =
      map (\<lambda>s. (s, TRANSACTION_STATUS_SUB_COMMITTED)) as @ (xid, TRANSACTION_STATUS_COMMITTED) # map (\<lambda>s. (s, TRANSACTION_STATUS_COMMITTED)) cs"
      "set as = set subs" "set cs = set subs"
    by (rule tree_writes_commit [OF val(1)])
  show ?thesis
  proof (cases "n \<le> length as")
    case True
    then have log: "log = apply_writes False lsn (map (\<lambda>s. (s, TRANSACTION_STATUS_SUB_COMMITTED)) (take n as)) (st_clog s)"
      by (simp add: assms(3) ws(1) take_map)
    have sub: "set (take n as) \<subseteq> set subs" using ws(2) set_take_subset by fastforce
    then have "xid_status log x = (if x \<in> set (take n as) then TRANSACTION_STATUS_SUB_COMMITTED else xid_status (st_clog s) x)" for x
      unfolding log using has by (intro status_const_writes) auto
    then show ?thesis
      using assms(2) val(2) sub True ws(1) by (intro that [of False]) auto
  next
    case False
    let ?log = "apply_writes False lsn (map (\<lambda>s. (s, TRANSACTION_STATUS_SUB_COMMITTED)) as) (st_clog s)"
    let ?cs = "take (n - length as - 1) cs"
    have log: "log = apply_writes False lsn (map (\<lambda>s. (s, TRANSACTION_STATUS_COMMITTED)) ?cs)
        (write_status False lsn (xid, TRANSACTION_STATUS_COMMITTED) ?log)"
      using False by (simp add: assms(3) ws(1) take_map take_Cons' not_le)
    have sub: "set ?cs \<subseteq> set subs" using ws(3) set_take_subset by fastforce
    have 1: "xid_status ?log x = (if x \<in> set as then TRANSACTION_STATUS_SUB_COMMITTED else xid_status (st_clog s) x)" for x
      using has ws(2) by (intro status_const_writes) auto
    have "xid_status log x = (if x \<in> set ?cs then TRANSACTION_STATUS_COMMITTED
        else if x = xid then TRANSACTION_STATUS_COMMITTED else xid_status ?log x)" for x
      unfolding log using has sub by (subst status_const_writes) (auto simp: xid_status_write)
    then show ?thesis
      using val(2) sub False ws 1 by (intro that [of True]) auto
  qed
qed

lemma cache_ok_prefix:
  assumes "cache_ok s" "\<forall>x\<in>fst ` set ws. log_has (st_clog s) x \<and> xid_status (st_clog s) x = TRANSACTION_STATUS_IN_PROGRESS"
    "\<forall>x\<in>snd ` set ws. x < 4"
  shows "cache_ok (s\<lparr>st_clog := apply_writes False lsn ws (st_clog s)\<rparr>)"
proof -
  have "xid_status (apply_writes False lsn ws log) y = xid_status log y"
    if "y \<notin> fst ` set ws" "\<forall>x\<in>fst ` set ws. log_has log x" "\<forall>x\<in>snd ` set ws. x < 4" for y log
    using that by (induction ws arbitrary: log) (auto simp: xid_status_write)
  with assms show ?thesis by (fastforce simp: cache_ok_def)
qed

lemma tree_writes_xids: "fst ` set (tree_writes xid subs st) \<subseteq> set (xid # subs)"
  by (auto simp: tree_writes_def page_writes_def Let_def dest: set_takeWhileD set_dropWhileD)

lemma tree_writes_statuses: "st < 4 \<Longrightarrow> x \<in> snd ` set (tree_writes xid subs st) \<Longrightarrow> x < 4"
  by (auto simp: tree_writes_def page_writes_def Let_def split: if_splits)

section \<open>Properties\<close>


definition example_subtrans :: subtrans where
  "example_subtrans = (\<lambda>pageno. Some (replicate SUBTRANS_XACTS_PER_PAGE 32760))"

definition example_state :: StatusState where
  "example_state = \<lparr>st_clog = example_log, st_subtrans = example_subtrans, TransactionXmin = 700, cachedFetchXid = 0,
     cachedFetchXidStatus = 0, cachedCommitLSN = 0\<rparr>"

text \<open>A tree with subtransactions on the page of the main transaction and on the next one.\<close>

lemma example_tree: "tree_ok example_state 32760 [32765, 32770]" "cache_ok example_state"
    "xid_status (st_clog example_state) x = TRANSACTION_STATUS_IN_PROGRESS"
proof -
  have parent: "SubTransGetParent example_subtrans y = Inr 32760" if "TransactionIdIsNormal y" for y
    using that by (simp add: SubTransGetParent_def example_subtrans_def SubTransToEntry_def SUBTRANS_XACTS_PER_PAGE_def BLCKSZ_def)
  show "tree_ok example_state 32760 [32765, 32770]"
    by (simp add: tree_ok_def example_state_def parent TransactionIdPrecedes_def xid_defs)
  show "cache_ok example_state" by (simp add: cache_ok_def example_state_def xid_defs)
  show "xid_status (st_clog example_state) x = TRANSACTION_STATUS_IN_PROGRESS"
    using example_status [of x]
    by (simp add: example_state_def xid_status_def TransactionIdGetStatus_def SimpleLruReadPage_def split: option.splits)
qed




text \<open>
  The cache starts with the invalid transaction id as its key, so the answer for that id depends on
  whether anything has been cached yet.
\<close>

lemma invalid_xid_status_depends_on_cache:
  "TransactionIdDidAbort InvalidTransactionId example_state = Some (Inr (False, example_state))"
  "TransactionIdDidAbort InvalidTransactionId (example_state\<lparr>cachedFetchXid := 1000, cachedFetchXidStatus := TRANSACTION_STATUS_COMMITTED\<rparr>)
     = Some (Inr (True, example_state\<lparr>cachedFetchXid := 1000, cachedFetchXidStatus := TRANSACTION_STATUS_COMMITTED\<rparr>))"
  by (simp_all add: TransactionIdDidAbort.simps TransactionLogFetch_def example_state_def xid_defs status_defs)

end
