(* ===== verification/XactBlock.thy ===== *)
theory XactBlock
  imports Prelude
begin

text \<open>
  The transaction block state machine of \<^verbatim>\<open>src/src/backend/access/transam/xact.c\<close>: what BEGIN,
  COMMIT, ROLLBACK, PREPARE, SAVEPOINT, RELEASE and ROLLBACK TO do to the stack of transaction
  states, and how the main loop drives it with \<open>StartTransactionCommand\<close>,
  \<open>CommitTransactionCommand\<close> and \<open>AbortCurrentTransaction\<close>.

  The linked list from \<^verbatim>\<open>CurrentTransactionState\<close> through the parent links is a list, innermost
  transaction first.  Of the low-level routines (\<open>StartTransaction\<close>, \<open>CommitTransaction\<close> and so on)
  the model keeps the changes to the transaction state record; that they ran is recorded in a trace,
  newest event first.  \<^verbatim>\<open>elog(ERROR)\<close> and \<^verbatim>\<open>elog(FATAL)\<close> are the two kinds of \<open>Inl\<close> result.
\<close>

section \<open>States\<close>

datatype TransState =
  TRANS_DEFAULT | TRANS_START | TRANS_INPROGRESS | TRANS_COMMIT | TRANS_ABORT | TRANS_PREPARE

datatype TBlockState =
    TBLOCK_DEFAULT | TBLOCK_STARTED
  | TBLOCK_BEGIN | TBLOCK_INPROGRESS | TBLOCK_IMPLICIT_INPROGRESS | TBLOCK_PARALLEL_INPROGRESS
  | TBLOCK_END | TBLOCK_ABORT | TBLOCK_ABORT_END | TBLOCK_ABORT_PENDING | TBLOCK_PREPARE
  | TBLOCK_SUBBEGIN | TBLOCK_SUBINPROGRESS | TBLOCK_SUBRELEASE | TBLOCK_SUBCOMMIT | TBLOCK_SUBABORT
  | TBLOCK_SUBABORT_END | TBLOCK_SUBABORT_PENDING | TBLOCK_SUBRESTART | TBLOCK_SUBABORT_RESTART

record TransactionStateData =
  subTransactionId :: uint32
  xname :: "string option"
  savepointLevel :: nat
  state :: TransState
  blockState :: TBlockState
  nestingLevel :: nat
  prevXactReadOnly :: bool
  parallelModeLevel :: nat
  chain :: bool

datatype xact_event =
    EvStart | EvCommit | EvPrepare | EvAbort | EvCleanup
  | EvSubStart | EvSubCommit | EvSubAbort | EvSubCleanup | EvCommandCounter | EvWarning

record XactChars = XactIsoLevel :: nat  XactReadOnly :: bool  XactDeferrable :: bool

record XactState =
  stack :: "TransactionStateData list"
  currentSubTransactionId :: uint32
  characteristics :: XactChars
  defaults :: XactChars
  pipelining :: bool
  need_immediate_commit :: bool
  trace :: "xact_event list"

datatype xact_error = XError string | XFatal string

definition and_then :: "xact_error + 'a \<Rightarrow> ('a \<Rightarrow> xact_error + 'b) \<Rightarrow> xact_error + 'b" where
  "and_then r f = (case r of Inl e \<Rightarrow> Inl e | Inr x \<Rightarrow> f x)"

definition cur :: "XactState \<Rightarrow> TransactionStateData" where "cur x = hd (stack x)"

definition upd_cur :: "(TransactionStateData \<Rightarrow> TransactionStateData) \<Rightarrow> XactState \<Rightarrow> XactState" where
  "upd_cur f x = x\<lparr>stack := f (cur x) # tl (stack x)\<rparr>"

definition set_block :: "TBlockState \<Rightarrow> XactState \<Rightarrow> XactState" where
  "set_block b = upd_cur (\<lambda>s. s\<lparr>blockState := b\<rparr>)"

definition log_event :: "xact_event \<Rightarrow> XactState \<Rightarrow> XactState" where
  "log_event e x = x\<lparr>trace := e # trace x\<rparr>"

definition unexpected_state :: "string \<Rightarrow> string" where
  "unexpected_state f = f @ '': unexpected state''"

section \<open>Status queries\<close>

definition IsInParallelMode :: "XactState \<Rightarrow> bool" where
  "IsInParallelMode x \<longleftrightarrow> parallelModeLevel (cur x) \<noteq> 0"

definition IsTransactionState :: "XactState \<Rightarrow> bool" where
  "IsTransactionState x \<longleftrightarrow> state (cur x) = TRANS_INPROGRESS"

definition IsAbortedTransactionBlockState :: "XactState \<Rightarrow> bool" where
  "IsAbortedTransactionBlockState x \<longleftrightarrow>
     blockState (cur x) = TBLOCK_ABORT \<or> blockState (cur x) = TBLOCK_SUBABORT"

definition IsTransactionBlock :: "XactState \<Rightarrow> bool" where
  "IsTransactionBlock x =
     (if blockState (cur x) = TBLOCK_DEFAULT \<or> blockState (cur x) = TBLOCK_STARTED then False else True)"

definition IsTransactionOrTransactionBlock :: "XactState \<Rightarrow> bool" where
  "IsTransactionOrTransactionBlock x = (if blockState (cur x) = TBLOCK_DEFAULT then False else True)"

definition IsSubTransaction :: "XactState \<Rightarrow> bool" where
  "IsSubTransaction x = (if nestingLevel (cur x) \<ge> 2 then True else False)"

definition TransactionBlockStatusCode :: "XactState \<Rightarrow> char" where
  "TransactionBlockStatusCode x =
     (case blockState (cur x) of
        TBLOCK_DEFAULT \<Rightarrow> CHR ''I'' | TBLOCK_STARTED \<Rightarrow> CHR ''I''
      | TBLOCK_BEGIN \<Rightarrow> CHR ''T'' | TBLOCK_SUBBEGIN \<Rightarrow> CHR ''T'' | TBLOCK_INPROGRESS \<Rightarrow> CHR ''T''
      | TBLOCK_IMPLICIT_INPROGRESS \<Rightarrow> CHR ''T'' | TBLOCK_PARALLEL_INPROGRESS \<Rightarrow> CHR ''T''
      | TBLOCK_SUBINPROGRESS \<Rightarrow> CHR ''T'' | TBLOCK_END \<Rightarrow> CHR ''T'' | TBLOCK_SUBRELEASE \<Rightarrow> CHR ''T''
      | TBLOCK_SUBCOMMIT \<Rightarrow> CHR ''T'' | TBLOCK_PREPARE \<Rightarrow> CHR ''T''
      | TBLOCK_ABORT \<Rightarrow> CHR ''E'' | TBLOCK_SUBABORT \<Rightarrow> CHR ''E'' | TBLOCK_ABORT_END \<Rightarrow> CHR ''E''
      | TBLOCK_SUBABORT_END \<Rightarrow> CHR ''E'' | TBLOCK_ABORT_PENDING \<Rightarrow> CHR ''E''
      | TBLOCK_SUBABORT_PENDING \<Rightarrow> CHR ''E'' | TBLOCK_SUBRESTART \<Rightarrow> CHR ''E''
      | TBLOCK_SUBABORT_RESTART \<Rightarrow> CHR ''E'')"

section \<open>Low-level routines\<close>

definition InvalidSubTransactionId :: uint32 where "InvalidSubTransactionId = 0"
definition TopSubTransactionId :: uint32 where "TopSubTransactionId = 1"

text \<open>
  \<^verbatim>\<open>StartTransaction\<close> resets \<open>CurrentTransactionState\<close> to the top-level record; the GUC defaults give
  the characteristics of the new transaction.
\<close>

definition StartTransaction :: "XactState \<Rightarrow> XactState" where
  "StartTransaction x =
     (let s = last (stack x)
      in log_event EvStart (x\<lparr>stack := [s\<lparr>state := TRANS_INPROGRESS, nestingLevel := 1,
             subTransactionId := TopSubTransactionId\<rparr>],
           currentSubTransactionId := TopSubTransactionId,
           characteristics := defaults x\<rparr>))"

definition CommitTransaction :: "XactState \<Rightarrow> XactState" where
  "CommitTransaction x =
     log_event EvCommit (upd_cur (\<lambda>s. s\<lparr>state := TRANS_DEFAULT, nestingLevel := 0,
       subTransactionId := InvalidSubTransactionId, parallelModeLevel := 0\<rparr>) x)"

definition PrepareTransaction :: "XactState \<Rightarrow> XactState" where
  "PrepareTransaction x =
     log_event EvPrepare (upd_cur (\<lambda>s. s\<lparr>state := TRANS_DEFAULT, nestingLevel := 0,
       subTransactionId := InvalidSubTransactionId\<rparr>) x)"

definition AbortTransaction :: "XactState \<Rightarrow> XactState" where
  "AbortTransaction x = log_event EvAbort (upd_cur (\<lambda>s. s\<lparr>state := TRANS_ABORT, parallelModeLevel := 0\<rparr>) x)"

definition CleanupTransaction :: "XactState \<Rightarrow> xact_error + XactState" where
  "CleanupTransaction x =
     (if state (cur x) \<noteq> TRANS_ABORT then Inl (XFatal (unexpected_state ''CleanupTransaction''))
      else Inr (log_event EvCleanup (upd_cur (\<lambda>s. s\<lparr>state := TRANS_DEFAULT, nestingLevel := 0,
        subTransactionId := InvalidSubTransactionId, parallelModeLevel := 0\<rparr>) x)))"

definition PushTransaction :: "XactState \<Rightarrow> xact_error + XactState" where
  "PushTransaction x =
     (let p = cur x;
          sid = currentSubTransactionId x + 1
      in if sid = InvalidSubTransactionId
         then Inl (XError ''cannot have more than 2^32-1 subtransactions in a transaction'')
         else Inr (x\<lparr>currentSubTransactionId := sid,
           stack := \<lparr>subTransactionId = sid, xname = None, savepointLevel = savepointLevel p,
             state = TRANS_DEFAULT, blockState = TBLOCK_SUBBEGIN, nestingLevel = nestingLevel p + 1,
             prevXactReadOnly = XactReadOnly (characteristics x), parallelModeLevel = 0, chain = False\<rparr> # stack x\<rparr>))"

definition PopTransaction :: "XactState \<Rightarrow> xact_error + XactState" where
  "PopTransaction x =
     (if tl (stack x) = [] then Inl (XFatal ''PopTransaction with no parent'')
      else Inr (x\<lparr>stack := tl (stack x)\<rparr>))"

definition StartSubTransaction :: "XactState \<Rightarrow> XactState" where
  "StartSubTransaction x = log_event EvSubStart (upd_cur (\<lambda>s. s\<lparr>state := TRANS_INPROGRESS\<rparr>) x)"

definition restore_read_only :: "XactState \<Rightarrow> XactState" where
  "restore_read_only x =
     x\<lparr>characteristics := (characteristics x)\<lparr>XactReadOnly := prevXactReadOnly (cur x)\<rparr>\<rparr>"

definition CommitSubTransaction :: "XactState \<Rightarrow> xact_error + XactState" where
  "CommitSubTransaction x =
     PopTransaction (log_event EvSubCommit (restore_read_only
       (upd_cur (\<lambda>s. s\<lparr>state := TRANS_DEFAULT, parallelModeLevel := 0\<rparr>) x)))"

definition AbortSubTransaction :: "XactState \<Rightarrow> XactState" where
  "AbortSubTransaction x =
     log_event EvSubAbort (restore_read_only
       (upd_cur (\<lambda>s. s\<lparr>state := TRANS_ABORT, parallelModeLevel := 0\<rparr>) x))"

definition CleanupSubTransaction :: "XactState \<Rightarrow> xact_error + XactState" where
  "CleanupSubTransaction x =
     PopTransaction (log_event EvSubCleanup (upd_cur (\<lambda>s. s\<lparr>state := TRANS_DEFAULT\<rparr>) x))"

section \<open>The main loop's calls\<close>

definition StartTransactionCommand :: "XactState \<Rightarrow> xact_error + XactState" where
  "StartTransactionCommand x =
     (case blockState (cur x) of
        TBLOCK_DEFAULT \<Rightarrow> Inr (set_block TBLOCK_STARTED (StartTransaction x))
      | TBLOCK_INPROGRESS \<Rightarrow> Inr x
      | TBLOCK_IMPLICIT_INPROGRESS \<Rightarrow> Inr x
      | TBLOCK_SUBINPROGRESS \<Rightarrow> Inr x
      | TBLOCK_ABORT \<Rightarrow> Inr x
      | TBLOCK_SUBABORT \<Rightarrow> Inr x
      | _ \<Rightarrow> Inl (XError (unexpected_state ''StartTransactionCommand'')))"

text \<open>The \<^verbatim>\<open>if (s->chain)\<close> block after the end of the main transaction.\<close>

definition chain_transaction :: "XactChars \<Rightarrow> XactState \<Rightarrow> XactState" where
  "chain_transaction savetc x =
     (if chain (cur x) then
        (let x = StartTransaction x;
             x = set_block TBLOCK_INPROGRESS x;
             x = upd_cur (\<lambda>s. s\<lparr>chain := False\<rparr>) x
         in x\<lparr>characteristics := savetc\<rparr>)
      else x)"

definition end_transaction :: "XactChars \<Rightarrow> XactState \<Rightarrow> XactState" where
  "end_transaction savetc x = chain_transaction savetc (set_block TBLOCK_DEFAULT x)"

text \<open>The two \<^verbatim>\<open>do ... while\<close> loops that subcommit.  \<open>n\<close> is the depth of the stack.\<close>

fun subcommit_loop :: "nat \<Rightarrow> TBlockState \<Rightarrow> XactState \<Rightarrow> xact_error + XactState" where
  "subcommit_loop 0 b x = Inl (XFatal ''PopTransaction with no parent'')"
| "subcommit_loop (Suc n) b x =
     and_then (CommitSubTransaction x) (\<lambda>x.
       if blockState (cur x) = b then subcommit_loop n b x else Inr x)"

text \<open>
  \<open>DefineSavepoint\<close>, also called by \<open>CommitTransactionCommand\<close> with a null name when it restarts a
  savepoint.
\<close>

definition DefineSavepoint :: "string option \<Rightarrow> XactState \<Rightarrow> xact_error + XactState" where
  "DefineSavepoint name x =
     (if IsInParallelMode x then Inl (XError ''cannot define savepoints during a parallel operation'')
      else case blockState (cur x) of
        TBLOCK_INPROGRESS \<Rightarrow> and_then (PushTransaction x) (\<lambda>x. Inr (upd_cur (\<lambda>s. s\<lparr>xname := name\<rparr>) x))
      | TBLOCK_SUBINPROGRESS \<Rightarrow> and_then (PushTransaction x) (\<lambda>x. Inr (upd_cur (\<lambda>s. s\<lparr>xname := name\<rparr>) x))
      | TBLOCK_IMPLICIT_INPROGRESS \<Rightarrow> Inl (XError ''SAVEPOINT can only be used in transaction blocks'')
      | _ \<Rightarrow> Inl (XFatal (unexpected_state ''DefineSavepoint'')))"

text \<open>The common end of the \<^verbatim>\<open>SUBRESTART\<close> and \<^verbatim>\<open>SUBABORT_RESTART\<close> cases.\<close>

definition restart_savepoint :: "string option \<Rightarrow> nat \<Rightarrow> XactState \<Rightarrow> xact_error + XactState" where
  "restart_savepoint name level x =
     and_then (CleanupSubTransaction x) (\<lambda>x.
     and_then (DefineSavepoint None x) (\<lambda>x.
       Inr (set_block TBLOCK_SUBINPROGRESS (StartSubTransaction
         (upd_cur (\<lambda>s. s\<lparr>xname := name, savepointLevel := level\<rparr>) x)))))"

text \<open>
  \<open>CommitTransactionCommand\<close>, recursive after popping an aborted subtransaction; the recursion is on
  the depth of the stack, which every such pop decreases.
\<close>

fun commit_transaction_command :: "nat \<Rightarrow> XactState \<Rightarrow> xact_error + XactState" where
  "commit_transaction_command 0 x = Inl (XFatal ''PopTransaction with no parent'')"
| "commit_transaction_command (Suc n) x =
     (let savetc = characteristics x in
      case blockState (cur x) of
        TBLOCK_DEFAULT \<Rightarrow> Inl (XFatal (unexpected_state ''CommitTransactionCommand''))
      | TBLOCK_PARALLEL_INPROGRESS \<Rightarrow> Inl (XFatal (unexpected_state ''CommitTransactionCommand''))
      | TBLOCK_STARTED \<Rightarrow> Inr (set_block TBLOCK_DEFAULT (CommitTransaction x))
      | TBLOCK_BEGIN \<Rightarrow> Inr (set_block TBLOCK_INPROGRESS x)
      | TBLOCK_INPROGRESS \<Rightarrow> Inr (log_event EvCommandCounter x)
      | TBLOCK_IMPLICIT_INPROGRESS \<Rightarrow> Inr (log_event EvCommandCounter x)
      | TBLOCK_SUBINPROGRESS \<Rightarrow> Inr (log_event EvCommandCounter x)
      | TBLOCK_END \<Rightarrow> Inr (end_transaction savetc (CommitTransaction x))
      | TBLOCK_ABORT \<Rightarrow> Inr x
      | TBLOCK_SUBABORT \<Rightarrow> Inr x
      | TBLOCK_ABORT_END \<Rightarrow> and_then (CleanupTransaction x) (\<lambda>x. Inr (end_transaction savetc x))
      | TBLOCK_ABORT_PENDING \<Rightarrow>
          and_then (CleanupTransaction (AbortTransaction x)) (\<lambda>x. Inr (end_transaction savetc x))
      | TBLOCK_PREPARE \<Rightarrow> Inr (set_block TBLOCK_DEFAULT (PrepareTransaction x))
      | TBLOCK_SUBBEGIN \<Rightarrow> Inr (set_block TBLOCK_SUBINPROGRESS (StartSubTransaction x))
      | TBLOCK_SUBRELEASE \<Rightarrow> subcommit_loop (length (stack x)) TBLOCK_SUBRELEASE x
      | TBLOCK_SUBCOMMIT \<Rightarrow>
          and_then (subcommit_loop (length (stack x)) TBLOCK_SUBCOMMIT x) (\<lambda>x.
            if blockState (cur x) = TBLOCK_END then Inr (end_transaction savetc (CommitTransaction x))
            else if blockState (cur x) = TBLOCK_PREPARE
            then Inr (set_block TBLOCK_DEFAULT (PrepareTransaction x))
            else Inl (XError (unexpected_state ''CommitTransactionCommand'')))
      | TBLOCK_SUBABORT_END \<Rightarrow> and_then (CleanupSubTransaction x) (commit_transaction_command n)
      | TBLOCK_SUBABORT_PENDING \<Rightarrow>
          and_then (CleanupSubTransaction (AbortSubTransaction x)) (commit_transaction_command n)
      | TBLOCK_SUBRESTART \<Rightarrow>
          restart_savepoint (xname (cur x)) (savepointLevel (cur x))
            (AbortSubTransaction (upd_cur (\<lambda>s. s\<lparr>xname := None\<rparr>) x))
      | TBLOCK_SUBABORT_RESTART \<Rightarrow>
          restart_savepoint (xname (cur x)) (savepointLevel (cur x)) (upd_cur (\<lambda>s. s\<lparr>xname := None\<rparr>) x))"

definition CommitTransactionCommand :: "XactState \<Rightarrow> xact_error + XactState" where
  "CommitTransactionCommand x = commit_transaction_command (length (stack x)) x"

definition abort_and_cleanup :: "XactState \<Rightarrow> xact_error + XactState" where
  "abort_and_cleanup x =
     and_then (CleanupTransaction (AbortTransaction x)) (\<lambda>x. Inr (set_block TBLOCK_DEFAULT x))"

text \<open>The idle cases share the treatment of an error during transaction start.\<close>

definition abort_default :: "XactState \<Rightarrow> xact_error + XactState" where
  "abort_default x =
     (if state (cur x) = TRANS_DEFAULT then Inr x
      else
        let x = (if state (cur x) = TRANS_START then upd_cur (\<lambda>s. s\<lparr>state := TRANS_INPROGRESS\<rparr>) x else x)
        in CleanupTransaction (AbortTransaction x))"

fun abort_current_transaction :: "nat \<Rightarrow> XactState \<Rightarrow> xact_error + XactState" where
  "abort_current_transaction 0 x = Inl (XFatal ''PopTransaction with no parent'')"
| "abort_current_transaction (Suc n) x =
     (case blockState (cur x) of
        TBLOCK_DEFAULT \<Rightarrow> abort_default x
      | TBLOCK_STARTED \<Rightarrow> abort_and_cleanup x
      | TBLOCK_IMPLICIT_INPROGRESS \<Rightarrow> abort_and_cleanup x
      | TBLOCK_BEGIN \<Rightarrow> abort_and_cleanup x
      | TBLOCK_INPROGRESS \<Rightarrow> Inr (set_block TBLOCK_ABORT (AbortTransaction x))
      | TBLOCK_PARALLEL_INPROGRESS \<Rightarrow> Inr (set_block TBLOCK_ABORT (AbortTransaction x))
      | TBLOCK_END \<Rightarrow> abort_and_cleanup x
      | TBLOCK_ABORT \<Rightarrow> Inr x
      | TBLOCK_SUBABORT \<Rightarrow> Inr x
      | TBLOCK_ABORT_END \<Rightarrow> and_then (CleanupTransaction x) (\<lambda>x. Inr (set_block TBLOCK_DEFAULT x))
      | TBLOCK_ABORT_PENDING \<Rightarrow> abort_and_cleanup x
      | TBLOCK_PREPARE \<Rightarrow> abort_and_cleanup x
      | TBLOCK_SUBINPROGRESS \<Rightarrow> Inr (set_block TBLOCK_SUBABORT (AbortSubTransaction x))
      | TBLOCK_SUBBEGIN \<Rightarrow>
          and_then (CleanupSubTransaction (AbortSubTransaction x)) (abort_current_transaction n)
      | TBLOCK_SUBRELEASE \<Rightarrow>
          and_then (CleanupSubTransaction (AbortSubTransaction x)) (abort_current_transaction n)
      | TBLOCK_SUBCOMMIT \<Rightarrow>
          and_then (CleanupSubTransaction (AbortSubTransaction x)) (abort_current_transaction n)
      | TBLOCK_SUBABORT_PENDING \<Rightarrow>
          and_then (CleanupSubTransaction (AbortSubTransaction x)) (abort_current_transaction n)
      | TBLOCK_SUBRESTART \<Rightarrow>
          and_then (CleanupSubTransaction (AbortSubTransaction x)) (abort_current_transaction n)
      | TBLOCK_SUBABORT_END \<Rightarrow> and_then (CleanupSubTransaction x) (abort_current_transaction n)
      | TBLOCK_SUBABORT_RESTART \<Rightarrow> and_then (CleanupSubTransaction x) (abort_current_transaction n))"

definition AbortCurrentTransaction :: "XactState \<Rightarrow> xact_error + XactState" where
  "AbortCurrentTransaction x = abort_current_transaction (length (stack x)) x"


section \<open>Transaction block commands\<close>

definition BeginTransactionBlock :: "XactState \<Rightarrow> xact_error + XactState" where
  "BeginTransactionBlock x =
     (case blockState (cur x) of
        TBLOCK_STARTED \<Rightarrow> Inr (set_block TBLOCK_BEGIN x)
      | TBLOCK_IMPLICIT_INPROGRESS \<Rightarrow> Inr (set_block TBLOCK_BEGIN x)
      | TBLOCK_INPROGRESS \<Rightarrow> Inr (log_event EvWarning x)
      | TBLOCK_PARALLEL_INPROGRESS \<Rightarrow> Inr (log_event EvWarning x)
      | TBLOCK_SUBINPROGRESS \<Rightarrow> Inr (log_event EvWarning x)
      | TBLOCK_ABORT \<Rightarrow> Inr (log_event EvWarning x)
      | TBLOCK_SUBABORT \<Rightarrow> Inr (log_event EvWarning x)
      | _ \<Rightarrow> Inl (XFatal (unexpected_state ''BeginTransactionBlock'')))"

text \<open>
  The walks from the current transaction to the top: \<open>subf\<close> gives the new state of a subtransaction
  and \<open>topf\<close> that of the top-level transaction, \<open>None\<close> where the code reports an unexpected state.
\<close>

fun mark_all :: "(TBlockState \<Rightarrow> TBlockState option) \<Rightarrow> (TBlockState \<Rightarrow> TBlockState option) \<Rightarrow>
    TransactionStateData list \<Rightarrow> TransactionStateData list option" where
  "mark_all subf topf [] = None"
| "mark_all subf topf [s] = map_option (\<lambda>b. [s\<lparr>blockState := b\<rparr>]) (topf (blockState s))"
| "mark_all subf topf (s # p # ps) =
     (case subf (blockState s) of
        None \<Rightarrow> None
      | Some b \<Rightarrow> map_option (\<lambda>rest. s\<lparr>blockState := b\<rparr> # rest) (mark_all subf topf (p # ps)))"

definition commit_sub :: "TBlockState \<Rightarrow> TBlockState option" where
  "commit_sub b = (if b = TBLOCK_SUBINPROGRESS then Some TBLOCK_SUBCOMMIT else None)"

definition commit_top :: "TBlockState \<Rightarrow> TBlockState option" where
  "commit_top b = (if b = TBLOCK_INPROGRESS then Some TBLOCK_END else None)"

definition abort_sub :: "TBlockState \<Rightarrow> TBlockState option" where
  "abort_sub b = (if b = TBLOCK_SUBINPROGRESS then Some TBLOCK_SUBABORT_PENDING
                  else if b = TBLOCK_SUBABORT then Some TBLOCK_SUBABORT_END else None)"

definition abort_top :: "TBlockState \<Rightarrow> TBlockState option" where
  "abort_top b = (if b = TBLOCK_INPROGRESS then Some TBLOCK_ABORT_PENDING
                  else if b = TBLOCK_ABORT then Some TBLOCK_ABORT_END else None)"

definition set_stack :: "string \<Rightarrow> XactState \<Rightarrow> TransactionStateData list option \<Rightarrow> xact_error + XactState" where
  "set_stack f x stk = (case stk of None \<Rightarrow> Inl (XFatal (unexpected_state f)) | Some stk \<Rightarrow> Inr (x\<lparr>stack := stk\<rparr>))"

text \<open>\<^verbatim>\<open>s->chain = chain\<close>, where \<^verbatim>\<open>s\<close> has become the top-level transaction.\<close>

definition set_chain :: "bool \<Rightarrow> XactState \<Rightarrow> XactState" where
  "set_chain c x = x\<lparr>stack := butlast (stack x) @ [(last (stack x))\<lparr>chain := c\<rparr>]\<rparr>"

definition no_transaction :: "bool \<Rightarrow> string \<Rightarrow> XactState \<Rightarrow> xact_error + XactState" where
  "no_transaction chn stmt x =
     (if chn then Inl (XError (stmt @ '' AND CHAIN can only be used in transaction blocks''))
      else Inr (log_event EvWarning x))"

definition EndTransactionBlock :: "bool \<Rightarrow> XactState \<Rightarrow> xact_error + bool \<times> XactState" where
  "EndTransactionBlock chn x =
     and_then
       (case blockState (cur x) of
          TBLOCK_INPROGRESS \<Rightarrow> Inr (True, set_block TBLOCK_END x)
        | TBLOCK_IMPLICIT_INPROGRESS \<Rightarrow>
            and_then (no_transaction chn ''COMMIT'' x) (\<lambda>x. Inr (True, set_block TBLOCK_END x))
        | TBLOCK_ABORT \<Rightarrow> Inr (False, set_block TBLOCK_ABORT_END x)
        | TBLOCK_SUBINPROGRESS \<Rightarrow>
            and_then (set_stack ''EndTransactionBlock'' x (mark_all commit_sub commit_top (stack x)))
              (\<lambda>x. Inr (True, x))
        | TBLOCK_SUBABORT \<Rightarrow>
            and_then (set_stack ''EndTransactionBlock'' x (mark_all abort_sub abort_top (stack x)))
              (\<lambda>x. Inr (False, x))
        | TBLOCK_STARTED \<Rightarrow> and_then (no_transaction chn ''COMMIT'' x) (\<lambda>x. Inr (True, x))
        | TBLOCK_PARALLEL_INPROGRESS \<Rightarrow> Inl (XFatal ''cannot commit during a parallel operation'')
        | _ \<Rightarrow> Inl (XFatal (unexpected_state ''EndTransactionBlock'')))
       (\<lambda>(result, x). Inr (result, set_chain chn x))"

definition PrepareTransactionBlock :: "XactState \<Rightarrow> xact_error + bool \<times> XactState" where
  "PrepareTransactionBlock x =
     and_then (EndTransactionBlock False x) (\<lambda>(result, x).
       if result then
         if blockState (last (stack x)) = TBLOCK_END
         then Inr (True, x\<lparr>stack := butlast (stack x) @ [(last (stack x))\<lparr>blockState := TBLOCK_PREPARE\<rparr>]\<rparr>)
         else Inr (False, x)
       else Inr (False, x))"

definition UserAbortTransactionBlock :: "bool \<Rightarrow> XactState \<Rightarrow> xact_error + XactState" where
  "UserAbortTransactionBlock chn x =
     and_then
       (case blockState (cur x) of
          TBLOCK_INPROGRESS \<Rightarrow> Inr (set_block TBLOCK_ABORT_PENDING x)
        | TBLOCK_ABORT \<Rightarrow> Inr (set_block TBLOCK_ABORT_END x)
        | TBLOCK_SUBINPROGRESS \<Rightarrow>
            set_stack ''UserAbortTransactionBlock'' x (mark_all abort_sub abort_top (stack x))
        | TBLOCK_SUBABORT \<Rightarrow>
            set_stack ''UserAbortTransactionBlock'' x (mark_all abort_sub abort_top (stack x))
        | TBLOCK_STARTED \<Rightarrow>
            and_then (no_transaction chn ''ROLLBACK'' x) (\<lambda>x. Inr (set_block TBLOCK_ABORT_PENDING x))
        | TBLOCK_IMPLICIT_INPROGRESS \<Rightarrow>
            and_then (no_transaction chn ''ROLLBACK'' x) (\<lambda>x. Inr (set_block TBLOCK_ABORT_PENDING x))
        | TBLOCK_PARALLEL_INPROGRESS \<Rightarrow> Inl (XFatal ''cannot abort during a parallel operation'')
        | _ \<Rightarrow> Inl (XFatal (unexpected_state ''UserAbortTransactionBlock'')))
       (\<lambda>x. Inr (set_chain chn x))"

definition BeginImplicitTransactionBlock :: "XactState \<Rightarrow> XactState" where
  "BeginImplicitTransactionBlock x =
     (if blockState (cur x) = TBLOCK_STARTED then set_block TBLOCK_IMPLICIT_INPROGRESS x else x)"

definition EndImplicitTransactionBlock :: "XactState \<Rightarrow> XactState" where
  "EndImplicitTransactionBlock x =
     (if blockState (cur x) = TBLOCK_IMPLICIT_INPROGRESS then set_block TBLOCK_STARTED x else x)"

section \<open>Savepoints\<close>

text \<open>
  The index of the innermost transaction with the given savepoint name.
\<close>

fun find_savepoint :: "string \<Rightarrow> TransactionStateData list \<Rightarrow> nat option" where
  "find_savepoint name [] = None"
| "find_savepoint name (s # ps) =
     (if xname s = Some name then Some 0 else map_option Suc (find_savepoint name ps))"

definition savepoint_target :: "string \<Rightarrow> XactState \<Rightarrow> xact_error + nat" where
  "savepoint_target name x =
     (case find_savepoint name (stack x) of
        None \<Rightarrow> Inl (XError ''savepoint does not exist'')
      | Some target \<Rightarrow>
          if savepointLevel (stack x ! target) \<noteq> savepointLevel (cur x)
          then Inl (XError ''savepoint does not exist within current savepoint level'')
          else Inr target)"

fun mark_release :: "nat \<Rightarrow> TransactionStateData list \<Rightarrow> TransactionStateData list" where
  "mark_release target [] = []"
| "mark_release target (s # ps) =
     s\<lparr>blockState := TBLOCK_SUBRELEASE\<rparr> # (case target of 0 \<Rightarrow> ps | Suc t \<Rightarrow> mark_release t ps)"

definition ReleaseSavepoint :: "string \<Rightarrow> XactState \<Rightarrow> xact_error + XactState" where
  "ReleaseSavepoint name x =
     (if IsInParallelMode x then Inl (XError ''cannot release savepoints during a parallel operation'')
      else case blockState (cur x) of
        TBLOCK_INPROGRESS \<Rightarrow> Inl (XError ''savepoint does not exist'')
      | TBLOCK_IMPLICIT_INPROGRESS \<Rightarrow> Inl (XError ''RELEASE SAVEPOINT can only be used in transaction blocks'')
      | TBLOCK_SUBINPROGRESS \<Rightarrow>
          and_then (savepoint_target name x) (\<lambda>target. Inr (x\<lparr>stack := mark_release target (stack x)\<rparr>))
      | _ \<Rightarrow> Inl (XFatal (unexpected_state ''ReleaseSavepoint'')))"

definition restart_mark :: "TBlockState \<Rightarrow> TBlockState option" where
  "restart_mark b = (if b = TBLOCK_SUBINPROGRESS then Some TBLOCK_SUBRESTART
                     else if b = TBLOCK_SUBABORT then Some TBLOCK_SUBABORT_RESTART else None)"

fun mark_rollback :: "nat \<Rightarrow> TransactionStateData list \<Rightarrow> TransactionStateData list option" where
  "mark_rollback target [] = None"
| "mark_rollback 0 (s # ps) = map_option (\<lambda>b. s\<lparr>blockState := b\<rparr> # ps) (restart_mark (blockState s))"
| "mark_rollback (Suc t) (s # ps) =
     (case abort_sub (blockState s) of
        None \<Rightarrow> None
      | Some b \<Rightarrow> map_option (\<lambda>rest. s\<lparr>blockState := b\<rparr> # rest) (mark_rollback t ps))"

definition RollbackToSavepoint :: "string \<Rightarrow> XactState \<Rightarrow> xact_error + XactState" where
  "RollbackToSavepoint name x =
     (if IsInParallelMode x then Inl (XError ''cannot rollback to savepoints during a parallel operation'')
      else
        let proceed = and_then (savepoint_target name x) (\<lambda>target.
              set_stack ''RollbackToSavepoint'' x (mark_rollback target (stack x)))
        in case blockState (cur x) of
             TBLOCK_INPROGRESS \<Rightarrow> Inl (XError ''savepoint does not exist'')
           | TBLOCK_ABORT \<Rightarrow> Inl (XError ''savepoint does not exist'')
           | TBLOCK_IMPLICIT_INPROGRESS \<Rightarrow>
               Inl (XError ''ROLLBACK TO SAVEPOINT can only be used in transaction blocks'')
           | TBLOCK_SUBINPROGRESS \<Rightarrow> proceed
           | TBLOCK_SUBABORT \<Rightarrow> proceed
           | _ \<Rightarrow> Inl (XFatal (unexpected_state ''RollbackToSavepoint'')))"

section \<open>Internal subtransactions\<close>

definition BeginInternalSubTransaction :: "string option \<Rightarrow> XactState \<Rightarrow> xact_error + XactState" where
  "BeginInternalSubTransaction name x =
     (if IsInParallelMode x then Inl (XError ''cannot start subtransactions during a parallel operation'')
      else if blockState (cur x) \<in> {TBLOCK_STARTED, TBLOCK_INPROGRESS, TBLOCK_IMPLICIT_INPROGRESS,
             TBLOCK_END, TBLOCK_PREPARE, TBLOCK_SUBINPROGRESS}
      then
        and_then (PushTransaction x) (\<lambda>x.
        and_then (CommitTransactionCommand (upd_cur (\<lambda>s. s\<lparr>xname := name\<rparr>) x)) StartTransactionCommand)
      else Inl (XFatal (unexpected_state ''BeginInternalSubTransaction'')))"

definition ReleaseCurrentSubTransaction :: "XactState \<Rightarrow> xact_error + XactState" where
  "ReleaseCurrentSubTransaction x =
     (if IsInParallelMode x then Inl (XError ''cannot commit subtransactions during a parallel operation'')
      else if blockState (cur x) \<noteq> TBLOCK_SUBINPROGRESS
      then Inl (XError (unexpected_state ''ReleaseCurrentSubTransaction''))
      else CommitSubTransaction x)"

definition RollbackAndReleaseCurrentSubTransaction :: "XactState \<Rightarrow> xact_error + XactState" where
  "RollbackAndReleaseCurrentSubTransaction x =
     (if blockState (cur x) = TBLOCK_SUBINPROGRESS \<or> blockState (cur x) = TBLOCK_SUBABORT then
        let x = (if blockState (cur x) = TBLOCK_SUBINPROGRESS then AbortSubTransaction x else x)
        in CleanupSubTransaction x
      else Inl (XFatal (unexpected_state ''RollbackAndReleaseCurrentSubTransaction'')))"

section \<open>Getting out of everything\<close>

fun abort_out_loop :: "nat \<Rightarrow> XactState \<Rightarrow> xact_error + XactState" where
  "abort_out_loop 0 x = Inl (XFatal ''PopTransaction with no parent'')"
| "abort_out_loop (Suc n) x =
     and_then
       (case blockState (cur x) of
          TBLOCK_DEFAULT \<Rightarrow> abort_default x
        | TBLOCK_STARTED \<Rightarrow> abort_and_cleanup x
        | TBLOCK_BEGIN \<Rightarrow> abort_and_cleanup x
        | TBLOCK_INPROGRESS \<Rightarrow> abort_and_cleanup x
        | TBLOCK_IMPLICIT_INPROGRESS \<Rightarrow> abort_and_cleanup x
        | TBLOCK_PARALLEL_INPROGRESS \<Rightarrow> abort_and_cleanup x
        | TBLOCK_END \<Rightarrow> abort_and_cleanup x
        | TBLOCK_ABORT_PENDING \<Rightarrow> abort_and_cleanup x
        | TBLOCK_PREPARE \<Rightarrow> abort_and_cleanup x
        | TBLOCK_ABORT \<Rightarrow> and_then (CleanupTransaction x) (\<lambda>x. Inr (set_block TBLOCK_DEFAULT x))
        | TBLOCK_ABORT_END \<Rightarrow> and_then (CleanupTransaction x) (\<lambda>x. Inr (set_block TBLOCK_DEFAULT x))
        | TBLOCK_SUBBEGIN \<Rightarrow> CleanupSubTransaction (AbortSubTransaction x)
        | TBLOCK_SUBINPROGRESS \<Rightarrow> CleanupSubTransaction (AbortSubTransaction x)
        | TBLOCK_SUBRELEASE \<Rightarrow> CleanupSubTransaction (AbortSubTransaction x)
        | TBLOCK_SUBCOMMIT \<Rightarrow> CleanupSubTransaction (AbortSubTransaction x)
        | TBLOCK_SUBABORT_PENDING \<Rightarrow> CleanupSubTransaction (AbortSubTransaction x)
        | TBLOCK_SUBRESTART \<Rightarrow> CleanupSubTransaction (AbortSubTransaction x)
        | TBLOCK_SUBABORT \<Rightarrow> CleanupSubTransaction x
        | TBLOCK_SUBABORT_END \<Rightarrow> CleanupSubTransaction x
        | TBLOCK_SUBABORT_RESTART \<Rightarrow> CleanupSubTransaction x)
       (\<lambda>x. if blockState (cur x) \<noteq> TBLOCK_DEFAULT then abort_out_loop n x else Inr x)"

definition AbortOutOfAnyTransaction :: "XactState \<Rightarrow> xact_error + XactState" where
  "AbortOutOfAnyTransaction x = abort_out_loop (length (stack x)) x"

section \<open>Checks for statements that care\<close>

text \<open>The two flags of \<^verbatim>\<open>MyXactFlags\<close> that matter here are fields of the state.\<close>

definition PreventInTransactionBlock :: "bool \<Rightarrow> XactState \<Rightarrow> xact_error + XactState" where
  "PreventInTransactionBlock isTopLevel x =
     (if IsTransactionBlock x then Inl (XError ''cannot run inside a transaction block'')
      else if IsSubTransaction x then Inl (XError ''cannot run inside a subtransaction'')
      else if pipelining x then Inl (XError ''cannot be executed within a pipeline'')
      else if \<not> isTopLevel then Inl (XError ''cannot be executed from a function'')
      else if blockState (cur x) \<noteq> TBLOCK_DEFAULT \<and> blockState (cur x) \<noteq> TBLOCK_STARTED
      then Inl (XFatal ''cannot prevent transaction chain'')
      else Inr (x\<lparr>need_immediate_commit := True\<rparr>))"

definition IsInTransactionBlock :: "bool \<Rightarrow> XactState \<Rightarrow> bool" where
  "IsInTransactionBlock isTopLevel x =
     (if IsTransactionBlock x then True
      else if IsSubTransaction x then True
      else if pipelining x then True
      else if \<not> isTopLevel then True
      else if blockState (cur x) \<noteq> TBLOCK_DEFAULT \<and> blockState (cur x) \<noteq> TBLOCK_STARTED then True
      else False)"

definition CheckTransactionBlock :: "bool \<Rightarrow> bool \<Rightarrow> XactState \<Rightarrow> xact_error + XactState" where
  "CheckTransactionBlock isTopLevel throwError x =
     (if IsTransactionBlock x then Inr x
      else if IsSubTransaction x then Inr x
      else if \<not> isTopLevel then Inr x
      else if throwError then Inl (XError ''can only be used in transaction blocks'')
      else Inr (log_event EvWarning x))"

definition RequireTransactionBlock :: "bool \<Rightarrow> XactState \<Rightarrow> xact_error + XactState" where
  "RequireTransactionBlock isTopLevel x = CheckTransactionBlock isTopLevel True x"

section \<open>Transaction control statements\<close>

text \<open>
  The statement kinds of \<^verbatim>\<open>TransactionStmtKind\<close> with the fields of \<^verbatim>\<open>TransactionStmt\<close> each one uses,
  and their dispatch in \<^verbatim>\<open>standard_ProcessUtility\<close> (\<^verbatim>\<open>tcop/utility.c\<close>).  The Boolean result is whether the
  completion tag is overwritten with ROLLBACK.  The options of BEGIN are settings of configuration
  variables and not part of the block state; COMMIT PREPARED and ROLLBACK PREPARED act on another
  transaction, so of them the model has the check that guards them.
\<close>

datatype TransactionStmt =
    TRANS_STMT_BEGIN | TRANS_STMT_START
  | TRANS_STMT_COMMIT bool | TRANS_STMT_ROLLBACK bool
  | TRANS_STMT_SAVEPOINT string | TRANS_STMT_RELEASE string | TRANS_STMT_ROLLBACK_TO string
  | TRANS_STMT_PREPARE | TRANS_STMT_COMMIT_PREPARED | TRANS_STMT_ROLLBACK_PREPARED

definition keep_tag :: "xact_error + XactState \<Rightarrow> xact_error + bool \<times> XactState" where
  "keep_tag r = and_then r (\<lambda>x. Inr (False, x))"

definition failed_tag :: "xact_error + bool \<times> XactState \<Rightarrow> xact_error + bool \<times> XactState" where
  "failed_tag r = and_then r (\<lambda>(result, x). Inr (\<not> result, x))"

definition ProcessTransactionStmt :: "bool \<Rightarrow> TransactionStmt \<Rightarrow> XactState \<Rightarrow> xact_error + bool \<times> XactState" where
  "ProcessTransactionStmt isTopLevel stmt x =
     (case stmt of
        TRANS_STMT_BEGIN \<Rightarrow> keep_tag (BeginTransactionBlock x)
      | TRANS_STMT_START \<Rightarrow> keep_tag (BeginTransactionBlock x)
      | TRANS_STMT_COMMIT chn \<Rightarrow> failed_tag (EndTransactionBlock chn x)
      | TRANS_STMT_PREPARE \<Rightarrow> failed_tag (PrepareTransactionBlock x)
      | TRANS_STMT_COMMIT_PREPARED \<Rightarrow> keep_tag (PreventInTransactionBlock isTopLevel x)
      | TRANS_STMT_ROLLBACK_PREPARED \<Rightarrow> keep_tag (PreventInTransactionBlock isTopLevel x)
      | TRANS_STMT_ROLLBACK chn \<Rightarrow> keep_tag (UserAbortTransactionBlock chn x)
      | TRANS_STMT_SAVEPOINT name \<Rightarrow>
          keep_tag (and_then (RequireTransactionBlock isTopLevel x) (DefineSavepoint (Some name)))
      | TRANS_STMT_RELEASE name \<Rightarrow>
          keep_tag (and_then (RequireTransactionBlock isTopLevel x) (ReleaseSavepoint name))
      | TRANS_STMT_ROLLBACK_TO name \<Rightarrow>
          keep_tag (and_then (RequireTransactionBlock isTopLevel x) (RollbackToSavepoint name)))"

text \<open>
  The guard of \<^verbatim>\<open>exec_simple_query\<close> (\<^verbatim>\<open>tcop/postgres.c\<close>): in a failed block only the statements that can
  leave it run.
\<close>

fun IsTransactionExitStmt :: "TransactionStmt \<Rightarrow> bool" where
  "IsTransactionExitStmt (TRANS_STMT_COMMIT chn) = True"
| "IsTransactionExitStmt TRANS_STMT_PREPARE = True"
| "IsTransactionExitStmt (TRANS_STMT_ROLLBACK chn) = True"
| "IsTransactionExitStmt (TRANS_STMT_ROLLBACK_TO name) = True"
| "IsTransactionExitStmt _ = False"

definition exec_transaction_stmt :: "TransactionStmt \<Rightarrow> XactState \<Rightarrow> xact_error + bool \<times> XactState" where
  "exec_transaction_stmt stmt x =
     (if IsAbortedTransactionBlockState x \<and> \<not> IsTransactionExitStmt stmt
      then Inl (XError ''current transaction is aborted, commands ignored until end of transaction block'')
      else ProcessTransactionStmt True stmt x)"

end
