(* ===== verification/XactMachine.thy ===== *)
theory XactMachine
  imports XactBlock
begin

text \<open>
  The transaction block machine as a whole: the well-formed stacks of transaction states, the step
  relation of a session (\<open>session_step\<close>: the main loop of \<^verbatim>\<open>tcop/postgres.c\<close> driving \<^verbatim>\<open>xact.c\<close>), and the
  proofs that every reachable state is well formed and that no reachable call ends in a FATAL
  "unexpected state".
\<close>

section \<open>Well-formed stacks\<close>

text \<open>The low-level state that goes with each block state.\<close>

fun trans_of :: "TBlockState \<Rightarrow> TransState" where
  "trans_of TBLOCK_DEFAULT = TRANS_DEFAULT"
| "trans_of TBLOCK_SUBBEGIN = TRANS_DEFAULT"
| "trans_of TBLOCK_ABORT = TRANS_ABORT"
| "trans_of TBLOCK_ABORT_END = TRANS_ABORT"
| "trans_of TBLOCK_SUBABORT = TRANS_ABORT"
| "trans_of TBLOCK_SUBABORT_END = TRANS_ABORT"
| "trans_of TBLOCK_SUBABORT_RESTART = TRANS_ABORT"
| "trans_of _ = TRANS_INPROGRESS"

definition entry_ok :: "uint32 \<Rightarrow> TransactionStateData \<Rightarrow> bool" where
  "entry_ok cid s \<longleftrightarrow> state s = trans_of (blockState s) \<and> parallelModeLevel s = 0 \<and>
     savepointLevel s = 0 \<and> subTransactionId s \<le> cid"

text \<open>
  Entry by entry: the low-level state matches, nesting levels count from the bottom, subtransaction
  ids increase towards the innermost one and are at most the counter, and only subtransactions are
  named.
\<close>

fun stack_ok :: "uint32 \<Rightarrow> TransactionStateData list \<Rightarrow> bool" where
  "stack_ok cid [] \<longleftrightarrow> False"
| "stack_ok cid [s] \<longleftrightarrow> entry_ok cid s \<and> xname s = None \<and>
     nestingLevel s = (if blockState s = TBLOCK_DEFAULT then 0 else 1)"
| "stack_ok cid (s # p # ps) \<longleftrightarrow> entry_ok cid s \<and> subTransactionId p < subTransactionId s \<and>
     nestingLevel s = Suc (nestingLevel p) \<and> stack_ok cid (p # ps)"

text \<open>
  The legal sequences of block states, innermost first: all transactions live; the innermost
  subtransactions marked for release; all marked for commit or prepare; all marked for abort; the
  innermost marked for abort and the next one for a restart.
\<close>

fun live :: "TBlockState list \<Rightarrow> bool" where
  "live [] \<longleftrightarrow> False"
| "live [b] \<longleftrightarrow> b = TBLOCK_INPROGRESS"
| "live (b # c # bs) \<longleftrightarrow> b = TBLOCK_SUBINPROGRESS \<and> live (c # bs)"

fun releasing :: "TBlockState list \<Rightarrow> bool" where
  "releasing [] \<longleftrightarrow> False"
| "releasing (b # bs) \<longleftrightarrow> b = TBLOCK_SUBRELEASE \<and> (releasing bs \<or> live bs)"

fun committing :: "TBlockState list \<Rightarrow> bool" where
  "committing [] \<longleftrightarrow> False"
| "committing [b] \<longleftrightarrow> b = TBLOCK_END \<or> b = TBLOCK_PREPARE"
| "committing (b # c # bs) \<longleftrightarrow> b = TBLOCK_SUBCOMMIT \<and> committing (c # bs)"

fun aborting :: "TBlockState list \<Rightarrow> bool" where
  "aborting [] \<longleftrightarrow> False"
| "aborting [b] \<longleftrightarrow> b = TBLOCK_ABORT_PENDING"
| "aborting (b # c # bs) \<longleftrightarrow> b = TBLOCK_SUBABORT_PENDING \<and> aborting (c # bs)"

fun restarting :: "TBlockState list \<Rightarrow> bool" where
  "restarting [] \<longleftrightarrow> False"
| "restarting (b # bs) \<longleftrightarrow> b = TBLOCK_SUBRESTART \<and> live bs \<or> b = TBLOCK_SUBABORT_PENDING \<and> restarting bs"

definition lone_states :: "TBlockState list" where
  "lone_states = [TBLOCK_DEFAULT, TBLOCK_STARTED, TBLOCK_BEGIN, TBLOCK_IMPLICIT_INPROGRESS,
     TBLOCK_ABORT, TBLOCK_ABORT_END]"

text \<open>The states of subtransactions.\<close>

definition sub_states :: "TBlockState list" where
  "sub_states = [TBLOCK_SUBBEGIN, TBLOCK_SUBINPROGRESS, TBLOCK_SUBABORT, TBLOCK_SUBRELEASE, TBLOCK_SUBCOMMIT, TBLOCK_SUBABORT_PENDING,
     TBLOCK_SUBRESTART, TBLOCK_SUBABORT_END, TBLOCK_SUBABORT_RESTART]"

fun shape :: "TBlockState list \<Rightarrow> bool" where
  "shape [] \<longleftrightarrow> False"
| "shape (b # bs) \<longleftrightarrow>
     live (b # bs) \<or> releasing (b # bs) \<or> committing (b # bs) \<or> aborting (b # bs) \<or> restarting (b # bs) \<or>
     bs = [] \<and> b \<in> set lone_states \<or>
     live bs \<and> b \<in> set [TBLOCK_SUBBEGIN, TBLOCK_SUBABORT, TBLOCK_SUBABORT_RESTART] \<or>
     (aborting bs \<or> restarting bs) \<and> b = TBLOCK_SUBABORT_END"

definition blocks :: "XactState \<Rightarrow> TBlockState list" where
  "blocks x = map blockState (stack x)"

definition xact_wf :: "XactState \<Rightarrow> bool" where
  "xact_wf x \<longleftrightarrow> stack_ok (currentSubTransactionId x) (stack x) \<and> shape (blocks x)"

text \<open>The states between two commands of a client, and those in which a statement runs.\<close>

definition idle :: "XactState \<Rightarrow> bool" where
  "idle x \<longleftrightarrow> xact_wf x \<and> blockState (cur x) \<in> set [TBLOCK_DEFAULT, TBLOCK_INPROGRESS,
     TBLOCK_IMPLICIT_INPROGRESS, TBLOCK_SUBINPROGRESS, TBLOCK_ABORT, TBLOCK_SUBABORT]"

definition in_statement :: "XactState \<Rightarrow> bool" where
  "in_statement x \<longleftrightarrow> xact_wf x \<and> blockState (cur x) \<in> set [TBLOCK_STARTED, TBLOCK_INPROGRESS,
     TBLOCK_IMPLICIT_INPROGRESS, TBLOCK_SUBINPROGRESS, TBLOCK_ABORT, TBLOCK_SUBABORT]"

text \<open>
  What a call may end in: \<open>returns P\<close> says that it returns a state with \<open>P\<close>; \<open>no_fatal P\<close> also
  admits an ordinary error, after which the main loop calls \<open>AbortCurrentTransaction\<close>.
\<close>

fun returns :: "('a \<Rightarrow> bool) \<Rightarrow> xact_error + 'a \<Rightarrow> bool" where
  "returns P (Inr y) = P y"
| "returns P (Inl e) = False"

fun no_fatal :: "('a \<Rightarrow> bool) \<Rightarrow> xact_error + 'a \<Rightarrow> bool" where
  "no_fatal P (Inr y) = P y"
| "no_fatal P (Inl (XError msg)) = True"
| "no_fatal P (Inl (XFatal msg)) = False"

section \<open>Low-level routines\<close>

lemmas low_level_defs = cur_def upd_cur_def set_block_def log_event_def and_then_def
  StartTransaction_def CommitTransaction_def PrepareTransaction_def AbortTransaction_def
  CleanupTransaction_def PopTransaction_def PushTransaction_def StartSubTransaction_def
  restore_read_only_def CommitSubTransaction_def AbortSubTransaction_def CleanupSubTransaction_def

lemma and_then_simps [simp]: "and_then (Inr y) f = f y" "and_then (Inl e) f = Inl e"
  by (simp_all add: and_then_def)

lemma returns_no_fatal: "returns P r \<Longrightarrow> no_fatal P r"
  by (cases r) simp_all

lemma returns_and_then: "returns P (and_then r f)" if "returns Q r" "\<And>y. Q y \<Longrightarrow> returns P (f y)"
  using that by (cases r) simp_all

lemma no_fatal_and_then: "no_fatal P (and_then r f)" if "no_fatal Q r" "\<And>y. Q y \<Longrightarrow> no_fatal P (f y)"
  using that by (cases "(Q, r)" rule: no_fatal.cases) simp_all

lemma returns_mono: "returns Q r" if "returns P r" "\<And>y. P y \<Longrightarrow> Q y"
  using that by (cases r) simp_all

lemma shape_pop:
  assumes "shape (b # bs)"
    and "b \<in> set sub_states"
  obtains c cs where "bs = c # cs" "shape bs"
  using assms by (cases bs) (auto simp: lone_states_def sub_states_def)

lemma xact_wf_cases:
  assumes "xact_wf x"
  obtains s where "stack x = [s]" "stack_ok (currentSubTransactionId x) [s]" "shape [blockState s]"
  | s p ps where "stack x = s # p # ps" "stack_ok (currentSubTransactionId x) (s # p # ps)"
      "shape (blockState s # blockState p # map blockState ps)"
  using assms by (cases "stack x" rule: remdups_adj.cases) (auto simp: xact_wf_def blocks_def)

lemma pop_wf: 
  assumes "xact_wf x" and "blockState (cur x) \<in> set sub_states"
    and "stack y = tl (stack x)" "currentSubTransactionId y = currentSubTransactionId x"
  shows "xact_wf y"
  using assms(1)
proof (cases rule: xact_wf_cases)
  case (1 s)
  with assms(2) show ?thesis by (auto simp: cur_def lone_states_def sub_states_def)
next
  case (2 s p ps)
  with assms(2) have "shape (blockState p # map blockState ps)"
    by (auto simp: cur_def elim: shape_pop [where b = "blockState s"])
  with 2 assms(3,4) show ?thesis by (simp add: xact_wf_def blocks_def)
qed

lemma popped:
  assumes "xact_wf x" and "blockState (cur x) \<in> set sub_states"
  defines "Q \<equiv> \<lambda>y. xact_wf y \<and> stack y = tl (stack x)"
  shows "returns Q (CommitSubTransaction x)" "returns Q (CleanupSubTransaction x)"
    "returns Q (CleanupSubTransaction (AbortSubTransaction x))"
proof -
  have "tl (stack x) \<noteq> []"
    using assms(1) by (cases rule: xact_wf_cases) (use assms(2) in \<open>auto simp: cur_def lone_states_def sub_states_def\<close>)
  then show "returns Q (CommitSubTransaction x)" "returns Q (CleanupSubTransaction x)"
    "returns Q (CleanupSubTransaction (AbortSubTransaction x))"
    unfolding Q_def by (simp_all add: low_level_defs pop_wf [OF assms(1,2)])
qed

lemma popped_then:
  assumes "xact_wf x" "blockState (cur x) \<in> set sub_states"
    and "\<And>y. xact_wf y \<and> stack y = tl (stack x) \<Longrightarrow> returns P (f y)"
  shows "returns P (and_then (CommitSubTransaction x) f)" "returns P (and_then (CleanupSubTransaction x) f)"
    "returns P (and_then (CleanupSubTransaction (AbortSubTransaction x)) f)"
  using returns_and_then [OF popped(1) [OF assms(1,2)]] returns_and_then [OF popped(2) [OF assms(1,2)]]
    returns_and_then [OF popped(3) [OF assms(1,2)]] assms(3) by blast+

lemma StartTransactionCommand_returns:
  assumes "idle x" shows "returns in_statement (StartTransactionCommand x)"
proof (cases "blockState (cur x) = TBLOCK_DEFAULT")
  case True
  have "xact_wf x" using assms by (simp add: idle_def)
  then show ?thesis
    by (cases rule: xact_wf_cases) (use True in \<open>auto simp: StartTransactionCommand_def low_level_defs in_statement_def
      xact_wf_def blocks_def entry_ok_def TopSubTransactionId_def lone_states_def Let_def\<close>)
next
  case False
  with assms show ?thesis
    by (auto simp: StartTransactionCommand_def idle_def in_statement_def)
qed

section \<open>Aborting\<close>

lemma abort_lone:
  assumes "xact_wf x" "stack x = [s]"
  shows "returns idle (abort_current_transaction (Suc n) x)"
  using assms
  by (auto simp: xact_wf_def blocks_def lone_states_def low_level_defs abort_default_def abort_and_cleanup_def
      idle_def entry_ok_def InvalidSubTransactionId_def)

lemma abort_sub_live:
  assumes "xact_wf x" "blockState (cur x) = TBLOCK_SUBINPROGRESS"
  shows "returns idle (abort_current_transaction (Suc n) x)"
  using assms(1)
  by (cases rule: xact_wf_cases)
    (use assms(2) in \<open>auto simp: xact_wf_def blocks_def lone_states_def low_level_defs idle_def entry_ok_def\<close>)

lemma wf_block_cases:
  assumes "xact_wf x"
  obtains s where "stack x = [s]" | "blockState (cur x) = TBLOCK_SUBINPROGRESS"
  | "blockState (cur x) = TBLOCK_SUBABORT" | "blockState (cur x) \<in> set sub_states" "tl (stack x) \<noteq> []"
    "blockState (cur x) \<noteq> TBLOCK_SUBINPROGRESS" "blockState (cur x) \<noteq> TBLOCK_SUBABORT"
  using assms by (cases rule: xact_wf_cases) (auto simp: cur_def sub_states_def)

lemma abort_current_transaction_returns:
  "xact_wf x \<Longrightarrow> length (stack x) \<le> n \<Longrightarrow> returns idle (abort_current_transaction n x)"
proof (induction n arbitrary: x)
  case 0
  then show ?case by (simp add: xact_wf_def)
next
  case (Suc n)
  from Suc.prems(1) show ?case
  proof (cases rule: wf_block_cases)
    case (1 s)
    with Suc.prems show ?thesis by (simp add: abort_lone del: abort_current_transaction.simps)
  next
    case 2
    with Suc.prems show ?thesis by (simp add: abort_sub_live del: abort_current_transaction.simps)
  next
    case 3
    with Suc.prems show ?thesis by (simp add: idle_def)
  next
    case 4
    have rec: "returns idle (abort_current_transaction n y)" if "xact_wf y \<and> stack y = tl (stack x)" for y
      using that Suc.prems 4(2) by (intro Suc.IH) (auto simp: tl_def split: list.splits)
    from 4(1,3,4) popped_then [OF Suc.prems(1) 4(1) rec] show ?thesis
      by (auto simp: sub_states_def)
  qed
qed

lemma AbortCurrentTransaction_returns: "xact_wf x \<Longrightarrow> returns idle (AbortCurrentTransaction x)"
  by (simp add: AbortCurrentTransaction_def abort_current_transaction_returns)

lemma abort_out_lone:
  assumes "xact_wf x" "stack x = [s]"
  shows "returns (\<lambda>y. xact_wf y \<and> tl (stack y) = [] \<and> blockState (cur y) = TBLOCK_DEFAULT) (abort_out_loop (Suc n) x)"
  using assms
  by (auto simp: xact_wf_def blocks_def lone_states_def low_level_defs abort_default_def abort_and_cleanup_def
      entry_ok_def InvalidSubTransactionId_def)

lemma parent_not_default:
  assumes "xact_wf x" "tl (stack x) \<noteq> []" shows "blockState (hd (tl (stack x))) \<noteq> TBLOCK_DEFAULT"
  using assms(1)
proof (cases rule: xact_wf_cases)
  case (2 s p ps)
  then show ?thesis by (cases ps) auto
qed (use assms(2) in simp)

lemma abort_out_loop_returns:
  "xact_wf x \<Longrightarrow> length (stack x) \<le> n \<Longrightarrow>
   returns (\<lambda>y. xact_wf y \<and> tl (stack y) = [] \<and> blockState (cur y) = TBLOCK_DEFAULT) (abort_out_loop n x)"
proof (induction n arbitrary: x)
  case 0
  then show ?case by (simp add: xact_wf_def)
next
  case (Suc n)
  let ?P = "\<lambda>y. xact_wf y \<and> tl (stack y) = [] \<and> blockState (cur y) = TBLOCK_DEFAULT"
  let ?f = "\<lambda>x. if blockState (cur x) \<noteq> TBLOCK_DEFAULT then abort_out_loop n x else Inr x"
  show ?case
  proof (cases "tl (stack x) = []")
    case True
    then obtain s where "stack x = [s]" using Suc.prems by (cases "stack x") (auto simp: xact_wf_def)
    then show ?thesis by (rule abort_out_lone [OF Suc.prems(1)])
  next
    case False
    have sub: "blockState (cur x) \<in> set sub_states"
      using Suc.prems(1) False by (cases rule: wf_block_cases) (auto simp: sub_states_def)
    have rec: "returns ?P (?f y)" if y: "xact_wf y \<and> stack y = tl (stack x)" for y
    proof -
      have "blockState (cur y) \<noteq> TBLOCK_DEFAULT"
        using parent_not_default [OF Suc.prems(1) False] y by (simp add: cur_def)
      with y Suc.prems False show ?thesis by (auto intro!: Suc.IH)
    qed
    from sub popped_then [OF Suc.prems(1) sub rec] show ?thesis
      by (auto simp: sub_states_def)
  qed
qed

section \<open>Committing\<close>

lemma subcommit_releasing:
  "xact_wf x \<Longrightarrow> releasing (blocks x) \<Longrightarrow> length (stack x) \<le> n \<Longrightarrow>
   returns (\<lambda>y. xact_wf y \<and> live (blocks y)) (subcommit_loop n TBLOCK_SUBRELEASE x)"
proof (induction n arbitrary: x)
  case 0
  then show ?case by (simp add: xact_wf_def)
next
  case (Suc n)
  then obtain s ps where st: "stack x = s # ps" by (cases "stack x") (auto simp: blocks_def)
  have sub: "blockState (cur x) \<in> set sub_states"
    using Suc.prems st by (simp add: blocks_def cur_def sub_states_def)
  show ?case unfolding subcommit_loop.simps
  proof (rule popped_then(1) [OF Suc.prems(1) sub])
    fix y assume y: "xact_wf y \<and> stack y = tl (stack x)"
    with st Suc.prems(2) have "releasing (blocks y) \<or> live (blocks y)" by (simp add: blocks_def)
    moreover have "blockState (cur y) = TBLOCK_SUBRELEASE \<longleftrightarrow> releasing (blocks y)"
      using calculation by (cases "stack y" rule: remdups_adj.cases) (auto simp: blocks_def cur_def)
    ultimately show "returns (\<lambda>y. xact_wf y \<and> live (blocks y))
        (if blockState (cur y) = TBLOCK_SUBRELEASE then subcommit_loop n TBLOCK_SUBRELEASE y else Inr y)"
      using y st Suc.prems(3) by (auto intro!: Suc.IH)
  qed
qed

lemma subcommit_committing:
  "xact_wf x \<Longrightarrow> committing (blocks x) \<Longrightarrow> blockState (cur x) = TBLOCK_SUBCOMMIT \<Longrightarrow> length (stack x) \<le> n \<Longrightarrow>
   returns (\<lambda>y. xact_wf y \<and> committing (blocks y) \<and> stack y = [last (stack x)] \<and> defaults y = defaults x \<and>
     trace y = replicate (length (stack x) - 1) EvSubCommit @ trace x) (subcommit_loop n TBLOCK_SUBCOMMIT x)"
proof (induction n arbitrary: x)
  case 0
  then show ?case by (simp add: xact_wf_def)
next
  case (Suc n)
  have sub: "blockState (cur x) \<in> set sub_states"
    using Suc.prems by (simp add: sub_states_def)
  obtain s p ps where st: "stack x = s # p # ps"
    using Suc.prems(2,3) by (cases "stack x" rule: remdups_adj.cases) (auto simp: blocks_def cur_def)
  obtain y where y: "CommitSubTransaction x = Inr y" "stack y = p # ps" "trace y = EvSubCommit # trace x"
      "defaults y = defaults x"
    using st by (simp add: low_level_defs)
  have wf: "xact_wf y" using popped(1) [OF Suc.prems(1) sub] y by simp
  have com: "committing (blocks y)" using Suc.prems(2) st y(2) by (simp add: blocks_def)
  show ?case
  proof (cases "blockState (cur y) = TBLOCK_SUBCOMMIT")
    case True
    show ?thesis unfolding subcommit_loop.simps y(1) and_then_simps if_P [OF True]
      by (rule returns_mono [OF Suc.IH [OF wf com True]])
        (use y st Suc.prems(4) in \<open>auto simp: replicate_append_same [symmetric]\<close>)
  next
    case False
    then have "ps = []" using com y(2) by (cases ps) (auto simp: blocks_def cur_def)
    with False y wf com st show ?thesis by simp
  qed
qed

lemma commit_lone:
  assumes "xact_wf x" "stack x = [s]" "blockState s \<noteq> TBLOCK_DEFAULT"
  shows "returns idle (commit_transaction_command (Suc n) x)"
  using assms
  by (auto simp: xact_wf_def blocks_def lone_states_def low_level_defs end_transaction_def chain_transaction_def
      idle_def entry_ok_def InvalidSubTransactionId_def TopSubTransactionId_def Let_def)

lemma commit_subcommit:
  assumes "xact_wf x" "committing (blocks x)" "blockState (cur x) = TBLOCK_SUBCOMMIT"
  shows "returns idle (commit_transaction_command (Suc n) x)"
proof -
  obtain y where y: "subcommit_loop (length (stack x)) TBLOCK_SUBCOMMIT x = Inr y"
      "xact_wf y" "committing (blocks y)" "stack y = [last (stack x)]"
    using subcommit_committing [OF assms order_refl] by (cases "subcommit_loop (length (stack x)) TBLOCK_SUBCOMMIT x") auto
  with assms(3) show ?thesis
    by (auto simp: xact_wf_def blocks_def lone_states_def low_level_defs end_transaction_def chain_transaction_def
      idle_def entry_ok_def InvalidSubTransactionId_def TopSubTransactionId_def Let_def)
qed

text \<open>
  Restarting a savepoint: the subtransaction is replaced by a fresh one with the same name.  The only
  way it can fail is by running out of subtransaction ids.
\<close>

lemma DefineSavepoint_live:
  assumes "xact_wf x" "live (blocks x)"
  shows "DefineSavepoint name x = (if currentSubTransactionId x = - 1
    then Inl (XError ''cannot have more than 2^32-1 subtransactions in a transaction'')
    else Inr (x\<lparr>currentSubTransactionId := currentSubTransactionId x + 1,
      stack := \<lparr>subTransactionId = currentSubTransactionId x + 1, xname = name, savepointLevel = 0,
        state = TRANS_DEFAULT, blockState = TBLOCK_SUBBEGIN, nestingLevel = nestingLevel (cur x) + 1,
        prevXactReadOnly = XactReadOnly (characteristics x), parallelModeLevel = 0, chain = False\<rparr> # stack x\<rparr>))"
proof -
  have "blockState (cur x) \<in> {TBLOCK_INPROGRESS, TBLOCK_SUBINPROGRESS}" "parallelModeLevel (cur x) = 0"
      "savepointLevel (cur x) = 0"
    using assms(1) by (cases rule: xact_wf_cases; use assms(2) in \<open>auto simp: blocks_def cur_def entry_ok_def\<close>)+
  moreover have "currentSubTransactionId x + 1 = 0 \<longleftrightarrow> currentSubTransactionId x = - 1"
    by (metis add_diff_cancel_right' diff_0 neg_eq_iff_add_eq_0)
  ultimately show ?thesis
    by (auto simp: DefineSavepoint_def IsInParallelMode_def PushTransaction_def InvalidSubTransactionId_def
      upd_cur_def cur_def Let_def)
qed

lemma word_less_inc: "c \<noteq> - 1 \<Longrightarrow> a \<le> c \<Longrightarrow> a < c + 1" for a c :: uint32
  using inc_less_eq_iff by fastforce

lemma stack_ok_inc: "c \<noteq> - 1 \<Longrightarrow> stack_ok c stk \<Longrightarrow> stack_ok (c + 1) stk"
  by (induction c stk rule: stack_ok.induct) (auto simp: entry_ok_def dest: word_less_inc)

lemma stack_ok_hd_id: "stack_ok c (p # ps) \<Longrightarrow> subTransactionId p \<le> c"
  by (cases ps) (simp_all add: entry_ok_def)

lemma CleanupSub_eq:
  "stack x = s # p # ps \<Longrightarrow> CleanupSubTransaction x = Inr (x\<lparr>stack := p # ps, trace := EvSubCleanup # trace x\<rparr>)"
  by (simp add: low_level_defs)

lemma restart_savepoint_eq:
  assumes st: "stack x = s # p # ps"
    and wf: "stack_ok (currentSubTransactionId x) (p # ps)" "live (map blockState (p # ps))"
  shows "restart_savepoint name level x = (if currentSubTransactionId x = - 1
    then Inl (XError ''cannot have more than 2^32-1 subtransactions in a transaction'')
    else Inr (x\<lparr>currentSubTransactionId := currentSubTransactionId x + 1, trace := EvSubStart # EvSubCleanup # trace x,
      stack := \<lparr>subTransactionId = currentSubTransactionId x + 1, xname = name, savepointLevel = level,
        state = TRANS_INPROGRESS, blockState = TBLOCK_SUBINPROGRESS, nestingLevel = nestingLevel p + 1,
        prevXactReadOnly = XactReadOnly (characteristics x), parallelModeLevel = 0, chain = False\<rparr> # p # ps\<rparr>))"
proof -
  let ?x = "x\<lparr>stack := p # ps, trace := EvSubCleanup # trace x\<rparr>"
  have "xact_wf ?x" "live (blocks ?x)" using wf by (simp_all add: xact_wf_def blocks_def)
  from DefineSavepoint_live [OF this, of None] show ?thesis
    by (simp add: restart_savepoint_def CleanupSub_eq [OF st] StartSubTransaction_def log_event_def set_block_def
      upd_cur_def cur_def)
qed

lemma push_ok:
  assumes "stack_ok c (p # ps)" "c \<noteq> - 1"
  shows "stack_ok (c + 1) (p # ps)" "subTransactionId p < c + 1"
  using stack_ok_inc [OF assms(2,1)] word_less_inc [OF assms(2) stack_ok_hd_id [OF assms(1)]] by auto

lemma commit_restart:
  assumes "xact_wf x" "blockState (cur x) \<in> {TBLOCK_SUBRESTART, TBLOCK_SUBABORT_RESTART}"
  shows "no_fatal idle (commit_transaction_command (Suc n) x)"
  using assms(1)
proof (cases rule: xact_wf_cases)
  case (1 s)
  with assms(2) show ?thesis by (auto simp: cur_def lone_states_def)
next
  case (2 s p ps)
  have live: "live (map blockState (p # ps))" using 2 assms(2) by (auto simp: cur_def)
  have ok: "stack_ok (currentSubTransactionId x) (p # ps)" "savepointLevel s = 0" "blockState s = blockState (cur x)"
    using 2 by (simp_all add: entry_ok_def cur_def)
  obtain z s' where z: "commit_transaction_command (Suc n) x = restart_savepoint (xname s) 0 z"
      "stack z = s' # p # ps" "currentSubTransactionId z = currentSubTransactionId x"
    using assms(2) ok(2) 2(1)
    by (auto simp: AbortSubTransaction_def restore_read_only_def log_event_def upd_cur_def cur_def)
  let ?c = "currentSubTransactionId x"
  note restart = restart_savepoint_eq [OF z(2) _ live, unfolded z(3), OF ok(1)]
  show ?thesis
  proof (cases "?c = - 1")
    case True
    then show ?thesis unfolding z(1) restart by simp
  next
    case False
    show ?thesis unfolding z(1) restart if_not_P [OF False] no_fatal.simps idle_def xact_wf_def blocks_def
      using push_ok [OF ok(1) False] live by (simp add: cur_def entry_ok_def)
  qed
qed

lemma live_idle: "xact_wf x \<and> live (blocks x) \<Longrightarrow> idle x"
  by (cases "stack x" rule: remdups_adj.cases) (auto simp: idle_def blocks_def cur_def)

lemma commit_subbegin:
  assumes "xact_wf x" "blockState (cur x) = TBLOCK_SUBBEGIN"
  shows "returns idle (commit_transaction_command (Suc n) x)"
  using assms(1)
  by (cases rule: xact_wf_cases)
    (use assms(2) in \<open>auto simp: lone_states_def low_level_defs idle_def xact_wf_def blocks_def entry_ok_def\<close>)

lemma popped_then_no_fatal:
  assumes "xact_wf x" "blockState (cur x) \<in> set sub_states"
    and "\<And>y. xact_wf y \<and> stack y = tl (stack x) \<Longrightarrow> no_fatal P (f y)"
  shows "no_fatal P (and_then (CleanupSubTransaction x) f)"
    "no_fatal P (and_then (CleanupSubTransaction (AbortSubTransaction x)) f)"
  using no_fatal_and_then [OF returns_no_fatal [OF popped(2) [OF assms(1,2)]]]
    no_fatal_and_then [OF returns_no_fatal [OF popped(3) [OF assms(1,2)]]] assms(3) by blast+

lemma wf_releasing:
  assumes "xact_wf x" 
  shows "blockState (cur x) = TBLOCK_SUBRELEASE \<Longrightarrow> releasing (blocks x)"
    "blockState (cur x) = TBLOCK_SUBCOMMIT \<Longrightarrow> committing (blocks x)"
  using assms by (cases rule: xact_wf_cases; auto simp: blocks_def cur_def lone_states_def)+

lemma commit_transaction_command_no_fatal:
  "xact_wf x \<Longrightarrow> blockState (cur x) \<noteq> TBLOCK_DEFAULT \<Longrightarrow> length (stack x) \<le> n \<Longrightarrow>
   no_fatal idle (commit_transaction_command n x)"
proof (induction n arbitrary: x)
  case 0
  then show ?case by (simp add: xact_wf_def)
next
  case (Suc n)
  show ?case
  proof (cases "tl (stack x) = []")
    case True
    then obtain s where "stack x = [s]" using Suc.prems by (cases "stack x") (auto simp: xact_wf_def)
    with Suc.prems show ?thesis
      by (intro returns_no_fatal commit_lone) (auto simp: cur_def)
  next
    case False
    have sub: "blockState (cur x) \<in> set sub_states"
      using Suc.prems(1) False by (cases rule: wf_block_cases) (auto simp: sub_states_def)
    have rec: "no_fatal idle (commit_transaction_command n y)" if y: "xact_wf y \<and> stack y = tl (stack x)" for y
      using y Suc.prems parent_not_default [OF Suc.prems(1) False]
      by (intro Suc.IH) (auto simp: cur_def)
    consider "blockState (cur x) = TBLOCK_SUBBEGIN"
      | "blockState (cur x) = TBLOCK_SUBINPROGRESS \<or> blockState (cur x) = TBLOCK_SUBABORT"
      | "blockState (cur x) = TBLOCK_SUBRELEASE" | "blockState (cur x) = TBLOCK_SUBCOMMIT"
      | "blockState (cur x) = TBLOCK_SUBABORT_PENDING \<or> blockState (cur x) = TBLOCK_SUBABORT_END"
      | "blockState (cur x) \<in> {TBLOCK_SUBRESTART, TBLOCK_SUBABORT_RESTART}"
      using sub by (auto simp: sub_states_def)
    then show ?thesis
    proof cases
      case 1
      then show ?thesis by (rule returns_no_fatal [OF commit_subbegin [OF Suc.prems(1)]])
    next
      case 2
      with Suc.prems(1) show ?thesis by (auto simp: idle_def log_event_def xact_wf_def cur_def blocks_def)
    next
      case 3
      with subcommit_releasing [OF Suc.prems(1) wf_releasing(1) [OF Suc.prems(1) 3] order_refl] show ?thesis
        by (auto intro: returns_no_fatal returns_mono live_idle)
    next
      case 4
      show ?thesis by (rule returns_no_fatal [OF commit_subcommit [OF Suc.prems(1) wf_releasing(2) [OF Suc.prems(1) 4] 4]])
    next
      case 5
      with popped_then_no_fatal [OF Suc.prems(1) sub rec] show ?thesis by auto
    next
      case 6
      then show ?thesis by (rule commit_restart [OF Suc.prems(1)])
    qed
  qed
qed

lemma CommitTransactionCommand_no_fatal:
  "xact_wf x \<Longrightarrow> blockState (cur x) \<noteq> TBLOCK_DEFAULT \<Longrightarrow> no_fatal idle (CommitTransactionCommand x)"
  by (simp add: CommitTransactionCommand_def commit_transaction_command_no_fatal)

section \<open>Marking the stack\<close>

text \<open>The commands only re-mark entries: they change block states and the chain flag.\<close>

definition remark :: "TransactionStateData \<Rightarrow> TransactionStateData \<Rightarrow> bool" where
  "remark s t \<longleftrightarrow> subTransactionId t = subTransactionId s \<and> xname t = xname s \<and>
     savepointLevel t = savepointLevel s \<and> state t = state s \<and> nestingLevel t = nestingLevel s \<and>
     parallelModeLevel t = parallelModeLevel s \<and> trans_of (blockState t) = trans_of (blockState s) \<and>
     (blockState t = TBLOCK_DEFAULT \<longleftrightarrow> blockState s = TBLOCK_DEFAULT)"

lemma remark_refl [simp]: "remark s s"
  by (simp add: remark_def)

lemma remark_set [simp]:
  "remark s (s\<lparr>blockState := b\<rparr>) \<longleftrightarrow>
     trans_of b = trans_of (blockState s) \<and> (b = TBLOCK_DEFAULT \<longleftrightarrow> blockState s = TBLOCK_DEFAULT)"
  by (simp add: remark_def)

lemma remarks_refl [simp]: "list_all2 remark stk stk"
  by (simp add: list_all2_refl)

lemma stack_ok_remark: "stack_ok c stk \<Longrightarrow> list_all2 remark stk stk' \<Longrightarrow> stack_ok c stk'"
proof (induction c stk arbitrary: stk' rule: stack_ok.induct)
  case (3 c s p ps)
  then show ?case
    by (auto simp: list_all2_Cons1 remark_def entry_ok_def)
qed (auto simp: list_all2_Cons1 remark_def entry_ok_def)

lemma mark_commit:
  "live (map blockState stk) \<Longrightarrow> \<exists>stk'. mark_all commit_sub commit_top stk = Some stk' \<and>
     list_all2 remark stk stk' \<and> committing (map blockState stk') \<and> blockState (last stk') = TBLOCK_END"
  by (induction commit_sub commit_top stk rule: mark_all.induct)
    (fastforce simp: commit_sub_def commit_top_def remark_def list_all2_Cons1 neq_Nil_conv)+

lemma mark_abort_live:
  "live (map blockState stk) \<Longrightarrow> \<exists>stk'. mark_all abort_sub abort_top stk = Some stk' \<and>
     list_all2 remark stk stk' \<and> aborting (map blockState stk')"
  by (induction abort_sub abort_top stk rule: mark_all.induct)
    (fastforce simp: abort_sub_def abort_top_def remark_def list_all2_Cons1)+

lemma find_savepoint_sub: "stack_ok c stk \<Longrightarrow> find_savepoint name stk = Some t \<Longrightarrow> Suc t < length stk"
  by (induction c stk arbitrary: t rule: stack_ok.induct) (auto split: if_splits)

lemma mark_release_live:
  "live (map blockState stk) \<Longrightarrow> Suc t < length stk \<Longrightarrow>
   list_all2 remark stk (mark_release t stk) \<and> releasing (map blockState (mark_release t stk))"
proof (induction t arbitrary: stk)
  case 0
  then show ?case by (cases stk rule: remdups_adj.cases) auto
next
  case (Suc t)
  then obtain s p ps where st: "stk = s # p # ps" by (cases stk rule: remdups_adj.cases) auto
  with Suc.prems Suc.IH [of "p # ps"] show ?case by simp
qed

lemma mark_rollback_live:
  "live (map blockState stk) \<Longrightarrow> Suc t < length stk \<Longrightarrow>
   \<exists>stk'. mark_rollback t stk = Some stk' \<and> list_all2 remark stk stk' \<and> restarting (map blockState stk')"
proof (induction t arbitrary: stk)
  case 0
  then show ?case by (cases stk rule: remdups_adj.cases) (auto simp: restart_mark_def)
next
  case (Suc t)
  then obtain s p ps where st: "stk = s # p # ps" by (cases stk rule: remdups_adj.cases) auto
  with Suc.prems Suc.IH [of "p # ps"] show ?case
    by (auto simp: abort_sub_def)
qed

text \<open>With a failed innermost subtransaction, the marks go on that one and the live ones around it.\<close>

lemma mark_abort_failed:
  assumes "blockState s = TBLOCK_SUBABORT" "live (map blockState (p # ps))"
  shows "\<exists>stk'. mark_all abort_sub abort_top (s # p # ps) = Some stk' \<and> list_all2 remark (s # p # ps) stk' \<and>
     shape (map blockState stk')"
  using mark_abort_live [OF assms(2)] assms(1) by (auto simp: abort_sub_def)

lemma mark_rollback_failed:
  assumes "blockState s = TBLOCK_SUBABORT" "live (map blockState (p # ps))" "Suc t < length (s # p # ps)"
  shows "\<exists>stk'. mark_rollback t (s # p # ps) = Some stk' \<and> list_all2 remark (s # p # ps) stk' \<and>
     shape (map blockState stk')"
proof (cases t)
  case 0
  with assms show ?thesis by (auto simp: restart_mark_def)
next
  case (Suc u)
  with mark_rollback_live [OF assms(2), of u] assms(1,3) show ?thesis by (auto simp: abort_sub_def)
qed

section \<open>Commands\<close>

definition active :: "XactState \<Rightarrow> bool" where
  "active x \<longleftrightarrow> xact_wf x \<and> blockState (cur x) \<noteq> TBLOCK_DEFAULT"

lemma wf_log [simp]: "active (log_event e x) \<longleftrightarrow> active x"
  by (simp add: active_def xact_wf_def log_event_def blocks_def cur_def)

lemma wf_remark:
  assumes "active x" "list_all2 remark (stack x) stk" "shape (map blockState stk)"
  shows "active (x\<lparr>stack := stk\<rparr>)"
proof -
  have "stack x \<noteq> []" using assms(1) by (auto simp: active_def xact_wf_def)
  then have "blockState (hd stk) = TBLOCK_DEFAULT \<longleftrightarrow> blockState (hd (stack x)) = TBLOCK_DEFAULT"
    using assms(2) by (cases "stack x"; cases stk) (auto simp: remark_def)
  with assms stack_ok_remark show ?thesis by (auto simp: active_def xact_wf_def blocks_def cur_def)
qed

lemma wf_set_chain: "active x \<Longrightarrow> active (set_chain c x)"
  unfolding set_chain_def
proof (rule wf_remark)
  assume wf: "active x"
  then have ne: "stack x \<noteq> []" by (auto simp: active_def xact_wf_def)
  have "list_all2 remark (butlast (stack x) @ [last (stack x)]) (butlast (stack x) @ [(last (stack x))\<lparr>chain := c\<rparr>])"
    by (intro list_all2_appendI) (simp_all add: remark_def)
  with ne show "list_all2 remark (stack x) (butlast (stack x) @ [(last (stack x))\<lparr>chain := c\<rparr>])" by simp
  have "map blockState (butlast (stack x) @ [(last (stack x))\<lparr>chain := c\<rparr>])
      = map blockState (butlast (stack x) @ [last (stack x)])" by simp
  also have "\<dots> = blocks x" using ne by (simp add: blocks_def)
  finally show "shape (map blockState (butlast (stack x) @ [(last (stack x))\<lparr>chain := c\<rparr>]))"
    using wf by (simp add: active_def xact_wf_def)
qed

lemma last_set_chain [simp]: "blockState (last (stack (set_chain c x))) = blockState (last (stack x))"
  by (simp add: set_chain_def)

lemma shape_last:
  "live bs \<Longrightarrow> last bs = TBLOCK_INPROGRESS" "releasing bs \<Longrightarrow> last bs = TBLOCK_INPROGRESS"
  "aborting bs \<Longrightarrow> last bs = TBLOCK_ABORT_PENDING" "restarting bs \<Longrightarrow> last bs = TBLOCK_INPROGRESS"
proof -
  show live: "live bs \<Longrightarrow> last bs = TBLOCK_INPROGRESS" for bs by (induction bs rule: live.induct) auto
  show "releasing bs \<Longrightarrow> last bs = TBLOCK_INPROGRESS" by (induction bs) (auto dest: live)
  show "aborting bs \<Longrightarrow> last bs = TBLOCK_ABORT_PENDING" by (induction bs rule: aborting.induct) auto
  show "restarting bs \<Longrightarrow> last bs = TBLOCK_INPROGRESS" by (induction bs) (auto dest: live)
qed

lemma shape_end: "shape bs \<Longrightarrow> last bs = TBLOCK_END \<Longrightarrow> committing bs"
  using shape_last [of bs] shape_last [of "tl bs"] by (cases bs) (auto simp: lone_states_def split: if_splits)

lemma in_statement_cases:
  assumes "in_statement x"
  obtains s where "stack x = [s]" "blockState s \<in> {TBLOCK_STARTED, TBLOCK_INPROGRESS, TBLOCK_IMPLICIT_INPROGRESS, TBLOCK_ABORT}"
  | s p ps where "stack x = s # p # ps" "blockState s = TBLOCK_SUBINPROGRESS" "live (map blockState (p # ps))"
  | s p ps where "stack x = s # p # ps" "blockState s = TBLOCK_SUBABORT" "live (map blockState (p # ps))"
proof -
  have "xact_wf x" using assms by (simp add: in_statement_def)
  then show ?thesis
    by (cases rule: xact_wf_cases) (use assms in \<open>auto simp: in_statement_def cur_def lone_states_def intro: that\<close>)
qed

lemma in_statement_wf: "in_statement x \<Longrightarrow> active x"
  by (auto simp: in_statement_def active_def)

lemma BeginTransactionBlock_no_fatal:
  assumes "in_statement x" shows "no_fatal active (BeginTransactionBlock x)"
  using assms
  by (cases rule: in_statement_cases)
    (use in_statement_wf [OF assms] in \<open>auto simp: BeginTransactionBlock_def cur_def set_block_def upd_cur_def
      active_def xact_wf_def blocks_def entry_ok_def lone_states_def log_event_def\<close>)

lemma EndTransactionBlock_no_fatal:
  assumes "in_statement x"
  shows "no_fatal (\<lambda>(result, y). active y \<and> (result \<longrightarrow> blockState (last (stack y)) \<in> {TBLOCK_END, TBLOCK_STARTED}))
     (EndTransactionBlock chn x)"
proof -
  have wf: "active x" by (rule in_statement_wf [OF assms])
  show ?thesis using assms
  proof (cases rule: in_statement_cases)
    case (1 s)
    then show ?thesis using wf
      by (auto simp: EndTransactionBlock_def cur_def no_transaction_def log_event_def set_chain_def lone_states_def
          set_block_def upd_cur_def active_def xact_wf_def blocks_def entry_ok_def)
  next
    case (2 s p ps)
    with mark_commit [of "stack x"] obtain stk where stk:
        "mark_all commit_sub commit_top (stack x) = Some stk" "list_all2 remark (stack x) stk"
        "committing (map blockState stk)" "blockState (last stk) = TBLOCK_END" "stk \<noteq> []"
      by auto
    have "shape (map blockState stk)" using stk(3) by (cases stk) auto
    with 2 stk show ?thesis
      by (auto simp: EndTransactionBlock_def cur_def set_stack_def intro!: wf_set_chain wf_remark [OF wf])
  next
    case (3 s p ps)
    with mark_abort_failed [of s p ps] show ?thesis
      by (auto simp: EndTransactionBlock_def cur_def set_stack_def intro!: wf_set_chain wf_remark [OF wf])
  qed
qed

lemma PrepareTransactionBlock_no_fatal:
  assumes "in_statement x" shows "no_fatal (\<lambda>(result, y). active y) (PrepareTransactionBlock x)"
  unfolding PrepareTransactionBlock_def
proof (rule no_fatal_and_then [OF EndTransactionBlock_no_fatal [OF assms]], clarsimp)
  fix y assume wf: "active y" and fin: "blockState (last (stack y)) = TBLOCK_END"
  let ?stk = "butlast (stack y) @ [(last (stack y))\<lparr>blockState := TBLOCK_PREPARE\<rparr>]"
  have ne: "stack y \<noteq> []" using wf by (auto simp: active_def xact_wf_def)
  have com: "committing bs \<Longrightarrow> committing (butlast bs @ [TBLOCK_PREPARE])" for bs
    by (induction bs rule: committing.induct) (auto simp: neq_Nil_conv)
  have "committing (map blockState (butlast (stack y) @ [(last (stack y))\<lparr>blockState := TBLOCK_PREPARE\<rparr>]))"
    using com [OF shape_end, of "blocks y"] wf fin ne by (simp add: blocks_def active_def xact_wf_def last_map map_butlast)
  then have "shape (map blockState ?stk)" by (cases "map blockState ?stk") auto
  moreover have "list_all2 remark (butlast (stack y) @ [last (stack y)]) ?stk"
    using fin by (intro list_all2_appendI) simp_all
  ultimately show "active (y\<lparr>stack := ?stk\<rparr>)" using wf ne by (intro wf_remark) simp_all
qed

lemma UserAbortTransactionBlock_no_fatal:
  assumes "in_statement x" shows "no_fatal active (UserAbortTransactionBlock chn x)"
proof -
  have wf: "active x" by (rule in_statement_wf [OF assms])
  show ?thesis using assms
  proof (cases rule: in_statement_cases)
    case (1 s)
    then show ?thesis using wf
      by (auto simp: UserAbortTransactionBlock_def cur_def no_transaction_def log_event_def set_chain_def
          lone_states_def set_block_def upd_cur_def active_def xact_wf_def blocks_def entry_ok_def)
  next
    case (2 s p ps)
    with mark_abort_live [of "stack x"] obtain stk where stk:
        "mark_all abort_sub abort_top (stack x) = Some stk" "list_all2 remark (stack x) stk"
        "aborting (map blockState stk)"
      by auto
    have "shape (map blockState stk)" using stk(3) by (cases stk) auto
    with 2 stk show ?thesis
      by (auto simp: UserAbortTransactionBlock_def cur_def set_stack_def intro!: wf_set_chain wf_remark [OF wf])
  next
    case (3 s p ps)
    with mark_abort_failed [of s p ps] show ?thesis
      by (auto simp: UserAbortTransactionBlock_def cur_def set_stack_def intro!: wf_set_chain wf_remark [OF wf])
  qed
qed

lemma savepoint_target_sub:
  assumes "active x" "savepoint_target name x = Inr t" shows "Suc t < length (stack x)"
  using assms by (auto simp: savepoint_target_def active_def xact_wf_def split: option.splits if_splits intro: find_savepoint_sub)

lemma savepoint_target_no_fatal: "no_fatal (\<lambda>t. savepoint_target name x = Inr t) (savepoint_target name x)"
  by (auto simp: savepoint_target_def split: option.splits)

lemma DefineSavepoint_no_fatal:
  assumes "in_statement x" "blockState (cur x) \<noteq> TBLOCK_STARTED" "\<not> IsAbortedTransactionBlockState x"
  shows "no_fatal active (DefineSavepoint name x)"
proof (cases "blockState (cur x) = TBLOCK_IMPLICIT_INPROGRESS")
  case True
  then show ?thesis by (simp add: DefineSavepoint_def)
next
  case False
  have live: "live (blocks x)"
    using assms(1) by (cases rule: in_statement_cases)
      (use assms(2,3) False in \<open>auto simp: blocks_def cur_def IsAbortedTransactionBlockState_def\<close>)
  have wf: "active x" by (rule in_statement_wf [OF assms(1)])
  then obtain p ps where st: "stack x = p # ps" by (cases "stack x") (auto simp: active_def xact_wf_def)
  have ok: "stack_ok (currentSubTransactionId x) (p # ps)" using wf st by (simp add: active_def xact_wf_def)
  show ?thesis
    using push_ok [OF ok] live st
    by (auto simp: DefineSavepoint_live [OF conjunct1 [OF wf [unfolded active_def]] live] active_def xact_wf_def blocks_def cur_def entry_ok_def)
qed

lemma ReleaseSavepoint_no_fatal:
  assumes "in_statement x" "blockState (cur x) \<noteq> TBLOCK_STARTED" "\<not> IsAbortedTransactionBlockState x"
  shows "no_fatal active (ReleaseSavepoint name x)"
proof -
  note wf = in_statement_wf [OF assms(1)]
  have rel: "active (x\<lparr>stack := mark_release t (stack x)\<rparr>)"
    if "savepoint_target name x = Inr t" "live (blocks x)" for t
  proof -
    from that(2) mark_release_live [OF _ savepoint_target_sub [OF wf that(1)]]
    have m: "list_all2 remark (stack x) (mark_release t (stack x))"
        "releasing (map blockState (mark_release t (stack x)))" by (simp_all add: blocks_def)
    then have "shape (map blockState (mark_release t (stack x)))"
      by (cases "map blockState (mark_release t (stack x))") auto
    with wf m(1) show ?thesis by (intro wf_remark)
  qed
  have proceed: "no_fatal active (and_then (savepoint_target name x) (\<lambda>t. Inr (x\<lparr>stack := mark_release t (stack x)\<rparr>)))"
    if "live (blocks x)"
    by (rule no_fatal_and_then [OF savepoint_target_no_fatal]) (simp add: rel that)
  show ?thesis using assms(1)
    by (cases rule: in_statement_cases)
      (use proceed assms(2,3) in \<open>auto simp: ReleaseSavepoint_def cur_def blocks_def IsAbortedTransactionBlockState_def\<close>)
qed

lemma RollbackToSavepoint_no_fatal:
  assumes "in_statement x" "blockState (cur x) \<noteq> TBLOCK_STARTED"
  shows "no_fatal active (RollbackToSavepoint name x)"
proof -
  note wf = in_statement_wf [OF assms(1)]
  have "\<exists>stk. mark_rollback t (stack x) = Some stk \<and> list_all2 remark (stack x) stk \<and> shape (map blockState stk)"
    if t: "savepoint_target name x = Inr t" and ne: "tl (stack x) \<noteq> []" for t
  proof -
    note bound = savepoint_target_sub [OF wf t]
    from assms(1) show ?thesis
    proof (cases rule: in_statement_cases)
      case (1 s)
      with ne show ?thesis by simp
    next
      case (2 s p ps)
      then have "live (map blockState (stack x))" by simp
      from mark_rollback_live [OF this bound] obtain stk where "mark_rollback t (stack x) = Some stk"
          "list_all2 remark (stack x) stk" "restarting (map blockState stk)" by blast
      then show ?thesis by (cases stk) auto
    next
      case (3 s p ps)
      from mark_rollback_failed [OF this(2,3)] bound 3(1) show ?thesis by metis
    qed
  qed
  then have proceed: "no_fatal active (and_then (savepoint_target name x) (\<lambda>t.
      set_stack ''RollbackToSavepoint'' x (mark_rollback t (stack x))))" if "tl (stack x) \<noteq> []"
    by (intro no_fatal_and_then [OF savepoint_target_no_fatal])
      (use that in \<open>fastforce simp: set_stack_def intro: wf_remark [OF wf]\<close>)
  show ?thesis using assms(1)
    by (cases rule: in_statement_cases) (use proceed assms(2) in \<open>auto simp: RollbackToSavepoint_def cur_def\<close>)
qed

lemma require_block:
  assumes "in_statement x"
  shows "RequireTransactionBlock True x = (if blockState (cur x) = TBLOCK_STARTED
     then Inl (XError ''can only be used in transaction blocks'') else Inr x)"
  using assms
  by (cases rule: in_statement_cases)
    (use in_statement_wf [OF assms] in \<open>auto simp: RequireTransactionBlock_def CheckTransactionBlock_def IsTransactionBlock_def
      IsSubTransaction_def cur_def active_def xact_wf_def blocks_def\<close>)

lemma PreventInTransactionBlock_no_fatal:
  assumes "active x" shows "no_fatal active (PreventInTransactionBlock isTopLevel x)"
  using assms by (auto simp: PreventInTransactionBlock_def IsTransactionBlock_def active_def xact_wf_def blocks_def cur_def)

lemma keep_tag_no_fatal: "no_fatal P r \<Longrightarrow> no_fatal (\<lambda>(tag, y). P y) (keep_tag r)"
  by (cases "(P, r)" rule: no_fatal.cases) (simp_all add: keep_tag_def)

lemma failed_tag_no_fatal: "no_fatal (\<lambda>(result, y). P y) r \<Longrightarrow> no_fatal (\<lambda>(tag, y). P y) (failed_tag r)"
  by (cases "(\<lambda>(result :: bool, y). P y, r)" rule: no_fatal.cases) (simp_all add: failed_tag_def split_beta)

lemma no_fatal_mono: "no_fatal Q r" if "no_fatal P r" "\<And>y. P y \<Longrightarrow> Q y"
  using that by (cases "(P, r)" rule: no_fatal.cases) simp_all

lemma exec_transaction_stmt_no_fatal:
  assumes "in_statement x"
  shows "no_fatal (\<lambda>(tag, y). active y) (exec_transaction_stmt stmt x)"
proof (cases "IsAbortedTransactionBlockState x \<and> \<not> IsTransactionExitStmt stmt")
  case True
  then show ?thesis by (simp add: exec_transaction_stmt_def)
next
  case False
  note cmds = BeginTransactionBlock_no_fatal [OF assms] PrepareTransactionBlock_no_fatal [OF assms]
    UserAbortTransactionBlock_no_fatal [OF assms] PreventInTransactionBlock_no_fatal [OF in_statement_wf [OF assms]]
    no_fatal_mono [OF EndTransactionBlock_no_fatal [OF assms]]
    DefineSavepoint_no_fatal [OF assms] ReleaseSavepoint_no_fatal [OF assms] RollbackToSavepoint_no_fatal [OF assms]
  show ?thesis using False
    by (cases stmt) (auto simp: exec_transaction_stmt_def ProcessTransactionStmt_def require_block [OF assms]
      intro!: keep_tag_no_fatal failed_tag_no_fatal intro: cmds)
qed

section \<open>Sessions\<close>

text \<open>
  A session alternates between waiting for the client, running statements inside a transaction
  command, and finishing the command.  \<open>Failing\<close> is the time between an error in the middle of
  \<open>CommitTransactionCommand\<close>, after it has already ended some subtransactions, and the call of
  \<open>AbortCurrentTransaction\<close> in the error handler of \<open>PostgresMain\<close>.
\<close>

datatype phase = Waiting | Running | Finishing | Failing

text \<open>One level of the work \<open>CommitTransactionCommand\<close> does on a stack of marked subtransactions.\<close>

definition end_one_level :: "XactState \<Rightarrow> xact_error + XactState" where
  "end_one_level x =
     (case blockState (cur x) of
        TBLOCK_SUBRELEASE \<Rightarrow> CommitSubTransaction x
      | TBLOCK_SUBCOMMIT \<Rightarrow> CommitSubTransaction x
      | TBLOCK_SUBABORT_END \<Rightarrow> CleanupSubTransaction x
      | TBLOCK_SUBABORT_RESTART \<Rightarrow> CleanupSubTransaction x
      | TBLOCK_SUBABORT_PENDING \<Rightarrow> CleanupSubTransaction (AbortSubTransaction x)
      | TBLOCK_SUBRESTART \<Rightarrow> CleanupSubTransaction (AbortSubTransaction x)
      | _ \<Rightarrow> Inr x)"

inductive session_step :: "phase \<times> XactState \<Rightarrow> phase \<times> XactState \<Rightarrow> bool" where
  start: "StartTransactionCommand x = Inr y \<Longrightarrow> session_step (Waiting, x) (Running, y)"
| begin_implicit: "session_step (Running, x) (Running, BeginImplicitTransactionBlock x)"
| transaction_stmt: "exec_transaction_stmt stmt x = Inr (tag, y) \<Longrightarrow> session_step (Running, x) (Finishing, y)"
| other_stmt: "\<not> IsAbortedTransactionBlockState x \<Longrightarrow> session_step (Running, x) (Running, log_event EvCommandCounter x)"
| last_stmt: "\<not> IsAbortedTransactionBlockState x \<Longrightarrow> session_step (Running, x) (Finishing, x)"
| end_implicit: "session_step (Finishing, x) (Finishing, EndImplicitTransactionBlock x)"
| finish: "CommitTransactionCommand x = Inr y \<Longrightarrow> session_step (Finishing, x) (Waiting, y)"
| partial: "end_one_level x = Inr y \<Longrightarrow> ph = Finishing \<or> ph = Failing \<Longrightarrow> session_step (ph, x) (Failing, y)"
| error: "AbortCurrentTransaction x = Inr y \<Longrightarrow> session_step (ph, x) (Waiting, y)"

inductive_cases session_stepE: "session_step (ph, x) q"

fun phase_inv :: "phase \<times> XactState \<Rightarrow> bool" where
  "phase_inv (Waiting, x) = idle x"
| "phase_inv (Running, x) = in_statement x"
| "phase_inv (Finishing, x) = active x"
| "phase_inv (Failing, x) = active x"

text \<open>A session starts with the statically initialized top-level record.\<close>

definition TopTransactionStateData :: TransactionStateData where
  "TopTransactionStateData = \<lparr>subTransactionId = 0, xname = None, savepointLevel = 0, state = TRANS_DEFAULT,
     blockState = TBLOCK_DEFAULT, nestingLevel = 0, prevXactReadOnly = False, parallelModeLevel = 0, chain = False\<rparr>"

definition initial_state :: "XactChars \<Rightarrow> XactState" where
  "initial_state dfl = \<lparr>stack = [TopTransactionStateData], currentSubTransactionId = 0, characteristics = dfl,
     defaults = dfl, pipelining = False, need_immediate_commit = False, trace = []\<rparr>"

lemma phase_inv_wf: "phase_inv (ph, x) \<Longrightarrow> xact_wf x"
  by (cases ph) (auto simp: idle_def in_statement_def active_def)

lemma sub_has_parent: "xact_wf x \<Longrightarrow> blockState (cur x) \<in> set sub_states \<Longrightarrow> tl (stack x) \<noteq> []"
  by (elim xact_wf_cases) (auto simp: sub_states_def cur_def lone_states_def)

lemma end_one_level_active:
  assumes "active x" shows "returns active (end_one_level x)"
proof (cases "blockState (cur x) \<in> set sub_states")
  case True
  have wf: "xact_wf x" using assms by (simp add: active_def)
  have up: "active y" if "xact_wf y \<and> stack y = tl (stack x)" for y
    using parent_not_default [OF wf sub_has_parent [OF wf True]] that by (simp add: active_def cur_def)
  have "returns active (CommitSubTransaction x)" "returns active (CleanupSubTransaction x)"
    "returns active (CleanupSubTransaction (AbortSubTransaction x))"
    using popped [OF wf True] up by (blast intro: returns_mono)+
  with assms show ?thesis by (cases "blockState (cur x)") (simp_all add: end_one_level_def)
next
  case False
  with assms show ?thesis by (cases "blockState (cur x)") (simp_all add: end_one_level_def sub_states_def)
qed

lemma cur_set_block [simp]: "blockState (cur (set_block b x)) = b"
  by (simp add: set_block_def upd_cur_def cur_def)

lemma set_block_lone:
  assumes "active x" "blockState (cur x) \<in> {TBLOCK_STARTED, TBLOCK_IMPLICIT_INPROGRESS}"
    "b \<in> {TBLOCK_STARTED, TBLOCK_IMPLICIT_INPROGRESS}"
  shows "active (set_block b x)"
proof -
  have wf: "xact_wf x" using assms(1) by (simp add: active_def)
  obtain s where s: "stack x = [s]"
    using wf by (cases rule: xact_wf_cases) (use assms(2) in \<open>auto simp: cur_def\<close>)
  have "active (x\<lparr>stack := [s\<lparr>blockState := b\<rparr>]\<rparr>)"
    by (rule wf_remark [OF assms(1)]) (use assms(2,3) s in \<open>auto simp: cur_def lone_states_def\<close>)
  then show ?thesis using s by (simp add: set_block_def upd_cur_def cur_def)
qed

lemma session_step_inv: "session_step p q \<Longrightarrow> phase_inv p \<Longrightarrow> phase_inv q"
proof (induction rule: session_step.induct)
  case (start x y)
  then show ?case using StartTransactionCommand_returns [of x] by simp
next
  case (begin_implicit x)
  then show ?case
    using set_block_lone [of x TBLOCK_IMPLICIT_INPROGRESS]
    by (auto simp: BeginImplicitTransactionBlock_def in_statement_def active_def cur_set_block)
next
  case (transaction_stmt stmt x tag y)
  then show ?case using exec_transaction_stmt_no_fatal [of x stmt] by simp
next
  case (other_stmt x)
  then show ?case by (simp add: in_statement_def log_event_def xact_wf_def blocks_def cur_def)
next
  case (last_stmt x)
  then show ?case by (simp add: in_statement_wf)
next
  case (end_implicit x)
  then show ?case
    using set_block_lone [of x TBLOCK_STARTED] by (auto simp: EndImplicitTransactionBlock_def)
next
  case (finish x y)
  then show ?case using CommitTransactionCommand_no_fatal [of x] by (simp add: active_def)
next
  case (partial x y ph)
  then show ?case using end_one_level_active [of x] by auto
next
  case (error x y ph)
  then show ?case using AbortCurrentTransaction_returns [of x] by (auto dest: phase_inv_wf)
qed

end
