(* ===== verification/XactProps.thy ===== *)
theory XactProps
  imports XactMachine
begin

text \<open>
  What the transaction block commands do from the client's point of view: each lemma follows one SQL
  command from \<open>exec_transaction_stmt\<close> through the \<open>CommitTransactionCommand\<close> that ends it.
\<close>

section \<open>Rolling back\<close>

definition rollback_events :: "xact_event set" where
  "rollback_events = {EvAbort, EvCleanup, EvSubAbort, EvSubCleanup, EvStart}"

text \<open>
  The block is over, only rollback work has been done since \<open>x\<close>, and a new block runs exactly when
  AND CHAIN asked for it.
\<close>

definition rolled_back :: "XactState \<Rightarrow> XactState \<Rightarrow> bool" where
  "rolled_back x z \<longleftrightarrow> (\<exists>evs. trace z = evs @ trace x \<and> set evs \<subseteq> rollback_events) \<and>
     blocks z = [if chain (last (stack x)) then TBLOCK_INPROGRESS else TBLOCK_DEFAULT]"

lemma rolled_back_step:
  assumes "rolled_back y z" "trace y = evs @ trace x" "set evs \<subseteq> rollback_events" "last (stack y) = last (stack x)"
  shows "rolled_back x z"
proof -
  obtain fs where "trace z = fs @ trace y" "set fs \<subseteq> rollback_events"
    using assms(1) by (auto simp: rolled_back_def)
  with assms(2,3) have "trace z = (fs @ evs) @ trace x" "set (fs @ evs) \<subseteq> rollback_events" by auto
  with assms(1,4) show ?thesis unfolding rolled_back_def by metis
qed

lemma commit_aborting_lone:
  assumes "stack x = [s]" "blockState s = TBLOCK_ABORT_PENDING \<or> blockState s = TBLOCK_ABORT_END \<and> state s = TRANS_ABORT"
  shows "returns (rolled_back x) (commit_transaction_command (Suc n) x)"
  using assms
  by (auto simp: low_level_defs end_transaction_def chain_transaction_def rolled_back_def blocks_def
      rollback_events_def Let_def)

lemma commit_popped:
  assumes "stack x = s # p # ps" "blockState s = TBLOCK_SUBABORT_PENDING \<or> blockState s = TBLOCK_SUBABORT_END"
  obtains y evs where "commit_transaction_command (Suc n) x = commit_transaction_command n y" "stack y = p # ps"
    "trace y = evs @ trace x" "set evs \<subseteq> rollback_events" "currentSubTransactionId y = currentSubTransactionId x"
proof -
  obtain y where y: "CleanupSubTransaction (AbortSubTransaction x) = Inr y" "stack y = p # ps"
      "trace y = [EvSubCleanup, EvSubAbort] @ trace x" "currentSubTransactionId y = currentSubTransactionId x"
    using assms(1) by (simp add: low_level_defs)
  obtain z where z: "CleanupSubTransaction x = Inr z" "stack z = p # ps"
      "trace z = [EvSubCleanup] @ trace x" "currentSubTransactionId z = currentSubTransactionId x"
    using assms(1) by (simp add: low_level_defs)
  show ?thesis
    using assms that [of y, OF _ y(2,3)] that [of z, OF _ z(2,3)] y z by (auto simp: cur_def rollback_events_def)
qed

lemma commit_aborting:
  "aborting (map blockState (stack x)) \<Longrightarrow> length (stack x) \<le> n \<Longrightarrow>
   returns (rolled_back x) (commit_transaction_command n x)"
proof (induction n arbitrary: x)
  case 0
  then show ?case by simp
next
  case (Suc n)
  show ?case
  proof (cases "stack x" rule: remdups_adj.cases)
    case 1
    with Suc.prems show ?thesis by simp
  next
    case (2 s)
    with Suc.prems show ?thesis by (intro commit_aborting_lone [of _ s]) simp_all
  next
    case (3 s p ps)
    then have pending: "blockState s = TBLOCK_SUBABORT_PENDING" using Suc.prems(1) by simp
    obtain y evs where y: "commit_transaction_command (Suc n) x = commit_transaction_command n y"
        "stack y = p # ps" "trace y = evs @ trace x" "set evs \<subseteq> rollback_events"
        "currentSubTransactionId y = currentSubTransactionId x"
      by (rule commit_popped [OF 3 disjI1 [OF pending]])
    have "returns (rolled_back y) (commit_transaction_command n y)"
      using 3 y(2) Suc.prems by (intro Suc.IH) simp_all
    then show ?thesis unfolding y(1)
      by (rule returns_mono) (use y(2-) 3 in \<open>auto intro: rolled_back_step\<close>)
  qed
qed

lemma commit_aborting_failed:
  assumes "stack x = s # p # ps" "blockState s = TBLOCK_SUBABORT_END" "aborting (map blockState (p # ps))"
  shows "returns (rolled_back x) (CommitTransactionCommand x)"
proof -
  have start: "CommitTransactionCommand x = commit_transaction_command (Suc (length (p # ps))) x"
    by (simp add: CommitTransactionCommand_def assms(1) del: commit_transaction_command.simps)
  obtain y evs where y: "CommitTransactionCommand x = commit_transaction_command (length (p # ps)) y"
      "stack y = p # ps" "trace y = evs @ trace x" "set evs \<subseteq> rollback_events"
      "currentSubTransactionId y = currentSubTransactionId x"
    by (rule commit_popped [OF assms(1) disjI2 [OF assms(2)], of "length (p # ps)", folded start])
  have "returns (rolled_back y) (commit_transaction_command (length (p # ps)) y)"
    using assms y(2) by (intro commit_aborting) simp_all
  then show ?thesis unfolding y(1)
    by (rule returns_mono) (use y(2-) assms(1) in \<open>auto intro: rolled_back_step\<close>)
qed

text \<open>COMMIT or ROLLBACK of a failed block, from the statement to the end of its command.\<close>

lemma end_failed_block:
  assumes "in_statement x" "IsAbortedTransactionBlockState x"
  obtains y where "EndTransactionBlock chn x = Inr (False, y)" "UserAbortTransactionBlock chn x = Inr y"
    "trace y = trace x" "chain (last (stack y)) = chn" "returns (rolled_back y) (CommitTransactionCommand y)"
  using assms(1)
proof (cases rule: in_statement_cases)
  case (1 s)
  let ?y = "set_chain chn (set_block TBLOCK_ABORT_END x)"
  have s: "blockState s = TBLOCK_ABORT" "state s = TRANS_ABORT"
    using 1 assms by (auto simp: IsAbortedTransactionBlockState_def cur_def in_statement_def xact_wf_def entry_ok_def)
  have "stack ?y = [s\<lparr>blockState := TBLOCK_ABORT_END, chain := chn\<rparr>]" "trace ?y = trace x"
    using 1 by (simp_all add: set_chain_def set_block_def upd_cur_def cur_def)
  with s 1 show ?thesis
    by (intro that [of ?y])
      (auto simp: EndTransactionBlock_def UserAbortTransactionBlock_def cur_def CommitTransactionCommand_def
        simp del: commit_transaction_command.simps intro: commit_aborting_lone)
next
  case (2 s p ps)
  with assms(2) show ?thesis by (simp add: IsAbortedTransactionBlockState_def cur_def)
next
  case (3 s p ps)
  from mark_abort_live [OF 3(3)] obtain ps' where ps':
      "mark_all abort_sub abort_top (p # ps) = Some ps'" "aborting (map blockState ps')" by blast
  then obtain q qs where q: "ps' = q # qs" by (cases ps') auto
  let ?y = "set_chain chn (x\<lparr>stack := s\<lparr>blockState := TBLOCK_SUBABORT_END\<rparr> # ps'\<rparr>)"
  let ?qs = "butlast ps' @ [(last ps')\<lparr>chain := chn\<rparr>]"
  have st: "stack ?y = s\<lparr>blockState := TBLOCK_SUBABORT_END\<rparr> # ?qs" "trace ?y = trace x"
    using q by (simp_all add: set_chain_def)
  have "map blockState ?qs = map blockState (butlast ps' @ [last ps'])" by simp
  also have "\<dots> = map blockState ps'" using q by (simp only: append_butlast_last_id list.discI not_False_eq_True)
  finally have ab: "aborting (map blockState ?qs)" using ps'(2) by simp
  obtain r rs where r: "?qs = r # rs" by (cases ?qs) auto
  have "returns (rolled_back ?y) (CommitTransactionCommand ?y)"
    using st(1) r ab by (intro commit_aborting_failed [of ?y "s\<lparr>blockState := TBLOCK_SUBABORT_END\<rparr>" r rs]) simp_all
  with st ps'(1) 3 show ?thesis
    by (intro that [of ?y])
      (auto simp: EndTransactionBlock_def UserAbortTransactionBlock_def cur_def set_stack_def abort_sub_def)
qed

section \<open>Committing\<close>

definition committed :: "bool \<Rightarrow> XactState \<Rightarrow> XactState \<Rightarrow> bool" where
  "committed chn x z \<longleftrightarrow>
     trace z = (if chn then [EvStart] else []) @ EvCommit # replicate (length (stack x) - 1) EvSubCommit @ trace x \<and>
     blocks z = [if chn then TBLOCK_INPROGRESS else TBLOCK_DEFAULT] \<and>
     (chn \<longrightarrow> characteristics z = characteristics x)"

lemma end_transaction_committed:
  assumes "stack w = [s]" "chain s = chn" "trace w = replicate (length (stack x) - 1) EvSubCommit @ trace x"
  shows "committed chn x (end_transaction (characteristics x) (CommitTransaction w))"
  using assms
  by (auto simp: committed_def end_transaction_def chain_transaction_def low_level_defs blocks_def Let_def)

lemma commit_live_block:
  assumes "in_statement x" "live (blocks x)"
  obtains y where "EndTransactionBlock chn x = Inr (True, y)" "returns (committed chn x) (CommitTransactionCommand y)"
  using assms(1)
proof (cases rule: in_statement_cases)
  case (1 s)
  then have s: "blockState s = TBLOCK_INPROGRESS" using assms(2) by (simp add: blocks_def)
  let ?y = "set_chain chn (set_block TBLOCK_END x)"
  have y: "stack ?y = [s\<lparr>blockState := TBLOCK_END, chain := chn\<rparr>]" "trace ?y = trace x"
      "characteristics ?y = characteristics x"
    using 1 by (simp_all add: set_chain_def set_block_def upd_cur_def cur_def)
  have "CommitTransactionCommand ?y = Inr (end_transaction (characteristics x) (CommitTransaction ?y))"
    using y by (simp add: CommitTransactionCommand_def cur_def)
  with end_transaction_committed [OF y(1), of chn x] y 1 s show ?thesis
    by (intro that [of ?y]) (simp_all add: EndTransactionBlock_def cur_def)
next
  case (2 s p ps)
  then have "live (map blockState (stack x))" by simp
  from mark_commit [OF this] obtain stk where stk: "mark_all commit_sub commit_top (stack x) = Some stk"
      "list_all2 remark (stack x) stk" "committing (map blockState stk)" "blockState (last stk) = TBLOCK_END" by blast
  let ?y = "set_chain chn (x\<lparr>stack := stk\<rparr>)"
  have len: "length stk = length (stack x)" using stk(2) by (simp add: list_all2_lengthD)
  have ended: "EndTransactionBlock chn x = Inr (True, ?y)"
    using 2 stk(1) by (simp add: EndTransactionBlock_def cur_def set_stack_def del: mark_all.simps)
  have wf: "xact_wf ?y" using EndTransactionBlock_no_fatal [OF assms(1), of chn] ended by (simp add: active_def)
  have ne: "stk \<noteq> []" using len 2 by auto
  have bl: "blocks ?y = map blockState stk"
  proof -
    have "blocks ?y = map blockState (butlast stk @ [last stk])" by (simp add: blocks_def set_chain_def)
    then show ?thesis using ne by (simp only: append_butlast_last_id not_False_eq_True)
  qed
  obtain q r rs where q: "stk = q # r # rs" using len 2(1) by (cases stk rule: remdups_adj.cases) auto
  have "blockState (cur ?y) = hd (blocks ?y)" using q by (simp add: cur_def blocks_def set_chain_def)
  then have cmt: "blockState (cur ?y) = TBLOCK_SUBCOMMIT" using bl stk(3) q by simp
  from subcommit_committing [OF wf _ cmt order_refl] bl stk(3)
  obtain w where w: "subcommit_loop (length (stack ?y)) TBLOCK_SUBCOMMIT ?y = Inr w"
      "stack w = [last (stack ?y)]" "trace w = replicate (length (stack ?y) - 1) EvSubCommit @ trace ?y"
    by (cases "subcommit_loop (length (stack ?y)) TBLOCK_SUBCOMMIT ?y") auto
  have y: "length (stack ?y) = length (stack x)" "trace ?y = trace x" "characteristics ?y = characteristics x"
      "last (stack ?y) = (last stk)\<lparr>chain := chn\<rparr>"
    using len ne 2(1) by (simp_all add: set_chain_def)
  have "CommitTransactionCommand ?y = Inr (end_transaction (characteristics x) (CommitTransaction w))"
  proof -
    have "CommitTransactionCommand ?y = commit_transaction_command (Suc (length (stack ?y) - 1)) ?y"
      using y(1) 2(1) by (simp add: CommitTransactionCommand_def del: commit_transaction_command.simps)
    moreover have "blockState (cur w) = TBLOCK_END" using w(2) y(4) stk(4) by (simp add: cur_def)
    ultimately show ?thesis using cmt w(1) y(3) by simp
  qed
  with end_transaction_committed [OF w(2), of chn x] y w(3) ended show ?thesis
    by (intro that [of ?y]) simp_all
next
  case (3 s p ps)
  with assms(2) show ?thesis by (simp add: blocks_def)
qed

section \<open>Savepoints\<close>

text \<open>The stack of \<open>z\<close> is \<open>stk\<close> under a fresh running subtransaction with the given name.\<close>

definition fresh_on :: "string option \<Rightarrow> uint32 \<Rightarrow> TransactionStateData list \<Rightarrow> XactState \<Rightarrow> bool" where
  "fresh_on name c stk z \<longleftrightarrow> tl (stack z) = stk \<and> stack z \<noteq> [] \<and> xname (cur z) = name \<and>
     subTransactionId (cur z) = c + 1 \<and> currentSubTransactionId z = c + 1 \<and>
     blockState (cur z) = TBLOCK_SUBINPROGRESS \<and> state (cur z) = TRANS_INPROGRESS \<and>
     nestingLevel (cur z) = Suc (nestingLevel (hd stk))"

lemma commit_restarting:
  "mark_rollback t stk = Some (stack y) \<Longrightarrow> Suc t < length stk \<Longrightarrow> live (map blockState (tl stk)) \<Longrightarrow>
   stack_ok (currentSubTransactionId y) (tl stk) \<Longrightarrow> currentSubTransactionId y \<noteq> - 1 \<Longrightarrow> t < n \<Longrightarrow>
   returns (fresh_on (xname (stk ! t)) (currentSubTransactionId y) (drop (Suc t) stk)) (commit_transaction_command n y)"
proof (induction t arbitrary: stk y n)
  case 0
  then obtain m s p ps where m: "n = Suc m" and st: "stk = s # p # ps"
    by (cases n; cases stk rule: remdups_adj.cases) auto
  with 0 obtain b where b': "s\<lparr>blockState := b\<rparr> # p # ps = stack y" "b = TBLOCK_SUBRESTART \<or> b = TBLOCK_SUBABORT_RESTART"
    by (auto simp: restart_mark_def split: if_splits)
  note b = b'(1) [symmetric] b'(2)
  obtain z s' where z: "commit_transaction_command (Suc m) y = restart_savepoint (xname s) (savepointLevel s) z"
      "stack z = s' # p # ps" "currentSubTransactionId z = currentSubTransactionId y"
    using b by (auto simp: AbortSubTransaction_def restore_read_only_def log_event_def upd_cur_def cur_def)
  have "live (map blockState (p # ps))" "stack_ok (currentSubTransactionId z) (p # ps)" using 0 st z(3) by simp_all
  from restart_savepoint_eq [OF z(2) this(2,1)] 0(5) st show ?case
    unfolding m z(1) by (simp add: fresh_on_def z(3) cur_def)
next
  case (Suc t)
  then obtain m s p ps where m: "n = Suc m" "t < m" and st: "stk = s # p # ps"
    by (cases n; cases stk rule: remdups_adj.cases) auto
  with Suc.prems(1) obtain b rest where b': "s\<lparr>blockState := b\<rparr> # rest = stack y" "mark_rollback t (p # ps) = Some rest"
      "b = TBLOCK_SUBABORT_PENDING \<or> b = TBLOCK_SUBABORT_END"
    by (auto simp: abort_sub_def split: if_splits option.splits)
  note b = b'(1) [symmetric] b'(2,3)
  then obtain q qs where q: "rest = q # qs" by (cases rest; cases t) (auto split: option.splits)
  obtain w evs where w: "commit_transaction_command (Suc m) y = commit_transaction_command m w" "stack w = q # qs"
      "trace w = evs @ trace y" "set evs \<subseteq> rollback_events" "currentSubTransactionId w = currentSubTransactionId y"
    by (rule commit_popped [of y "s\<lparr>blockState := b\<rparr>" q qs]) (use b q in auto)
  have ps: "ps \<noteq> []" using Suc.prems(2) st by auto
  have "returns (fresh_on (xname ((p # ps) ! t)) (currentSubTransactionId w) (drop (Suc t) (p # ps)))
      (commit_transaction_command m w)"
    by (rule Suc.IH) (use Suc.prems st b(2) q w m ps in \<open>auto simp: neq_Nil_conv\<close>)
  then show ?case using st w(1,5) m(1) by simp
qed

text \<open>
  Ending the innermost subtransaction restores the stack below it and the read-only flag it was
  started with.
\<close>

lemma commit_innermost:
  assumes "stack z = e # p # ps"
  shows "CommitSubTransaction z = Inr (z\<lparr>stack := p # ps, trace := EvSubCommit # trace z,
     characteristics := (characteristics z)\<lparr>XactReadOnly := prevXactReadOnly e\<rparr>\<rparr>)"
  using assms by (simp add: low_level_defs)

lemma live_not_release: "live (blocks x) \<Longrightarrow> blockState (cur x) \<noteq> TBLOCK_SUBRELEASE"
  by (cases "stack x" rule: remdups_adj.cases) (auto simp: blocks_def cur_def)

lemma release_innermost:
  assumes "stack z = e # stk" "blockState e = TBLOCK_SUBINPROGRESS" "xname e = Some name" "parallelModeLevel e = 0"
    and "live (map blockState stk)"
  obtains w v where "ReleaseSavepoint name z = Inr w" "CommitTransactionCommand w = Inr v" "stack v = stk"
    "characteristics v = (characteristics z)\<lparr>XactReadOnly := prevXactReadOnly e\<rparr>"
proof -
  obtain p ps where stk: "stk = p # ps" using assms(5) by (cases stk) auto
  let ?w = "z\<lparr>stack := e\<lparr>blockState := TBLOCK_SUBRELEASE\<rparr> # stk\<rparr>"
  have p: "blockState p \<noteq> TBLOCK_SUBRELEASE" using assms(5) stk by (cases ps) auto
  have "ReleaseSavepoint name z = Inr ?w"
    using assms(1-4) by (simp add: ReleaseSavepoint_def IsInParallelMode_def cur_def savepoint_target_def)
  moreover define v where "v = ?w\<lparr>stack := p # ps, trace := EvSubCommit # trace ?w,
     characteristics := (characteristics ?w)\<lparr>XactReadOnly := prevXactReadOnly e\<rparr>\<rparr>"
  have "CommitTransactionCommand ?w = Inr v"
    unfolding v_def using stk p commit_innermost [of ?w "e\<lparr>blockState := TBLOCK_SUBRELEASE\<rparr>" p ps]
    by (simp add: CommitTransactionCommand_def cur_def)
  moreover have "stack v = stk" "characteristics v = (characteristics z)\<lparr>XactReadOnly := prevXactReadOnly e\<rparr>"
    using stk by (simp_all add: v_def)
  ultimately show ?thesis by (rule that)
qed

lemma savepoint_defined:
  assumes "in_statement x" "live (blocks x)" "currentSubTransactionId x \<noteq> - 1"
  obtains y z where "DefineSavepoint (Some name) x = Inr y" "CommitTransactionCommand y = Inr z"
    "fresh_on (Some name) (currentSubTransactionId x) (stack x) z" "prevXactReadOnly (cur z) = XactReadOnly (characteristics x)"
    "parallelModeLevel (cur z) = 0" "savepointLevel (cur z) = 0" "in_statement z"
proof -
  have wf: "xact_wf x" using assms(1) by (simp add: in_statement_def)
  then obtain p ps where st: "stack x = p # ps" by (cases "stack x") (auto simp: xact_wf_def)
  have ok: "stack_ok (currentSubTransactionId x) (p # ps)" using wf st by (simp add: xact_wf_def)
  define e where "e = \<lparr>subTransactionId = currentSubTransactionId x + 1, xname = Some name, savepointLevel = 0,
    state = TRANS_DEFAULT, blockState = TBLOCK_SUBBEGIN, nestingLevel = nestingLevel p + 1,
    prevXactReadOnly = XactReadOnly (characteristics x), parallelModeLevel = 0, chain = False\<rparr>"
  define y where "y = x\<lparr>currentSubTransactionId := currentSubTransactionId x + 1, stack := e # p # ps\<rparr>"
  define z where "z = y\<lparr>stack := e\<lparr>state := TRANS_INPROGRESS, blockState := TBLOCK_SUBINPROGRESS\<rparr> # p # ps,
    trace := EvSubStart # trace x\<rparr>"
  have "DefineSavepoint (Some name) x = Inr y"
    using DefineSavepoint_live [OF wf assms(2)] assms(3) st by (simp add: y_def e_def cur_def)
  moreover have "CommitTransactionCommand y = Inr z"
    by (simp add: y_def z_def e_def CommitTransactionCommand_def cur_def StartSubTransaction_def log_event_def
      set_block_def upd_cur_def)
  moreover have "fresh_on (Some name) (currentSubTransactionId x) (stack x) z" "in_statement z"
    using push_ok [OF ok assms(3)] st assms(2)
    by (simp_all add: z_def y_def e_def fresh_on_def in_statement_def xact_wf_def entry_ok_def blocks_def cur_def)
  ultimately show ?thesis by (intro that [of y z]) (simp_all add: z_def y_def e_def cur_def)
qed

lemma in_statement_characteristics [simp]: "in_statement (x\<lparr>characteristics := c\<rparr>) \<longleftrightarrow> in_statement x"
  by (simp add: in_statement_def xact_wf_def blocks_def cur_def)

section \<open>Internal subtransactions\<close>

lemma BeginInternal_fresh:
  assumes "stack x = p # ps" "parallelModeLevel p = 0" "currentSubTransactionId x \<noteq> - 1"
    and "blockState p \<in> {TBLOCK_STARTED, TBLOCK_INPROGRESS, TBLOCK_IMPLICIT_INPROGRESS, TBLOCK_END, TBLOCK_PREPARE, TBLOCK_SUBINPROGRESS}"
  obtains y where "BeginInternalSubTransaction name x = Inr y" "fresh_on name (currentSubTransactionId x) (stack x) y"
    "prevXactReadOnly (cur y) = XactReadOnly (characteristics x)" "parallelModeLevel (cur y) = 0"
proof -
  let ?c = "currentSubTransactionId x + 1"
  define e where "e = \<lparr>subTransactionId = ?c, xname = name, savepointLevel = savepointLevel p,
    state = TRANS_INPROGRESS, blockState = TBLOCK_SUBINPROGRESS, nestingLevel = nestingLevel p + 1,
    prevXactReadOnly = XactReadOnly (characteristics x), parallelModeLevel = 0, chain = False\<rparr>"
  define y where "y = x\<lparr>currentSubTransactionId := ?c, stack := e # p # ps, trace := EvSubStart # trace x\<rparr>"
  have "?c \<noteq> 0" using assms(3) by (metis add_diff_cancel_right' diff_0)
  then have "BeginInternalSubTransaction name x = Inr y"
    using assms unfolding BeginInternalSubTransaction_def
    by (auto simp: y_def e_def IsInParallelMode_def PushTransaction_def InvalidSubTransactionId_def cur_def
      CommitTransactionCommand_def StartTransactionCommand_def StartSubTransaction_def log_event_def set_block_def
      upd_cur_def Let_def)
  then show ?thesis
    using assms(1) by (intro that [of y]) (simp_all add: y_def e_def fresh_on_def cur_def)
qed

lemma internal_ends:
  assumes "stack y = e # p # ps" "blockState e = TBLOCK_SUBINPROGRESS" "parallelModeLevel e = 0"
  obtains v w where "ReleaseCurrentSubTransaction y = Inr v" "stack v = p # ps"
    "characteristics v = (characteristics y)\<lparr>XactReadOnly := prevXactReadOnly e\<rparr>"
    "RollbackAndReleaseCurrentSubTransaction y = Inr w" "stack w = p # ps"
    "characteristics w = (characteristics y)\<lparr>XactReadOnly := prevXactReadOnly e\<rparr>"
proof -
  obtain v where "ReleaseCurrentSubTransaction y = Inr v" "stack v = p # ps"
      "characteristics v = (characteristics y)\<lparr>XactReadOnly := prevXactReadOnly e\<rparr>"
    using assms by (simp add: ReleaseCurrentSubTransaction_def IsInParallelMode_def cur_def commit_innermost [OF assms(1)])
  moreover obtain w where "RollbackAndReleaseCurrentSubTransaction y = Inr w" "stack w = p # ps"
      "characteristics w = (characteristics y)\<lparr>XactReadOnly := prevXactReadOnly e\<rparr>"
    using assms by (simp add: RollbackAndReleaseCurrentSubTransaction_def low_level_defs)
  ultimately show ?thesis by (rule that)
qed

section \<open>Example sessions\<close>

definition example_chars :: XactChars where
  "example_chars = \<lparr>XactIsoLevel = 1, XactReadOnly = False, XactDeferrable = False\<rparr>"

text \<open>A block just opened, the same block with a savepoint, and with that savepoint's subtransaction failed.\<close>

definition example_block :: XactState where
  "example_block = (initial_state example_chars)\<lparr>currentSubTransactionId := 1, stack :=
     [TopTransactionStateData\<lparr>state := TRANS_INPROGRESS, blockState := TBLOCK_INPROGRESS, nestingLevel := 1,
       subTransactionId := 1\<rparr>]\<rparr>"

definition example_savepoint :: "TBlockState \<Rightarrow> XactState" where
  "example_savepoint b = example_block\<lparr>currentSubTransactionId := 2, stack :=
     \<lparr>subTransactionId = 2, xname = Some ''a'', savepointLevel = 0, state = trans_of b, blockState = b,
       nestingLevel = 2, prevXactReadOnly = False, parallelModeLevel = 0, chain = False\<rparr> # stack example_block\<rparr>"

lemmas example_defs = example_chars_def example_block_def example_savepoint_def initial_state_def
  TopTransactionStateData_def

lemma example_running:
  "in_statement example_block" "live (blocks example_block)"
  "in_statement (example_savepoint TBLOCK_SUBINPROGRESS)" "in_statement (example_savepoint TBLOCK_SUBABORT)"
  by (simp_all add: in_statement_def xact_wf_def blocks_def cur_def entry_ok_def example_defs)

lemma example_failed: "IsAbortedTransactionBlockState (example_savepoint TBLOCK_SUBABORT)"
  by (simp add: IsAbortedTransactionBlockState_def cur_def example_savepoint_def)

lemma initial_idle: "idle (initial_state dfl)"
  by (simp add: idle_def xact_wf_def blocks_def cur_def entry_ok_def lone_states_def initial_state_def
    TopTransactionStateData_def)

lemma active_commit: "active x \<Longrightarrow> no_fatal idle (CommitTransactionCommand x)"
  by (simp add: active_def CommitTransactionCommand_no_fatal)

section \<open>Properties\<close>

lemma mark_rollback_length: "mark_rollback t stk = Some stk' \<Longrightarrow> length stk' = length stk"
  by (induction t stk arbitrary: stk' rule: mark_rollback.induct) (auto split: option.splits)

lemma savepoint_target_name: "savepoint_target name x = Inr t \<Longrightarrow> xname (stack x ! t) = Some name"
proof -
  have "find_savepoint name stk = Some t \<Longrightarrow> xname (stk ! t) = Some name" for stk
    by (induction stk arbitrary: t) (auto split: if_splits)
  then show "savepoint_target name x = Inr t \<Longrightarrow> xname (stack x ! t) = Some name"
    by (auto simp: savepoint_target_def split: option.splits if_splits)
qed

lemma live_drop: "live bs \<Longrightarrow> t < length bs \<Longrightarrow> live (drop t bs)"
proof (induction t arbitrary: bs)
  case (Suc t)
  then show ?case by (cases bs rule: remdups_adj.cases) auto
qed simp

lemma fresh_on_live: "fresh_on name c stk z \<Longrightarrow> live (map blockState stk) \<Longrightarrow> live (blocks z)"
  by (cases "stack z"; cases stk) (auto simp: fresh_on_def blocks_def cur_def)

text \<open>
  C9: In every state a session can reach, the stack of transaction states is well formed, an error can
  always be handled (\<open>AbortCurrentTransaction\<close> returns and leaves a state that waits for the next
  command), a command can always be started, and neither a transaction control statement nor the
  \<open>CommitTransactionCommand\<close> after it runs into one of the FATAL "unexpected state" reports.
\<close>
theorem xact_session_safe:
  assumes "rtranclp session_step (Waiting, initial_state dfl) (ph, x)"
  shows "xact_wf x \<and> returns idle (AbortCurrentTransaction x) \<and>
    (case ph of Waiting \<Rightarrow> returns in_statement (StartTransactionCommand x)
     | Running \<Rightarrow> (\<forall>stmt. no_fatal (\<lambda>(tag, y). active y) (exec_transaction_stmt stmt x))
     | Finishing \<Rightarrow> no_fatal idle (CommitTransactionCommand x)
     | Failing \<Rightarrow> returns active (end_one_level x))"
proof -
  have "phase_inv (Waiting, initial_state dfl)" by (simp add: initial_idle)
  with assms have inv: "phase_inv (ph, x)"
    by (induction rule: rtranclp_induct) (blast intro: session_step_inv)+
  then show ?thesis
    using AbortCurrentTransaction_returns [OF phase_inv_wf [OF inv]] phase_inv_wf [OF inv]
      StartTransactionCommand_returns exec_transaction_stmt_no_fatal active_commit end_one_level_active
    by (cases ph) auto
qed

theorem xact_session_safe_witness:
  "\<exists>x. session_step (Waiting, initial_state example_chars) (Running, x) \<and> xact_wf x \<and>
     no_fatal (\<lambda>(tag, y). active y) (exec_transaction_stmt (TRANS_STMT_ROLLBACK_TO ''a'') x)"
proof -
  obtain x where "session_step (Waiting, initial_state example_chars) (Running, x)"
    using StartTransactionCommand_returns [OF initial_idle, of example_chars]
    by (cases "StartTransactionCommand (initial_state example_chars)") (auto intro: session_step.start)
  with xact_session_safe [of example_chars Running x] show ?thesis by auto
qed



text \<open>
  C32: COMMIT in a healthy block is accepted, and the command that ends it subcommits every open
  subtransaction, innermost first, commits the transaction exactly once and leaves the block; with AND
  CHAIN a new block is started with the characteristics of the one just committed.
\<close>
theorem commit_block_effect:
  assumes "in_statement x" "live (blocks x)"
  shows "\<exists>y z. exec_transaction_stmt (TRANS_STMT_COMMIT chn) x = Inr (False, y) \<and> CommitTransactionCommand y = Inr z \<and>
    trace z = (if chn then [EvStart] else []) @ EvCommit # replicate (length (stack x) - 1) EvSubCommit @ trace x \<and>
    blocks z = [if chn then TBLOCK_INPROGRESS else TBLOCK_DEFAULT] \<and>
    (chn \<longrightarrow> characteristics z = characteristics x)"
proof -
  obtain y where y: "EndTransactionBlock chn x = Inr (True, y)" "returns (committed chn x) (CommitTransactionCommand y)"
    by (rule commit_live_block [OF assms])
  then obtain z where "CommitTransactionCommand y = Inr z" "committed chn x z"
    by (cases "CommitTransactionCommand y") auto
  with y(1) show ?thesis
    by (simp add: exec_transaction_stmt_def ProcessTransactionStmt_def failed_tag_def committed_def)
qed

theorem commit_block_effect_witness:
  "in_statement (example_savepoint TBLOCK_SUBINPROGRESS) \<and>
   (\<exists>y z. exec_transaction_stmt (TRANS_STMT_COMMIT True) (example_savepoint TBLOCK_SUBINPROGRESS) = Inr (False, y) \<and>
     CommitTransactionCommand y = Inr z \<and> trace z = [EvStart, EvCommit, EvSubCommit])"
  using commit_block_effect [of "example_savepoint TBLOCK_SUBINPROGRESS" True] example_running(3)
  by (auto simp: blocks_def example_defs)

text \<open>
  SAVEPOINT followed by RELEASE of the same name restores the stack of transactions exactly, whatever
  the characteristics were set to in between; of those only the read-only flag goes back to its value
  before the savepoint.  In between, the savepoint is a fresh running subtransaction.
\<close>
lemma savepoint_release_roundtrip:
  assumes "in_statement x" "live (blocks x)" "currentSubTransactionId x \<noteq> - 1"
  shows "\<exists>y z w v. exec_transaction_stmt (TRANS_STMT_SAVEPOINT name) x = Inr (False, y) \<and>
    CommitTransactionCommand y = Inr z \<and> fresh_on (Some name) (currentSubTransactionId x) (stack x) z \<and>
    exec_transaction_stmt (TRANS_STMT_RELEASE name) (z\<lparr>characteristics := c\<rparr>) = Inr (False, w) \<and>
    CommitTransactionCommand w = Inr v \<and> stack v = stack x \<and>
    characteristics v = c\<lparr>XactReadOnly := XactReadOnly (characteristics x)\<rparr>"
proof -
  obtain y z where z: "DefineSavepoint (Some name) x = Inr y" "CommitTransactionCommand y = Inr z"
      "fresh_on (Some name) (currentSubTransactionId x) (stack x) z" "prevXactReadOnly (cur z) = XactReadOnly (characteristics x)"
      "parallelModeLevel (cur z) = 0" "savepointLevel (cur z) = 0" "in_statement z"
    by (rule savepoint_defined [OF assms])
  obtain e where e: "stack z = e # stack x" "cur z = e"
    using z(3) by (cases "stack z") (auto simp: fresh_on_def cur_def)
  let ?z = "z\<lparr>characteristics := c\<rparr>"
  obtain w v where v: "ReleaseSavepoint name ?z = Inr w" "CommitTransactionCommand w = Inr v" "stack v = stack x"
      "characteristics v = (characteristics ?z)\<lparr>XactReadOnly := prevXactReadOnly e\<rparr>"
    by (rule release_innermost [of ?z e "stack x" name])
      (use e z(3,5) assms(2) in \<open>simp_all add: fresh_on_def blocks_def\<close>)
  have x: "\<not> IsAbortedTransactionBlockState x" "blockState (cur x) \<noteq> TBLOCK_STARTED"
    using assms(2) by (cases "stack x" rule: remdups_adj.cases;
      auto simp: IsAbortedTransactionBlockState_def blocks_def cur_def)+
  have "blockState (cur ?z) = TBLOCK_SUBINPROGRESS" using z(3) e by (simp add: fresh_on_def cur_def)
  then have "\<not> IsAbortedTransactionBlockState ?z" "RequireTransactionBlock True ?z = Inr ?z"
    using require_block [of ?z] z(7) by (simp_all add: IsAbortedTransactionBlockState_def)
  then show ?thesis
    using x z v e require_block [OF assms(1)]
    by (simp add: exec_transaction_stmt_def ProcessTransactionStmt_def keep_tag_def)
qed



text \<open>
  C34: \<open>AbortOutOfAnyTransaction\<close>, the last resort at the end of a backend, returns from every state a
  session can be in, and leaves the top-level transaction idle with no subtransaction around it.
\<close>
theorem AbortOutOfAnyTransaction_idle:
  assumes "rtranclp session_step (Waiting, initial_state dfl) (ph, x)"
  shows "\<exists>y. AbortOutOfAnyTransaction x = Inr y \<and> blocks y = [TBLOCK_DEFAULT] \<and>
    state (cur y) = TRANS_DEFAULT \<and> nestingLevel (cur y) = 0"
proof -
  have "phase_inv (Waiting, initial_state dfl)" by (simp add: initial_idle)
  with assms have inv: "phase_inv (ph, x)"
    by (induction rule: rtranclp_induct) (blast intro: session_step_inv)+
  obtain y where y: "AbortOutOfAnyTransaction x = Inr y" "xact_wf y" "tl (stack y) = []" "blockState (cur y) = TBLOCK_DEFAULT"
    using abort_out_loop_returns [OF phase_inv_wf [OF inv] order_refl] unfolding AbortOutOfAnyTransaction_def
    by (cases "abort_out_loop (length (stack x)) x") auto
  then show ?thesis
    by (cases "stack y") (auto simp: xact_wf_def blocks_def cur_def entry_ok_def)
qed

theorem AbortOutOfAnyTransaction_idle_witness:
  "\<exists>y. AbortOutOfAnyTransaction (initial_state example_chars) = Inr y \<and> blocks y = [TBLOCK_DEFAULT]"
  using AbortOutOfAnyTransaction_idle [of example_chars Waiting "initial_state example_chars"] by auto



end
