(* ===== verification/XactXids.thy ===== *)
theory XactXids
  imports Transam
begin

text \<open>
  The transaction ids of the current transaction, from \<^verbatim>\<open>src/src/backend/access/transam/xact.c\<close>: each
  entry of the transaction-state stack has its own id, if one has been assigned, and the ids of its
  subcommitted children in ascending order.  \<open>TransactionIdIsCurrentTransactionId\<close> searches them by
  bisection.
\<close>

section \<open>The stack\<close>

text \<open>\<open>xs_abort\<close> says whether the entry's \<^verbatim>\<open>state\<close> is \<^verbatim>\<open>TRANS_ABORT\<close>; the head of the list is the innermost transaction.\<close>

record XactXids =
  fullTransactionId :: FullTransactionId
  childXids :: "TransactionId list"
  xs_abort :: bool

definition InvalidFullTransactionId :: FullTransactionId where
  "InvalidFullTransactionId = FullTransactionIdFromEpochAndXid 0 InvalidTransactionId"

definition xs_xid :: "XactXids \<Rightarrow> TransactionId" where
  "xs_xid s = XidFromFullTransactionId (fullTransactionId s)"

text \<open>The bisection over \<^verbatim>\<open>array[low..high]\<close>, for the two orders the code uses.\<close>

function xid_search :: "(TransactionId \<Rightarrow> TransactionId \<Rightarrow> bool) \<Rightarrow> TransactionId \<Rightarrow> TransactionId list \<Rightarrow> int \<Rightarrow> int \<Rightarrow> bool" where
  "xid_search prec xid xs low high =
     (if low \<le> high then
        let middle = low + (high - low) div 2;
            probe = xs ! nat middle
        in if probe = xid then True
           else if prec probe xid then xid_search prec xid xs (middle + 1) high
           else xid_search prec xid xs low (middle - 1)
      else False)"
  by pat_completeness auto
termination
  by (relation "measure (\<lambda>(prec, xid, xs, low, high). nat (high + 1 - low))") auto

declare xid_search.simps [simp del]

fun current_in_stack :: "TransactionId \<Rightarrow> XactXids list \<Rightarrow> bool" where
  "current_in_stack xid [] = False"
| "current_in_stack xid (s # parents) =
     (if xs_abort s then current_in_stack xid parents
      else if \<not> FullTransactionIdIsValid (fullTransactionId s) then current_in_stack xid parents
      else if xid = xs_xid s then True
      else if xid_search TransactionIdPrecedes xid (childXids s) 0 (int (length (childXids s)) - 1) then True
      else current_in_stack xid parents)"

definition TransactionIdIsCurrentTransactionId ::
    "FullTransactionId \<Rightarrow> TransactionId list \<Rightarrow> XactXids list \<Rightarrow> TransactionId \<Rightarrow> bool" where
  "TransactionIdIsCurrentTransactionId XactTopFullTransactionId ParallelCurrentXids stack xid =
     (if \<not> TransactionIdIsNormal xid then False
      else if xid = XidFromFullTransactionId XactTopFullTransactionId then True
      else if ParallelCurrentXids \<noteq> []
      then xid_search (<) xid ParallelCurrentXids 0 (int (length ParallelCurrentXids) - 1)
      else current_in_stack xid stack)"

section \<open>Subtransaction end\<close>

text \<open>\<^verbatim>\<open>MaxAllocSize / sizeof(TransactionId)\<close> bounds the number of children.\<close>

definition MaxChildXids :: nat where "MaxChildXids = 0x3fffffff div 4"

datatype childxids_error = TooManyCommittedSubtransactions | NoParentTransaction

text \<open>Growing the array first: the size is doubled, up to the limit, when \<^verbatim>\<open>maxChildXids\<close> is exceeded.\<close>

fun AtSubCommit_childXids :: "XactXids list \<Rightarrow> childxids_error + XactXids list" where
  "AtSubCommit_childXids (s # parent # rest) =
     (if MaxChildXids < length (childXids parent) + length (childXids s) + 1
      then Inl TooManyCommittedSubtransactions
      else Inr (s\<lparr>childXids := []\<rparr> #
                parent\<lparr>childXids := childXids parent @ xs_xid s # childXids s\<rparr> # rest))"
| "AtSubCommit_childXids _ = Inl NoParentTransaction"

fun AtSubAbort_childXids :: "XactXids list \<Rightarrow> XactXids list" where
  "AtSubAbort_childXids (s # rest) = s\<lparr>childXids := []\<rparr> # rest"
| "AtSubAbort_childXids [] = []"

definition xactGetCommittedChildren :: "XactXids list \<Rightarrow> TransactionId list" where
  "xactGetCommittedChildren stack = (case stack of [] \<Rightarrow> [] | s # _ \<Rightarrow> childXids s)"

section \<open>The search\<close>

lemma xid_search_iff:
  assumes "sorted_wrt prec xs" "\<forall>x\<in>set (xid # xs). \<forall>y\<in>set (xid # xs). prec x y \<longrightarrow> \<not> prec y x"
    and "0 \<le> low" "high < int (length xs)"
  shows "xid_search prec xid xs low high \<longleftrightarrow> (\<exists>k. low \<le> int k \<and> int k \<le> high \<and> xs ! k = xid)"
  using assms
proof (induction prec xid xs low high rule: xid_search.induct)
  case (1 prec xid xs low high)
  show ?case
  proof (cases "low \<le> high")
    case False
    then show ?thesis by (auto simp: xid_search.simps)
  next
    case True
    define m where "m = low + (high - low) div 2"
    have m: "low \<le> m" "m \<le> high" "int (nat m) = m" using True 1(5) by (auto simp: m_def)
    have len: "nat m < length xs" using m 1(6) by linarith
    have at: "xs ! nat m \<in> set xs" using len by simp
    have mono: "prec (xs ! i) (xs ! j)" if "i < j" "j < length xs" for i j
      using 1(3) that by (simp add: sorted_wrt_iff_nth_less)
    have anti: "prec x y \<longrightarrow> \<not> prec y x" if "x \<in> set (xid # xs)" "y \<in> set (xid # xs)" for x y
      using 1(4) that by blast
    show ?thesis
    proof (cases "xs ! nat m = xid")
      case eq: True
      then show ?thesis using True m by (subst xid_search.simps) (auto simp: Let_def m_def [symmetric] intro!: exI [of _ "nat m"])
    next
      case ne: False
      show ?thesis
      proof (cases "prec (xs ! nat m) xid")
        case prec: True
        have "m < int k" if "xs ! k = xid" "low \<le> int k" "int k \<le> high" for k
          using that prec ne mono [of k "nat m"] anti [of xid "xs ! nat m"] at len m 1(6)
          by (cases k "nat m" rule: linorder_cases) auto
        then have "low \<le> int k \<and> int k \<le> high \<and> xs ! k = xid \<longleftrightarrow> m + 1 \<le> int k \<and> int k \<le> high \<and> xs ! k = xid" for k
          using m by (cases "xs ! k = xid") (auto simp: add1_zle_eq)
        moreover have "xid_search prec xid xs low high = xid_search prec xid xs (m + 1) high"
          using True ne prec by (subst xid_search.simps) (simp add: Let_def m_def [symmetric])
        ultimately show ?thesis using "1.IH"(1) [OF True m_def refl ne prec 1(3,4)] m 1(5,6) by simp
      next
        case nless: False
        have "int k < m" if "xs ! k = xid" "low \<le> int k" "int k \<le> high" for k
          using that nless ne mono [of "nat m" k] len m 1(6)
          by (cases k "nat m" rule: linorder_cases) auto
        then have "low \<le> int k \<and> int k \<le> high \<and> xs ! k = xid \<longleftrightarrow> low \<le> int k \<and> int k \<le> m - 1 \<and> xs ! k = xid" for k
          using m by (cases "xs ! k = xid") auto
        moreover have "xid_search prec xid xs low high = xid_search prec xid xs low (m - 1)"
          using True ne nless by (subst xid_search.simps) (simp add: Let_def m_def [symmetric])
        ultimately show ?thesis using "1.IH"(2) [OF True m_def refl ne nless 1(3,4)] m 1(5,6) by simp
      qed
    qed
  qed
qed

lemma xid_search_all:
  assumes "sorted_wrt prec xs" "\<forall>x\<in>set (xid # xs). \<forall>y\<in>set (xid # xs). prec x y \<longrightarrow> \<not> prec y x"
  shows "xid_search prec xid xs 0 (int (length xs) - 1) \<longleftrightarrow> xid \<in> set xs"
proof -
  have "xid_search prec xid xs 0 (int (length xs) - 1) \<longleftrightarrow> (\<exists>k. 0 \<le> int k \<and> int k \<le> int (length xs) - 1 \<and> xs ! k = xid)"
    by (rule xid_search_iff [OF assms]) simp_all
  also have "\<dots> \<longleftrightarrow> xid \<in> set xs" by (auto simp: in_set_conv_nth)
  finally show ?thesis .
qed

end
