(* ===== verification/ProcArray.thy ===== *)
theory ProcArray
  imports XidLookup XactXids
begin

text \<open>
  The shared array of running transactions of \<^verbatim>\<open>src/src/backend/storage/ipc/procarray.c\<close>, transaction-id
  allocation of \<^verbatim>\<open>varsup.c\<close>, and snapshots: \<open>GetSnapshotData\<close> and the test \<open>XidInMVCCSnapshot\<close> of
  \<^verbatim>\<open>snapmgr.c\<close>.  The state of shared memory is one record; each operation is the code between taking
  and releasing its lock.  The dense arrays \<^verbatim>\<open>ProcGlobal->xids\<close>, \<^verbatim>\<open>subxidStates\<close> and \<^verbatim>\<open>statusFlags\<close>
  mirror fields of the \<^verbatim>\<open>PGPROC\<close> entries and are identified with them.
\<close>

section \<open>Shared memory and backend-local state\<close>

type_synonym Oid = uint32
type_synonym CommandId = uint32

definition InvalidOid :: Oid where "InvalidOid = 0"

definition PGPROC_MAX_CACHED_SUBXIDS :: nat where "PGPROC_MAX_CACHED_SUBXIDS = 64"
definition PROC_IN_VACUUM :: uint8 where "PROC_IN_VACUUM = 0x02"
definition PROC_IN_SAFE_IC :: uint8 where "PROC_IN_SAFE_IC = 0x04"
definition PROC_VACUUM_FOR_WRAPAROUND :: uint8 where "PROC_VACUUM_FOR_WRAPAROUND = 0x08"
definition PROC_IN_LOGICAL_DECODING :: uint8 where "PROC_IN_LOGICAL_DECODING = 0x10"
definition PROC_AFFECTS_ALL_HORIZONS :: uint8 where "PROC_AFFECTS_ALL_HORIZONS = 0x20"
definition PROC_VACUUM_STATE_MASK :: uint8 where
  "PROC_VACUUM_STATE_MASK = PROC_IN_VACUUM OR PROC_IN_SAFE_IC OR PROC_VACUUM_FOR_WRAPAROUND"

text \<open>\<open>proc_subxids\<close> is the array \<^verbatim>\<open>subxids.xids\<close> cut to \<^verbatim>\<open>subxidStatus.count\<close> entries.\<close>

record PGPROC =
  proc_xid :: TransactionId
  proc_subxids :: "TransactionId list"
  proc_overflowed :: bool
  proc_xmin :: TransactionId
  proc_statusFlags :: uint8
  proc_databaseId :: Oid
  proc_pid :: nat

text \<open>
  \<^verbatim>\<open>VariableCacheData\<close> and \<^verbatim>\<open>ProcArrayStruct\<close>, with the commit log and the parent links.
  \<open>KnownAssignedXids\<close> holds the entries from tail to head, each with its \<^verbatim>\<open>KnownAssignedXidsValid\<close> flag.
\<close>

record ShmemState =
  nextXid :: FullTransactionId
  oldestXid :: TransactionId
  xidVacLimit :: TransactionId
  xidWarnLimit :: TransactionId
  xidStopLimit :: TransactionId
  xidWrapLimit :: TransactionId
  latestCompletedXid :: FullTransactionId
  xactCompletionCount :: uint64
  procArray :: "PGPROC list"
  replication_slot_xmin :: TransactionId
  replication_slot_catalog_xmin :: TransactionId
  RecoveryInProgress :: bool
  KnownAssignedXids :: "(TransactionId \<times> bool) list"
  lastOverflowedXid :: TransactionId
  shm_clog :: clog
  shm_subtrans :: subtrans

record GlobalVisState =
  definitely_needed :: FullTransactionId
  maybe_needed :: FullTransactionId

record BackendState =
  pgxactoff :: nat
  MyDatabaseId :: Oid
  be_TransactionXmin :: TransactionId
  RecentXmin :: TransactionId
  cachedXidIsNotInProgress :: TransactionId
  be_fetch_cache :: "TransactionId \<times> XidStatus \<times> XLogRecPtr"
  currentCommandId :: CommandId
  XactTopFullTransactionId :: FullTransactionId
  ParallelCurrentXids :: "TransactionId list"
  xact_stack :: "XactXids list"
  GlobalVisSharedRels :: GlobalVisState
  GlobalVisCatalogRels :: GlobalVisState
  GlobalVisDataRels :: GlobalVisState
  GlobalVisTempRels :: GlobalVisState
  ComputeXidHorizonsResultLastXmin :: TransactionId

definition MyProc :: "BackendState \<Rightarrow> ShmemState \<Rightarrow> PGPROC" where
  "MyProc be shm = procArray shm ! pgxactoff be"

definition set_proc :: "nat \<Rightarrow> PGPROC \<Rightarrow> ShmemState \<Rightarrow> ShmemState" where
  "set_proc i p shm = shm\<lparr>procArray := (procArray shm)[i := p]\<rparr>"

text \<open>What the lookups of \<open>XidLookup\<close> read: shared logs and this backend's cache.\<close>

definition status_state :: "BackendState \<Rightarrow> ShmemState \<Rightarrow> StatusState" where
  "status_state be shm =
     \<lparr>st_clog = shm_clog shm, st_subtrans = shm_subtrans shm, TransactionXmin = be_TransactionXmin be,
      cachedFetchXid = fst (be_fetch_cache be), cachedFetchXidStatus = fst (snd (be_fetch_cache be)),
      cachedCommitLSN = snd (snd (be_fetch_cache be))\<rparr>"

definition keep_cache :: "StatusState \<Rightarrow> BackendState \<Rightarrow> BackendState" where
  "keep_cache s be = be\<lparr>be_fetch_cache := (cachedFetchXid s, cachedFetchXidStatus s, cachedCommitLSN s)\<rparr>"

section \<open>Allocating transaction ids\<close>

definition zero_clog_page :: ClogPage where
  "zero_clog_page = \<lparr>page_buffer = replicate BLCKSZ 0, group_lsn = replicate CLOG_LSNS_PER_PAGE InvalidXLogRecPtr\<rparr>"

definition ZeroCLOGPage :: "nat \<Rightarrow> clog \<Rightarrow> clog" where
  "ZeroCLOGPage pageno log = log(pageno \<mapsto> zero_clog_page)"

definition ExtendCLOG :: "TransactionId \<Rightarrow> clog \<Rightarrow> clog" where
  "ExtendCLOG newestXact log =
     (if TransactionIdToPgIndex newestXact \<noteq> 0 \<and> newestXact \<noteq> FirstNormalTransactionId then log
      else ZeroCLOGPage (TransactionIdToPage newestXact) log)"

definition ZeroSUBTRANSPage :: "nat \<Rightarrow> subtrans \<Rightarrow> subtrans" where
  "ZeroSUBTRANSPage pageno st = st(pageno \<mapsto> replicate SUBTRANS_XACTS_PER_PAGE InvalidTransactionId)"

definition ExtendSUBTRANS :: "TransactionId \<Rightarrow> subtrans \<Rightarrow> subtrans" where
  "ExtendSUBTRANS newestXact st =
     (if SubTransToEntry newestXact \<noteq> 0 \<and> newestXact \<noteq> FirstNormalTransactionId then st
      else ZeroSUBTRANSPage (SubTransToPage newestXact) st)"

datatype varsup_error = AssignInParallelMode | AssignInRecovery | WraparoundStop TransactionId

text \<open>The process modes the allocation asks for.\<close>

record ProcessMode =
  InParallelMode :: bool
  IsBootstrapProcessingMode :: bool
  IsUnderPostmaster :: bool

definition GetNewTransactionId ::
    "ProcessMode \<Rightarrow> nat \<Rightarrow> bool \<Rightarrow> ShmemState \<Rightarrow> varsup_error + FullTransactionId \<times> ShmemState" where
  "GetNewTransactionId mode i isSubXact shm =
     (if InParallelMode mode then Inl AssignInParallelMode
      else if IsBootstrapProcessingMode mode then
        Inr (FullTransactionIdFromEpochAndXid 0 BootstrapTransactionId,
             set_proc i ((procArray shm ! i)\<lparr>proc_xid := BootstrapTransactionId\<rparr>) shm)
      else if RecoveryInProgress shm then Inl AssignInRecovery
      else
        let full_xid = nextXid shm;
            xid = XidFromFullTransactionId full_xid
        in if TransactionIdFollowsOrEquals xid (xidVacLimit shm) \<and> IsUnderPostmaster mode \<and>
              TransactionIdFollowsOrEquals xid (xidStopLimit shm)
           then Inl (WraparoundStop xid)
           else
             let shm = shm\<lparr>shm_clog := ExtendCLOG xid (shm_clog shm),
                           shm_subtrans := ExtendSUBTRANS xid (shm_subtrans shm),
                           nextXid := FullTransactionIdAdvance full_xid\<rparr>;
                 p = procArray shm ! i;
                 p = (if \<not> isSubXact then p\<lparr>proc_xid := xid\<rparr>
                      else if length (proc_subxids p) < PGPROC_MAX_CACHED_SUBXIDS
                      then p\<lparr>proc_subxids := proc_subxids p @ [xid]\<rparr>
                      else p\<lparr>proc_overflowed := True\<rparr>)
             in Inr (full_xid, set_proc i p shm))"

definition SetTransactionIdLimit :: "uint32 \<Rightarrow> TransactionId \<Rightarrow> ShmemState \<Rightarrow> ShmemState" where
  "SetTransactionIdLimit autovacuum_freeze_max_age oldest_datfrozenxid shm =
     (let wrap = oldest_datfrozenxid + drop_bit 1 MaxTransactionId;
          wrap = (if wrap < FirstNormalTransactionId then wrap + FirstNormalTransactionId else wrap);
          stop = wrap - 3000000;
          stop = (if stop < FirstNormalTransactionId then stop - FirstNormalTransactionId else stop);
          warn = wrap - 40000000;
          warn = (if warn < FirstNormalTransactionId then warn - FirstNormalTransactionId else warn);
          vac = oldest_datfrozenxid + autovacuum_freeze_max_age;
          vac = (if vac < FirstNormalTransactionId then vac + FirstNormalTransactionId else vac)
      in shm\<lparr>oldestXid := oldest_datfrozenxid, xidVacLimit := vac, xidWarnLimit := warn,
             xidStopLimit := stop, xidWrapLimit := wrap\<rparr>)"

definition AdvanceNextFullTransactionIdPastXid :: "TransactionId \<Rightarrow> ShmemState \<Rightarrow> ShmemState" where
  "AdvanceNextFullTransactionIdPastXid xid shm =
     (let next_xid = XidFromFullTransactionId (nextXid shm)
      in if \<not> TransactionIdFollowsOrEquals xid next_xid then shm
         else
           let xid = TransactionIdAdvance xid;
               epoch = EpochFromFullTransactionId (nextXid shm);
               epoch = (if xid < next_xid then epoch + 1 else epoch)
           in shm\<lparr>nextXid := FullTransactionIdFromEpochAndXid epoch xid\<rparr>)"

section \<open>Ending transactions\<close>

definition FullXidRelativeTo :: "FullTransactionId \<Rightarrow> TransactionId \<Rightarrow> FullTransactionId" where
  "FullXidRelativeTo rel xid =
     (let rel_xid = XidFromFullTransactionId rel
      in FullTransactionIdFromU64 (fxid_value rel + scast (xid - rel_xid)))"

definition MaintainLatestCompletedXid :: "TransactionId \<Rightarrow> ShmemState \<Rightarrow> ShmemState" where
  "MaintainLatestCompletedXid latestXid shm =
     (let cur_latest = latestCompletedXid shm
      in if TransactionIdPrecedes (XidFromFullTransactionId cur_latest) latestXid
         then shm\<lparr>latestCompletedXid := FullXidRelativeTo cur_latest latestXid\<rparr>
         else shm)"

definition clear_vacuum_flags :: "PGPROC \<Rightarrow> PGPROC" where
  "clear_vacuum_flags p =
     (if proc_statusFlags p AND PROC_VACUUM_STATE_MASK \<noteq> 0
      then p\<lparr>proc_statusFlags := proc_statusFlags p AND NOT PROC_VACUUM_STATE_MASK\<rparr> else p)"

definition ProcArrayEndTransactionInternal :: "nat \<Rightarrow> TransactionId \<Rightarrow> ShmemState \<Rightarrow> ShmemState" where
  "ProcArrayEndTransactionInternal i latestXid shm =
     (let p = procArray shm ! i;
          p = p\<lparr>proc_xid := InvalidTransactionId, proc_xmin := InvalidTransactionId\<rparr>;
          p = clear_vacuum_flags p;
          p = (if proc_subxids p \<noteq> [] \<or> proc_overflowed p
               then p\<lparr>proc_subxids := [], proc_overflowed := False\<rparr> else p);
          shm = MaintainLatestCompletedXid latestXid (set_proc i p shm)
      in shm\<lparr>xactCompletionCount := xactCompletionCount shm + 1\<rparr>)"

text \<open>
  The group clearing of \<^verbatim>\<open>ProcArrayGroupClearXid\<close>, taken when the lock is busy, has the leader of the
  group run \<^verbatim>\<open>ProcArrayEndTransactionInternal\<close> for this backend.
\<close>

definition ProcArrayEndTransaction :: "nat \<Rightarrow> TransactionId \<Rightarrow> ShmemState \<Rightarrow> ShmemState" where
  "ProcArrayEndTransaction i latestXid shm =
     (if TransactionIdIsValid latestXid then ProcArrayEndTransactionInternal i latestXid shm
      else set_proc i (clear_vacuum_flags ((procArray shm ! i)\<lparr>proc_xmin := InvalidTransactionId\<rparr>)) shm)"

text \<open>
  Removing one id from the cache: the last entry is moved into the place of its last occurrence.
\<close>

fun last_index :: "'a \<Rightarrow> 'a list \<Rightarrow> nat option" where
  "last_index x [] = None"
| "last_index x (y # ys) =
     (case last_index x ys of Some j \<Rightarrow> Some (Suc j) | None \<Rightarrow> if y = x then Some 0 else None)"

definition remove_subxid :: "TransactionId \<Rightarrow> TransactionId list \<Rightarrow> TransactionId list" where
  "remove_subxid anxid xs =
     (case last_index anxid xs of
        None \<Rightarrow> xs
      | Some j \<Rightarrow> butlast (xs[j := last xs]))"

definition XidCacheRemoveRunningXids ::
    "nat \<Rightarrow> TransactionId \<Rightarrow> TransactionId list \<Rightarrow> TransactionId \<Rightarrow> ShmemState \<Rightarrow> ShmemState" where
  "XidCacheRemoveRunningXids i xid xids latestXid shm =
     (let p = procArray shm ! i;
          p = p\<lparr>proc_subxids := fold remove_subxid (rev xids) (proc_subxids p)\<rparr>;
          p = p\<lparr>proc_subxids := remove_subxid xid (proc_subxids p)\<rparr>;
          shm = MaintainLatestCompletedXid latestXid (set_proc i p shm)
      in shm\<lparr>xactCompletionCount := xactCompletionCount shm + 1\<rparr>)"

section \<open>Snapshots\<close>

record SnapshotData =
  snap_xmin :: TransactionId
  snap_xmax :: TransactionId
  snap_xip :: "TransactionId list"
  snap_subxip :: "TransactionId list"
  snap_suboverflowed :: bool
  snap_takenDuringRecovery :: bool
  snap_curcid :: CommandId
  snapXactCompletionCount :: uint64

text \<open>The loop of \<^verbatim>\<open>KnownAssignedXidsGetAndSetXmin\<close>: output so far, \<^verbatim>\<open>*xmin\<close>, remaining entries.\<close>

fun known_assigned_loop ::
    "TransactionId \<Rightarrow> TransactionId list \<Rightarrow> TransactionId \<Rightarrow> (TransactionId \<times> bool) list \<Rightarrow> TransactionId list \<times> TransactionId" where
  "known_assigned_loop xmax out xmin [] = (out, xmin)"
| "known_assigned_loop xmax out xmin ((knownXid, valid) # rest) =
     (if valid then
        let xmin = (if out = [] \<and> TransactionIdPrecedes knownXid xmin then knownXid else xmin)
        in if TransactionIdIsValid xmax \<and> TransactionIdFollowsOrEquals knownXid xmax then (out, xmin)
           else known_assigned_loop xmax (out @ [knownXid]) xmin rest
      else known_assigned_loop xmax out xmin rest)"

definition KnownAssignedXidsGetAndSetXmin ::
    "ShmemState \<Rightarrow> TransactionId \<Rightarrow> TransactionId \<Rightarrow> TransactionId list \<times> TransactionId" where
  "KnownAssignedXidsGetAndSetXmin shm xmin xmax = known_assigned_loop xmax [] xmin (KnownAssignedXids shm)"

definition KnownAssignedXidsGet :: "ShmemState \<Rightarrow> TransactionId \<Rightarrow> TransactionId list" where
  "KnownAssignedXidsGet shm xmax = fst (KnownAssignedXidsGetAndSetXmin shm InvalidTransactionId xmax)"

definition KnownAssignedXidsGetOldestXmin :: "ShmemState \<Rightarrow> TransactionId" where
  "KnownAssignedXidsGetOldestXmin shm =
     (case filter snd (KnownAssignedXids shm) of [] \<Rightarrow> InvalidTransactionId | (x, _) # _ \<Rightarrow> x)"

text \<open>One pass of the loop over the array, with what it accumulates.\<close>

record snapshot_scan =
  scan_xmin :: TransactionId
  scan_xip :: "TransactionId list"
  scan_subxip :: "TransactionId list"
  scan_suboverflowed :: bool

definition scan_proc :: "nat \<Rightarrow> TransactionId \<Rightarrow> nat \<times> PGPROC \<Rightarrow> snapshot_scan \<Rightarrow> snapshot_scan" where
  "scan_proc mypgxactoff xmax = (\<lambda>(off, p) sc.
     let xid = proc_xid p
     in if xid = InvalidTransactionId then sc
        else if off = mypgxactoff then sc
        else if \<not> NormalTransactionIdPrecedes xid xmax then sc
        else if proc_statusFlags p AND (PROC_IN_LOGICAL_DECODING OR PROC_IN_VACUUM) \<noteq> 0 then sc
        else
          let sc = (if NormalTransactionIdPrecedes xid (scan_xmin sc) then sc\<lparr>scan_xmin := xid\<rparr> else sc);
              sc = sc\<lparr>scan_xip := scan_xip sc @ [xid]\<rparr>
          in if \<not> scan_suboverflowed sc then
               if proc_overflowed p then sc\<lparr>scan_suboverflowed := True\<rparr>
               else if 0 < length (proc_subxids p) then sc\<lparr>scan_subxip := scan_subxip sc @ proc_subxids p\<rparr>
               else sc
             else sc)"

definition GetSnapshotDataReuse ::
    "SnapshotData \<Rightarrow> BackendState \<Rightarrow> ShmemState \<Rightarrow> (SnapshotData \<times> BackendState \<times> ShmemState) option" where
  "GetSnapshotDataReuse snapshot be shm =
     (if snapXactCompletionCount snapshot = 0 then None
      else if xactCompletionCount shm \<noteq> snapXactCompletionCount snapshot then None
      else
        let (be, shm) =
              (if \<not> TransactionIdIsValid (proc_xmin (MyProc be shm))
               then (be\<lparr>be_TransactionXmin := snap_xmin snapshot\<rparr>,
                     set_proc (pgxactoff be) ((MyProc be shm)\<lparr>proc_xmin := snap_xmin snapshot\<rparr>) shm)
               else (be, shm));
            be = be\<lparr>RecentXmin := snap_xmin snapshot\<rparr>;
            snapshot = snapshot\<lparr>snap_curcid := currentCommandId be\<rparr>
        in Some (snapshot, be, shm))"

text \<open>The block of \<^verbatim>\<open>GetSnapshotData\<close> that maintains the approximate removal horizons.\<close>

definition snapshot_global_vis ::
    "FullTransactionId \<Rightarrow> TransactionId \<Rightarrow> TransactionId \<Rightarrow> TransactionId \<Rightarrow> ShmemState \<Rightarrow> BackendState \<Rightarrow> BackendState" where
  "snapshot_global_vis latest_completed xmin myxid oldestxid shm be =
     (let oldestfxid = FullXidRelativeTo latest_completed oldestxid;
          def_vis_xid_data = TransactionIdOlder xmin (replication_slot_xmin shm);
          def_vis_xid = TransactionIdOlder (replication_slot_catalog_xmin shm) def_vis_xid_data;
          def_vis_fxid = FullXidRelativeTo latest_completed def_vis_xid;
          def_vis_fxid_data = FullXidRelativeTo latest_completed def_vis_xid_data;
          update = (\<lambda>needed vis. vis\<lparr>definitely_needed := FullTransactionIdNewer needed (definitely_needed vis),
                                      maybe_needed := FullTransactionIdNewer (maybe_needed vis) oldestfxid\<rparr>);
          temp = (if TransactionIdIsNormal myxid then FullXidRelativeTo latest_completed myxid
                  else FullTransactionIdAdvance latest_completed)
      in be\<lparr>GlobalVisSharedRels := update def_vis_fxid (GlobalVisSharedRels be),
            GlobalVisCatalogRels := update def_vis_fxid (GlobalVisCatalogRels be),
            GlobalVisDataRels := update def_vis_fxid_data (GlobalVisDataRels be),
            GlobalVisTempRels := \<lparr>definitely_needed = temp, maybe_needed = temp\<rparr>\<rparr>)"

definition GetSnapshotData ::
    "SnapshotData \<Rightarrow> BackendState \<Rightarrow> ShmemState \<Rightarrow> SnapshotData \<times> BackendState \<times> ShmemState" where
  "GetSnapshotData snapshot be shm =
     (case GetSnapshotDataReuse snapshot be shm of
        Some r \<Rightarrow> r
      | None \<Rightarrow>
          let latest_completed = latestCompletedXid shm;
              mypgxactoff = pgxactoff be;
              myxid = proc_xid (procArray shm ! mypgxactoff);
              oldestxid = oldestXid shm;
              curXactCompletionCount = xactCompletionCount shm;
              xmax = TransactionIdAdvance (XidFromFullTransactionId latest_completed);
              xmin = (if TransactionIdIsNormal myxid \<and> NormalTransactionIdPrecedes myxid xmax then myxid else xmax);
              sc = (if \<not> RecoveryInProgress shm
                    then fold (scan_proc mypgxactoff xmax) (enumerate 0 (procArray shm))
                           \<lparr>scan_xmin = xmin, scan_xip = [], scan_subxip = [], scan_suboverflowed = False\<rparr>
                    else
                      let (subxip, xmin) = KnownAssignedXidsGetAndSetXmin shm xmin xmax
                      in \<lparr>scan_xmin = xmin, scan_xip = [], scan_subxip = subxip,
                          scan_suboverflowed = TransactionIdPrecedesOrEquals xmin (lastOverflowedXid shm)\<rparr>);
              xmin = scan_xmin sc;
              (be, shm) =
                (if \<not> TransactionIdIsValid (proc_xmin (MyProc be shm))
                 then (be\<lparr>be_TransactionXmin := xmin\<rparr>,
                       set_proc (pgxactoff be) ((MyProc be shm)\<lparr>proc_xmin := xmin\<rparr>) shm)
                 else (be, shm));
              be = snapshot_global_vis latest_completed xmin myxid oldestxid shm be;
              be = be\<lparr>RecentXmin := xmin\<rparr>
          in (\<lparr>snap_xmin = xmin, snap_xmax = xmax, snap_xip = scan_xip sc, snap_subxip = scan_subxip sc,
               snap_suboverflowed = scan_suboverflowed sc, snap_takenDuringRecovery = RecoveryInProgress shm,
               snap_curcid = currentCommandId be, snapXactCompletionCount = curXactCompletionCount\<rparr>, be, shm))"

text \<open>
  \<^verbatim>\<open>XidInMVCCSnapshot\<close>; the value is \<open>None\<close> or \<open>Some (Inl _)\<close> when the walk to the topmost transaction
  does not return or raises an error.
\<close>

definition XidInMVCCSnapshot ::
    "TransactionId \<Rightarrow> subtrans \<Rightarrow> TransactionId \<Rightarrow> SnapshotData \<Rightarrow> (subtrans_error + bool) option" where
  "XidInMVCCSnapshot xmin st xid snapshot =
     (if TransactionIdPrecedes xid (snap_xmin snapshot) then Some (Inr False)
      else if TransactionIdFollowsOrEquals xid (snap_xmax snapshot) then Some (Inr True)
      else if \<not> snap_takenDuringRecovery snapshot then
        if \<not> snap_suboverflowed snapshot then
          if xid \<in> set (snap_subxip snapshot) then Some (Inr True)
          else Some (Inr (xid \<in> set (snap_xip snapshot)))
        else case SubTransGetTopmostTransaction xmin st xid of
               None \<Rightarrow> None
             | Some (Inl e) \<Rightarrow> Some (Inl e)
             | Some (Inr xid) \<Rightarrow>
                 if TransactionIdPrecedes xid (snap_xmin snapshot) then Some (Inr False)
                 else Some (Inr (xid \<in> set (snap_xip snapshot)))
      else if snap_suboverflowed snapshot then
        case SubTransGetTopmostTransaction xmin st xid of
          None \<Rightarrow> None
        | Some (Inl e) \<Rightarrow> Some (Inl e)
        | Some (Inr xid) \<Rightarrow>
            if TransactionIdPrecedes xid (snap_xmin snapshot) then Some (Inr False)
            else Some (Inr (xid \<in> set (snap_subxip snapshot)))
      else Some (Inr (xid \<in> set (snap_subxip snapshot))))"

section \<open>Is a transaction running?\<close>

function known_search :: "TransactionId \<Rightarrow> (TransactionId \<times> bool) list \<Rightarrow> int \<Rightarrow> int \<Rightarrow> int option" where
  "known_search xid known first lst =
     (if first \<le> lst then
        let mid_index = (first + lst) div 2;
            mid_xid = fst (known ! nat mid_index)
        in if xid = mid_xid then Some mid_index
           else if TransactionIdPrecedes xid mid_xid then known_search xid known first (mid_index - 1)
           else known_search xid known (mid_index + 1) lst
      else None)"
  by pat_completeness auto
termination
  by (relation "measure (\<lambda>(xid, known, first, lst). nat (lst + 1 - first))") auto

declare known_search.simps [simp del]

definition KnownAssignedXidExists :: "ShmemState \<Rightarrow> TransactionId \<Rightarrow> bool" where
  "KnownAssignedXidExists shm xid =
     (case known_search xid (KnownAssignedXids shm) 0 (int (length (KnownAssignedXids shm)) - 1) of
        None \<Rightarrow> False
      | Some k \<Rightarrow> snd (KnownAssignedXids shm ! nat k))"

text \<open>
  The loop of \<^verbatim>\<open>TransactionIdIsInProgress\<close> over the array: \<open>None\<close> when it returns true from inside, or
  the main ids to remember for the last step.
\<close>

fun in_progress_scan :: "nat \<Rightarrow> TransactionId \<Rightarrow> TransactionId list \<Rightarrow> (nat \<times> PGPROC) list \<Rightarrow> TransactionId list option" where
  "in_progress_scan mypgxactoff xid xids [] = Some xids"
| "in_progress_scan mypgxactoff xid xids ((off, p) # rest) =
     (let pxid = proc_xid p
      in if off = mypgxactoff then in_progress_scan mypgxactoff xid xids rest
         else if \<not> TransactionIdIsValid pxid then in_progress_scan mypgxactoff xid xids rest
         else if pxid = xid then None
         else if TransactionIdPrecedes xid pxid then in_progress_scan mypgxactoff xid xids rest
         else if xid \<in> set (proc_subxids p) then None
         else if proc_overflowed p then in_progress_scan mypgxactoff xid (xids @ [pxid]) rest
         else in_progress_scan mypgxactoff xid xids rest)"

datatype lookup_error = StatusLookup clog_error | TopmostLookup subtrans_error

definition TransactionIdIsInProgress ::
    "TransactionId \<Rightarrow> BackendState \<Rightarrow> ShmemState \<Rightarrow> (lookup_error + bool \<times> BackendState) option" where
  "TransactionIdIsInProgress xid be shm =
     (if TransactionIdPrecedes xid (RecentXmin be) then Some (Inr (False, be))
      else if cachedXidIsNotInProgress be = xid then Some (Inr (False, be))
      else if TransactionIdIsCurrentTransactionId (XactTopFullTransactionId be) (ParallelCurrentXids be) (xact_stack be) xid
      then Some (Inr (True, be))
      else if TransactionIdPrecedes (XidFromFullTransactionId (latestCompletedXid shm)) xid then Some (Inr (True, be))
      else case in_progress_scan (pgxactoff be) xid [] (enumerate 0 (procArray shm)) of
             None \<Rightarrow> Some (Inr (True, be))
           | Some xids \<Rightarrow>
               if RecoveryInProgress shm \<and> KnownAssignedXidExists shm xid then Some (Inr (True, be))
               else
                 let xids = (if RecoveryInProgress shm \<and> TransactionIdPrecedesOrEquals xid (lastOverflowedXid shm)
                             then KnownAssignedXidsGet shm xid else xids)
                 in if xids = [] then Some (Inr (False, be\<lparr>cachedXidIsNotInProgress := xid\<rparr>))
                    else case TransactionIdDidAbort xid (status_state be shm) of
                           None \<Rightarrow> None
                         | Some (Inl e) \<Rightarrow> Some (Inl (StatusLookup e))
                         | Some (Inr (aborted, s)) \<Rightarrow>
                             let be = keep_cache s be
                             in if aborted then Some (Inr (False, be\<lparr>cachedXidIsNotInProgress := xid\<rparr>))
                                else case SubTransGetTopmostTransaction (be_TransactionXmin be) (shm_subtrans shm) xid of
                                       None \<Rightarrow> None
                                     | Some (Inl e) \<Rightarrow> Some (Inl (TopmostLookup e))
                                     | Some (Inr topxid) \<Rightarrow>
                                         if topxid \<noteq> xid \<and> topxid \<in> set xids then Some (Inr (True, be))
                                         else Some (Inr (False, be\<lparr>cachedXidIsNotInProgress := xid\<rparr>)))"

definition TransactionIdIsActive :: "TransactionId \<Rightarrow> BackendState \<Rightarrow> ShmemState \<Rightarrow> bool" where
  "TransactionIdIsActive xid be shm =
     (if TransactionIdPrecedes xid (RecentXmin be) then False
      else \<exists>p\<in>set (procArray shm). TransactionIdIsValid (proc_xid p) \<and> proc_pid p \<noteq> 0 \<and> proc_xid p = xid)"

definition GetOldestActiveTransactionId :: "ShmemState \<Rightarrow> TransactionId" where
  "GetOldestActiveTransactionId shm =
     fold (\<lambda>p oldest. if TransactionIdIsNormal (proc_xid p) \<and> TransactionIdPrecedes (proc_xid p) oldest
                      then proc_xid p else oldest)
       (procArray shm) (XidFromFullTransactionId (nextXid shm))"

section \<open>Removal horizons\<close>

record ComputeXidHorizonsResult =
  h_latest_completed :: FullTransactionId
  h_slot_xmin :: TransactionId
  h_slot_catalog_xmin :: TransactionId
  oldest_considered_running :: TransactionId
  shared_oldest_nonremovable :: TransactionId
  shared_oldest_nonremovable_raw :: TransactionId
  catalog_oldest_nonremovable :: TransactionId
  data_oldest_nonremovable :: TransactionId
  temp_oldest_nonremovable :: TransactionId

definition horizon_proc ::
    "BackendState \<Rightarrow> bool \<Rightarrow> PGPROC \<Rightarrow> ComputeXidHorizonsResult \<Rightarrow> ComputeXidHorizonsResult" where
  "horizon_proc be in_recovery p h =
     (let xmin = TransactionIdOlder (proc_xmin p) (proc_xid p)
      in if \<not> TransactionIdIsValid xmin then h
         else
           let h = h\<lparr>oldest_considered_running := TransactionIdOlder (oldest_considered_running h) xmin\<rparr>
           in if proc_statusFlags p AND (PROC_IN_VACUUM OR PROC_IN_LOGICAL_DECODING) \<noteq> 0 then h
              else
                let h = h\<lparr>shared_oldest_nonremovable := TransactionIdOlder (shared_oldest_nonremovable h) xmin\<rparr>
                in if proc_databaseId p = MyDatabaseId be \<or> MyDatabaseId be = InvalidOid \<or>
                      proc_statusFlags p AND PROC_AFFECTS_ALL_HORIZONS \<noteq> 0 \<or> in_recovery
                   then h\<lparr>data_oldest_nonremovable := TransactionIdOlder (data_oldest_nonremovable h) xmin\<rparr>
                   else h)"

definition GlobalVisUpdateApply :: "ComputeXidHorizonsResult \<Rightarrow> BackendState \<Rightarrow> BackendState" where
  "GlobalVisUpdateApply horizons be =
     (let rel = FullXidRelativeTo (h_latest_completed horizons);
          update = (\<lambda>xid vis. vis\<lparr>maybe_needed := rel xid,
                                   definitely_needed := FullTransactionIdNewer (rel xid) (definitely_needed vis)\<rparr>);
          temp = rel (temp_oldest_nonremovable horizons)
      in be\<lparr>GlobalVisSharedRels := update (shared_oldest_nonremovable horizons) (GlobalVisSharedRels be),
            GlobalVisCatalogRels := update (catalog_oldest_nonremovable horizons) (GlobalVisCatalogRels be),
            GlobalVisDataRels := update (data_oldest_nonremovable horizons) (GlobalVisDataRels be),
            GlobalVisTempRels := \<lparr>definitely_needed = temp, maybe_needed = temp\<rparr>,
            ComputeXidHorizonsResultLastXmin := RecentXmin be\<rparr>)"

definition horizons_start :: "BackendState \<Rightarrow> ShmemState \<Rightarrow> ComputeXidHorizonsResult" where
  "horizons_start be shm =
     (let initial = TransactionIdAdvance (XidFromFullTransactionId (latestCompletedXid shm))
      in \<lparr>h_latest_completed = latestCompletedXid shm,
          h_slot_xmin = replication_slot_xmin shm,
          h_slot_catalog_xmin = replication_slot_catalog_xmin shm,
          oldest_considered_running = initial,
          shared_oldest_nonremovable = initial,
          shared_oldest_nonremovable_raw = InvalidTransactionId,
          catalog_oldest_nonremovable = InvalidTransactionId,
          data_oldest_nonremovable = initial,
          temp_oldest_nonremovable =
            (if TransactionIdIsValid (proc_xid (MyProc be shm)) then proc_xid (MyProc be shm) else initial)\<rparr>)"

text \<open>The computations after the lock is released: known-assigned ids and replication slots.\<close>

definition horizons_finish :: "bool \<Rightarrow> TransactionId \<Rightarrow> ComputeXidHorizonsResult \<Rightarrow> ComputeXidHorizonsResult" where
  "horizons_finish in_recovery kaxmin h =
     (let h = (if in_recovery then
                 h\<lparr>oldest_considered_running := TransactionIdOlder (oldest_considered_running h) kaxmin,
                   shared_oldest_nonremovable := TransactionIdOlder (shared_oldest_nonremovable h) kaxmin,
                   data_oldest_nonremovable := TransactionIdOlder (data_oldest_nonremovable h) kaxmin\<rparr>
               else h);
          h = h\<lparr>shared_oldest_nonremovable := TransactionIdOlder (shared_oldest_nonremovable h) (h_slot_xmin h),
                data_oldest_nonremovable := TransactionIdOlder (data_oldest_nonremovable h) (h_slot_xmin h)\<rparr>;
          h = h\<lparr>shared_oldest_nonremovable_raw := shared_oldest_nonremovable h\<rparr>;
          h = h\<lparr>shared_oldest_nonremovable := TransactionIdOlder (shared_oldest_nonremovable h) (h_slot_catalog_xmin h),
                catalog_oldest_nonremovable := TransactionIdOlder (data_oldest_nonremovable h) (h_slot_catalog_xmin h)\<rparr>;
          h = h\<lparr>oldest_considered_running := TransactionIdOlder (oldest_considered_running h) (shared_oldest_nonremovable h)\<rparr>;
          h = h\<lparr>oldest_considered_running := TransactionIdOlder (oldest_considered_running h) (catalog_oldest_nonremovable h)\<rparr>
      in h\<lparr>oldest_considered_running := TransactionIdOlder (oldest_considered_running h) (data_oldest_nonremovable h)\<rparr>)"

definition ComputeXidHorizons :: "BackendState \<Rightarrow> ShmemState \<Rightarrow> ComputeXidHorizonsResult \<times> BackendState" where
  "ComputeXidHorizons be shm =
     (let in_recovery = RecoveryInProgress shm;
          h = fold (horizon_proc be in_recovery) (procArray shm) (horizons_start be shm);
          h = horizons_finish in_recovery (KnownAssignedXidsGetOldestXmin shm) h
      in (h, GlobalVisUpdateApply h be))"

text \<open>The kind of relation a horizon is asked for, \<^verbatim>\<open>GlobalVisHorizonKind\<close>.\<close>

datatype GlobalVisHorizonKind = VISHORIZON_SHARED | VISHORIZON_CATALOG | VISHORIZON_DATA | VISHORIZON_TEMP

definition GetOldestNonRemovableTransactionId ::
    "GlobalVisHorizonKind \<Rightarrow> BackendState \<Rightarrow> ShmemState \<Rightarrow> TransactionId \<times> BackendState" where
  "GetOldestNonRemovableTransactionId kind be shm =
     (let (horizons, be) = ComputeXidHorizons be shm
      in (case kind of
            VISHORIZON_SHARED \<Rightarrow> shared_oldest_nonremovable horizons
          | VISHORIZON_CATALOG \<Rightarrow> catalog_oldest_nonremovable horizons
          | VISHORIZON_DATA \<Rightarrow> data_oldest_nonremovable horizons
          | VISHORIZON_TEMP \<Rightarrow> temp_oldest_nonremovable horizons, be))"

definition global_vis :: "GlobalVisHorizonKind \<Rightarrow> BackendState \<Rightarrow> GlobalVisState" where
  "global_vis kind be = (case kind of
      VISHORIZON_SHARED \<Rightarrow> GlobalVisSharedRels be
    | VISHORIZON_CATALOG \<Rightarrow> GlobalVisCatalogRels be
    | VISHORIZON_DATA \<Rightarrow> GlobalVisDataRels be
    | VISHORIZON_TEMP \<Rightarrow> GlobalVisTempRels be)"

definition GlobalVisTestShouldUpdate :: "GlobalVisState \<Rightarrow> BackendState \<Rightarrow> bool" where
  "GlobalVisTestShouldUpdate state be =
     (if \<not> TransactionIdIsValid (ComputeXidHorizonsResultLastXmin be) then True
      else if FullTransactionIdFollowsOrEquals (maybe_needed state) (definitely_needed state) then False
      else RecentXmin be \<noteq> ComputeXidHorizonsResultLastXmin be)"

definition GlobalVisTestIsRemovableFullXid ::
    "GlobalVisHorizonKind \<Rightarrow> FullTransactionId \<Rightarrow> BackendState \<Rightarrow> ShmemState \<Rightarrow> bool \<times> BackendState" where
  "GlobalVisTestIsRemovableFullXid kind fxid be shm =
     (let state = global_vis kind be
      in if FullTransactionIdPrecedes fxid (maybe_needed state) then (True, be)
         else if FullTransactionIdFollowsOrEquals fxid (definitely_needed state) then (False, be)
         else if GlobalVisTestShouldUpdate state be then
           let be = snd (ComputeXidHorizons be shm)
           in (FullTransactionIdPrecedes fxid (maybe_needed (global_vis kind be)), be)
         else (False, be))"

definition GlobalVisTestIsRemovableXid ::
    "GlobalVisHorizonKind \<Rightarrow> TransactionId \<Rightarrow> BackendState \<Rightarrow> ShmemState \<Rightarrow> bool \<times> BackendState" where
  "GlobalVisTestIsRemovableXid kind xid be shm =
     GlobalVisTestIsRemovableFullXid kind (FullXidRelativeTo (definitely_needed (global_vis kind be)) xid) be shm"

end
