(* ===== verification/MultiXact.thy ===== *)
theory MultiXact
  imports ProcArray
begin

text \<open>
  Multixacts, \<^verbatim>\<open>src/src/backend/access/transam/multixact.c\<close>: an id for a set of transactions that lock or
  update one row.  The members lie in one log, in groups of four flag bytes and four transaction ids;
  another log has, for each multixact, the offset of its first member.  The end of a multixact's members
  is where those of the next one start.  Offset zero marks an entry that has not been written yet and
  is never handed out.
\<close>

section \<open>Ids, states and members\<close>

type_synonym MultiXactId = uint32
type_synonym MultiXactOffset = uint32
type_synonym MultiXactStatus = uint32

definition InvalidMultiXactId :: MultiXactId where "InvalidMultiXactId = 0"
definition FirstMultiXactId :: MultiXactId where "FirstMultiXactId = 1"
definition MaxMultiXactId :: MultiXactId where "MaxMultiXactId = 0xFFFFFFFF"
definition MaxMultiXactOffset :: MultiXactOffset where "MaxMultiXactOffset = 0xFFFFFFFF"

definition MultiXactIdIsValid :: "MultiXactId \<Rightarrow> bool" where
  "MultiXactIdIsValid multi \<longleftrightarrow> multi \<noteq> InvalidMultiXactId"

definition MultiXactStatusForKeyShare :: MultiXactStatus where "MultiXactStatusForKeyShare = 0x00"
definition MultiXactStatusForShare :: MultiXactStatus where "MultiXactStatusForShare = 0x01"
definition MultiXactStatusForNoKeyUpdate :: MultiXactStatus where "MultiXactStatusForNoKeyUpdate = 0x02"
definition MultiXactStatusForUpdate :: MultiXactStatus where "MultiXactStatusForUpdate = 0x03"
definition MultiXactStatusNoKeyUpdate :: MultiXactStatus where "MultiXactStatusNoKeyUpdate = 0x04"
definition MultiXactStatusUpdate :: MultiXactStatus where "MultiXactStatusUpdate = 0x05"

definition ISUPDATE_from_mxstatus :: "MultiXactStatus \<Rightarrow> bool" where
  "ISUPDATE_from_mxstatus status \<longleftrightarrow> status > MultiXactStatusForUpdate"

datatype MultiXactMember = MultiXactMember (mx_xid: TransactionId) (mx_status: MultiXactStatus)

definition mxactMemberComparator :: "MultiXactMember \<Rightarrow> MultiXactMember \<Rightarrow> int" where
  "mxactMemberComparator member1 member2 =
     (if mx_xid member1 > mx_xid member2 then 1
      else if mx_xid member1 < mx_xid member2 then -1
      else if mx_status member1 > mx_status member2 then 1
      else if mx_status member1 < mx_status member2 then -1
      else 0)"

text \<open>The comparator is a linear order, so \<^verbatim>\<open>qsort\<close> with it is \<open>sort\<close>.\<close>

instantiation MultiXactMember :: linorder
begin

definition less_eq_MultiXactMember :: "MultiXactMember \<Rightarrow> MultiXactMember \<Rightarrow> bool" where
  "less_eq_MultiXactMember a b \<longleftrightarrow> mxactMemberComparator a b \<le> 0"

definition less_MultiXactMember :: "MultiXactMember \<Rightarrow> MultiXactMember \<Rightarrow> bool" where
  "less_MultiXactMember a b \<longleftrightarrow> mxactMemberComparator a b < 0"

instance
proof
  fix a b c :: MultiXactMember
  note defs = less_eq_MultiXactMember_def less_MultiXactMember_def mxactMemberComparator_def
  show "(a < b) = (a \<le> b \<and> \<not> b \<le> a)" by (auto simp: defs split: if_splits)
  show "a \<le> a" by (simp add: defs)
  show "a \<le> b \<or> b \<le> a" by (auto simp: defs)
  show "a = b" if "a \<le> b" "b \<le> a" using that by (cases a; cases b) (auto simp: defs split: if_splits)
  show "a \<le> c" if "a \<le> b" "b \<le> c" using that by (auto simp: defs split: if_splits)
qed

end

definition MultiXactIdPrecedes :: "MultiXactId \<Rightarrow> MultiXactId \<Rightarrow> bool" where
  "MultiXactIdPrecedes multi1 multi2 \<longleftrightarrow> sint (multi1 - multi2) < 0"

definition MultiXactIdPrecedesOrEquals :: "MultiXactId \<Rightarrow> MultiXactId \<Rightarrow> bool" where
  "MultiXactIdPrecedesOrEquals multi1 multi2 \<longleftrightarrow> sint (multi1 - multi2) \<le> 0"

section \<open>The two logs\<close>

definition MULTIXACT_OFFSETS_PER_PAGE :: nat where "MULTIXACT_OFFSETS_PER_PAGE = BLCKSZ div 4"

definition MultiXactIdToOffsetPage :: "MultiXactId \<Rightarrow> nat" where
  "MultiXactIdToOffsetPage multi = unat multi div MULTIXACT_OFFSETS_PER_PAGE"

definition MultiXactIdToOffsetEntry :: "MultiXactId \<Rightarrow> nat" where
  "MultiXactIdToOffsetEntry multi = unat multi mod MULTIXACT_OFFSETS_PER_PAGE"

definition MXACT_MEMBER_BITS_PER_XACT :: nat where "MXACT_MEMBER_BITS_PER_XACT = 8"
definition MXACT_MEMBER_XACT_BITMASK :: uint32 where
  "MXACT_MEMBER_XACT_BITMASK = push_bit MXACT_MEMBER_BITS_PER_XACT 1 - 1"
definition MULTIXACT_FLAGBYTES_PER_GROUP :: nat where "MULTIXACT_FLAGBYTES_PER_GROUP = 4"
definition MULTIXACT_MEMBERS_PER_MEMBERGROUP :: nat where
  "MULTIXACT_MEMBERS_PER_MEMBERGROUP = MULTIXACT_FLAGBYTES_PER_GROUP * 1"
definition MULTIXACT_MEMBERGROUP_SIZE :: nat where
  "MULTIXACT_MEMBERGROUP_SIZE = 4 * MULTIXACT_MEMBERS_PER_MEMBERGROUP + MULTIXACT_FLAGBYTES_PER_GROUP"
definition MULTIXACT_MEMBERGROUPS_PER_PAGE :: nat where
  "MULTIXACT_MEMBERGROUPS_PER_PAGE = BLCKSZ div MULTIXACT_MEMBERGROUP_SIZE"
definition MULTIXACT_MEMBERS_PER_PAGE :: nat where
  "MULTIXACT_MEMBERS_PER_PAGE = MULTIXACT_MEMBERGROUPS_PER_PAGE * MULTIXACT_MEMBERS_PER_MEMBERGROUP"
definition MAX_MEMBERS_IN_LAST_MEMBERS_PAGE :: nat where
  "MAX_MEMBERS_IN_LAST_MEMBERS_PAGE = 0xFFFFFFFF mod MULTIXACT_MEMBERS_PER_PAGE + 1"

definition MXOffsetToMemberPage :: "MultiXactOffset \<Rightarrow> nat" where
  "MXOffsetToMemberPage offset = unat offset div MULTIXACT_MEMBERS_PER_PAGE"

text \<open>Byte offsets within a page.\<close>

definition MXOffsetToFlagsOffset :: "MultiXactOffset \<Rightarrow> nat" where
  "MXOffsetToFlagsOffset offset =
     unat offset div MULTIXACT_MEMBERS_PER_MEMBERGROUP mod MULTIXACT_MEMBERGROUPS_PER_PAGE * MULTIXACT_MEMBERGROUP_SIZE"

definition MXOffsetToFlagsBitShift :: "MultiXactOffset \<Rightarrow> nat" where
  "MXOffsetToFlagsBitShift offset = unat offset mod MULTIXACT_MEMBERS_PER_MEMBERGROUP * MXACT_MEMBER_BITS_PER_XACT"

definition MXOffsetToMemberOffset :: "MultiXactOffset \<Rightarrow> nat" where
  "MXOffsetToMemberOffset offset =
     MXOffsetToFlagsOffset offset + MULTIXACT_FLAGBYTES_PER_GROUP + unat offset mod MULTIXACT_MEMBERS_PER_MEMBERGROUP * 4"

text \<open>
  Pages of either log are lists of 32-bit words: all accesses are to aligned words, the word at byte
  offset \<open>k\<close> has index \<open>k div 4\<close>.
\<close>

type_synonym mxlog = "nat \<Rightarrow> uint32 list option"

definition zero_mx_page :: "uint32 list" where "zero_mx_page = replicate (BLCKSZ div 4) 0"

definition ZeroMultiXactOffsetPage :: "nat \<Rightarrow> mxlog \<Rightarrow> mxlog" where
  "ZeroMultiXactOffsetPage pageno offsets = offsets(pageno \<mapsto> zero_mx_page)"

definition ZeroMultiXactMemberPage :: "nat \<Rightarrow> mxlog \<Rightarrow> mxlog" where
  "ZeroMultiXactMemberPage pageno mem = mem(pageno \<mapsto> zero_mx_page)"

definition ExtendMultiXactOffset :: "MultiXactId \<Rightarrow> mxlog \<Rightarrow> mxlog" where
  "ExtendMultiXactOffset multi offsets =
     (if MultiXactIdToOffsetEntry multi \<noteq> 0 \<and> multi \<noteq> FirstMultiXactId then offsets
      else ZeroMultiXactOffsetPage (MultiXactIdToOffsetPage multi) offsets)"

text \<open>The number of members from an offset to the end of its page; the last page of all is shorter.\<close>

definition till_page_end :: "MultiXactOffset \<Rightarrow> uint32" where
  "till_page_end offset =
     (if offset + of_nat MAX_MEMBERS_IN_LAST_MEMBERS_PAGE < offset then MaxMultiXactOffset - offset + 1
      else of_nat MULTIXACT_MEMBERS_PER_PAGE - offset mod of_nat MULTIXACT_MEMBERS_PER_PAGE)"

lemmas mx_consts = MULTIXACT_OFFSETS_PER_PAGE_def MULTIXACT_MEMBERS_PER_PAGE_def MULTIXACT_MEMBERGROUPS_PER_PAGE_def
  MULTIXACT_MEMBERGROUP_SIZE_def MULTIXACT_MEMBERS_PER_MEMBERGROUP_def MULTIXACT_FLAGBYTES_PER_GROUP_def
  MXACT_MEMBER_BITS_PER_XACT_def MXACT_MEMBER_XACT_BITMASK_def MAX_MEMBERS_IN_LAST_MEMBERS_PAGE_def
  MaxMultiXactOffset_def BLCKSZ_def

lemma unat32_less: "unat (w :: uint32) < 4294967296"
proof -
  have "nat (uint w) < nat 4294967296" using uint32_bounds [of w] by (simp only: nat_less_eq_zless)
  then show ?thesis by simp
qed

lemma unat_till_page_end:
  "unat (till_page_end offset) = (if 4294966260 \<le> unat offset then 2 ^ 32 - unat offset else 1636 - unat offset mod 1636)"
proof -
  have m: "unat (offset mod 1636) = unat offset mod 1636" by (simp add: unat_mod_distrib)
  have wrap: "offset + 1036 < offset \<longleftrightarrow> 4294966260 \<le> unat offset"
    by (simp add: word_less_nat_alt unat_word_ariths(1)) (use unat32_less [of offset] in \<open>simp add: mod_if\<close>)
  have "unat (0xFFFFFFFF - offset + 1) = 2 ^ 32 - unat offset" if "4294966260 \<le> unat offset"
  proof -
    have "offset \<le> 0xFFFFFFFF" using unat32_less [of offset] by (simp add: word_le_nat_alt)
    then have w: "unat w = 0xFFFFFFFF - unat offset" if "w = 0xFFFFFFFF - offset" for w by (simp add: that unat_sub)
    have "unat (w + 1) = 2 ^ 32 - unat offset" if "w = 0xFFFFFFFF - offset" for w
      using w [OF that] \<open>4294966260 \<le> unat offset\<close> unat32_less [of offset] by (simp add: unat_word_ariths(1))
    then show ?thesis by blast
  qed
  moreover have "unat (1636 - offset mod 1636) = 1636 - unat offset mod 1636"
    by (subst unat_sub) (simp_all add: word_le_nat_alt m)
  ultimately show ?thesis by (simp add: till_page_end_def mx_consts wrap)
qed

function ExtendMultiXactMember :: "MultiXactOffset \<Rightarrow> int \<Rightarrow> mxlog \<Rightarrow> mxlog" where
  "ExtendMultiXactMember offset nmembers mem =
     (if nmembers > 0 then
        let mem = (if MXOffsetToFlagsOffset offset = 0 \<and> MXOffsetToFlagsBitShift offset = 0
                   then ZeroMultiXactMemberPage (MXOffsetToMemberPage offset) mem else mem);
            difference = till_page_end offset
        in ExtendMultiXactMember (offset + difference) (nmembers - uint difference) mem
      else mem)"
  by pat_completeness auto
termination
proof (relation "measure (\<lambda>(offset, nmembers, mem). nat nmembers)")
  fix offset :: MultiXactOffset and nmembers :: int and mem mem' :: mxlog and difference :: uint32
  assume "nmembers > 0" "difference = till_page_end offset"
  moreover have "0 < unat (till_page_end offset)"
    using unat32_less [of offset] mod_less_divisor [of 1636 "unat offset"] unat_till_page_end [of offset] by auto
  then have "0 < uint (till_page_end offset)" unfolding unat_eq_nat_uint by (simp only: zero_less_nat_eq)
  ultimately show "((offset + difference, nmembers - uint difference, mem'), offset, nmembers, mem)
      \<in> measure (\<lambda>(offset, nmembers, mem). nat nmembers)"
    by simp
qed simp

declare ExtendMultiXactMember.simps [simp del]

section \<open>Shared state and errors\<close>

record MultiXactState =
  nextMXact :: MultiXactId
  nextOffset :: MultiXactOffset
  finishedStartup :: bool
  oldestMultiXactId :: MultiXactId
  oldestMultiXactDB :: Oid
  oldestOffset :: MultiXactOffset
  oldestOffsetKnown :: bool
  multiVacLimit :: MultiXactId
  multiWarnLimit :: MultiXactId
  multiStopLimit :: MultiXactId
  multiWrapLimit :: MultiXactId
  offsetStopLimit :: MultiXactOffset
  OldestMemberMXactId :: "MultiXactId list"
  OldestVisibleMXactId :: "MultiXactId list"
  mx_offsets :: mxlog
  mx_members :: mxlog

datatype mx_error = MultiNoLongerExists MultiXactId | MultiNotYetCreated MultiXactId | MultiAccess MultiXactId
  | MoreThanOneUpdater | MultiInRecovery | MultiWraparoundStop | MembersLimitExceeded | InvalidAllocSize | MemberLookup lookup_error

section \<open>Creating a multixact\<close>

definition MultiXactOffsetWouldWrap :: "MultiXactOffset \<Rightarrow> MultiXactOffset \<Rightarrow> uint32 \<Rightarrow> bool" where
  "MultiXactOffsetWouldWrap boundary start distance =
     (let finish = start + distance;
          finish = (if finish < start then finish + 1 else finish)
      in if start < boundary then finish \<ge> boundary \<or> finish < start
         else finish \<ge> boundary \<and> finish < start)"

text \<open>
  When the next id is past \<open>multiVacLimit\<close>, the lock is given up while signals and warnings are sent;
  \<open>others\<close> is what the other backends do to the state until it is taken again.  An error leaves behind
  what has been changed before it.
\<close>

definition GetNewMultiXactId ::
    "bool \<Rightarrow> bool \<Rightarrow> (MultiXactState \<Rightarrow> MultiXactState) \<Rightarrow> nat \<Rightarrow> MultiXactState \<Rightarrow>
     (mx_error \<times> MultiXactState) + MultiXactId \<times> MultiXactOffset \<times> MultiXactState" where
  "GetNewMultiXactId in_recovery under_postmaster others nmembers mx =
     (if in_recovery then Inl (MultiInRecovery, mx)
      else
        let mx = (if nextMXact mx < FirstMultiXactId then mx\<lparr>nextMXact := FirstMultiXactId\<rparr> else mx);
            result = nextMXact mx
        in if \<not> MultiXactIdPrecedes result (multiVacLimit mx) \<and> under_postmaster \<and>
              \<not> MultiXactIdPrecedes result (multiStopLimit mx)
           then Inl (MultiWraparoundStop, mx)
           else
             let (result, mx) =
                   (if \<not> MultiXactIdPrecedes result (multiVacLimit mx)
                    then let mx = others mx
                         in (if nextMXact mx < FirstMultiXactId then FirstMultiXactId else nextMXact mx, mx)
                    else (result, mx));
                 mx = mx\<lparr>mx_offsets := ExtendMultiXactOffset result (mx_offsets mx)\<rparr>;
                 (offset, nmembers) = (if nextOffset mx = 0 then (1, nmembers + 1) else (nextOffset mx, nmembers))
             in if oldestOffsetKnown mx \<and> MultiXactOffsetWouldWrap (offsetStopLimit mx) (nextOffset mx) (of_nat nmembers)
                then Inl (MembersLimitExceeded, mx)
                else Inr (result, offset,
                       mx\<lparr>mx_members := ExtendMultiXactMember (nextOffset mx) (int nmembers) (mx_members mx),
                          nextMXact := nextMXact mx + 1,
                          nextOffset := nextOffset mx + of_nat nmembers\<rparr>))"

text \<open>One round of the loop of \<^verbatim>\<open>RecordNewMultiXact\<close>: the id and its flag byte.\<close>

definition write_member :: "MultiXactMember \<Rightarrow> MultiXactOffset \<Rightarrow> uint32 list \<Rightarrow> uint32 list" where
  "write_member m offset page =
     (let memberoff = MXOffsetToMemberOffset offset;
          flagsoff = MXOffsetToFlagsOffset offset;
          bshift = MXOffsetToFlagsBitShift offset;
          page = page[memberoff div 4 := mx_xid m];
          flagsval = page ! (flagsoff div 4);
          flagsval = flagsval AND NOT (push_bit bshift (push_bit MXACT_MEMBER_BITS_PER_XACT 1 - 1));
          flagsval = flagsval OR push_bit bshift (mx_status m)
      in page[flagsoff div 4 := flagsval])"

fun record_members :: "MultiXactId \<Rightarrow> MultiXactOffset \<Rightarrow> MultiXactMember list \<Rightarrow> mxlog \<Rightarrow> mx_error + mxlog" where
  "record_members multi offset [] mem = Inr mem"
| "record_members multi offset (m # ms) mem =
     (case mem (MXOffsetToMemberPage offset) of
        None \<Rightarrow> Inl (MultiAccess multi)
      | Some page \<Rightarrow> record_members multi (offset + 1) ms (mem(MXOffsetToMemberPage offset \<mapsto> write_member m offset page)))"

definition RecordNewMultiXact ::
    "MultiXactId \<Rightarrow> MultiXactOffset \<Rightarrow> MultiXactMember list \<Rightarrow> MultiXactState \<Rightarrow> mx_error + MultiXactState" where
  "RecordNewMultiXact multi offset members mx =
     (case mx_offsets mx (MultiXactIdToOffsetPage multi) of
        None \<Rightarrow> Inl (MultiAccess multi)
      | Some page \<Rightarrow>
          let mx = mx\<lparr>mx_offsets := (mx_offsets mx)(MultiXactIdToOffsetPage multi \<mapsto> page[MultiXactIdToOffsetEntry multi := offset])\<rparr>
          in case record_members multi offset members (mx_members mx) of
               Inl e \<Rightarrow> Inl e
             | Inr mem \<Rightarrow> Inr (mx\<lparr>mx_members := mem\<rparr>))"

text \<open>The cache of one transaction, most recently used entry first.\<close>

type_synonym mxcache = "(MultiXactId \<times> MultiXactMember list) list"

definition MAX_CACHE_ENTRIES :: nat where "MAX_CACHE_ENTRIES = 256"

definition mXactCacheGetBySet :: "MultiXactMember list \<Rightarrow> mxcache \<Rightarrow> MultiXactId \<times> mxcache" where
  "mXactCacheGetBySet members cache =
     (case find (\<lambda>(multi, ms). ms = members) cache of
        None \<Rightarrow> (InvalidMultiXactId, cache)
      | Some entry \<Rightarrow> (fst entry, entry # remove1 entry cache))"

definition mXactCacheGetById :: "MultiXactId \<Rightarrow> mxcache \<Rightarrow> MultiXactMember list option \<times> mxcache" where
  "mXactCacheGetById multi cache =
     (case find (\<lambda>(m, ms). m = multi) cache of
        None \<Rightarrow> (None, cache)
      | Some entry \<Rightarrow> (Some (snd entry), entry # remove1 entry cache))"

definition mXactCachePut :: "MultiXactId \<Rightarrow> MultiXactMember list \<Rightarrow> mxcache \<Rightarrow> mxcache" where
  "mXactCachePut multi members cache =
     (let cache = (multi, sort members) # cache
      in if length cache > MAX_CACHE_ENTRIES then butlast cache else cache)"

text \<open>\<open>mXactCacheGetBySet\<close> sorts the array in place, so it is sorted from there on.\<close>

definition MultiXactIdCreateFromMembers ::
    "bool \<Rightarrow> bool \<Rightarrow> (MultiXactState \<Rightarrow> MultiXactState) \<Rightarrow> MultiXactMember list \<Rightarrow> mxcache \<Rightarrow> MultiXactState \<Rightarrow>
     (mx_error \<times> mxcache \<times> MultiXactState) + MultiXactId \<times> mxcache \<times> MultiXactState" where
  "MultiXactIdCreateFromMembers in_recovery under_postmaster others members cache mx =
     (let members = sort members;
          (multi, cache) = mXactCacheGetBySet members cache
      in if MultiXactIdIsValid multi then Inr (multi, cache, mx)
         else if 1 < length (filter (\<lambda>m. ISUPDATE_from_mxstatus (mx_status m)) members)
         then Inl (MoreThanOneUpdater, cache, mx)
         else case GetNewMultiXactId in_recovery under_postmaster others (length members) mx of
                Inl (e, mx) \<Rightarrow> Inl (e, cache, mx)
              | Inr (multi, offset, mx) \<Rightarrow>
                  (case RecordNewMultiXact multi offset members mx of
                     Inl e \<Rightarrow> Inl (e, cache, mx)
                   | Inr mx \<Rightarrow> Inr (multi, mXactCachePut multi members cache, mx)))"

definition MultiXactIdCreate ::
    "bool \<Rightarrow> bool \<Rightarrow> (MultiXactState \<Rightarrow> MultiXactState) \<Rightarrow> TransactionId \<Rightarrow> MultiXactStatus \<Rightarrow>
     TransactionId \<Rightarrow> MultiXactStatus \<Rightarrow> mxcache \<Rightarrow> MultiXactState \<Rightarrow>
     (mx_error \<times> mxcache \<times> MultiXactState) + MultiXactId \<times> mxcache \<times> MultiXactState" where
  "MultiXactIdCreate in_recovery under_postmaster others xid1 status1 xid2 status2 cache mx =
     MultiXactIdCreateFromMembers in_recovery under_postmaster others
       [MultiXactMember xid1 status1, MultiXactMember xid2 status2] cache mx"

section \<open>Reading a multixact\<close>

text \<open>
  \<open>my\<close> is \<^verbatim>\<open>MyBackendId\<close>, the index of the two arrays of per-backend values; element zero is not used.
\<close>

definition valid_next :: "MultiXactState \<Rightarrow> MultiXactId" where
  "valid_next mx = (if nextMXact mx < FirstMultiXactId then FirstMultiXactId else nextMXact mx)"

definition MultiXactIdSetOldestMember :: "nat \<Rightarrow> MultiXactState \<Rightarrow> MultiXactState" where
  "MultiXactIdSetOldestMember my mx =
     (if \<not> MultiXactIdIsValid (OldestMemberMXactId mx ! my)
      then mx\<lparr>OldestMemberMXactId := (OldestMemberMXactId mx)[my := valid_next mx]\<rparr> else mx)"

definition older_multi :: "MultiXactId \<Rightarrow> MultiXactId \<Rightarrow> MultiXactId" where
  "older_multi thisoldest oldestMXact =
     (if MultiXactIdIsValid thisoldest \<and> MultiXactIdPrecedes thisoldest oldestMXact then thisoldest else oldestMXact)"

definition MultiXactIdSetOldestVisible :: "nat \<Rightarrow> MultiXactState \<Rightarrow> MultiXactState" where
  "MultiXactIdSetOldestVisible my mx =
     (if \<not> MultiXactIdIsValid (OldestVisibleMXactId mx ! my)
      then mx\<lparr>OldestVisibleMXactId := (OldestVisibleMXactId mx)[my := fold older_multi (tl (OldestMemberMXactId mx)) (valid_next mx)]\<rparr>
      else mx)"

definition ReadNextMultiXactId :: "MultiXactState \<Rightarrow> MultiXactId" where
  "ReadNextMultiXactId mx = valid_next mx"

definition ReadMultiXactIdRange :: "MultiXactState \<Rightarrow> MultiXactId \<times> MultiXactId" where
  "ReadMultiXactIdRange mx =
     (if oldestMultiXactId mx < FirstMultiXactId then FirstMultiXactId else oldestMultiXactId mx, valid_next mx)"

definition GetOldestMultiXactId :: "MultiXactState \<Rightarrow> MultiXactId" where
  "GetOldestMultiXactId mx =
     fold (\<lambda>(member, visible) oldest. older_multi visible (older_multi member oldest))
       (zip (tl (OldestMemberMXactId mx)) (tl (OldestVisibleMXactId mx))) (valid_next mx)"

definition AtEOXact_MultiXact :: "nat \<Rightarrow> mxcache \<Rightarrow> MultiXactState \<Rightarrow> mxcache \<times> MultiXactState" where
  "AtEOXact_MultiXact my cache mx =
     ([], mx\<lparr>OldestMemberMXactId := (OldestMemberMXactId mx)[my := InvalidMultiXactId],
            OldestVisibleMXactId := (OldestVisibleMXactId mx)[my := InvalidMultiXactId]\<rparr>)"

text \<open>One round of the reading loop: the id, and the member unless the slot is unused.\<close>

definition read_member :: "MultiXactOffset \<Rightarrow> uint32 list \<Rightarrow> MultiXactMember list" where
  "read_member offset page =
     (let xid = page ! (MXOffsetToMemberOffset offset div 4)
      in if \<not> TransactionIdIsValid xid then []
         else [MultiXactMember xid
                (drop_bit (MXOffsetToFlagsBitShift offset) (page ! (MXOffsetToFlagsOffset offset div 4)) AND MXACT_MEMBER_XACT_BITMASK)])"

fun read_members :: "MultiXactId \<Rightarrow> MultiXactOffset \<Rightarrow> nat \<Rightarrow> mxlog \<Rightarrow> mx_error + MultiXactMember list" where
  "read_members multi offset 0 mem = Inr []"
| "read_members multi offset (Suc n) mem =
     (case mem (MXOffsetToMemberPage offset) of
        None \<Rightarrow> Inl (MultiAccess multi)
      | Some page \<Rightarrow>
          (case read_members multi (offset + 1) n mem of
             Inl e \<Rightarrow> Inl e
           | Inr ms \<Rightarrow> Inr (read_member offset page @ ms)))"

definition read_offset :: "MultiXactId \<Rightarrow> mxlog \<Rightarrow> mx_error + MultiXactOffset" where
  "read_offset multi offsets =
     (case offsets (MultiXactIdToOffsetPage multi) of
        None \<Rightarrow> Inl (MultiAccess multi)
      | Some page \<Rightarrow> Inr (page ! MultiXactIdToOffsetEntry multi))"

text \<open>
  The part of \<^verbatim>\<open>GetMultiXactIdMembers\<close> that reads the logs.  \<open>None\<close> is the case that the next multixact
  is still being filled in, in which the code sleeps and tries again.  An array that is too large to be
  allocated is an error of \<^verbatim>\<open>palloc\<close>.
\<close>

definition MaxAllocSize :: int where "MaxAllocSize = 0x3fffffff"

definition members_from_log :: "MultiXactId \<Rightarrow> MultiXactState \<Rightarrow> (mx_error + MultiXactMember list) option" where
  "members_from_log multi mx =
     (case read_offset multi (mx_offsets mx) of
        Inl e \<Rightarrow> Some (Inl e)
      | Inr offset \<Rightarrow>
          let tmpMXact = multi + 1;
              finish = (if nextMXact mx = tmpMXact then Inr (nextOffset mx)
                        else read_offset (if tmpMXact < FirstMultiXactId then FirstMultiXactId else tmpMXact) (mx_offsets mx))
          in case finish of
               Inl e \<Rightarrow> Some (Inl e)
             | Inr nextMXOffset \<Rightarrow>
                 if nextMXact mx \<noteq> tmpMXact \<and> nextMXOffset = 0 then None
                 else
                   let len = sint (nextMXOffset - offset)
                   in if len < 0 \<or> len * 8 > MaxAllocSize then Some (Inl InvalidAllocSize)
                      else Some (read_members multi offset (nat len) (mx_members mx)))"

text \<open>The result is the member array, or \<open>None\<close> for the return value \<open>-1\<close>.\<close>

definition GetMultiXactIdMembers ::
    "nat \<Rightarrow> MultiXactId \<Rightarrow> bool \<Rightarrow> bool \<Rightarrow> mxcache \<Rightarrow> MultiXactState \<Rightarrow>
     (mx_error + MultiXactMember list option \<times> mxcache \<times> MultiXactState) option" where
  "GetMultiXactIdMembers my multi from_pgupgrade isLockOnly cache mx =
     (if \<not> MultiXactIdIsValid multi \<or> from_pgupgrade then Some (Inr (None, cache, mx))
      else case mXactCacheGetById multi cache of
             (Some members, cache) \<Rightarrow> Some (Inr (Some members, cache, mx))
           | (None, cache) \<Rightarrow>
               let mx = MultiXactIdSetOldestVisible my mx
               in if isLockOnly \<and> MultiXactIdPrecedes multi (OldestVisibleMXactId mx ! my) then Some (Inr (None, cache, mx))
                  else if MultiXactIdPrecedes multi (oldestMultiXactId mx) then Some (Inl (MultiNoLongerExists multi))
                  else if \<not> MultiXactIdPrecedes multi (nextMXact mx) then Some (Inl (MultiNotYetCreated multi))
                  else case members_from_log multi mx of
                         None \<Rightarrow> None
                       | Some (Inl e) \<Rightarrow> Some (Inl e)
                       | Some (Inr ptr) \<Rightarrow> Some (Inr (Some ptr, mXactCachePut multi ptr cache, mx)))"

section \<open>Limits\<close>

definition SLRU_PAGES_PER_SEGMENT :: nat where "SLRU_PAGES_PER_SEGMENT = 32"

definition find_multixact_start :: "MultiXactId \<Rightarrow> MultiXactState \<Rightarrow> MultiXactOffset option" where
  "find_multixact_start multi mx =
     (case mx_offsets mx (MultiXactIdToOffsetPage multi) of
        None \<Rightarrow> None
      | Some page \<Rightarrow> Some (page ! MultiXactIdToOffsetEntry multi))"

definition MULTIXACT_MEMBER_SAFE_THRESHOLD :: MultiXactOffset where
  "MULTIXACT_MEMBER_SAFE_THRESHOLD = MaxMultiXactOffset div 2"

definition SetOffsetVacuumLimit :: "MultiXactState \<Rightarrow> bool \<times> MultiXactState" where
  "SetOffsetVacuumLimit mx =
     (let known = (if oldestMultiXactId mx = nextMXact mx then Some (nextOffset mx)
                   else find_multixact_start (oldestMultiXactId mx) mx);
          segment = of_nat (MULTIXACT_MEMBERS_PER_PAGE * SLRU_PAGES_PER_SEGMENT);
          (oldest, oldest_known, stop_limit) =
            (case known of
               Some oldest \<Rightarrow> (oldest, True, oldest - oldest mod segment - segment)
             | None \<Rightarrow>
                 if oldestOffsetKnown mx then (oldestOffset mx, True, offsetStopLimit mx) else (0, False, 0));
          mx = mx\<lparr>oldestOffset := oldest, oldestOffsetKnown := oldest_known, offsetStopLimit := stop_limit\<rparr>
      in (\<not> oldest_known \<or> nextOffset mx - oldest > MULTIXACT_MEMBER_SAFE_THRESHOLD, mx))"

text \<open>\<open>max_age\<close> is the setting \<^verbatim>\<open>autovacuum_multixact_freeze_max_age\<close>.\<close>

definition SetMultiXactIdLimit :: "uint32 \<Rightarrow> MultiXactId \<Rightarrow> Oid \<Rightarrow> MultiXactState \<Rightarrow> MultiXactState" where
  "SetMultiXactIdLimit max_age oldest_datminmxid oldest_datoid mx =
     (let wrap_limit = oldest_datminmxid + drop_bit 1 MaxMultiXactId;
          wrap_limit = (if wrap_limit < FirstMultiXactId then wrap_limit + FirstMultiXactId else wrap_limit);
          stop_limit = wrap_limit - 3000000;
          stop_limit = (if stop_limit < FirstMultiXactId then stop_limit - FirstMultiXactId else stop_limit);
          warn_limit = wrap_limit - 40000000;
          warn_limit = (if warn_limit < FirstMultiXactId then warn_limit - FirstMultiXactId else warn_limit);
          vac_limit = oldest_datminmxid + max_age;
          vac_limit = (if vac_limit < FirstMultiXactId then vac_limit + FirstMultiXactId else vac_limit);
          mx = mx\<lparr>oldestMultiXactId := oldest_datminmxid, oldestMultiXactDB := oldest_datoid, multiVacLimit := vac_limit,
                  multiWarnLimit := warn_limit, multiStopLimit := stop_limit, multiWrapLimit := wrap_limit\<rparr>
      in if \<not> finishedStartup mx then mx else snd (SetOffsetVacuumLimit mx))"

section \<open>Bootstrap, startup and recovery\<close>

definition MultiXactShmemInit :: "nat \<Rightarrow> MultiXactState" where
  "MultiXactShmemInit max_slot =
     \<lparr>nextMXact = 0, nextOffset = 0, finishedStartup = False, oldestMultiXactId = 0, oldestMultiXactDB = 0,
      oldestOffset = 0, oldestOffsetKnown = False, multiVacLimit = 0, multiWarnLimit = 0, multiStopLimit = 0,
      multiWrapLimit = 0, offsetStopLimit = 0, OldestMemberMXactId = replicate (Suc max_slot) 0,
      OldestVisibleMXactId = replicate (Suc max_slot) 0, mx_offsets = Map.empty, mx_members = Map.empty\<rparr>"

definition BootStrapMultiXact :: "MultiXactState \<Rightarrow> MultiXactState" where
  "BootStrapMultiXact mx =
     mx\<lparr>mx_offsets := ZeroMultiXactOffsetPage 0 (mx_offsets mx), mx_members := ZeroMultiXactMemberPage 0 (mx_members mx)\<rparr>"

definition MaybeExtendOffsetSlru :: "MultiXactState \<Rightarrow> MultiXactState" where
  "MaybeExtendOffsetSlru mx =
     (let pageno = MultiXactIdToOffsetPage (nextMXact mx)
      in if mx_offsets mx pageno = None then mx\<lparr>mx_offsets := ZeroMultiXactOffsetPage pageno (mx_offsets mx)\<rparr> else mx)"

definition MultiXactSetNextMXact :: "bool \<Rightarrow> MultiXactId \<Rightarrow> MultiXactOffset \<Rightarrow> MultiXactState \<Rightarrow> MultiXactState" where
  "MultiXactSetNextMXact binary_upgrade nextMulti nextMultiOffset mx =
     (let mx = mx\<lparr>nextMXact := nextMulti, nextOffset := nextMultiOffset\<rparr>
      in if binary_upgrade then MaybeExtendOffsetSlru mx else mx)"

text \<open>\<^verbatim>\<open>MemSet\<close> from a word of a page to its end.\<close>

definition zero_rest :: "nat \<Rightarrow> uint32 list \<Rightarrow> uint32 list" where
  "zero_rest n page = take n page @ replicate (BLCKSZ div 4 - n) 0"

definition TrimMultiXact :: "uint32 \<Rightarrow> MultiXactState \<Rightarrow> mx_error + MultiXactState" where
  "TrimMultiXact max_age mx =
     (let multi = nextMXact mx; offset = nextOffset mx;
          pageno = MultiXactIdToOffsetPage multi; entryno = MultiXactIdToOffsetEntry multi;
          mempage = MXOffsetToMemberPage offset
      in case (if entryno = 0 then Inr (mx_offsets mx)
               else case mx_offsets mx pageno of
                      None \<Rightarrow> Inl (MultiAccess multi)
                    | Some page \<Rightarrow> Inr ((mx_offsets mx)(pageno \<mapsto> zero_rest entryno page))) of
           Inl e \<Rightarrow> Inl e
         | Inr offsets \<Rightarrow>
             (case (if MXOffsetToFlagsOffset offset = 0 then Inr (mx_members mx)
                    else case mx_members mx mempage of
                           None \<Rightarrow> Inl (MultiAccess offset)
                         | Some page \<Rightarrow> Inr ((mx_members mx)(mempage \<mapsto> zero_rest (MXOffsetToMemberOffset offset div 4) page))) of
                Inl e \<Rightarrow> Inl e
              | Inr members \<Rightarrow>
                  Inr (SetMultiXactIdLimit max_age (oldestMultiXactId mx) (oldestMultiXactDB mx)
                         (mx\<lparr>mx_offsets := offsets, mx_members := members, finishedStartup := True\<rparr>))))"

definition MultiXactGetCheckptMulti :: "MultiXactState \<Rightarrow> MultiXactId \<times> MultiXactOffset \<times> MultiXactId \<times> Oid" where
  "MultiXactGetCheckptMulti mx = (nextMXact mx, nextOffset mx, oldestMultiXactId mx, oldestMultiXactDB mx)"

definition MultiXactOffsetPrecedes :: "MultiXactOffset \<Rightarrow> MultiXactOffset \<Rightarrow> bool" where
  "MultiXactOffsetPrecedes offset1 offset2 \<longleftrightarrow> sint (offset1 - offset2) < 0"

definition MultiXactAdvanceNextMXact :: "MultiXactId \<Rightarrow> MultiXactOffset \<Rightarrow> MultiXactState \<Rightarrow> MultiXactState" where
  "MultiXactAdvanceNextMXact minMulti minMultiOffset mx =
     (let mx = (if MultiXactIdPrecedes (nextMXact mx) minMulti then mx\<lparr>nextMXact := minMulti\<rparr> else mx)
      in if MultiXactOffsetPrecedes (nextOffset mx) minMultiOffset then mx\<lparr>nextOffset := minMultiOffset\<rparr> else mx)"

definition MultiXactAdvanceOldest :: "uint32 \<Rightarrow> MultiXactId \<Rightarrow> Oid \<Rightarrow> MultiXactState \<Rightarrow> MultiXactState" where
  "MultiXactAdvanceOldest max_age oldestMulti oldestMultiDB mx =
     (if MultiXactIdPrecedes (oldestMultiXactId mx) oldestMulti then SetMultiXactIdLimit max_age oldestMulti oldestMultiDB mx else mx)"

definition ReadMultiXactCounts :: "MultiXactState \<Rightarrow> (uint32 \<times> MultiXactOffset) option" where
  "ReadMultiXactCounts mx =
     (if \<not> oldestOffsetKnown mx then None else Some (nextMXact mx - oldestMultiXactId mx, nextOffset mx - oldestOffset mx))"

section \<open>Members that are running\<close>

abbreviation is_current :: "BackendState \<Rightarrow> TransactionId \<Rightarrow> bool" where
  "is_current be \<equiv> TransactionIdIsCurrentTransactionId (XactTopFullTransactionId be) (ParallelCurrentXids be) (xact_stack be)"

definition did_commit :: "TransactionId \<Rightarrow> BackendState \<Rightarrow> ShmemState \<Rightarrow> (lookup_error + bool \<times> BackendState) option" where
  "did_commit xid be shm =
     (case TransactionIdDidCommit xid (status_state be shm) of
        None \<Rightarrow> None
      | Some (Inl e) \<Rightarrow> Some (Inl (StatusLookup e))
      | Some (Inr (committed, s)) \<Rightarrow> Some (Inr (committed, keep_cache s be)))"

fun any_in_progress :: "MultiXactMember list \<Rightarrow> BackendState \<Rightarrow> ShmemState \<Rightarrow> (lookup_error + bool \<times> BackendState) option" where
  "any_in_progress [] be shm = Some (Inr (False, be))"
| "any_in_progress (m # ms) be shm =
     (case TransactionIdIsInProgress (mx_xid m) be shm of
        None \<Rightarrow> None
      | Some (Inl e) \<Rightarrow> Some (Inl e)
      | Some (Inr (True, be)) \<Rightarrow> Some (Inr (True, be))
      | Some (Inr (False, be)) \<Rightarrow> any_in_progress ms be shm)"

definition MultiXactIdIsRunning ::
    "nat \<Rightarrow> MultiXactId \<Rightarrow> bool \<Rightarrow> BackendState \<Rightarrow> ShmemState \<Rightarrow> mxcache \<Rightarrow> MultiXactState \<Rightarrow>
     (mx_error + bool \<times> BackendState \<times> mxcache \<times> MultiXactState) option" where
  "MultiXactIdIsRunning my multi isLockOnly be shm cache mx =
     (case GetMultiXactIdMembers my multi False isLockOnly cache mx of
        None \<Rightarrow> None
      | Some (Inl e) \<Rightarrow> Some (Inl e)
      | Some (Inr (members, cache, mx)) \<Rightarrow>
          (case members of
             None \<Rightarrow> Some (Inr (False, be, cache, mx))
           | Some ms \<Rightarrow>
               if ms = [] then Some (Inr (False, be, cache, mx))
               else if list_ex (\<lambda>m. is_current be (mx_xid m)) ms then Some (Inr (True, be, cache, mx))
               else case any_in_progress ms be shm of
                      None \<Rightarrow> None
                    | Some (Inl e) \<Rightarrow> Some (Inl (MemberLookup e))
                    | Some (Inr (r, be)) \<Rightarrow> Some (Inr (r, be, cache, mx))))"

text \<open>The loop of \<^verbatim>\<open>MultiXactIdExpand\<close> that keeps the members still of interest.\<close>

fun interesting_members ::
    "MultiXactMember list \<Rightarrow> BackendState \<Rightarrow> ShmemState \<Rightarrow> (lookup_error + MultiXactMember list \<times> BackendState) option" where
  "interesting_members [] be shm = Some (Inr ([], be))"
| "interesting_members (m # ms) be shm =
     (case (case TransactionIdIsInProgress (mx_xid m) be shm of
              Some (Inr (False, be)) \<Rightarrow>
                if ISUPDATE_from_mxstatus (mx_status m) then did_commit (mx_xid m) be shm else Some (Inr (False, be))
            | r \<Rightarrow> r) of
        None \<Rightarrow> None
      | Some (Inl e) \<Rightarrow> Some (Inl e)
      | Some (Inr (keep, be)) \<Rightarrow>
          (case interesting_members ms be shm of
             Some (Inr (ms, be)) \<Rightarrow> Some (Inr (if keep then m # ms else ms, be))
           | r \<Rightarrow> r))"

definition MultiXactIdExpand ::
    "bool \<Rightarrow> (MultiXactState \<Rightarrow> MultiXactState) \<Rightarrow> nat \<Rightarrow> MultiXactId \<Rightarrow> TransactionId \<Rightarrow> MultiXactStatus \<Rightarrow>
     BackendState \<Rightarrow> ShmemState \<Rightarrow> mxcache \<Rightarrow> MultiXactState \<Rightarrow>
     (mx_error + MultiXactId \<times> BackendState \<times> mxcache \<times> MultiXactState) option" where
  "MultiXactIdExpand under_postmaster others my multi xid status be shm cache mx =
     (case GetMultiXactIdMembers my multi False False cache mx of
        None \<Rightarrow> None
      | Some (Inl e) \<Rightarrow> Some (Inl e)
      | Some (Inr (members, cache, mx)) \<Rightarrow>
          let create = (\<lambda>members be.
                case MultiXactIdCreateFromMembers (RecoveryInProgress shm) under_postmaster others members cache mx of
                  Inl (e, _) \<Rightarrow> Some (Inl e)
                | Inr (newMulti, cache, mx) \<Rightarrow> Some (Inr (newMulti, be, cache, mx)))
          in case members of
               None \<Rightarrow> create [MultiXactMember xid status] be
             | Some ms \<Rightarrow>
                 if MultiXactMember xid status \<in> set ms then Some (Inr (multi, be, cache, mx))
                 else case interesting_members ms be shm of
                        None \<Rightarrow> None
                      | Some (Inl e) \<Rightarrow> Some (Inl (MemberLookup e))
                      | Some (Inr (newMembers, be)) \<Rightarrow> create (newMembers @ [MultiXactMember xid status]) be)"

end
