(* ===== verification/HeapTuple.thy ===== *)
theory HeapTuple
  imports MultiXact
begin

text \<open>
  The header of a heap tuple, from \<^verbatim>\<open>include/access/htup_details.h\<close> and \<^verbatim>\<open>include/storage/itemptr.h\<close>: the
  flag bits of \<^verbatim>\<open>t_infomask\<close> and the accessor macros.  The union \<^verbatim>\<open>t_field3\<close> of the command id and the id of
  an old-style vacuum is one 32-bit field, as in memory; the attributes behind the header play no part.
\<close>

unbundle bit_operations_syntax

section \<open>Item pointers\<close>

record ItemPointerData =
  ip_blkid :: uint32
  ip_posid :: uint16

definition SpecTokenOffsetNumber :: uint16 where "SpecTokenOffsetNumber = 0xfffe"
definition MovedPartitionsOffsetNumber :: uint16 where "MovedPartitionsOffsetNumber = 0xfffd"
definition MovedPartitionsBlockNumber :: uint32 where "MovedPartitionsBlockNumber = 0xFFFFFFFF"

definition ItemPointerEquals :: "ItemPointerData \<Rightarrow> ItemPointerData \<Rightarrow> bool" where
  "ItemPointerEquals p q \<longleftrightarrow> ip_blkid p = ip_blkid q \<and> ip_posid p = ip_posid q"

definition ItemPointerIndicatesMovedPartitions :: "ItemPointerData \<Rightarrow> bool" where
  "ItemPointerIndicatesMovedPartitions p \<longleftrightarrow> ip_posid p = MovedPartitionsOffsetNumber \<and> ip_blkid p = MovedPartitionsBlockNumber"

section \<open>Flag bits\<close>

definition HEAP_XMAX_KEYSHR_LOCK :: uint16 where "HEAP_XMAX_KEYSHR_LOCK = 0x0010"
definition HEAP_COMBOCID :: uint16 where "HEAP_COMBOCID = 0x0020"
definition HEAP_XMAX_EXCL_LOCK :: uint16 where "HEAP_XMAX_EXCL_LOCK = 0x0040"
definition HEAP_XMAX_LOCK_ONLY :: uint16 where "HEAP_XMAX_LOCK_ONLY = 0x0080"
definition HEAP_XMAX_SHR_LOCK :: uint16 where "HEAP_XMAX_SHR_LOCK = HEAP_XMAX_EXCL_LOCK OR HEAP_XMAX_KEYSHR_LOCK"
definition HEAP_LOCK_MASK :: uint16 where "HEAP_LOCK_MASK = HEAP_XMAX_SHR_LOCK OR HEAP_XMAX_EXCL_LOCK OR HEAP_XMAX_KEYSHR_LOCK"
definition HEAP_XMIN_COMMITTED :: uint16 where "HEAP_XMIN_COMMITTED = 0x0100"
definition HEAP_XMIN_INVALID :: uint16 where "HEAP_XMIN_INVALID = 0x0200"
definition HEAP_XMIN_FROZEN :: uint16 where "HEAP_XMIN_FROZEN = HEAP_XMIN_COMMITTED OR HEAP_XMIN_INVALID"
definition HEAP_XMAX_COMMITTED :: uint16 where "HEAP_XMAX_COMMITTED = 0x0400"
definition HEAP_XMAX_INVALID :: uint16 where "HEAP_XMAX_INVALID = 0x0800"
definition HEAP_XMAX_IS_MULTI :: uint16 where "HEAP_XMAX_IS_MULTI = 0x1000"
definition HEAP_UPDATED :: uint16 where "HEAP_UPDATED = 0x2000"
definition HEAP_MOVED_OFF :: uint16 where "HEAP_MOVED_OFF = 0x4000"
definition HEAP_MOVED_IN :: uint16 where "HEAP_MOVED_IN = 0x8000"
definition HEAP_MOVED :: uint16 where "HEAP_MOVED = HEAP_MOVED_OFF OR HEAP_MOVED_IN"
definition HEAP_XMAX_BITS :: uint16 where
  "HEAP_XMAX_BITS = HEAP_XMAX_COMMITTED OR HEAP_XMAX_INVALID OR HEAP_XMAX_IS_MULTI OR HEAP_LOCK_MASK OR HEAP_XMAX_LOCK_ONLY"

definition HEAP_KEYS_UPDATED :: uint16 where "HEAP_KEYS_UPDATED = 0x2000"
definition HEAP_HOT_UPDATED :: uint16 where "HEAP_HOT_UPDATED = 0x4000"
definition HEAP_ONLY_TUPLE :: uint16 where "HEAP_ONLY_TUPLE = 0x8000"

lemmas heap_bits = HEAP_XMAX_KEYSHR_LOCK_def HEAP_COMBOCID_def HEAP_XMAX_EXCL_LOCK_def HEAP_XMAX_LOCK_ONLY_def
  HEAP_XMAX_SHR_LOCK_def HEAP_LOCK_MASK_def HEAP_XMIN_COMMITTED_def HEAP_XMIN_INVALID_def HEAP_XMIN_FROZEN_def
  HEAP_XMAX_COMMITTED_def HEAP_XMAX_INVALID_def HEAP_XMAX_IS_MULTI_def HEAP_UPDATED_def HEAP_MOVED_OFF_def
  HEAP_MOVED_IN_def HEAP_MOVED_def HEAP_XMAX_BITS_def HEAP_KEYS_UPDATED_def HEAP_HOT_UPDATED_def HEAP_ONLY_TUPLE_def

text \<open>A C condition \<^verbatim>\<open>infomask & bit\<close>.\<close>

definition has :: "uint16 \<Rightarrow> uint16 \<Rightarrow> bool" where
  "has infomask flag \<longleftrightarrow> infomask AND flag \<noteq> 0"

definition HEAP_XMAX_IS_LOCKED_ONLY :: "uint16 \<Rightarrow> bool" where
  "HEAP_XMAX_IS_LOCKED_ONLY infomask \<longleftrightarrow>
     has infomask HEAP_XMAX_LOCK_ONLY \<or> infomask AND (HEAP_XMAX_IS_MULTI OR HEAP_LOCK_MASK) = HEAP_XMAX_EXCL_LOCK"

definition HEAP_LOCKED_UPGRADED :: "uint16 \<Rightarrow> bool" where
  "HEAP_LOCKED_UPGRADED infomask \<longleftrightarrow>
     has infomask HEAP_XMAX_IS_MULTI \<and> has infomask HEAP_XMAX_LOCK_ONLY \<and>
     infomask AND (HEAP_XMAX_EXCL_LOCK OR HEAP_XMAX_KEYSHR_LOCK) = 0"

definition HEAP_XMAX_IS_SHR_LOCKED :: "uint16 \<Rightarrow> bool" where
  "HEAP_XMAX_IS_SHR_LOCKED infomask \<longleftrightarrow> infomask AND HEAP_LOCK_MASK = HEAP_XMAX_SHR_LOCK"

definition HEAP_XMAX_IS_EXCL_LOCKED :: "uint16 \<Rightarrow> bool" where
  "HEAP_XMAX_IS_EXCL_LOCKED infomask \<longleftrightarrow> infomask AND HEAP_LOCK_MASK = HEAP_XMAX_EXCL_LOCK"

definition HEAP_XMAX_IS_KEYSHR_LOCKED :: "uint16 \<Rightarrow> bool" where
  "HEAP_XMAX_IS_KEYSHR_LOCKED infomask \<longleftrightarrow> infomask AND HEAP_LOCK_MASK = HEAP_XMAX_KEYSHR_LOCK"

section \<open>The header\<close>

record HeapTupleHeaderData =
  t_xmin :: TransactionId
  t_xmax :: TransactionId
  t_field3 :: uint32
  t_ctid :: ItemPointerData
  t_infomask2 :: uint16
  t_infomask :: uint16

definition HeapTupleHeaderGetRawXmin :: "HeapTupleHeaderData \<Rightarrow> TransactionId" where
  "HeapTupleHeaderGetRawXmin tup = t_xmin tup"

definition HeapTupleHeaderXminCommitted :: "HeapTupleHeaderData \<Rightarrow> bool" where
  "HeapTupleHeaderXminCommitted tup \<longleftrightarrow> t_infomask tup AND HEAP_XMIN_COMMITTED \<noteq> 0"

definition HeapTupleHeaderXminInvalid :: "HeapTupleHeaderData \<Rightarrow> bool" where
  "HeapTupleHeaderXminInvalid tup \<longleftrightarrow> t_infomask tup AND (HEAP_XMIN_COMMITTED OR HEAP_XMIN_INVALID) = HEAP_XMIN_INVALID"

definition HeapTupleHeaderXminFrozen :: "HeapTupleHeaderData \<Rightarrow> bool" where
  "HeapTupleHeaderXminFrozen tup \<longleftrightarrow> t_infomask tup AND HEAP_XMIN_FROZEN = HEAP_XMIN_FROZEN"

definition HeapTupleHeaderGetXmin :: "HeapTupleHeaderData \<Rightarrow> TransactionId" where
  "HeapTupleHeaderGetXmin tup = (if HeapTupleHeaderXminFrozen tup then FrozenTransactionId else HeapTupleHeaderGetRawXmin tup)"

definition HeapTupleHeaderSetXmin :: "TransactionId \<Rightarrow> HeapTupleHeaderData \<Rightarrow> HeapTupleHeaderData" where
  "HeapTupleHeaderSetXmin xid tup = tup\<lparr>t_xmin := xid\<rparr>"

definition HeapTupleHeaderSetXminFrozen :: "HeapTupleHeaderData \<Rightarrow> HeapTupleHeaderData" where
  "HeapTupleHeaderSetXminFrozen tup = tup\<lparr>t_infomask := t_infomask tup OR HEAP_XMIN_FROZEN\<rparr>"

definition HeapTupleHeaderGetRawXmax :: "HeapTupleHeaderData \<Rightarrow> TransactionId" where
  "HeapTupleHeaderGetRawXmax tup = t_xmax tup"

definition HeapTupleHeaderSetXmax :: "TransactionId \<Rightarrow> HeapTupleHeaderData \<Rightarrow> HeapTupleHeaderData" where
  "HeapTupleHeaderSetXmax xid tup = tup\<lparr>t_xmax := xid\<rparr>"

definition HeapTupleHeaderGetRawCommandId :: "HeapTupleHeaderData \<Rightarrow> CommandId" where
  "HeapTupleHeaderGetRawCommandId tup = t_field3 tup"

definition HeapTupleHeaderSetCmin :: "CommandId \<Rightarrow> HeapTupleHeaderData \<Rightarrow> HeapTupleHeaderData" where
  "HeapTupleHeaderSetCmin cid tup = tup\<lparr>t_field3 := cid, t_infomask := t_infomask tup AND NOT HEAP_COMBOCID\<rparr>"

definition HeapTupleHeaderSetCmax :: "CommandId \<Rightarrow> bool \<Rightarrow> HeapTupleHeaderData \<Rightarrow> HeapTupleHeaderData" where
  "HeapTupleHeaderSetCmax cid iscombo tup =
     tup\<lparr>t_field3 := cid,
        t_infomask := (if iscombo then t_infomask tup OR HEAP_COMBOCID else t_infomask tup AND NOT HEAP_COMBOCID)\<rparr>"

definition HeapTupleHeaderGetXvac :: "HeapTupleHeaderData \<Rightarrow> TransactionId" where
  "HeapTupleHeaderGetXvac tup = (if has (t_infomask tup) HEAP_MOVED then t_field3 tup else InvalidTransactionId)"

definition HeapTupleHeaderIsSpeculative :: "HeapTupleHeaderData \<Rightarrow> bool" where
  "HeapTupleHeaderIsSpeculative tup \<longleftrightarrow> ip_posid (t_ctid tup) = SpecTokenOffsetNumber"

definition HeapTupleHeaderGetSpeculativeToken :: "HeapTupleHeaderData \<Rightarrow> uint32" where
  "HeapTupleHeaderGetSpeculativeToken tup = ip_blkid (t_ctid tup)"

definition HeapTupleHeaderIndicatesMovedPartitions :: "HeapTupleHeaderData \<Rightarrow> bool" where
  "HeapTupleHeaderIndicatesMovedPartitions tup \<longleftrightarrow> ItemPointerIndicatesMovedPartitions (t_ctid tup)"

definition HeapTupleHeaderIsHotUpdated :: "HeapTupleHeaderData \<Rightarrow> bool" where
  "HeapTupleHeaderIsHotUpdated tup \<longleftrightarrow>
     has (t_infomask2 tup) HEAP_HOT_UPDATED \<and> \<not> has (t_infomask tup) HEAP_XMAX_INVALID \<and> \<not> HeapTupleHeaderXminInvalid tup"

lemmas heap_get = HeapTupleHeaderGetRawXmin_def HeapTupleHeaderGetRawXmax_def HeapTupleHeaderGetRawCommandId_def

end
