(* ===== verification/ComboCid.thy ===== *)
theory ComboCid
  imports HeapTuple
begin

text \<open>
  Combo command ids, from \<^verbatim>\<open>utils/time/combocid.c\<close>.  A tuple inserted and deleted by one transaction has one
  field for two command ids; the field then holds an index into a backend-local array of pairs, and a hash
  table finds the index of a pair that is already there.  Both live until the end of the transaction, and
  can be handed to parallel workers in serialized form.
\<close>

section \<open>The array and the hash table\<close>

type_synonym ComboCidKey = "CommandId \<times> CommandId"

record ComboCidState =
  comboHash :: "(ComboCidKey \<rightharpoonup> CommandId) option"
  comboCids :: "ComboCidKey list"
  sizeComboCids :: nat

definition CCID_ARRAY_SIZE :: nat where "CCID_ARRAY_SIZE = 100"

definition AtEOXact_ComboCid :: "ComboCidState \<Rightarrow> ComboCidState" where
  "AtEOXact_ComboCid st = st\<lparr>comboHash := None, comboCids := [], sizeComboCids := 0\<rparr>"

definition GetComboCommandId :: "CommandId \<Rightarrow> CommandId \<Rightarrow> ComboCidState \<Rightarrow> CommandId \<times> ComboCidState" where
  "GetComboCommandId cmin cmax st =
     (let st = (if comboHash st = None then st\<lparr>comboHash := Some Map.empty, comboCids := [], sizeComboCids := CCID_ARRAY_SIZE\<rparr> else st);
          st = (if sizeComboCids st \<le> length (comboCids st) then st\<lparr>sizeComboCids := sizeComboCids st * 2\<rparr> else st);
          table = the (comboHash st)
      in case table (cmin, cmax) of
           Some combocid \<Rightarrow> (combocid, st)
         | None \<Rightarrow>
             let combocid = of_nat (length (comboCids st))
             in (combocid, st\<lparr>comboCids := comboCids st @ [(cmin, cmax)], comboHash := Some (table((cmin, cmax) \<mapsto> combocid))\<rparr>))"

definition GetRealCmin :: "ComboCidState \<Rightarrow> CommandId \<Rightarrow> CommandId" where
  "GetRealCmin st combocid = fst (comboCids st ! unat combocid)"

definition GetRealCmax :: "ComboCidState \<Rightarrow> CommandId \<Rightarrow> CommandId" where
  "GetRealCmax st combocid = snd (comboCids st ! unat combocid)"

section \<open>Command ids of a tuple\<close>

definition HeapTupleHeaderGetCmin :: "ComboCidState \<Rightarrow> HeapTupleHeaderData \<Rightarrow> CommandId" where
  "HeapTupleHeaderGetCmin st tup =
     (let cid = HeapTupleHeaderGetRawCommandId tup
      in if has (t_infomask tup) HEAP_COMBOCID then GetRealCmin st cid else cid)"

definition HeapTupleHeaderGetCmax :: "ComboCidState \<Rightarrow> HeapTupleHeaderData \<Rightarrow> CommandId" where
  "HeapTupleHeaderGetCmax st tup =
     (let cid = HeapTupleHeaderGetRawCommandId tup
      in if has (t_infomask tup) HEAP_COMBOCID then GetRealCmax st cid else cid)"

definition HeapTupleHeaderAdjustCmax ::
    "BackendState \<Rightarrow> HeapTupleHeaderData \<Rightarrow> CommandId \<Rightarrow> ComboCidState \<Rightarrow> CommandId \<times> bool \<times> ComboCidState" where
  "HeapTupleHeaderAdjustCmax be tup cmax st =
     (if \<not> HeapTupleHeaderXminCommitted tup \<and> is_current be (HeapTupleHeaderGetRawXmin tup)
      then let cmin = HeapTupleHeaderGetCmin st tup; (cmax, st) = GetComboCommandId cmin cmax st in (cmax, True, st)
      else (cmax, False, st))"

section \<open>Serialization\<close>

text \<open>The memory area as an array of 32-bit words: the number of pairs, then the pairs.\<close>

definition EstimateComboCIDStateSpace :: "ComboCidState \<Rightarrow> nat" where
  "EstimateComboCIDStateSpace st = 4 + 8 * length (comboCids st)"

definition SerializeComboCIDState :: "nat \<Rightarrow> ComboCidState \<Rightarrow> uint32 list option" where
  "SerializeComboCIDState maxsize st =
     (if 4 + 8 * length (comboCids st) > maxsize then None
      else Some (of_nat (length (comboCids st)) # concat (map (\<lambda>(cmin, cmax). [cmin, cmax]) (comboCids st))))"

fun restore_combo :: "nat \<Rightarrow> nat \<Rightarrow> uint32 list \<Rightarrow> ComboCidState \<Rightarrow> ComboCidState option" where
  "restore_combo i 0 keydata st = Some st"
| "restore_combo i (Suc n) (cmin # cmax # keydata) st =
     (let (cid, st) = GetComboCommandId cmin cmax st
      in if cid \<noteq> of_nat i then None else restore_combo (Suc i) n keydata st)"
| "restore_combo i (Suc n) keydata st = None"

definition RestoreComboCIDState :: "uint32 list \<Rightarrow> ComboCidState \<Rightarrow> ComboCidState option" where
  "RestoreComboCIDState area st =
     (case area of [] \<Rightarrow> None | n # keydata \<Rightarrow> restore_combo 0 (unat n) keydata st)"

section \<open>The invariant\<close>

text \<open>The hash table is the inverse of the array.\<close>

definition combo_ok :: "ComboCidState \<Rightarrow> bool" where
  "combo_ok st \<longleftrightarrow> length (comboCids st) < 2 ^ 32 \<and>
     (case comboHash st of
        None \<Rightarrow> comboCids st = []
      | Some table \<Rightarrow> distinct (comboCids st) \<and>
          (\<forall>k c. table k = Some c \<longleftrightarrow> unat c < length (comboCids st) \<and> comboCids st ! unat c = k))"

lemma combo_ok_end [simp]: "combo_ok (AtEOXact_ComboCid st)"
  by (simp add: combo_ok_def AtEOXact_ComboCid_def)

lemma GetComboCommandId_spec:
  assumes "combo_ok st" "Suc (length (comboCids st)) < 2 ^ 32" "GetComboCommandId cmin cmax st = (cid, st')"
  shows "combo_ok st'" "unat cid < length (comboCids st')" "comboCids st' ! unat cid = (cmin, cmax)"
    "comboCids st' = comboCids st \<and> (cmin, cmax) \<in> set (comboCids st) \<or>
     comboCids st' = comboCids st @ [(cmin, cmax)] \<and> (cmin, cmax) \<notin> set (comboCids st) \<and> cid = of_nat (length (comboCids st))"
proof -
  let ?n = "length (comboCids st)" and ?k = "(cmin, cmax)"
  define table where "table = (case comboHash st of None \<Rightarrow> Map.empty | Some h \<Rightarrow> h)"
  have inv: "distinct (comboCids st)" "table k = Some c \<longleftrightarrow> unat c < ?n \<and> comboCids st ! unat c = k" for k c
    using assms(1) by (cases "comboHash st"; cases k; simp add: combo_ok_def table_def)+
  have empty: "comboHash st = None \<Longrightarrow> comboCids st = []" using assms(1) by (simp add: combo_ok_def)
  have n: "unat (of_nat ?n :: uint32) = ?n" using assms(2) by (simp add: unat_of_nat)
  have miss: "table ?k = None \<longleftrightarrow> ?k \<notin> set (comboCids st)"
  proof -
    have "unat (of_nat i :: uint32) = i" if "i < ?n" for i using that assms(2) by (simp add: unat_of_nat)
    then have "?k \<in> set (comboCids st) \<longleftrightarrow> (\<exists>c. table ?k = Some c)" unfolding inv(2) in_set_conv_nth by metis
    then show ?thesis by auto
  qed
  consider c where "table ?k = Some c" "cid = c" "comboCids st' = comboCids st" "comboHash st' = Some table"
    | "table ?k = None" "cid = of_nat ?n" "comboCids st' = comboCids st @ [?k]" "comboHash st' = Some (table(?k \<mapsto> of_nat ?n))"
    using empty assms(3) by (cases "comboHash st"; cases "table ?k") (auto simp: GetComboCommandId_def Let_def table_def split: if_splits)
  then have "combo_ok st' \<and> unat cid < length (comboCids st') \<and> comboCids st' ! unat cid = ?k \<and>
    (comboCids st' = comboCids st \<and> ?k \<in> set (comboCids st) \<or> comboCids st' = comboCids st @ [?k] \<and> ?k \<notin> set (comboCids st) \<and> cid = of_nat ?n)"
  proof cases
    case 1
    from 1(1) have "unat c < ?n" "comboCids st ! unat c = ?k" using inv(2) by blast+
    moreover from this have "?k \<in> set (comboCids st)" by (metis nth_mem)
    ultimately show ?thesis using 1 inv assms(2) by (simp add: combo_ok_def)
  next
    case 2
    have "(table(?k \<mapsto> of_nat ?n)) k = Some c \<longleftrightarrow> unat c < Suc ?n \<and> (comboCids st @ [?k]) ! unat c = k" for k c
      using inv(2) [of k c] 2(1) miss n word_unat_eq_iff [of c "of_nat ?n"] nth_mem [of "unat c" "comboCids st"]
      by (auto simp: nth_append less_Suc_eq)
    then show ?thesis using 2 inv(1) miss assms(2) n by (simp add: combo_ok_def)
  qed
  then show "combo_ok st'" "unat cid < length (comboCids st')" "comboCids st' ! unat cid = ?k"
    "comboCids st' = comboCids st \<and> ?k \<in> set (comboCids st) \<or> comboCids st' = comboCids st @ [?k] \<and> ?k \<notin> set (comboCids st) \<and> cid = of_nat ?n"
    by blast+
qed

lemma concat_pairs_restore:
  assumes "combo_ok st" "length (comboCids st) = i" "distinct (comboCids st @ ps)" "i + length ps < 2 ^ 32"
  shows "\<exists>st'. restore_combo i (length ps) (concat (map (\<lambda>(cmin, cmax). [cmin, cmax]) ps)) st = Some st' \<and>
    combo_ok st' \<and> comboCids st' = comboCids st @ ps"
  using assms
proof (induction ps arbitrary: i st)
  case (Cons p ps)
  obtain cmin cmax where p: "p = (cmin, cmax)" by (cases p)
  obtain cid st1 where get: "GetComboCommandId cmin cmax st = (cid, st1)" by (cases "GetComboCommandId cmin cmax st")
  have "Suc (length (comboCids st)) < 2 ^ 32" using Cons.prems(2,4) by simp
  note g = GetComboCommandId_spec [OF Cons.prems(1) this get]
  have st1: "comboCids st1 = comboCids st @ [p]" "cid = of_nat i" using g(4) Cons.prems(2,3) by (auto simp: p)
  have "\<exists>st'. restore_combo (Suc i) (length ps) (concat (map (\<lambda>(cmin, cmax). [cmin, cmax]) ps)) st1 = Some st' \<and>
      combo_ok st' \<and> comboCids st' = comboCids st1 @ ps"
    using g(1) st1 Cons.prems by (intro Cons.IH) simp_all
  then show ?case using get st1 by (simp add: p)
qed simp

section \<open>Properties\<close>

text \<open>C19:
  One field holds two command ids.  When a transaction deletes a tuple it has inserted itself,
  \<^verbatim>\<open>HeapTupleHeaderAdjustCmax\<close> followed by \<^verbatim>\<open>HeapTupleHeaderSetCmax\<close> loses neither: the inserting command id
  is read back as it was before, the deleting one as it was given.  The pairs of all other tuples stay as
  they are, and the array and the hash table remain inverse to each other.
\<close>

theorem combocid_roundtrip:
  assumes "combo_ok st" "Suc (length (comboCids st)) < 2 ^ 32"
    and "\<not> HeapTupleHeaderXminCommitted tup" "is_current be (HeapTupleHeaderGetRawXmin tup)"
    and "HeapTupleHeaderAdjustCmax be tup cmax st = (cid, iscombo, st')"
  shows "combo_ok st' \<and>
    HeapTupleHeaderGetCmin st' (HeapTupleHeaderSetCmax cid iscombo tup) = HeapTupleHeaderGetCmin st tup \<and>
    HeapTupleHeaderGetCmax st' (HeapTupleHeaderSetCmax cid iscombo tup) = cmax \<and>
    (\<forall>c. unat c < length (comboCids st) \<longrightarrow> GetRealCmin st' c = GetRealCmin st c \<and> GetRealCmax st' c = GetRealCmax st c)"
proof -
  let ?cmin = "HeapTupleHeaderGetCmin st tup"
  have get: "GetComboCommandId ?cmin cmax st = (cid, st')" and "iscombo"
    using assms(3-5) by (auto simp: HeapTupleHeaderAdjustCmax_def Let_def split: prod.splits)
  note g = GetComboCommandId_spec [OF assms(1,2) get]
  have "has (m OR HEAP_COMBOCID) HEAP_COMBOCID" for m
    by (simp add: has_def HEAP_COMBOCID_def bit.conj_disj_distrib2 or_eq_0_iff)
  then have "HeapTupleHeaderGetCmin st' (HeapTupleHeaderSetCmax cid iscombo tup) = ?cmin"
    "HeapTupleHeaderGetCmax st' (HeapTupleHeaderSetCmax cid iscombo tup) = cmax"
    using \<open>iscombo\<close> g(3) by (simp_all add: HeapTupleHeaderGetCmin_def HeapTupleHeaderGetCmax_def HeapTupleHeaderSetCmax_def
        HeapTupleHeaderGetRawCommandId_def GetRealCmin_def GetRealCmax_def)
  moreover have "GetRealCmin st' c = GetRealCmin st c \<and> GetRealCmax st' c = GetRealCmax st c" if "unat c < length (comboCids st)" for c
    using g(4) that by (auto simp: GetRealCmin_def GetRealCmax_def nth_append)
  ultimately show ?thesis using g(1) by blast
qed

definition deleting_backend :: BackendState where
  "deleting_backend =
     \<lparr>pgxactoff = 0, MyDatabaseId = 1, be_TransactionXmin = 3, RecentXmin = 3, cachedXidIsNotInProgress = InvalidTransactionId,
      be_fetch_cache = (InvalidTransactionId, 0, 0), currentCommandId = 4, XactTopFullTransactionId = FullTransactionIdFromEpochAndXid 0 700,
      ParallelCurrentXids = [], xact_stack = [], GlobalVisSharedRels = \<lparr>definitely_needed = InvalidFullTransactionId, maybe_needed = InvalidFullTransactionId\<rparr>,
      GlobalVisCatalogRels = \<lparr>definitely_needed = InvalidFullTransactionId, maybe_needed = InvalidFullTransactionId\<rparr>,
      GlobalVisDataRels = \<lparr>definitely_needed = InvalidFullTransactionId, maybe_needed = InvalidFullTransactionId\<rparr>,
      GlobalVisTempRels = \<lparr>definitely_needed = InvalidFullTransactionId, maybe_needed = InvalidFullTransactionId\<rparr>,
      ComputeXidHorizonsResultLastXmin = InvalidTransactionId\<rparr>"

definition own_tuple :: HeapTupleHeaderData where
  "own_tuple = \<lparr>t_xmin = 700, t_xmax = 0, t_field3 = 3, t_ctid = \<lparr>ip_blkid = 0, ip_posid = 1\<rparr>, t_infomask2 = 1, t_infomask = HEAP_XMAX_INVALID\<rparr>"

definition no_combos :: ComboCidState where
  "no_combos = \<lparr>comboHash = None, comboCids = [], sizeComboCids = 0\<rparr>"

theorem combocid_roundtrip_witness:
  "\<exists>cid st. HeapTupleHeaderAdjustCmax deleting_backend own_tuple 9 no_combos = (cid, True, st) \<and>
     HeapTupleHeaderGetCmin st (HeapTupleHeaderSetCmax cid True own_tuple) = 3 \<and>
     HeapTupleHeaderGetCmax st (HeapTupleHeaderSetCmax cid True own_tuple) = 9"
proof -
  have own: "\<not> HeapTupleHeaderXminCommitted own_tuple" "is_current deleting_backend (HeapTupleHeaderGetRawXmin own_tuple)"
    by (simp_all add: own_tuple_def HeapTupleHeaderXminCommitted_def heap_bits heap_get TransactionIdIsCurrentTransactionId_def deleting_backend_def
        TransactionIdIsNormal_def FirstNormalTransactionId_def XidFromFullTransactionId_def FullTransactionIdFromEpochAndXid_def)
  have st: "combo_ok no_combos" "Suc (length (comboCids no_combos)) < 2 ^ 32" by (simp_all add: combo_ok_def no_combos_def)
  obtain cid st where adj: "HeapTupleHeaderAdjustCmax deleting_backend own_tuple 9 no_combos = (cid, True, st)"
    using own that by (cases "GetComboCommandId (HeapTupleHeaderGetCmin no_combos own_tuple) 9 no_combos")
      (simp add: HeapTupleHeaderAdjustCmax_def Let_def)
  have "HeapTupleHeaderGetCmin no_combos own_tuple = 3"
    by (simp add: HeapTupleHeaderGetCmin_def own_tuple_def heap_get has_def heap_bits)
  then show ?thesis using combocid_roundtrip [OF st own adj] adj by auto
qed

text \<open>C40:
  A parallel worker resolves combo command ids as its leader does: what \<^verbatim>\<open>SerializeComboCIDState\<close> writes into
  an area of the estimated size, \<^verbatim>\<open>RestoreComboCIDState\<close> reads back without an error into the same array.
\<close>

theorem combocid_serialize_roundtrip:
  assumes "combo_ok st" "combo_ok worker" "comboCids worker = []"
  shows "\<exists>area worker'. SerializeComboCIDState (EstimateComboCIDStateSpace st) st = Some area \<and>
    RestoreComboCIDState area worker = Some worker' \<and> combo_ok worker' \<and> comboCids worker' = comboCids st"
proof -
  have "distinct (comboCids st)" "length (comboCids st) < 2 ^ 32" using assms(1) by (auto simp: combo_ok_def split: option.splits)
  moreover from this(2) have "unat (of_nat (length (comboCids st)) :: uint32) = length (comboCids st)" by (simp add: unat_of_nat)
  ultimately show ?thesis
    using concat_pairs_restore [of worker 0 "comboCids st"] assms(2,3)
    by (simp add: SerializeComboCIDState_def EstimateComboCIDStateSpace_def RestoreComboCIDState_def)
qed

theorem combocid_serialize_roundtrip_witness:
  "\<exists>st area worker. GetComboCommandId 3 9 no_combos = (0, st) \<and> SerializeComboCIDState (EstimateComboCIDStateSpace st) st = Some area \<and>
     RestoreComboCIDState area no_combos = Some worker \<and> comboCids worker = [(3, 9)]"
proof -
  have no: "combo_ok no_combos" "comboCids no_combos = []" by (simp_all add: combo_ok_def no_combos_def)
  obtain st where st: "GetComboCommandId 3 9 no_combos = (0, st)" "comboCids st = [(3, 9)]"
    by (simp add: GetComboCommandId_def no_combos_def CCID_ARRAY_SIZE_def)
  have "combo_ok st" using GetComboCommandId_spec(1) [OF no(1) _ st(1)] no(2) by simp
  then show ?thesis using combocid_serialize_roundtrip [OF _ no] st by metis
qed

end
