(* ===== verification/Visibility.thy ===== *)
theory Visibility
  imports ComboCid
begin

text \<open>
  The visibility rules of heap tuples, from \<^verbatim>\<open>access/heap/heapam_visibility.c\<close>.  A test looks at the header of
  one tuple and asks about the transactions in it; on the way it may set hint bits in the header and fill
  the caches of the backend.  An action of type \<open>'a vis\<close> maps the state to a result and a new state, to an
  error, or to \<open>None\<close> where a lookup does not return.
\<close>

section \<open>State and actions\<close>

text \<open>What a test reads and does not change; \<open>ve_self\<close> is \<^verbatim>\<open>htup->t_self\<close>, \<open>ve_my\<close> is \<^verbatim>\<open>MyBackendId\<close>.\<close>

record VisEnv =
  ve_shm :: ShmemState
  ve_my :: nat
  ve_combo :: ComboCidState
  ve_flush_local :: XLogRecPtr
  ve_flush :: XLogRecPtr
  ve_permanent :: bool
  ve_page_lsn :: XLogRecPtr
  ve_self :: ItemPointerData

text \<open>What it changes; \<open>vs_dirty\<close> is set by \<^verbatim>\<open>MarkBufferDirtyHint\<close>.\<close>

record VisState =
  vs_be :: BackendState
  vs_cache :: mxcache
  vs_mx :: MultiXactState
  vs_tuple :: HeapTupleHeaderData
  vs_dirty :: bool

datatype vis_error = VisLookup lookup_error | VisMulti mx_error

type_synonym 'a vis = "VisState \<Rightarrow> (vis_error + 'a \<times> VisState) option"

definition vret :: "'a \<Rightarrow> 'a vis" where
  "vret x vs = Some (Inr (x, vs))"

definition vbind :: "'a vis \<Rightarrow> ('a \<Rightarrow> 'b vis) \<Rightarrow> 'b vis" where
  "vbind m k vs = (case m vs of None \<Rightarrow> None | Some (Inl e) \<Rightarrow> Some (Inl e) | Some (Inr (x, vs)) \<Rightarrow> k x vs)"

definition vif :: "bool vis \<Rightarrow> 'a vis \<Rightarrow> 'a vis \<Rightarrow> 'a vis" where
  "vif c a b = vbind c (\<lambda>t. if t then a else b)"

definition header :: "(HeapTupleHeaderData \<Rightarrow> 'a vis) \<Rightarrow> 'a vis" where
  "header f vs = f (vs_tuple vs) vs"

text \<open>A lookup that uses the backend's caches.\<close>

definition vlookup :: "(BackendState \<Rightarrow> (lookup_error + 'a \<times> BackendState) option) \<Rightarrow> 'a vis" where
  "vlookup f vs =
     (case f (vs_be vs) of
        None \<Rightarrow> None
      | Some (Inl e) \<Rightarrow> Some (Inl (VisLookup e))
      | Some (Inr (x, be)) \<Rightarrow> Some (Inr (x, vs\<lparr>vs_be := be\<rparr>)))"

definition vis_current :: "TransactionId \<Rightarrow> bool vis" where
  "vis_current xid vs = Some (Inr (is_current (vs_be vs) xid, vs))"

definition vis_in_progress :: "VisEnv \<Rightarrow> TransactionId \<Rightarrow> bool vis" where
  "vis_in_progress env xid = vlookup (\<lambda>be. TransactionIdIsInProgress xid be (ve_shm env))"

definition vis_did_commit :: "VisEnv \<Rightarrow> TransactionId \<Rightarrow> bool vis" where
  "vis_did_commit env xid = vlookup (\<lambda>be. did_commit xid be (ve_shm env))"

definition vis_in_snapshot :: "VisEnv \<Rightarrow> SnapshotData \<Rightarrow> TransactionId \<Rightarrow> bool vis" where
  "vis_in_snapshot env snapshot xid = vlookup (\<lambda>be.
     case XidInMVCCSnapshot (be_TransactionXmin be) (shm_subtrans (ve_shm env)) xid snapshot of
       None \<Rightarrow> None
     | Some (Inl e) \<Rightarrow> Some (Inl (TopmostLookup e))
     | Some (Inr a) \<Rightarrow> Some (Inr (a, be)))"

definition vis_multi_running :: "VisEnv \<Rightarrow> MultiXactId \<Rightarrow> bool \<Rightarrow> bool vis" where
  "vis_multi_running env multi isLockOnly vs =
     (case MultiXactIdIsRunning (ve_my env) multi isLockOnly (vs_be vs) (ve_shm env) (vs_cache vs) (vs_mx vs) of
        None \<Rightarrow> None
      | Some (Inl e) \<Rightarrow> Some (Inl (VisMulti e))
      | Some (Inr (r, be, cache, mx)) \<Rightarrow> Some (Inr (r, vs\<lparr>vs_be := be, vs_cache := cache, vs_mx := mx\<rparr>)))"

section \<open>The updating transaction of a multixact\<close>

definition MultiXactIdGetUpdateXid ::
    "nat \<Rightarrow> MultiXactId \<Rightarrow> mxcache \<Rightarrow> MultiXactState \<Rightarrow> (mx_error + TransactionId \<times> mxcache \<times> MultiXactState) option" where
  "MultiXactIdGetUpdateXid my xmax cache mx =
     (case GetMultiXactIdMembers my xmax False False cache mx of
        None \<Rightarrow> None
      | Some (Inl e) \<Rightarrow> Some (Inl e)
      | Some (Inr (members, cache, mx)) \<Rightarrow>
          Some (Inr (case members of
                       None \<Rightarrow> InvalidTransactionId
                     | Some ms \<Rightarrow> (case find (\<lambda>m. ISUPDATE_from_mxstatus (mx_status m)) ms of
                                    None \<Rightarrow> InvalidTransactionId
                                  | Some m \<Rightarrow> mx_xid m),
                     cache, mx)))"

definition HeapTupleGetUpdateXid :: "VisEnv \<Rightarrow> TransactionId vis" where
  "HeapTupleGetUpdateXid env vs =
     (case MultiXactIdGetUpdateXid (ve_my env) (HeapTupleHeaderGetRawXmax (vs_tuple vs)) (vs_cache vs) (vs_mx vs) of
        None \<Rightarrow> None
      | Some (Inl e) \<Rightarrow> Some (Inl (VisMulti e))
      | Some (Inr (xid, cache, mx)) \<Rightarrow> Some (Inr (xid, vs\<lparr>vs_cache := cache, vs_mx := mx\<rparr>)))"

definition HeapTupleHeaderGetUpdateXid :: "VisEnv \<Rightarrow> TransactionId vis" where
  "HeapTupleHeaderGetUpdateXid env =
     header (\<lambda>tup. let m = t_infomask tup in
       if \<not> has m HEAP_XMAX_INVALID \<and> has m HEAP_XMAX_IS_MULTI \<and> \<not> has m HEAP_XMAX_LOCK_ONLY
       then HeapTupleGetUpdateXid env else vret (HeapTupleHeaderGetRawXmax tup))"

section \<open>Hint bits\<close>

text \<open>Outside recovery: the local copy of the flush position first, then the shared one.\<close>

definition XLogNeedsFlush :: "VisEnv \<Rightarrow> XLogRecPtr \<Rightarrow> bool" where
  "XLogNeedsFlush env record =
     (if record \<le> ve_flush_local env then False else if record \<le> ve_flush env then False else True)"

definition SetHintBits :: "VisEnv \<Rightarrow> uint16 \<Rightarrow> TransactionId \<Rightarrow> unit vis" where
  "SetHintBits env infomask xid vs =
     (let tuple = vs_tuple vs;
          marked = Some (Inr ((), vs\<lparr>vs_tuple := tuple\<lparr>t_infomask := t_infomask tuple OR infomask\<rparr>, vs_dirty := True\<rparr>))
      in if TransactionIdIsValid xid then
           case TransactionIdGetCommitLSN xid (status_state (vs_be vs) (ve_shm env)) of
             Inl e \<Rightarrow> Some (Inl (VisLookup (StatusLookup e)))
           | Inr commitLSN \<Rightarrow>
               if ve_permanent env \<and> XLogNeedsFlush env commitLSN \<and> ve_page_lsn env < commitLSN
               then Some (Inr ((), vs)) else marked
         else marked)"

definition hint :: "VisEnv \<Rightarrow> uint16 \<Rightarrow> TransactionId \<Rightarrow> 'a vis \<Rightarrow> 'a vis" where
  "hint env infomask xid rest = vbind (SetHintBits env infomask xid) (\<lambda>_. rest)"

section \<open>The inserting transaction\<close>

text \<open>
  The first half of a test, which is the same text in \<^verbatim>\<open>HeapTupleSatisfiesSelf\<close>, \<^verbatim>\<open>HeapTupleSatisfiesUpdate\<close>,
  \<^verbatim>\<open>HeapTupleSatisfiesDirty\<close> and \<^verbatim>\<open>HeapTupleSatisfiesMVCC\<close> up to the parameters: \<open>busy\<close> is the test for a
  running transaction, \<open>invisible\<close> what is returned for a tuple that never came to be, \<open>hinted\<close> what is done
  when the hint bit is set, \<open>own\<close> for a tuple of the current transaction, \<open>inserting\<close> for one of a
  running transaction, and \<open>rest\<close> when the inserting transaction has committed.
\<close>

definition moved_tuple :: "VisEnv \<Rightarrow> (TransactionId \<Rightarrow> bool vis) \<Rightarrow> 'a \<Rightarrow> 'a vis \<Rightarrow> HeapTupleHeaderData \<Rightarrow> 'a vis" where
  "moved_tuple env busy invisible rest tuple =
     (let xvac = HeapTupleHeaderGetXvac tuple
      in if has (t_infomask tuple) HEAP_MOVED_OFF then
           vif (vis_current xvac) (vret invisible)
             (vif (busy xvac) rest
               (vif (vis_did_commit env xvac)
                 (hint env HEAP_XMIN_INVALID InvalidTransactionId (vret invisible))
                 (hint env HEAP_XMIN_COMMITTED InvalidTransactionId rest)))
         else
           vif (vis_current xvac) rest
             (vif (busy xvac) (vret invisible)
               (vif (vis_did_commit env xvac)
                 (hint env HEAP_XMIN_COMMITTED InvalidTransactionId rest)
                 (hint env HEAP_XMIN_INVALID InvalidTransactionId (vret invisible)))))"

definition check_xmin ::
    "VisEnv \<Rightarrow> (TransactionId \<Rightarrow> bool vis) \<Rightarrow> 'a \<Rightarrow> 'a vis \<Rightarrow> 'a vis \<Rightarrow> 'a vis \<Rightarrow> 'a vis \<Rightarrow> 'a vis" where
  "check_xmin env busy invisible hinted own inserting rest =
     header (\<lambda>tuple. let xmin = HeapTupleHeaderGetRawXmin tuple in
       if HeapTupleHeaderXminCommitted tuple then hinted
       else if HeapTupleHeaderXminInvalid tuple then vret invisible
       else if has (t_infomask tuple) HEAP_MOVED_OFF \<or> has (t_infomask tuple) HEAP_MOVED_IN
       then moved_tuple env busy invisible rest tuple
       else vif (vis_current xmin) own
              (vif (busy xmin) inserting
                (vif (vis_did_commit env xmin)
                  (hint env HEAP_XMIN_COMMITTED xmin rest)
                  (hint env HEAP_XMIN_INVALID InvalidTransactionId (vret invisible)))))"

section \<open>Visible for itself\<close>

text \<open>A tuple of the current transaction, in \<^verbatim>\<open>HeapTupleSatisfiesSelf\<close> and \<^verbatim>\<open>HeapTupleSatisfiesDirty\<close>.\<close>

definition own_self :: "VisEnv \<Rightarrow> bool vis" where
  "own_self env =
     header (\<lambda>tuple. let m = t_infomask tuple in
       if has m HEAP_XMAX_INVALID then vret True
       else if HEAP_XMAX_IS_LOCKED_ONLY m then vret True
       else if has m HEAP_XMAX_IS_MULTI
       then vbind (HeapTupleGetUpdateXid env) (\<lambda>xmax. vif (vis_current xmax) (vret False) (vret True))
       else vif (vis_current (HeapTupleHeaderGetRawXmax tuple)) (vret False)
              (hint env HEAP_XMAX_INVALID InvalidTransactionId (vret True)))"

definition self_xmax :: "VisEnv \<Rightarrow> bool vis" where
  "self_xmax env =
     header (\<lambda>tuple. let m = t_infomask tuple; xmax = HeapTupleHeaderGetRawXmax tuple in
       if has m HEAP_XMAX_INVALID then vret True
       else if has m HEAP_XMAX_COMMITTED then vret (HEAP_XMAX_IS_LOCKED_ONLY m)
       else if has m HEAP_XMAX_IS_MULTI then
         if HEAP_XMAX_IS_LOCKED_ONLY m then vret True
         else vbind (HeapTupleGetUpdateXid env) (\<lambda>xmax.
                vif (vis_current xmax) (vret False)
                  (vif (vis_in_progress env xmax) (vret True)
                    (vif (vis_did_commit env xmax) (vret False) (vret True))))
       else vif (vis_current xmax) (vret (HEAP_XMAX_IS_LOCKED_ONLY m))
              (vif (vis_in_progress env xmax) (vret True)
                (vif (vis_did_commit env xmax)
                  (if HEAP_XMAX_IS_LOCKED_ONLY m then hint env HEAP_XMAX_INVALID InvalidTransactionId (vret True)
                   else hint env HEAP_XMAX_COMMITTED xmax (vret False))
                  (hint env HEAP_XMAX_INVALID InvalidTransactionId (vret True)))))"

definition HeapTupleSatisfiesSelf :: "VisEnv \<Rightarrow> bool vis" where
  "HeapTupleSatisfiesSelf env =
     check_xmin env (vis_in_progress env) False (self_xmax env) (own_self env) (vret False) (self_xmax env)"

definition HeapTupleSatisfiesAny :: "bool vis" where
  "HeapTupleSatisfiesAny = vret True"

definition HeapTupleSatisfiesToast :: "VisEnv \<Rightarrow> bool vis" where
  "HeapTupleSatisfiesToast env =
     header (\<lambda>tuple.
       if HeapTupleHeaderXminCommitted tuple then vret True
       else if HeapTupleHeaderXminInvalid tuple then vret False
       else if has (t_infomask tuple) HEAP_MOVED_OFF \<or> has (t_infomask tuple) HEAP_MOVED_IN
       then moved_tuple env (vis_in_progress env) False (vret True) tuple
       else vret (TransactionIdIsValid (HeapTupleHeaderGetXmin tuple)))"

section \<open>Updating\<close>

datatype TM_Result = TM_Ok | TM_Invisible | TM_SelfModified | TM_Updated | TM_Deleted | TM_BeingModified | TM_WouldBlock

definition self_modified :: "VisEnv \<Rightarrow> CommandId \<Rightarrow> HeapTupleHeaderData \<Rightarrow> TM_Result" where
  "self_modified env curcid tuple = (if HeapTupleHeaderGetCmax (ve_combo env) tuple \<ge> curcid then TM_SelfModified else TM_Invisible)"

definition other_modified :: "VisEnv \<Rightarrow> HeapTupleHeaderData \<Rightarrow> TM_Result" where
  "other_modified env tuple = (if \<not> ItemPointerEquals (ve_self env) (t_ctid tuple) then TM_Updated else TM_Deleted)"

definition own_update :: "VisEnv \<Rightarrow> CommandId \<Rightarrow> TM_Result vis" where
  "own_update env curcid =
     header (\<lambda>tuple. let m = t_infomask tuple; xmax = HeapTupleHeaderGetRawXmax tuple in
       if HeapTupleHeaderGetCmin (ve_combo env) tuple \<ge> curcid then vret TM_Invisible
       else if has m HEAP_XMAX_INVALID then vret TM_Ok
       else if HEAP_XMAX_IS_LOCKED_ONLY m then
         if has m HEAP_XMAX_IS_MULTI then vif (vis_multi_running env xmax True) (vret TM_BeingModified) (vret TM_Ok)
         else vif (vis_in_progress env xmax) (vret TM_BeingModified) (vret TM_Ok)
       else if has m HEAP_XMAX_IS_MULTI then
         vbind (HeapTupleGetUpdateXid env) (\<lambda>updater.
           vif (vis_current updater) (vret (self_modified env curcid tuple))
             (vif (vis_multi_running env xmax False) (vret TM_BeingModified) (vret TM_Ok)))
       else vif (vis_current xmax) (vret (self_modified env curcid tuple))
              (hint env HEAP_XMAX_INVALID InvalidTransactionId (vret TM_Ok)))"

definition update_xmax :: "VisEnv \<Rightarrow> CommandId \<Rightarrow> TM_Result vis" where
  "update_xmax env curcid =
     header (\<lambda>tuple. let m = t_infomask tuple; xmax = HeapTupleHeaderGetRawXmax tuple in
       if has m HEAP_XMAX_INVALID then vret TM_Ok
       else if has m HEAP_XMAX_COMMITTED then
         if HEAP_XMAX_IS_LOCKED_ONLY m then vret TM_Ok else vret (other_modified env tuple)
       else if has m HEAP_XMAX_IS_MULTI then
         if HEAP_LOCKED_UPGRADED m then vret TM_Ok
         else if HEAP_XMAX_IS_LOCKED_ONLY m then
           vif (vis_multi_running env xmax True) (vret TM_BeingModified)
             (hint env HEAP_XMAX_INVALID InvalidTransactionId (vret TM_Ok))
         else
           vbind (HeapTupleGetUpdateXid env) (\<lambda>updater.
             vif (if TransactionIdIsValid updater then vret False else vis_multi_running env xmax False) (vret TM_BeingModified)
               (vif (vis_current updater) (vret (self_modified env curcid tuple))
                 (vif (vis_multi_running env xmax False) (vret TM_BeingModified)
                   (vif (vis_did_commit env updater) (vret (other_modified env tuple))
                     (vif (vis_multi_running env xmax False) (vret TM_BeingModified)
                       (hint env HEAP_XMAX_INVALID InvalidTransactionId (vret TM_Ok)))))))
       else
         vif (vis_current xmax)
           (vret (if HEAP_XMAX_IS_LOCKED_ONLY m then TM_BeingModified else self_modified env curcid tuple))
           (vif (vis_in_progress env xmax) (vret TM_BeingModified)
             (vif (vis_did_commit env xmax)
               (if HEAP_XMAX_IS_LOCKED_ONLY m then hint env HEAP_XMAX_INVALID InvalidTransactionId (vret TM_Ok)
                else hint env HEAP_XMAX_COMMITTED xmax (vret (other_modified env tuple)))
               (hint env HEAP_XMAX_INVALID InvalidTransactionId (vret TM_Ok)))))"

definition HeapTupleSatisfiesUpdate :: "VisEnv \<Rightarrow> CommandId \<Rightarrow> TM_Result vis" where
  "HeapTupleSatisfiesUpdate env curcid =
     check_xmin env (vis_in_progress env) TM_Invisible (update_xmax env curcid) (own_update env curcid) (vret TM_Invisible)
       (update_xmax env curcid)"

section \<open>Including open transactions\<close>

text \<open>
  \<^verbatim>\<open>HeapTupleSatisfiesDirty\<close> also stores the running transactions that affect the tuple into the snapshot it
  is given; these are the fields besides the answer.
\<close>

record DirtyResult =
  d_visible :: bool
  d_xmin :: TransactionId
  d_xmax :: TransactionId
  d_speculativeToken :: uint32

definition dirty :: "bool \<Rightarrow> DirtyResult" where
  "dirty visible = \<lparr>d_visible = visible, d_xmin = InvalidTransactionId, d_xmax = InvalidTransactionId, d_speculativeToken = 0\<rparr>"

definition dirty_inserting :: "DirtyResult vis" where
  "dirty_inserting =
     header (\<lambda>tuple.
       vret ((dirty True)\<lparr>d_xmin := HeapTupleHeaderGetRawXmin tuple,
         d_speculativeToken := (if HeapTupleHeaderIsSpeculative tuple then HeapTupleHeaderGetSpeculativeToken tuple else 0)\<rparr>))"

definition dirty_xmax :: "VisEnv \<Rightarrow> DirtyResult vis" where
  "dirty_xmax env =
     header (\<lambda>tuple. let m = t_infomask tuple; xmax = HeapTupleHeaderGetRawXmax tuple in
       if has m HEAP_XMAX_INVALID then vret (dirty True)
       else if has m HEAP_XMAX_COMMITTED then vret (dirty (HEAP_XMAX_IS_LOCKED_ONLY m))
       else if has m HEAP_XMAX_IS_MULTI then
         if HEAP_XMAX_IS_LOCKED_ONLY m then vret (dirty True)
         else vbind (HeapTupleGetUpdateXid env) (\<lambda>xmax.
                vif (vis_current xmax) (vret (dirty False))
                  (vif (vis_in_progress env xmax) (vret ((dirty True)\<lparr>d_xmax := xmax\<rparr>))
                    (vif (vis_did_commit env xmax) (vret (dirty False)) (vret (dirty True)))))
       else vif (vis_current xmax) (vret (dirty (HEAP_XMAX_IS_LOCKED_ONLY m)))
              (vif (vis_in_progress env xmax)
                (vret (if HEAP_XMAX_IS_LOCKED_ONLY m then dirty True else (dirty True)\<lparr>d_xmax := xmax\<rparr>))
                (vif (vis_did_commit env xmax)
                  (if HEAP_XMAX_IS_LOCKED_ONLY m then hint env HEAP_XMAX_INVALID InvalidTransactionId (vret (dirty True))
                   else hint env HEAP_XMAX_COMMITTED xmax (vret (dirty False)))
                  (hint env HEAP_XMAX_INVALID InvalidTransactionId (vret (dirty True))))))"

definition HeapTupleSatisfiesDirty :: "VisEnv \<Rightarrow> DirtyResult vis" where
  "HeapTupleSatisfiesDirty env =
     check_xmin env (vis_in_progress env) (dirty False) (dirty_xmax env) (vbind (own_self env) (\<lambda>r. vret (dirty r)))
       dirty_inserting (dirty_xmax env)"

section \<open>Visible to a snapshot\<close>

definition own_mvcc :: "VisEnv \<Rightarrow> SnapshotData \<Rightarrow> bool vis" where
  "own_mvcc env snapshot =
     header (\<lambda>tuple. let m = t_infomask tuple in
       if HeapTupleHeaderGetCmin (ve_combo env) tuple \<ge> snap_curcid snapshot then vret False
       else if has m HEAP_XMAX_INVALID then vret True
       else if HEAP_XMAX_IS_LOCKED_ONLY m then vret True
       else if has m HEAP_XMAX_IS_MULTI then
         vbind (HeapTupleGetUpdateXid env) (\<lambda>xmax.
           vif (vis_current xmax) (vret (HeapTupleHeaderGetCmax (ve_combo env) tuple \<ge> snap_curcid snapshot)) (vret True))
       else vif (vis_current (HeapTupleHeaderGetRawXmax tuple))
              (vret (HeapTupleHeaderGetCmax (ve_combo env) tuple \<ge> snap_curcid snapshot))
              (hint env HEAP_XMAX_INVALID InvalidTransactionId (vret True)))"

definition mvcc_xmax :: "VisEnv \<Rightarrow> SnapshotData \<Rightarrow> bool vis" where
  "mvcc_xmax env snapshot =
     header (\<lambda>tuple. let m = t_infomask tuple; xmax = HeapTupleHeaderGetRawXmax tuple in
       if has m HEAP_XMAX_INVALID then vret True
       else if HEAP_XMAX_IS_LOCKED_ONLY m then vret True
       else if has m HEAP_XMAX_IS_MULTI then
         vbind (HeapTupleGetUpdateXid env) (\<lambda>xmax.
           vif (vis_current xmax) (vret (HeapTupleHeaderGetCmax (ve_combo env) tuple \<ge> snap_curcid snapshot))
             (vif (vis_in_snapshot env snapshot xmax) (vret True)
               (vif (vis_did_commit env xmax) (vret False) (vret True))))
       else if \<not> has m HEAP_XMAX_COMMITTED then
         vif (vis_current xmax) (vret (HeapTupleHeaderGetCmax (ve_combo env) tuple \<ge> snap_curcid snapshot))
           (vif (vis_in_snapshot env snapshot xmax) (vret True)
             (vif (vis_did_commit env xmax)
               (hint env HEAP_XMAX_COMMITTED xmax (vret False))
               (hint env HEAP_XMAX_INVALID InvalidTransactionId (vret True))))
       else vif (vis_in_snapshot env snapshot xmax) (vret True) (vret False))"

definition mvcc_hinted :: "VisEnv \<Rightarrow> SnapshotData \<Rightarrow> bool vis" where
  "mvcc_hinted env snapshot =
     header (\<lambda>tuple.
       if HeapTupleHeaderXminFrozen tuple then mvcc_xmax env snapshot
       else vif (vis_in_snapshot env snapshot (HeapTupleHeaderGetRawXmin tuple)) (vret False) (mvcc_xmax env snapshot))"

definition HeapTupleSatisfiesMVCC :: "VisEnv \<Rightarrow> SnapshotData \<Rightarrow> bool vis" where
  "HeapTupleSatisfiesMVCC env snapshot =
     check_xmin env (vis_in_snapshot env snapshot) False (mvcc_hinted env snapshot) (own_mvcc env snapshot) (vret False)
       (mvcc_xmax env snapshot)"

section \<open>Dead to everybody\<close>

datatype HTSV_Result = HEAPTUPLE_DEAD | HEAPTUPLE_LIVE | HEAPTUPLE_RECENTLY_DEAD | HEAPTUPLE_INSERT_IN_PROGRESS
  | HEAPTUPLE_DELETE_IN_PROGRESS

definition HeapTupleHeaderIsOnlyLocked :: "VisEnv \<Rightarrow> bool vis" where
  "HeapTupleHeaderIsOnlyLocked env =
     header (\<lambda>tuple. let m = t_infomask tuple in
       if has m HEAP_XMAX_INVALID then vret True
       else if has m HEAP_XMAX_LOCK_ONLY then vret True
       else if \<not> TransactionIdIsValid (HeapTupleHeaderGetRawXmax tuple) then vret True
       else if \<not> has m HEAP_XMAX_IS_MULTI then vret False
       else vbind (HeapTupleGetUpdateXid env) (\<lambda>xmax.
              vif (vis_current xmax) (vret False)
                (vif (vis_in_progress env xmax) (vret False)
                  (vif (vis_did_commit env xmax) (vret False) (vret True)))))"

text \<open>The second component of the result is \<^verbatim>\<open>*dead_after\<close>.\<close>

definition vacuum_xmax :: "VisEnv \<Rightarrow> (HTSV_Result \<times> TransactionId) vis" where
  "vacuum_xmax env =
     header (\<lambda>tuple. let m = t_infomask tuple; xmax = HeapTupleHeaderGetRawXmax tuple;
           live = vret (HEAPTUPLE_LIVE, InvalidTransactionId);
           deleting = vret (HEAPTUPLE_DELETE_IN_PROGRESS, InvalidTransactionId) in
       if has m HEAP_XMAX_INVALID then live
       else if HEAP_XMAX_IS_LOCKED_ONLY m then
         if has m HEAP_XMAX_COMMITTED then live
         else if has m HEAP_XMAX_IS_MULTI then
           vif (if HEAP_LOCKED_UPGRADED m then vret False else vis_multi_running env xmax True) live
             (hint env HEAP_XMAX_INVALID InvalidTransactionId live)
         else vif (vis_in_progress env xmax) live (hint env HEAP_XMAX_INVALID InvalidTransactionId live)
       else if has m HEAP_XMAX_IS_MULTI then
         vbind (HeapTupleGetUpdateXid env) (\<lambda>updater.
           vif (vis_in_progress env updater) deleting
             (vif (vis_did_commit env updater) (vret (HEAPTUPLE_RECENTLY_DEAD, updater))
               (vif (vis_multi_running env xmax False) live (hint env HEAP_XMAX_INVALID InvalidTransactionId live))))
       else if has m HEAP_XMAX_COMMITTED then vret (HEAPTUPLE_RECENTLY_DEAD, xmax)
       else vif (vis_in_progress env xmax) deleting
              (vif (vis_did_commit env xmax)
                (hint env HEAP_XMAX_COMMITTED xmax (vret (HEAPTUPLE_RECENTLY_DEAD, xmax)))
                (hint env HEAP_XMAX_INVALID InvalidTransactionId live)))"

definition own_vacuum :: "VisEnv \<Rightarrow> (HTSV_Result \<times> TransactionId) vis" where
  "own_vacuum env =
     header (\<lambda>tuple. let m = t_infomask tuple;
           inserting = vret (HEAPTUPLE_INSERT_IN_PROGRESS, InvalidTransactionId) in
       if has m HEAP_XMAX_INVALID then inserting
       else vif (if HEAP_XMAX_IS_LOCKED_ONLY m then vret True else HeapTupleHeaderIsOnlyLocked env) inserting
              (vbind (HeapTupleHeaderGetUpdateXid env) (\<lambda>updater.
                 vif (vis_current updater) (vret (HEAPTUPLE_DELETE_IN_PROGRESS, InvalidTransactionId)) inserting)))"

definition HeapTupleSatisfiesVacuumHorizon :: "VisEnv \<Rightarrow> (HTSV_Result \<times> TransactionId) vis" where
  "HeapTupleSatisfiesVacuumHorizon env =
     header (\<lambda>tuple. let m = t_infomask tuple; xmin = HeapTupleHeaderGetRawXmin tuple; xvac = HeapTupleHeaderGetXvac tuple;
           dead = vret (HEAPTUPLE_DEAD, InvalidTransactionId);
           deleting = vret (HEAPTUPLE_DELETE_IN_PROGRESS, InvalidTransactionId);
           inserting = vret (HEAPTUPLE_INSERT_IN_PROGRESS, InvalidTransactionId) in
       if HeapTupleHeaderXminCommitted tuple then vacuum_xmax env
       else if HeapTupleHeaderXminInvalid tuple then dead
       else if has m HEAP_MOVED_OFF then
         vif (vis_current xvac) deleting
           (vif (vis_in_progress env xvac) deleting
             (vif (vis_did_commit env xvac)
               (hint env HEAP_XMIN_INVALID InvalidTransactionId dead)
               (hint env HEAP_XMIN_COMMITTED InvalidTransactionId (vacuum_xmax env))))
       else if has m HEAP_MOVED_IN then
         vif (vis_current xvac) inserting
           (vif (vis_in_progress env xvac) inserting
             (vif (vis_did_commit env xvac)
               (hint env HEAP_XMIN_COMMITTED InvalidTransactionId (vacuum_xmax env))
               (hint env HEAP_XMIN_INVALID InvalidTransactionId dead)))
       else vif (vis_current xmin) (own_vacuum env)
              (vif (vis_in_progress env xmin) inserting
                (vif (vis_did_commit env xmin)
                  (hint env HEAP_XMIN_COMMITTED xmin (vacuum_xmax env))
                  (hint env HEAP_XMIN_INVALID InvalidTransactionId dead))))"

definition HeapTupleSatisfiesVacuum :: "VisEnv \<Rightarrow> TransactionId \<Rightarrow> HTSV_Result vis" where
  "HeapTupleSatisfiesVacuum env OldestXmin =
     vbind (HeapTupleSatisfiesVacuumHorizon env) (\<lambda>(res, dead_after).
       vret (if res = HEAPTUPLE_RECENTLY_DEAD \<and> TransactionIdPrecedes dead_after OldestXmin then HEAPTUPLE_DEAD else res))"

definition vis_removable :: "VisEnv \<Rightarrow> GlobalVisHorizonKind \<Rightarrow> TransactionId \<Rightarrow> bool vis" where
  "vis_removable env vistest xid vs =
     (let (r, be) = GlobalVisTestIsRemovableXid vistest xid (vs_be vs) (ve_shm env) in Some (Inr (r, vs\<lparr>vs_be := be\<rparr>)))"

definition HeapTupleSatisfiesNonVacuumable :: "VisEnv \<Rightarrow> GlobalVisHorizonKind \<Rightarrow> bool vis" where
  "HeapTupleSatisfiesNonVacuumable env vistest =
     vbind (HeapTupleSatisfiesVacuumHorizon env) (\<lambda>(res, dead_after).
       if res = HEAPTUPLE_RECENTLY_DEAD then vif (vis_removable env vistest dead_after) (vret False) (vret True)
       else vret (res \<noteq> HEAPTUPLE_DEAD))"

definition HeapTupleIsSurelyDead :: "VisEnv \<Rightarrow> GlobalVisHorizonKind \<Rightarrow> bool vis" where
  "HeapTupleIsSurelyDead env vistest =
     header (\<lambda>tuple. let m = t_infomask tuple in
       if \<not> HeapTupleHeaderXminCommitted tuple then vret (HeapTupleHeaderXminInvalid tuple)
       else if has m HEAP_XMAX_INVALID then vret False
       else if HEAP_XMAX_IS_LOCKED_ONLY m then vret False
       else if has m HEAP_XMAX_IS_MULTI then vret False
       else if \<not> has m HEAP_XMAX_COMMITTED then vret False
       else vis_removable env vistest (HeapTupleHeaderGetRawXmax tuple))"

section \<open>Logical decoding\<close>

text \<open>The arrays are sorted, so the binary search of the C library finds exactly their elements.\<close>

definition TransactionIdInArray :: "TransactionId \<Rightarrow> TransactionId list \<Rightarrow> bool" where
  "TransactionIdInArray xid xip \<longleftrightarrow> 0 < length xip \<and> xid \<in> set xip"

definition InvalidCommandId :: CommandId where "InvalidCommandId = NOT 0"

text \<open>
  \<open>resolve\<close> stands for \<^verbatim>\<open>ResolveCminCmaxDuringDecoding\<close>, which finds the command ids of a tuple in what has been
  decoded so far.
\<close>

definition historic_xmax :: "VisEnv \<Rightarrow> (HeapTupleHeaderData \<Rightarrow> (CommandId \<times> CommandId) option) \<Rightarrow> SnapshotData \<Rightarrow> TransactionId \<Rightarrow> bool vis" where
  "historic_xmax env resolve snapshot xmax =
     header (\<lambda>tuple.
       if TransactionIdInArray xmax (snap_subxip snapshot) then
         vret (case resolve tuple of
                 None \<Rightarrow> True
               | Some (cmin, cmax) \<Rightarrow> cmax = InvalidCommandId \<or> cmax \<ge> snap_curcid snapshot)
       else if TransactionIdPrecedes xmax (snap_xmin snapshot) then
         if has (t_infomask tuple) HEAP_XMAX_COMMITTED then vret False
         else vif (vis_did_commit env xmax) (vret False) (vret True)
       else if TransactionIdFollowsOrEquals xmax (snap_xmax snapshot) then vret True
       else if TransactionIdInArray xmax (snap_xip snapshot) then vret False
       else vret True)"

definition HeapTupleSatisfiesHistoricMVCC ::
    "VisEnv \<Rightarrow> (HeapTupleHeaderData \<Rightarrow> (CommandId \<times> CommandId) option) \<Rightarrow> SnapshotData \<Rightarrow> bool vis" where
  "HeapTupleSatisfiesHistoricMVCC env resolve snapshot =
     header (\<lambda>tuple. let m = t_infomask tuple; xmin = HeapTupleHeaderGetXmin tuple; xmax = HeapTupleHeaderGetRawXmax tuple;
           rest = (if has m HEAP_XMAX_INVALID then vret True
                   else if HEAP_XMAX_IS_LOCKED_ONLY m then vret True
                   else if has m HEAP_XMAX_IS_MULTI then vbind (HeapTupleGetUpdateXid env) (historic_xmax env resolve snapshot)
                   else historic_xmax env resolve snapshot xmax) in
       if HeapTupleHeaderXminInvalid tuple then vret False
       else if TransactionIdInArray xmin (snap_subxip snapshot) then
         (case resolve tuple of
            None \<Rightarrow> vret False
          | Some (cmin, cmax) \<Rightarrow> if cmin \<ge> snap_curcid snapshot then vret False else rest)
       else if TransactionIdPrecedes xmin (snap_xmin snapshot) then
         if HeapTupleHeaderXminCommitted tuple then rest else vif (vis_did_commit env xmin) rest (vret False)
       else if TransactionIdFollowsOrEquals xmin (snap_xmax snapshot) then vret False
       else if TransactionIdInArray xmin (snap_xip snapshot) then rest
       else vret False)"

section \<open>Any snapshot\<close>

datatype SnapshotType = SNAPSHOT_MVCC | SNAPSHOT_SELF | SNAPSHOT_ANY | SNAPSHOT_TOAST | SNAPSHOT_DIRTY
  | SNAPSHOT_HISTORIC_MVCC | SNAPSHOT_NON_VACUUMABLE

record Snapshot =
  snapshot_type :: SnapshotType
  snap_data :: SnapshotData
  snap_vistest :: GlobalVisHorizonKind
  snap_speculativeToken :: uint32

definition HeapTupleSatisfiesVisibility ::
    "VisEnv \<Rightarrow> (HeapTupleHeaderData \<Rightarrow> (CommandId \<times> CommandId) option) \<Rightarrow> Snapshot \<Rightarrow> (bool \<times> Snapshot) vis" where
  "HeapTupleSatisfiesVisibility env resolve snapshot =
     (let same = (\<lambda>m. vbind m (\<lambda>r. vret (r, snapshot)))
      in case snapshot_type snapshot of
           SNAPSHOT_MVCC \<Rightarrow> same (HeapTupleSatisfiesMVCC env (snap_data snapshot))
         | SNAPSHOT_SELF \<Rightarrow> same (HeapTupleSatisfiesSelf env)
         | SNAPSHOT_ANY \<Rightarrow> same HeapTupleSatisfiesAny
         | SNAPSHOT_TOAST \<Rightarrow> same (HeapTupleSatisfiesToast env)
         | SNAPSHOT_DIRTY \<Rightarrow>
             vbind (HeapTupleSatisfiesDirty env) (\<lambda>d.
               vret (d_visible d, snapshot\<lparr>snap_data := (snap_data snapshot)\<lparr>snap_xmin := d_xmin d, snap_xmax := d_xmax d\<rparr>,
                                          snap_speculativeToken := d_speculativeToken d\<rparr>))
         | SNAPSHOT_HISTORIC_MVCC \<Rightarrow> same (HeapTupleSatisfiesHistoricMVCC env resolve (snap_data snapshot))
         | SNAPSHOT_NON_VACUUMABLE \<Rightarrow> same (HeapTupleSatisfiesNonVacuumable env (snap_vistest snapshot)))"

end
