(* ===== verification/VisibilityRules.thy ===== *)
theory VisibilityRules
  imports Visibility
begin

text \<open>
  What the visibility tests decide, relative to the answers they get about transactions.  An action
  \<^emph>\<open>guarantees\<close> a postcondition if it returns without an error in a state that satisfies it.  The answers are
  the subject of two interfaces: what holds of a transaction now, and what a snapshot says of it; the
  theory of clusters implements them.
\<close>

section \<open>Guarantees\<close>

definition vpost :: "'a vis \<Rightarrow> ('a \<Rightarrow> VisState \<Rightarrow> bool) \<Rightarrow> VisState \<Rightarrow> bool" where
  "vpost m Q vs \<longleftrightarrow> (\<exists>x vs'. m vs = Some (Inr (x, vs')) \<and> Q x vs')"

lemma vpost_ret [simp]: "vpost (vret x) Q = Q x"
  by (rule ext) (simp add: vpost_def vret_def)

lemma vpost_bind [simp]: "vpost (vbind m k) Q = vpost m (\<lambda>x. vpost (k x) Q)"
  by (rule ext) (auto simp: vpost_def vbind_def split: option.splits sum.splits)

lemma vpost_if [simp]: "vpost (vif c a b) Q = vpost c (\<lambda>t. if t then vpost a Q else vpost b Q)"
  by (rule ext) (auto simp: vif_def vpost_def [of c])

lemma vpost_header [simp]: "vpost (header f) Q vs \<longleftrightarrow> vpost (f (vs_tuple vs)) Q vs"
  by (simp add: vpost_def header_def)

lemma vpost_hint [simp]: "vpost (hint env infomask xid rest) Q = vpost (SetHintBits env infomask xid) (\<lambda>_. vpost rest Q)"
  by (simp add: hint_def)

lemma vpost_current [simp]: "vpost (vis_current x) Q vs \<longleftrightarrow> Q (is_current (vs_be vs) x) vs"
  by (simp add: vpost_def vis_current_def)

lemma vpost_mono: "vpost m P vs \<Longrightarrow> (\<And>x vs'. P x vs' \<Longrightarrow> Q x vs') \<Longrightarrow> vpost m Q vs"
  by (auto simp: vpost_def)

section \<open>Flag bits\<close>

lemma has_or [simp]: "has (m OR a) b \<longleftrightarrow> has m b \<or> has a b"
  by (simp add: has_def bit.conj_disj_distrib2 or_eq_0_iff)

lemma and_flag: "(m :: uint16) AND 2 ^ k = (if bit m k then 2 ^ k else 0)"
  by (rule bit_word_eqI) (auto simp: bit_simps)

lemma has_bit: "has m (2 ^ k) \<longleftrightarrow> bit m k" if "k < 16"
proof -
  have "(2 :: uint16) ^ k \<noteq> 0" using that by simp
  then show ?thesis by (simp add: has_def and_flag)
qed

lemma xmin_committed_iff: "HeapTupleHeaderXminCommitted t \<longleftrightarrow> has (t_infomask t) HEAP_XMIN_COMMITTED"
  by (simp add: HeapTupleHeaderXminCommitted_def has_def)

lemma xmin_flags:
  "m AND (HEAP_XMIN_COMMITTED OR HEAP_XMIN_INVALID) =
    (if has m HEAP_XMIN_COMMITTED then HEAP_XMIN_COMMITTED else 0) OR (if has m HEAP_XMIN_INVALID then HEAP_XMIN_INVALID else 0)"
proof -
  have "m AND (2 ^ 8 OR 2 ^ 9) = (if bit m 8 then 2 ^ 8 else 0) OR (if bit m 9 then 2 ^ 9 else 0)"
    by (simp only: bit.conj_disj_distrib and_flag)
  then show ?thesis using has_bit [of 8 m] has_bit [of 9 m] by (simp add: heap_bits)
qed

lemma xmin_invalid_iff: "HeapTupleHeaderXminInvalid t \<longleftrightarrow> \<not> has (t_infomask t) HEAP_XMIN_COMMITTED \<and> has (t_infomask t) HEAP_XMIN_INVALID"
  unfolding HeapTupleHeaderXminInvalid_def xmin_flags by (simp add: heap_bits)

lemma xmin_frozen_iff: "HeapTupleHeaderXminFrozen t \<longleftrightarrow> has (t_infomask t) HEAP_XMIN_COMMITTED \<and> has (t_infomask t) HEAP_XMIN_INVALID"
  unfolding HeapTupleHeaderXminFrozen_def HEAP_XMIN_FROZEN_def xmin_flags by (simp add: heap_bits)

lemma hint_flags [simp]:
  "h \<in> {HEAP_XMIN_COMMITTED, HEAP_XMIN_INVALID, HEAP_XMAX_COMMITTED, HEAP_XMAX_INVALID} \<Longrightarrow>
    HEAP_XMAX_IS_LOCKED_ONLY (m OR h) = HEAP_XMAX_IS_LOCKED_ONLY m"
  by (auto simp: HEAP_XMAX_IS_LOCKED_ONLY_def has_def heap_bits bit.conj_disj_distrib2)

lemma flags_apart [simp]:
  "has HEAP_XMIN_COMMITTED HEAP_XMIN_COMMITTED" "\<not> has HEAP_XMIN_COMMITTED HEAP_XMIN_INVALID" "\<not> has HEAP_XMIN_COMMITTED HEAP_XMAX_COMMITTED"
  "\<not> has HEAP_XMIN_COMMITTED HEAP_XMAX_INVALID" "\<not> has HEAP_XMIN_COMMITTED HEAP_XMAX_IS_MULTI" "\<not> has HEAP_XMIN_COMMITTED HEAP_COMBOCID"
  "\<not> has HEAP_XMIN_INVALID HEAP_XMIN_COMMITTED" "has HEAP_XMIN_INVALID HEAP_XMIN_INVALID" "\<not> has HEAP_XMIN_INVALID HEAP_XMAX_COMMITTED"
  "\<not> has HEAP_XMIN_INVALID HEAP_XMAX_INVALID" "\<not> has HEAP_XMIN_INVALID HEAP_XMAX_IS_MULTI" "\<not> has HEAP_XMIN_INVALID HEAP_COMBOCID"
  "\<not> has HEAP_XMAX_COMMITTED HEAP_XMIN_COMMITTED" "\<not> has HEAP_XMAX_COMMITTED HEAP_XMIN_INVALID" "has HEAP_XMAX_COMMITTED HEAP_XMAX_COMMITTED"
  "\<not> has HEAP_XMAX_COMMITTED HEAP_XMAX_INVALID" "\<not> has HEAP_XMAX_COMMITTED HEAP_XMAX_IS_MULTI" "\<not> has HEAP_XMAX_COMMITTED HEAP_COMBOCID"
  "\<not> has HEAP_XMAX_INVALID HEAP_XMIN_COMMITTED" "\<not> has HEAP_XMAX_INVALID HEAP_XMIN_INVALID" "\<not> has HEAP_XMAX_INVALID HEAP_XMAX_COMMITTED"
  "has HEAP_XMAX_INVALID HEAP_XMAX_INVALID" "\<not> has HEAP_XMAX_INVALID HEAP_XMAX_IS_MULTI" "\<not> has HEAP_XMAX_INVALID HEAP_COMBOCID"
  "\<not> has HEAP_XMIN_COMMITTED HEAP_MOVED_OFF" "\<not> has HEAP_XMIN_COMMITTED HEAP_MOVED_IN" "\<not> has HEAP_XMIN_INVALID HEAP_MOVED_OFF"
  "\<not> has HEAP_XMIN_INVALID HEAP_MOVED_IN" "\<not> has HEAP_XMAX_COMMITTED HEAP_MOVED_OFF" "\<not> has HEAP_XMAX_COMMITTED HEAP_MOVED_IN"
  "\<not> has HEAP_XMAX_INVALID HEAP_MOVED_OFF" "\<not> has HEAP_XMAX_INVALID HEAP_MOVED_IN"
  by (simp_all add: has_def heap_bits)

section \<open>What a tuple means\<close>

text \<open>The transaction that updated or deleted the tuple; \<open>updater\<close> resolves a multixact.\<close>

definition deleter :: "(MultiXactId \<Rightarrow> TransactionId) \<Rightarrow> HeapTupleHeaderData \<Rightarrow> TransactionId option" where
  "deleter updater t =
     (if has (t_infomask t) HEAP_XMAX_INVALID \<or> HEAP_XMAX_IS_LOCKED_ONLY (t_infomask t) then None
      else Some (if has (t_infomask t) HEAP_XMAX_IS_MULTI then updater (t_xmax t) else t_xmax t))"

text \<open>
  Visible to an observer for whom the transactions in \<open>past\<close> have committed and those in \<open>own\<close> are its own,
  at the command \<open>curcid\<close>.
\<close>

definition inserted :: "(TransactionId \<Rightarrow> bool) \<Rightarrow> (TransactionId \<Rightarrow> bool) \<Rightarrow> ComboCidState \<Rightarrow> CommandId \<Rightarrow> HeapTupleHeaderData \<Rightarrow> bool" where
  "inserted past own combo curcid t \<longleftrightarrow>
     \<not> HeapTupleHeaderXminInvalid t \<and>
     (HeapTupleHeaderXminFrozen t \<or>
      (if own (t_xmin t) then HeapTupleHeaderGetCmin combo t < curcid else past (t_xmin t)))"

definition removed ::
    "(TransactionId \<Rightarrow> bool) \<Rightarrow> (TransactionId \<Rightarrow> bool) \<Rightarrow> (MultiXactId \<Rightarrow> TransactionId) \<Rightarrow> ComboCidState \<Rightarrow> CommandId \<Rightarrow> HeapTupleHeaderData \<Rightarrow> bool" where
  "removed past own updater combo curcid t \<longleftrightarrow>
     (case deleter updater t of
        None \<Rightarrow> False
      | Some x \<Rightarrow> if own x then HeapTupleHeaderGetCmax combo t < curcid else past x)"

definition visible ::
    "(TransactionId \<Rightarrow> bool) \<Rightarrow> (TransactionId \<Rightarrow> bool) \<Rightarrow> (MultiXactId \<Rightarrow> TransactionId) \<Rightarrow> ComboCidState \<Rightarrow> CommandId \<Rightarrow> HeapTupleHeaderData \<Rightarrow> bool" where
  "visible past own updater combo curcid t \<longleftrightarrow> inserted past own combo curcid t \<and> \<not> removed past own updater combo curcid t"

text \<open>Committed hint bits are true.\<close>

definition hints_true :: "(TransactionId \<Rightarrow> bool) \<Rightarrow> HeapTupleHeaderData \<Rightarrow> bool" where
  "hints_true final t \<longleftrightarrow> (let m = t_infomask t in
     (has m HEAP_XMIN_COMMITTED \<and> \<not> has m HEAP_XMIN_INVALID \<longrightarrow> final (t_xmin t)) \<and>
     (has m HEAP_XMAX_COMMITTED \<and> \<not> has m HEAP_XMAX_INVALID \<and> \<not> HEAP_XMAX_IS_LOCKED_ONLY m \<longrightarrow>
        \<not> has m HEAP_XMAX_IS_MULTI \<and> final (t_xmax t)))"

text \<open>
  Setting a hint bit: \<open>final\<close> transactions have committed for everybody, \<open>dead\<close> ones never will.
\<close>

definition rehinted ::
    "(TransactionId \<Rightarrow> bool) \<Rightarrow> (TransactionId \<Rightarrow> bool) \<Rightarrow> (MultiXactId \<Rightarrow> TransactionId) \<Rightarrow> HeapTupleHeaderData \<Rightarrow> HeapTupleHeaderData \<Rightarrow> bool" where
  "rehinted final dead updater t t' \<longleftrightarrow>
     (\<exists>m. t' = t\<lparr>t_infomask := m\<rparr>) \<and> (hints_true final t \<longrightarrow> hints_true final t') \<and>
     (\<forall>past own combo curcid. (\<forall>x. final x \<longrightarrow> \<not> own x) \<and> (\<forall>x. dead x \<longrightarrow> \<not> own x \<and> \<not> past x) \<longrightarrow>
        visible past own updater combo curcid t' = visible past own updater combo curcid t)"

lemma rehinted_refl [simp]: "rehinted final dead updater t t"
  by (auto simp: rehinted_def intro: exI [of _ "t_infomask t"])

lemma rehinted_trans: "rehinted final dead updater t t' \<Longrightarrow> rehinted final dead updater t' t'' \<Longrightarrow> rehinted final dead updater t t''"
  unfolding rehinted_def by (elim conjE exE, intro conjI) (auto simp del: all_simps)

abbreviation set_flag :: "uint16 \<Rightarrow> HeapTupleHeaderData \<Rightarrow> HeapTupleHeaderData" where
  "set_flag h t \<equiv> t\<lparr>t_infomask := t_infomask t OR h\<rparr>"

lemma cids_hint [simp]:
  "h \<in> {HEAP_XMIN_COMMITTED, HEAP_XMIN_INVALID, HEAP_XMAX_COMMITTED, HEAP_XMAX_INVALID} \<Longrightarrow>
    HeapTupleHeaderGetCmin combo (set_flag h t) = HeapTupleHeaderGetCmin combo t \<and>
    HeapTupleHeaderGetCmax combo (set_flag h t) = HeapTupleHeaderGetCmax combo t"
  by (auto simp: HeapTupleHeaderGetCmin_def HeapTupleHeaderGetCmax_def heap_get)

lemmas tuple_meaning = visible_def inserted_def removed_def deleter_def xmin_invalid_iff xmin_frozen_iff

lemma rehinted_xmin_committed:
  assumes "final (t_xmin t)" "\<not> has (t_infomask t) HEAP_XMIN_INVALID"
  shows "rehinted final dead updater t (set_flag HEAP_XMIN_COMMITTED t)"
  using assms unfolding rehinted_def by (auto simp: hints_true_def tuple_meaning Let_def)

lemma rehinted_xmin_invalid:
  assumes "dead (t_xmin t)" "\<not> has (t_infomask t) HEAP_XMIN_COMMITTED"
  shows "rehinted final dead updater t (set_flag HEAP_XMIN_INVALID t)"
  using assms unfolding rehinted_def by (auto simp: hints_true_def tuple_meaning Let_def)

lemma rehinted_xmax_committed:
  assumes "final (t_xmax t)" "\<not> has (t_infomask t) HEAP_XMAX_IS_MULTI"
  shows "rehinted final dead updater t (set_flag HEAP_XMAX_COMMITTED t)"
  using assms unfolding rehinted_def by (auto simp: hints_true_def tuple_meaning Let_def)

lemma rehinted_xmax_invalid:
  assumes "case deleter updater t of None \<Rightarrow> True | Some x \<Rightarrow> dead x"
  shows "rehinted final dead updater t (set_flag HEAP_XMAX_INVALID t)"
  using assms unfolding rehinted_def by (auto simp: hints_true_def tuple_meaning Let_def split: if_splits)

section \<open>Answers about transactions\<close>

definition updater_of :: "(MultiXactId \<Rightarrow> MultiXactMember list) \<Rightarrow> MultiXactId \<Rightarrow> TransactionId" where
  "updater_of members multi =
     (case find (\<lambda>m. ISUPDATE_from_mxstatus (mx_status m)) (members multi) of None \<Rightarrow> InvalidTransactionId | Some m \<Rightarrow> mx_xid m)"

text \<open>
  What a test may assume of the tuple: ids one may ask about, truthful hints, none of the flags of an
  old-style vacuum, and that nobody but the inserting transaction itself can have deleted a tuple
  before it committed.
\<close>

definition tuple_ok ::
    "(TransactionId \<Rightarrow> bool) \<Rightarrow> (MultiXactId \<Rightarrow> bool) \<Rightarrow> (TransactionId \<Rightarrow> bool) \<Rightarrow> (TransactionId \<Rightarrow> bool) \<Rightarrow> (TransactionId \<Rightarrow> bool) \<Rightarrow>
     (MultiXactId \<Rightarrow> TransactionId) \<Rightarrow> HeapTupleHeaderData \<Rightarrow> bool" where
  "tuple_ok known multi_known own final dead updater t \<longleftrightarrow> (let m = t_infomask t in
     \<not> has m HEAP_MOVED_OFF \<and> \<not> has m HEAP_MOVED_IN \<and> hints_true final t \<and>
     (\<not> has m HEAP_XMIN_INVALID \<longrightarrow> known (t_xmin t)) \<and>
     (\<not> has m HEAP_XMAX_INVALID \<longrightarrow>
        (if has m HEAP_XMAX_IS_MULTI
         then multi_known (t_xmax t) \<and> (\<not> HEAP_XMAX_IS_LOCKED_ONLY m \<longrightarrow> known (updater (t_xmax t)))
         else known (t_xmax t))) \<and>
     (\<not> has m HEAP_XMIN_COMMITTED \<and> own (t_xmin t) \<longrightarrow>
        (case deleter updater t of None \<Rightarrow> True | Some x \<Rightarrow> own x \<or> dead x)))"

text \<open>
  The interface to the transaction system: which ids one may ask about, which are the backend's own, for
  which a commit is recorded, which have committed for everybody, and which never will.
\<close>

locale xid_view =
  fixes env :: VisEnv
    and ok :: "VisState \<Rightarrow> bool"
    and known :: "TransactionId \<Rightarrow> bool"
    and own :: "TransactionId \<Rightarrow> bool"
    and recorded :: "TransactionId \<Rightarrow> bool"
    and final :: "TransactionId \<Rightarrow> bool"
    and dead :: "TransactionId \<Rightarrow> bool"
    and active :: "TransactionId \<Rightarrow> bool"
    and multi_known :: "MultiXactId \<Rightarrow> bool"
    and members :: "MultiXactId \<Rightarrow> MultiXactMember list"
  assumes ok_tuple: "ok vs \<Longrightarrow> ok (vs\<lparr>vs_tuple := t, vs_dirty := d\<rparr>)"
    and known_valid: "known x \<Longrightarrow> TransactionIdIsValid x"
    and current: "ok vs \<Longrightarrow> known x \<Longrightarrow> is_current (vs_be vs) x = own x"
    and commit_lsn: "ok vs \<Longrightarrow> final x \<Longrightarrow> \<exists>lsn. TransactionIdGetCommitLSN x (status_state (vs_be vs) (ve_shm env)) = Inr lsn"
    and did_commit: "ok vs \<Longrightarrow> known x \<Longrightarrow>
      \<exists>be. did_commit x (vs_be vs) (ve_shm env) = Some (Inr (recorded x, be)) \<and> ok (vs\<lparr>vs_be := be\<rparr>)"
    and in_progress: "ok vs \<Longrightarrow> known x \<Longrightarrow>
      \<exists>a be. TransactionIdIsInProgress x (vs_be vs) (ve_shm env) = Some (Inr (a, be)) \<and> ok (vs\<lparr>vs_be := be\<rparr>) \<and>
        (a \<longrightarrow> active x) \<and> (\<not> a \<longrightarrow> (if recorded x then final x else dead x))"
    and outcome: "ok vs \<Longrightarrow> (final x \<longrightarrow> recorded x \<and> \<not> own x \<and> \<not> active x) \<and> (dead x \<longrightarrow> \<not> recorded x \<and> \<not> own x) \<and> (own x \<longrightarrow> active x)"
    and members: "ok vs \<Longrightarrow> multi_known m \<Longrightarrow>
      \<exists>r cache mx. GetMultiXactIdMembers (ve_my env) m False lo (vs_cache vs) (vs_mx vs) = Some (Inr (r, cache, mx)) \<and>
        (r = Some (members m) \<or> lo \<and> r = None) \<and> ok (vs\<lparr>vs_cache := cache, vs_mx := mx\<rparr>)"
    and members_known: "multi_known m \<Longrightarrow> e \<in> set (members m) \<Longrightarrow> known (mx_xid e)"
begin

abbreviation updater :: "MultiXactId \<Rightarrow> TransactionId" where
  "updater \<equiv> updater_of members"

abbreviation tuple_good :: "HeapTupleHeaderData \<Rightarrow> bool" where
  "tuple_good \<equiv> tuple_ok known multi_known own final dead updater"

abbreviation hinted_as :: "HeapTupleHeaderData \<Rightarrow> HeapTupleHeaderData \<Rightarrow> bool" where
  "hinted_as \<equiv> rehinted final dead updater"

abbreviation over :: "TransactionId \<Rightarrow> bool" where
  "over x \<equiv> if recorded x then final x else dead x"

abbreviation any_active :: "MultiXactId \<Rightarrow> bool" where
  "any_active m \<equiv> \<exists>e\<in>set (members m). active (mx_xid e)"

abbreviation all_over :: "MultiXactId \<Rightarrow> bool" where
  "all_over m \<equiv> \<forall>e\<in>set (members m). over (mx_xid e)"

lemma vpost_did_commit:
  assumes "ok vs" "known x" "\<And>be. ok (vs\<lparr>vs_be := be\<rparr>) \<Longrightarrow> Q (recorded x) (vs\<lparr>vs_be := be\<rparr>)"
  shows "vpost (vis_did_commit env x) Q vs"
  using did_commit [OF assms(1,2)] assms(3) by (auto simp: vpost_def vis_did_commit_def vlookup_def)

lemma vpost_in_progress:
  assumes "ok vs" "known x" "\<And>a be. ok (vs\<lparr>vs_be := be\<rparr>) \<Longrightarrow> a \<longrightarrow> active x \<Longrightarrow> \<not> a \<longrightarrow> over x \<Longrightarrow> Q a (vs\<lparr>vs_be := be\<rparr>)"
  shows "vpost (vis_in_progress env x) Q vs"
proof -
  obtain a be where "TransactionIdIsInProgress x (vs_be vs) (ve_shm env) = Some (Inr (a, be))" "ok (vs\<lparr>vs_be := be\<rparr>)"
    "a \<longrightarrow> active x" "\<not> a \<longrightarrow> over x" using in_progress [OF assms(1,2)] by blast
  then show ?thesis using assms(3) [where a = a and be = be] by (simp add: vpost_def vis_in_progress_def vlookup_def)
qed

lemma vpost_update_xid:
  assumes "ok vs" "multi_known (t_xmax (vs_tuple vs))"
    and "\<And>cache mx. ok (vs\<lparr>vs_cache := cache, vs_mx := mx\<rparr>) \<Longrightarrow> Q (updater (t_xmax (vs_tuple vs))) (vs\<lparr>vs_cache := cache, vs_mx := mx\<rparr>)"
  shows "vpost (HeapTupleGetUpdateXid env) Q vs"
  using members [OF assms(1,2), of False] assms(3)
  by (auto simp: vpost_def HeapTupleGetUpdateXid_def MultiXactIdGetUpdateXid_def updater_of_def heap_get)

lemma updater_member:
  assumes "known (updater m)"
  obtains e where "e \<in> set (members m)" "mx_xid e = updater m"
  using known_valid [OF assms] that by (auto simp: updater_of_def TransactionIdIsValid_def find_Some_iff split: option.splits dest: nth_mem)

lemma any_in_progress_answer:
  assumes "ok vs" "\<forall>e\<in>set ms. known (mx_xid e)"
  shows "\<exists>a be. any_in_progress ms (vs_be vs) (ve_shm env) = Some (Inr (a, be)) \<and> ok (vs\<lparr>vs_be := be\<rparr>) \<and>
    (a \<longrightarrow> (\<exists>e\<in>set ms. active (mx_xid e))) \<and> (\<not> a \<longrightarrow> (\<forall>e\<in>set ms. over (mx_xid e)))"
  using assms
proof (induction ms arbitrary: vs)
  case Nil
  have "vs\<lparr>vs_be := vs_be vs\<rparr> = vs" by simp
  then show ?case using Nil.prems(1) by (intro exI [of _ False] exI [of _ "vs_be vs"]) simp
next
  case (Cons e ms)
  obtain a be where q: "TransactionIdIsInProgress (mx_xid e) (vs_be vs) (ve_shm env) = Some (Inr (a, be))" "ok (vs\<lparr>vs_be := be\<rparr>)"
    "a \<longrightarrow> active (mx_xid e)" "\<not> a \<longrightarrow> over (mx_xid e)"
    using in_progress [OF Cons.prems(1), of "mx_xid e"] Cons.prems(2) by auto
  show ?case
  proof (cases a)
    case True
    then show ?thesis using q by (intro exI [of _ True] exI [of _ be]) simp
  next
    case False
    have "\<exists>a be'. any_in_progress ms be (ve_shm env) = Some (Inr (a, be')) \<and> ok (vs\<lparr>vs_be := be'\<rparr>) \<and>
        (a \<longrightarrow> (\<exists>e\<in>set ms. active (mx_xid e))) \<and> (\<not> a \<longrightarrow> (\<forall>e\<in>set ms. over (mx_xid e)))"
      using Cons.IH [OF q(2)] Cons.prems(2) by simp
    then show ?thesis using q False by auto
  qed
qed

lemma vpost_multi_running:
  assumes "ok vs" "multi_known m"
    and "\<And>a be cache mx. ok (vs\<lparr>vs_be := be, vs_cache := cache, vs_mx := mx\<rparr>) \<Longrightarrow> \<not> lo \<and> \<not> a \<longrightarrow> all_over m \<Longrightarrow> a \<longrightarrow> any_active m \<Longrightarrow>
      Q a (vs\<lparr>vs_be := be, vs_cache := cache, vs_mx := mx\<rparr>)"
  shows "vpost (vis_multi_running env m lo) Q vs"
proof -
  obtain r cache mx where get: "GetMultiXactIdMembers (ve_my env) m False lo (vs_cache vs) (vs_mx vs) = Some (Inr (r, cache, mx))"
    "r = Some (members m) \<or> lo \<and> r = None" "ok (vs\<lparr>vs_cache := cache, vs_mx := mx\<rparr>)" using members [OF assms(1,2)] by blast
  let ?vs = "vs\<lparr>vs_cache := cache, vs_mx := mx\<rparr>"
  have same: "vs\<lparr>vs_be := vs_be vs, vs_cache := cache, vs_mx := mx\<rparr> = ?vs" by simp
  obtain a be where any: "any_in_progress (members m) (vs_be vs) (ve_shm env) = Some (Inr (a, be))" "ok (?vs\<lparr>vs_be := be\<rparr>)"
    "a \<longrightarrow> any_active m" "\<not> a \<longrightarrow> all_over m"
    using any_in_progress_answer [OF get(3), of "members m"] members_known [OF assms(2)] by auto
  have swap: "?vs\<lparr>vs_be := be\<rparr> = vs\<lparr>vs_be := be, vs_cache := cache, vs_mx := mx\<rparr>" by simp
  consider "r = None" "lo" | "r = Some []" "members m = []" | "r = Some (members m)" "members m \<noteq> []" using get(2) by auto
  then show ?thesis
  proof cases
    case 1
    then show ?thesis using assms(3) [where be = "vs_be vs" and cache = cache and mx = mx and a = False] get(1,3) same
      by (auto simp: vpost_def vis_multi_running_def MultiXactIdIsRunning_def)
  next
    case 2
    then show ?thesis using assms(3) [where be = "vs_be vs" and cache = cache and mx = mx and a = False] get(1,3) same
      by (auto simp: vpost_def vis_multi_running_def MultiXactIdIsRunning_def)
  next
    case 3
    show ?thesis
    proof (cases "list_ex (\<lambda>m. is_current (vs_be vs) (mx_xid m)) (members m)")
      case True
      then obtain e where e: "e \<in> set (members m)" "own (mx_xid e)"
        using current [OF assms(1) members_known [OF assms(2)]] by (auto simp: list_ex_iff)
      then have "any_active m" using outcome [OF assms(1), of "mx_xid e"] by blast
      then show ?thesis using assms(3) [where be = "vs_be vs" and cache = cache and mx = mx and a = True] get(1,3) same 3 True
        by (auto simp: vpost_def vis_multi_running_def MultiXactIdIsRunning_def)
    next
      case False
      then show ?thesis using assms(3) [where be = be and cache = cache and mx = mx and a = a] any swap get(1) 3
        by (simp add: vpost_def vis_multi_running_def MultiXactIdIsRunning_def)
    qed
  qed
qed

lemma vpost_set_hint:
  assumes "ok vs" "TransactionIdIsValid x \<longrightarrow> final x"
    and "ok (vs\<lparr>vs_tuple := set_flag h (vs_tuple vs), vs_dirty := True\<rparr>) \<Longrightarrow> Q () (vs\<lparr>vs_tuple := set_flag h (vs_tuple vs), vs_dirty := True\<rparr>)"
    and "TransactionIdIsValid x \<Longrightarrow> Q () vs"
  shows "vpost (SetHintBits env h x) Q vs"
proof (cases "TransactionIdIsValid x")
  case True
  then obtain lsn where "TransactionIdGetCommitLSN x (status_state (vs_be vs) (ve_shm env)) = Inr lsn"
    using commit_lsn [OF assms(1)] assms(2) by blast
  then show ?thesis using True assms(3,4) ok_tuple [OF assms(1)] by (auto simp: vpost_def SetHintBits_def Let_def)
next
  case False
  then show ?thesis using assms(3) ok_tuple [OF assms(1)] by (auto simp: vpost_def SetHintBits_def Let_def)
qed

lemma tuple_goodD:
  assumes "tuple_good t"
  shows "\<not> has (t_infomask t) HEAP_MOVED_OFF" "\<not> has (t_infomask t) HEAP_MOVED_IN" "hints_true final t"
    "\<not> has (t_infomask t) HEAP_XMIN_INVALID \<Longrightarrow> known (t_xmin t)"
    "\<not> has (t_infomask t) HEAP_XMAX_INVALID \<Longrightarrow> \<not> has (t_infomask t) HEAP_XMAX_IS_MULTI \<Longrightarrow> known (t_xmax t)"
    "\<not> has (t_infomask t) HEAP_XMAX_INVALID \<Longrightarrow> has (t_infomask t) HEAP_XMAX_IS_MULTI \<Longrightarrow> multi_known (t_xmax t)"
    "\<not> has (t_infomask t) HEAP_XMAX_INVALID \<Longrightarrow> has (t_infomask t) HEAP_XMAX_IS_MULTI \<Longrightarrow>
       \<not> HEAP_XMAX_IS_LOCKED_ONLY (t_infomask t) \<Longrightarrow> known (updater (t_xmax t))"
    "\<not> has (t_infomask t) HEAP_XMIN_COMMITTED \<Longrightarrow> own (t_xmin t) \<Longrightarrow> deleter updater t = Some x \<Longrightarrow> own x \<or> dead x"
    "has (t_infomask t) HEAP_XMIN_COMMITTED \<Longrightarrow> \<not> has (t_infomask t) HEAP_XMIN_INVALID \<Longrightarrow> final (t_xmin t)"
    "has (t_infomask t) HEAP_XMAX_COMMITTED \<Longrightarrow> \<not> has (t_infomask t) HEAP_XMAX_INVALID \<Longrightarrow> \<not> HEAP_XMAX_IS_LOCKED_ONLY (t_infomask t) \<Longrightarrow>
       \<not> has (t_infomask t) HEAP_XMAX_IS_MULTI \<and> final (t_xmax t)"
  using assms by (auto simp: tuple_ok_def hints_true_def Let_def)

section \<open>The fate of a transaction\<close>

text \<open>A test for unfinished transactions that agrees with a set \<open>past\<close> of committed ones.\<close>

definition answers :: "(TransactionId \<Rightarrow> bool vis) \<Rightarrow> (TransactionId \<Rightarrow> bool) \<Rightarrow> (TransactionId \<Rightarrow> bool) \<Rightarrow> bool" where
  "answers busy unfinished past \<longleftrightarrow> (\<forall>x vs. ok vs \<and> known x \<and> \<not> own x \<longrightarrow> vpost (busy x) (\<lambda>a vs'. ok vs' \<and> vs_tuple vs' = vs_tuple vs \<and>
     (a \<longrightarrow> unfinished x) \<and> (\<not> a \<longrightarrow> (if recorded x then past x else dead x))) vs)"

lemma answers_in_progress: "answers (vis_in_progress env) active final"
  unfolding answers_def
proof (intro allI impI, elim conjE)
  fix x vs assume x: "ok vs" "known x"
  show "vpost (vis_in_progress env x) (\<lambda>a vs'. ok vs' \<and> vs_tuple vs' = vs_tuple vs \<and> (a \<longrightarrow> active x) \<and> (\<not> a \<longrightarrow> over x)) vs"
    by (rule vpost_in_progress [OF x]) auto
qed

lemma vpost_settled:
  assumes "ok vs" "known x" "if recorded x then past x else dead x"
    and "\<And>vs'. ok vs' \<Longrightarrow> vs_tuple vs' = vs_tuple vs \<Longrightarrow> past x \<Longrightarrow> vpost c Q vs'"
    and "\<And>vs'. ok vs' \<Longrightarrow> vs_tuple vs' = vs_tuple vs \<Longrightarrow> dead x \<Longrightarrow> vpost d Q vs'"
  shows "vpost (vif (vis_did_commit env x) c d) Q vs"
  using assms(3-5) by (simp, intro vpost_did_commit [OF assms(1,2)]) (cases "recorded x"; simp)

lemma vpost_fate:
  assumes "ok vs" "known x" "answers busy unfinished past"
    and "own x \<Longrightarrow> vpost a Q vs"
    and "\<And>vs'. ok vs' \<Longrightarrow> vs_tuple vs' = vs_tuple vs \<Longrightarrow> \<not> own x \<Longrightarrow> unfinished x \<Longrightarrow> vpost b Q vs'"
    and "\<And>vs'. ok vs' \<Longrightarrow> vs_tuple vs' = vs_tuple vs \<Longrightarrow> \<not> own x \<Longrightarrow> past x \<Longrightarrow> vpost c Q vs'"
    and "\<And>vs'. ok vs' \<Longrightarrow> vs_tuple vs' = vs_tuple vs \<Longrightarrow> \<not> own x \<Longrightarrow> dead x \<Longrightarrow> vpost d Q vs'"
  shows "vpost (vif (vis_current x) a (vif (busy x) b (vif (vis_did_commit env x) c d))) Q vs"
proof (cases "own x")
  case True
  then show ?thesis using assms(4) current [OF assms(1,2)] by simp
next
  case False
  have "vpost (busy x) (\<lambda>t. if t then vpost b Q else vpost (vif (vis_did_commit env x) c d) Q) vs"
  proof (rule vpost_mono)
    show "vpost (busy x) (\<lambda>a vs'. ok vs' \<and> vs_tuple vs' = vs_tuple vs \<and> (a \<longrightarrow> unfinished x) \<and>
        (\<not> a \<longrightarrow> (if recorded x then past x else dead x))) vs"
      using assms(1-3) False by (simp add: answers_def)
    fix t vs'
    assume "ok vs' \<and> vs_tuple vs' = vs_tuple vs \<and> (t \<longrightarrow> unfinished x) \<and> (\<not> t \<longrightarrow> (if recorded x then past x else dead x))"
    then show "(if t then vpost b Q else vpost (vif (vis_did_commit env x) c d) Q) vs'"
      using assms(5) [of vs'] vpost_settled [of vs' x past c Q d] assms(2,6,7) False by (cases t) auto
  qed
  then show ?thesis using False current [OF assms(1,2)] by simp
qed

section \<open>The inserting transaction\<close>

lemma check_xmin_rule:
  assumes ok: "ok vs" and good: "tuple_good (vs_tuple vs)" and t: "t = vs_tuple vs" and busy: "answers busy unfinished past"
    and past: "past (t_xmin t) \<Longrightarrow> final (t_xmin t)"
    and hinted: "has (t_infomask t) HEAP_XMIN_COMMITTED \<Longrightarrow> vpost hinted Q vs"
    and own: "\<not> has (t_infomask t) HEAP_XMIN_COMMITTED \<Longrightarrow> \<not> has (t_infomask t) HEAP_XMIN_INVALID \<Longrightarrow> own (t_xmin t) \<Longrightarrow> vpost mine Q vs"
    and invisible: "\<And>vs'. ok vs' \<Longrightarrow> hinted_as t (vs_tuple vs') \<Longrightarrow> \<not> has (t_infomask t) HEAP_XMIN_COMMITTED \<Longrightarrow>
      has (t_infomask t) HEAP_XMIN_INVALID \<or> dead (t_xmin t) \<Longrightarrow> Q nay vs'"
    and inserting: "\<And>vs'. ok vs' \<Longrightarrow> vs_tuple vs' = t \<Longrightarrow> \<not> has (t_infomask t) HEAP_XMIN_COMMITTED \<Longrightarrow> \<not> has (t_infomask t) HEAP_XMIN_INVALID \<Longrightarrow>
      \<not> own (t_xmin t) \<Longrightarrow> unfinished (t_xmin t) \<Longrightarrow> vpost pending Q vs'"
    and rest: "\<And>vs'. ok vs' \<Longrightarrow> vs_tuple vs' = t \<or> vs_tuple vs' = set_flag HEAP_XMIN_COMMITTED t \<Longrightarrow> \<not> has (t_infomask t) HEAP_XMIN_COMMITTED \<Longrightarrow>
      \<not> has (t_infomask t) HEAP_XMIN_INVALID \<Longrightarrow> \<not> own (t_xmin t) \<Longrightarrow> past (t_xmin t) \<Longrightarrow> vpost rest Q vs'"
  shows "vpost (check_xmin env busy nay hinted mine pending rest) Q vs"
proof (cases "has (t_infomask t) HEAP_XMIN_COMMITTED \<or> has (t_infomask t) HEAP_XMIN_INVALID")
  case True
  then show ?thesis using hinted invisible [OF ok] t by (auto simp: check_xmin_def Let_def xmin_committed_iff xmin_invalid_iff)
next
  case False
  note g = tuple_goodD [OF good, folded t]
  have "vpost (vif (vis_current (t_xmin t)) mine (vif (busy (t_xmin t)) pending (vif (vis_did_commit env (t_xmin t))
      (hint env HEAP_XMIN_COMMITTED (t_xmin t) rest) (hint env HEAP_XMIN_INVALID InvalidTransactionId (vret nay))))) Q vs"
  proof (rule vpost_fate [OF ok _ busy])
    show "known (t_xmin t)" using g(4) False by blast
    show "own (t_xmin t) \<Longrightarrow> vpost mine Q vs" using own False by blast
    fix vs' assume vs': "ok vs'" "vs_tuple vs' = vs_tuple vs" "\<not> own (t_xmin t)"
    show "unfinished (t_xmin t) \<Longrightarrow> vpost pending Q vs'" using inserting [of vs'] vs' t False by blast
    show "vpost (hint env HEAP_XMIN_COMMITTED (t_xmin t) rest) Q vs'" if p: "past (t_xmin t)"
      unfolding vpost_hint
    proof (rule vpost_set_hint [OF vs'(1)])
      show "TransactionIdIsValid (t_xmin t) \<longrightarrow> final (t_xmin t)" using past p by blast
    qed (rule rest; use False vs' p t in auto)+
    show "vpost (hint env HEAP_XMIN_INVALID InvalidTransactionId (vret nay)) Q vs'" if d: "dead (t_xmin t)"
      unfolding vpost_hint vpost_ret
    proof (rule vpost_set_hint [OF vs'(1)])
      have "hinted_as t (set_flag HEAP_XMIN_INVALID t)" using rehinted_xmin_invalid [of dead t final updater] d False by blast
      then show "Q nay (vs'\<lparr>vs_tuple := set_flag HEAP_XMIN_INVALID (vs_tuple vs'), vs_dirty := True\<rparr>)"
        if "ok (vs'\<lparr>vs_tuple := set_flag HEAP_XMIN_INVALID (vs_tuple vs'), vs_dirty := True\<rparr>)"
        using invisible [OF that] vs'(2) t d False by simp
    qed (simp_all add: TransactionIdIsValid_def)
  qed
  then show ?thesis using False g(1,2) t by (simp add: check_xmin_def Let_def xmin_committed_iff xmin_invalid_iff heap_get split del: if_split)
qed

lemma vpost_mark:
  assumes "ok vs" "TransactionIdIsValid x \<longrightarrow> final x" "hinted_as (vs_tuple vs) (set_flag h (vs_tuple vs))"
    and "\<And>vs'. ok vs' \<Longrightarrow> hinted_as (vs_tuple vs) (vs_tuple vs') \<Longrightarrow> Q r vs'"
  shows "vpost (hint env h x (vret r)) Q vs"
  unfolding vpost_hint vpost_ret by (rule vpost_set_hint [OF assms(1,2)]) (rule assms(4); use assms(1,3) in simp)+

lemma mark_xmax_invalid:
  assumes "ok vs" "case deleter updater (vs_tuple vs) of None \<Rightarrow> True | Some x \<Rightarrow> dead x"
    and "\<And>vs'. ok vs' \<Longrightarrow> hinted_as (vs_tuple vs) (vs_tuple vs') \<Longrightarrow> Q r vs'"
  shows "vpost (hint env HEAP_XMAX_INVALID InvalidTransactionId (vret r)) Q vs"
  by (rule vpost_mark [OF assms(1) _ rehinted_xmax_invalid [where final = final, OF assms(2)]])
    (simp add: TransactionIdIsValid_def, rule assms(3))

lemma mark_xmax_committed:
  assumes "ok vs" "final (t_xmax (vs_tuple vs))" "\<not> has (t_infomask (vs_tuple vs)) HEAP_XMAX_IS_MULTI"
    and "\<And>vs'. ok vs' \<Longrightarrow> hinted_as (vs_tuple vs) (vs_tuple vs') \<Longrightarrow> Q r vs'"
  shows "vpost (hint env HEAP_XMAX_COMMITTED (t_xmax (vs_tuple vs)) (vret r)) Q vs"
  by (rule vpost_mark [OF assms(1) _ rehinted_xmax_committed [of final, OF assms(2,3)]])
    (simp add: assms(2), rule assms(4))

lemma after_xmin:
  assumes "tuple_good t" "final (t_xmin t)" "\<not> has (t_infomask t) HEAP_XMIN_INVALID" "ok vs"
    and "t' = t \<or> t' = set_flag HEAP_XMIN_COMMITTED t"
  shows "tuple_good t'" "hinted_as t t'" "deleter updater t' = deleter updater t"
    "HeapTupleHeaderGetCmax combo t' = HeapTupleHeaderGetCmax combo t" "t_ctid t' = t_ctid t"
proof -
  have "\<not> own (t_xmin t)" using outcome [OF assms(4)] assms(2) by blast
  then have "tuple_good (set_flag HEAP_XMIN_COMMITTED t)" using assms(1-3) by (auto simp: tuple_ok_def hints_true_def deleter_def Let_def)
  then show "tuple_good t'" using assms(1,5) by blast
  show "hinted_as t t'" using assms(5) rehinted_xmin_committed [of final t dead updater, OF assms(2,3)] by auto
  show "deleter updater t' = deleter updater t" using assms(5) by (auto simp: deleter_def Let_def)
qed (use assms(5) in auto)

end

section \<open>Answers of a snapshot\<close>

locale snapshot_view = xid_view +
  fixes snapshot :: SnapshotData and past :: "TransactionId \<Rightarrow> bool"
  assumes in_snapshot: "ok vs \<Longrightarrow> known x \<Longrightarrow> \<not> own x \<Longrightarrow>
      \<exists>a. XidInMVCCSnapshot (be_TransactionXmin (vs_be vs)) (shm_subtrans (ve_shm env)) x snapshot = Some (Inr a) \<and>
        (a \<longrightarrow> \<not> past x) \<and> (\<not> a \<longrightarrow> (if recorded x then past x else dead x))"
    and past_final: "ok vs \<Longrightarrow> past x \<Longrightarrow> final x"
begin

lemma vpost_in_snapshot:
  assumes "ok vs" "known x" "\<not> own x"
  shows "vpost (vis_in_snapshot env snapshot x) (\<lambda>a vs'. vs' = vs \<and> (a \<longrightarrow> \<not> past x) \<and> (\<not> a \<longrightarrow> (if recorded x then past x else dead x))) vs"
  using in_snapshot [OF assms] by (auto simp: vpost_def vis_in_snapshot_def vlookup_def)

lemma answers_snapshot: "answers (vis_in_snapshot env snapshot) (\<lambda>x. \<not> past x) past"
  unfolding answers_def
proof (intro allI impI, elim conjE)
  fix x vs assume x: "ok vs" "known x" "\<not> own x"
  show "vpost (vis_in_snapshot env snapshot x) (\<lambda>a vs'. ok vs' \<and> vs_tuple vs' = vs_tuple vs \<and> (a \<longrightarrow> \<not> past x) \<and> (\<not> a \<longrightarrow> (if recorded x then past x else dead x))) vs"
    by (rule vpost_mono [OF vpost_in_snapshot [OF x]]) (use x(1) in simp)
qed

lemma vpost_in_snapshot_final:
  assumes "ok vs" "known x" "final x"
  shows "vpost (vis_in_snapshot env snapshot x) (\<lambda>a vs'. vs' = vs \<and> a = (\<not> past x)) vs"
proof -
  have x: "recorded x" "\<not> own x" "\<not> dead x" using outcome [OF assms(1), of x] assms(3) by blast+
  show ?thesis by (rule vpost_mono [OF vpost_in_snapshot [OF assms(1,2) x(2)]]) (use x in auto)
qed

abbreviation gone :: "HeapTupleHeaderData \<Rightarrow> bool" where
  "gone \<equiv> removed past own updater (ve_combo env) (snap_curcid snapshot)"

lemma mvcc_xmax_rule:
  assumes ok: "ok vs" and good: "tuple_good (vs_tuple vs)"
  shows "vpost (mvcc_xmax env snapshot) (\<lambda>r vs'. r = (\<not> gone (vs_tuple vs)) \<and> ok vs' \<and> hinted_as (vs_tuple vs) (vs_tuple vs')) vs"
proof -
  define t where "t = vs_tuple vs"
  let ?m = "t_infomask t" and ?late = "HeapTupleHeaderGetCmax (ve_combo env) t \<ge> snap_curcid snapshot"
  let ?Q = "\<lambda>r vs'. r = (\<not> gone t) \<and> ok vs' \<and> hinted_as t (vs_tuple vs')"
  note g = tuple_goodD [OF good, folded t_def]
  have fate: "vpost (vif (vis_current x) (vret ?late) (vif (vis_in_snapshot env snapshot x) (vret True) (vif (vis_did_commit env x) c d))) ?Q vs0"
    if "known x" "deleter updater t = Some x" "ok vs0" "vs_tuple vs0 = t"
      "\<And>vs'. ok vs' \<Longrightarrow> vs_tuple vs' = t \<Longrightarrow> past x \<Longrightarrow> gone t \<Longrightarrow> vpost c ?Q vs'"
      "\<And>vs'. ok vs' \<Longrightarrow> vs_tuple vs' = t \<Longrightarrow> dead x \<Longrightarrow> \<not> gone t \<Longrightarrow> vpost d ?Q vs'" for x c d vs0
  proof (rule vpost_fate [OF that(3,1) answers_snapshot])
    have gone: "gone t = (if own x then \<not> ?late else past x)" using that(2) by (auto simp: removed_def)
    have out: "past x \<Longrightarrow> \<not> dead x" using outcome [OF ok, of x] past_final [OF ok, of x] by blast
    show "own x \<Longrightarrow> vpost (vret ?late) ?Q vs0" using gone that(3,4) by simp
    fix vs' assume vs': "ok vs'" "vs_tuple vs' = vs_tuple vs0" "\<not> own x"
    show "\<not> past x \<Longrightarrow> vpost (vret True) ?Q vs'" using gone vs' that(4) by simp
    show "past x \<Longrightarrow> vpost c ?Q vs'" using that(5) [OF vs'(1)] vs'(2,3) that(4) gone by simp
    show "dead x \<Longrightarrow> vpost d ?Q vs'" using that(6) [OF vs'(1)] vs'(2,3) that(4) gone out by auto
  qed
  consider "has ?m HEAP_XMAX_INVALID \<or> HEAP_XMAX_IS_LOCKED_ONLY ?m"
    | "\<not> has ?m HEAP_XMAX_INVALID" "\<not> HEAP_XMAX_IS_LOCKED_ONLY ?m" "has ?m HEAP_XMAX_IS_MULTI"
    | "\<not> has ?m HEAP_XMAX_INVALID" "\<not> HEAP_XMAX_IS_LOCKED_ONLY ?m" "\<not> has ?m HEAP_XMAX_IS_MULTI" "has ?m HEAP_XMAX_COMMITTED"
    | "\<not> has ?m HEAP_XMAX_INVALID" "\<not> HEAP_XMAX_IS_LOCKED_ONLY ?m" "\<not> has ?m HEAP_XMAX_IS_MULTI" "\<not> has ?m HEAP_XMAX_COMMITTED" by blast
  then have "vpost (mvcc_xmax env snapshot) ?Q vs"
  proof cases
    case 1
    then show ?thesis using ok by (auto simp: mvcc_xmax_def Let_def t_def [symmetric] removed_def deleter_def)
  next
    case 2
    let ?x = "updater (t_xmax t)"
    have d: "deleter updater t = Some ?x" using 2 by (simp add: deleter_def)
    have "vpost (HeapTupleGetUpdateXid env) (\<lambda>x. vpost (vif (vis_current x) (vret ?late) (vif (vis_in_snapshot env snapshot x) (vret True)
        (vif (vis_did_commit env x) (vret False) (vret True)))) ?Q) vs"
    proof (rule vpost_update_xid [OF ok], unfold t_def [symmetric])
      show "multi_known (t_xmax t)" using g(6) 2 by blast
      fix cache mx assume ok': "ok (vs\<lparr>vs_cache := cache, vs_mx := mx\<rparr>)"
      show "vpost (vif (vis_current ?x) (vret ?late) (vif (vis_in_snapshot env snapshot ?x) (vret True)
        (vif (vis_did_commit env ?x) (vret False) (vret True)))) ?Q (vs\<lparr>vs_cache := cache, vs_mx := mx\<rparr>)"
        by (rule fate [OF _ d ok']) (use g(7) 2 in \<open>simp_all add: t_def [symmetric]\<close>)
    qed
    then show ?thesis using 2 by (simp add: mvcc_xmax_def Let_def t_def [symmetric] del: vpost_if)
  next
    case 3
    then have x: "final (t_xmax t)" "known (t_xmax t)" "deleter updater t = Some (t_xmax t)" using g(5,10) by (auto simp: deleter_def)
    have "gone t = past (t_xmax t)" using x outcome [OF ok, of "t_xmax t"] by (simp add: removed_def)
    then have "vpost (vif (vis_in_snapshot env snapshot (t_xmax t)) (vret True) (vret False)) ?Q vs"
      unfolding vpost_if by (intro vpost_mono [OF vpost_in_snapshot_final [OF ok x(2,1)]]) (use ok t_def in auto)
    then show ?thesis using 3 by (simp add: mvcc_xmax_def Let_def t_def [symmetric] heap_get del: vpost_if)
  next
    case 4
    then have x: "known (t_xmax t)" "deleter updater t = Some (t_xmax t)" using g(5) by (auto simp: deleter_def)
    have "vpost (vif (vis_current (t_xmax t)) (vret ?late) (vif (vis_in_snapshot env snapshot (t_xmax t)) (vret True)
        (vif (vis_did_commit env (t_xmax t)) (hint env HEAP_XMAX_COMMITTED (t_xmax t) (vret False)) (hint env HEAP_XMAX_INVALID InvalidTransactionId (vret True))))) ?Q vs"
    proof (rule fate [OF x ok t_def [symmetric]])
      fix vs' assume vs': "ok vs'" "vs_tuple vs' = t"
      show "vpost (hint env HEAP_XMAX_COMMITTED (t_xmax t) (vret False)) ?Q vs'" if "past (t_xmax t)" "gone t"
        using mark_xmax_committed [OF vs'(1), of ?Q False] vs'(2) 4 that past_final [OF ok] by simp
      show "vpost (hint env HEAP_XMAX_INVALID InvalidTransactionId (vret True)) ?Q vs'" if "dead (t_xmax t)" "\<not> gone t"
        using mark_xmax_invalid [OF vs'(1), of ?Q True] vs'(2) that x(2) by simp
    qed
    then show ?thesis using 4 by (simp add: mvcc_xmax_def Let_def t_def [symmetric] heap_get del: vpost_if)
  qed
  then show ?thesis by (simp add: t_def)
qed

lemma own_mvcc_rule:
  assumes ok: "ok vs" and good: "tuple_good (vs_tuple vs)" and own: "own (t_xmin (vs_tuple vs))"
    and m: "\<not> has (t_infomask (vs_tuple vs)) HEAP_XMIN_COMMITTED"
  shows "vpost (own_mvcc env snapshot) (\<lambda>r vs'. r = (HeapTupleHeaderGetCmin (ve_combo env) (vs_tuple vs) < snap_curcid snapshot \<and> \<not> gone (vs_tuple vs)) \<and>
    ok vs' \<and> hinted_as (vs_tuple vs) (vs_tuple vs')) vs"
proof -
  define t where "t = vs_tuple vs"
  let ?m = "t_infomask t" and ?late = "HeapTupleHeaderGetCmax (ve_combo env) t \<ge> snap_curcid snapshot"
    and ?in = "\<not> HeapTupleHeaderGetCmin (ve_combo env) t \<ge> snap_curcid snapshot"
  let ?Q = "\<lambda>r vs'. r = (?in \<and> \<not> gone t) \<and> ok vs' \<and> hinted_as t (vs_tuple vs')"
  note g = tuple_goodD [OF good, folded t_def]
  have gone: "gone t = (own x \<and> \<not> ?late)" "own x \<or> dead x" if "deleter updater t = Some x" for x
    using g(8) [OF m [folded t_def] own [folded t_def] that] outcome [OF ok, of x] past_final [OF ok, of x] that by (auto simp: removed_def)
  consider "\<not> ?in" | "?in" "has ?m HEAP_XMAX_INVALID \<or> HEAP_XMAX_IS_LOCKED_ONLY ?m"
    | "?in" "\<not> has ?m HEAP_XMAX_INVALID" "\<not> HEAP_XMAX_IS_LOCKED_ONLY ?m" "has ?m HEAP_XMAX_IS_MULTI"
    | "?in" "\<not> has ?m HEAP_XMAX_INVALID" "\<not> HEAP_XMAX_IS_LOCKED_ONLY ?m" "\<not> has ?m HEAP_XMAX_IS_MULTI" by blast
  then have "vpost (own_mvcc env snapshot) ?Q vs"
  proof cases
    case 1
    then show ?thesis using ok by (simp add: own_mvcc_def Let_def t_def [symmetric] split del: if_split)
  next
    case 2
    then show ?thesis using ok by (auto simp: own_mvcc_def Let_def t_def [symmetric] removed_def deleter_def)
  next
    case 3
    let ?x = "updater (t_xmax t)"
    have d: "deleter updater t = Some ?x" using 3 by (simp add: deleter_def)
    have "vpost (HeapTupleGetUpdateXid env) (\<lambda>x. vpost (vif (vis_current x) (vret ?late) (vret True)) ?Q) vs"
    proof (rule vpost_update_xid [OF ok], unfold t_def [symmetric])
      show "multi_known (t_xmax t)" using g(6) 3 by blast
      fix cache mx assume ok': "ok (vs\<lparr>vs_cache := cache, vs_mx := mx\<rparr>)"
      show "vpost (vif (vis_current ?x) (vret ?late) (vret True)) ?Q (vs\<lparr>vs_cache := cache, vs_mx := mx\<rparr>)"
        using current [OF ok', of ?x] g(7) 3 gone(1) [OF d] ok' by (auto simp: t_def [symmetric])
    qed
    then show ?thesis using 3 by (simp add: own_mvcc_def Let_def t_def [symmetric] del: vpost_if)
  next
    case 4
    then have x: "known (t_xmax t)" "deleter updater t = Some (t_xmax t)" using g(5) by (auto simp: deleter_def)
    show ?thesis
    proof (cases "own (t_xmax t)")
      case True
      then show ?thesis using 4 current [OF ok x(1)] gone(1) [OF x(2)] ok by (simp add: own_mvcc_def Let_def t_def [symmetric] heap_get)
    next
      case False
      then have "dead (t_xmax t)" using gone(2) [OF x(2)] by blast
      then have "vpost (hint env HEAP_XMAX_INVALID InvalidTransactionId (vret True)) ?Q vs"
        using mark_xmax_invalid [OF ok, of ?Q True] x(2) 4(1) gone(1) [OF x(2)] False by (simp add: t_def [symmetric])
      then show ?thesis using 4 False current [OF ok x(1)] by (simp add: own_mvcc_def Let_def t_def [symmetric] heap_get del: vpost_hint)
    qed
  qed
  then show ?thesis by (simp add: t_def not_le)
qed

abbreviation seen :: "HeapTupleHeaderData \<Rightarrow> bool" where
  "seen \<equiv> visible past own updater (ve_combo env) (snap_curcid snapshot)"

lemma mvcc_correct:
  assumes ok: "ok vs" and good: "tuple_good (vs_tuple vs)"
  shows "vpost (HeapTupleSatisfiesMVCC env snapshot) (\<lambda>r vs'. r = seen (vs_tuple vs) \<and> ok vs' \<and> hinted_as (vs_tuple vs) (vs_tuple vs')) vs"
proof -
  define t where "t = vs_tuple vs"
  let ?Q = "\<lambda>r vs'. r = seen t \<and> ok vs' \<and> hinted_as t (vs_tuple vs')"
  note g = tuple_goodD [OF good, folded t_def]
  note meaning = visible_def inserted_def xmin_invalid_iff xmin_frozen_iff
  have rest: "vpost (mvcc_xmax env snapshot) ?Q vs'"
    if vs': "ok vs'" "vs_tuple vs' = t \<or> vs_tuple vs' = set_flag HEAP_XMIN_COMMITTED t \<and> final (t_xmin t) \<and> \<not> has (t_infomask t) HEAP_XMIN_INVALID"
      and seen: "seen t = (\<not> gone t)" for vs'
  proof -
    have t': "tuple_good (vs_tuple vs')" (is ?A) "hinted_as t (vs_tuple vs')" (is ?B) "gone (vs_tuple vs') = gone t" (is ?C)
    proof -
      have "?A \<and> ?B \<and> ?C" if "vs_tuple vs' = t" using that good by (simp add: t_def)
      moreover have "?A \<and> ?B \<and> ?C" if x: "vs_tuple vs' = set_flag HEAP_XMIN_COMMITTED t" "final (t_xmin t)" "\<not> has (t_infomask t) HEAP_XMIN_INVALID"
        using after_xmin [OF good [folded t_def] x(2,3) ok disjI2 [OF x(1)]] by (simp add: removed_def cong: option.case_cong)
      ultimately show ?A ?B ?C using vs'(2) by blast+
    qed
    show ?thesis
    proof (rule vpost_mono [OF mvcc_xmax_rule [OF vs'(1) t'(1)]])
      fix r vs'' assume "r = (\<not> gone (vs_tuple vs')) \<and> ok vs'' \<and> hinted_as (vs_tuple vs') (vs_tuple vs'')"
      then show "?Q r vs''" using t'(2,3) seen rehinted_trans [of final dead updater t "vs_tuple vs'" "vs_tuple vs''"] by simp
    qed
  qed
  have "vpost (check_xmin env (vis_in_snapshot env snapshot) False (mvcc_hinted env snapshot) (own_mvcc env snapshot) (vret False) (mvcc_xmax env snapshot)) ?Q vs"
  proof (rule check_xmin_rule [OF ok good t_def answers_snapshot])
    show "past (t_xmin t) \<Longrightarrow> final (t_xmin t)" using past_final [OF ok] .
    show "vpost (mvcc_hinted env snapshot) ?Q vs" if c: "has (t_infomask t) HEAP_XMIN_COMMITTED"
    proof (cases "has (t_infomask t) HEAP_XMIN_INVALID")
      case True
      then show ?thesis using rest [OF ok] c by (simp add: mvcc_hinted_def t_def [symmetric] meaning)
    next
      case False
      have x: "final (t_xmin t)" "known (t_xmin t)" using g(4,9) c False by blast+
      then have seen: "seen t = (past (t_xmin t) \<and> \<not> gone t)" using outcome [OF ok, of "t_xmin t"] c False by (simp add: meaning)
      have "vpost (vif (vis_in_snapshot env snapshot (t_xmin t)) (vret False) (mvcc_xmax env snapshot)) ?Q vs"
        unfolding vpost_if by (rule vpost_mono [OF vpost_in_snapshot_final [OF ok x(2,1)]]) (use rest [OF ok] seen ok t_def in auto)
      then show ?thesis using False c by (simp add: mvcc_hinted_def t_def [symmetric] xmin_frozen_iff heap_get del: vpost_if)
    qed
    show "vpost (own_mvcc env snapshot) ?Q vs" if "\<not> has (t_infomask t) HEAP_XMIN_COMMITTED" "\<not> has (t_infomask t) HEAP_XMIN_INVALID" "own (t_xmin t)"
      by (rule vpost_mono [OF own_mvcc_rule [OF ok good]]) (use that in \<open>simp_all add: t_def [symmetric] meaning\<close>)
    fix vs' assume vs': "ok vs'" and m: "\<not> has (t_infomask t) HEAP_XMIN_COMMITTED"
    show "?Q False vs'" if "hinted_as t (vs_tuple vs')" "has (t_infomask t) HEAP_XMIN_INVALID \<or> dead (t_xmin t)"
      using that vs' m outcome [OF ok, of "t_xmin t"] past_final [OF ok, of "t_xmin t"] by (auto simp: meaning)
    show "vpost (vret False) ?Q vs'" if "vs_tuple vs' = t" "\<not> has (t_infomask t) HEAP_XMIN_INVALID" "\<not> own (t_xmin t)" "\<not> past (t_xmin t)"
      using that vs' m by (simp add: meaning)
    show "vpost (mvcc_xmax env snapshot) ?Q vs'" if "vs_tuple vs' = t \<or> vs_tuple vs' = set_flag HEAP_XMIN_COMMITTED t"
      "\<not> has (t_infomask t) HEAP_XMIN_INVALID" "\<not> own (t_xmin t)" "past (t_xmin t)"
      by (rule rest [OF vs']) (use that m past_final [OF ok] in \<open>auto simp: meaning\<close>)
  qed
  then show ?thesis by (simp add: HeapTupleSatisfiesMVCC_def t_def)
qed

end

end
