(* ===== verification/VisibilityUpdate.thy ===== *)
theory VisibilityUpdate
  imports VisibilityRules
begin

text \<open>
  The tests that decide what may be done to a tuple: \<^verbatim>\<open>HeapTupleSatisfiesVacuum\<close>, whether it may be removed, and
  \<^verbatim>\<open>HeapTupleSatisfiesUpdate\<close>, whether it may be updated, both relative to the answers about transactions.
\<close>

section \<open>Verdicts\<close>

text \<open>The inserting transaction has committed, or the tuple is frozen.\<close>

definition came :: "(TransactionId \<Rightarrow> bool) \<Rightarrow> HeapTupleHeaderData \<Rightarrow> bool" where
  "came final t \<longleftrightarrow> \<not> HeapTupleHeaderXminInvalid t \<and> (HeapTupleHeaderXminFrozen t \<or> final (t_xmin t))"

text \<open>Nobody whose deletion counts has deleted the tuple.\<close>

definition stays :: "(TransactionId \<Rightarrow> bool) \<Rightarrow> (MultiXactId \<Rightarrow> TransactionId) \<Rightarrow> HeapTupleHeaderData \<Rightarrow> bool" where
  "stays dead updater t \<longleftrightarrow> (case deleter updater t of None \<Rightarrow> True | Some x \<Rightarrow> dead x)"

definition vacuum_verdict ::
    "(TransactionId \<Rightarrow> bool) \<Rightarrow> (TransactionId \<Rightarrow> bool) \<Rightarrow> (TransactionId \<Rightarrow> bool) \<Rightarrow> (MultiXactId \<Rightarrow> TransactionId) \<Rightarrow> HeapTupleHeaderData \<Rightarrow>
     HTSV_Result \<times> TransactionId \<Rightarrow> bool" where
  "vacuum_verdict final dead active updater t r \<longleftrightarrow>
     (case fst r of
        HEAPTUPLE_DEAD \<Rightarrow> HeapTupleHeaderXminInvalid t \<or> \<not> HeapTupleHeaderXminFrozen t \<and> dead (t_xmin t)
      | HEAPTUPLE_LIVE \<Rightarrow> came final t \<and> stays dead updater t
      | HEAPTUPLE_RECENTLY_DEAD \<Rightarrow> came final t \<and> deleter updater t = Some (snd r) \<and> final (snd r)
      | HEAPTUPLE_INSERT_IN_PROGRESS \<Rightarrow> active (t_xmin t)
      | HEAPTUPLE_DELETE_IN_PROGRESS \<Rightarrow> (\<exists>x. deleter updater t = Some x \<and> active x))"

definition update_verdict ::
    "(TransactionId \<Rightarrow> bool) \<Rightarrow> (TransactionId \<Rightarrow> bool) \<Rightarrow> (TransactionId \<Rightarrow> bool) \<Rightarrow> (TransactionId \<Rightarrow> bool) \<Rightarrow> (MultiXactId \<Rightarrow> MultiXactMember list) \<Rightarrow>
     ComboCidState \<Rightarrow> CommandId \<Rightarrow> ItemPointerData \<Rightarrow> HeapTupleHeaderData \<Rightarrow> TM_Result \<Rightarrow> bool" where
  "update_verdict final dead active own members combo curcid self t r \<longleftrightarrow>
     (let deleted_by = deleter (updater_of members) t; cmax = HeapTupleHeaderGetCmax combo t;
          holders = (if has (t_infomask t) HEAP_XMAX_IS_MULTI then mx_xid ` set (members (t_xmax t)) else {t_xmax t})
      in (r \<noteq> TM_Invisible \<longrightarrow> inserted final own combo curcid t) \<and>
         (case r of
            TM_Ok \<Rightarrow> stays dead (updater_of members) t
          | TM_Invisible \<Rightarrow> inserted final own combo curcid t \<longrightarrow> (\<exists>x. deleted_by = Some x \<and> own x \<and> cmax < curcid)
          | TM_SelfModified \<Rightarrow> (\<exists>x. deleted_by = Some x \<and> own x \<and> curcid \<le> cmax)
          | TM_Updated \<Rightarrow> (\<exists>x. deleted_by = Some x \<and> final x) \<and> \<not> ItemPointerEquals self (t_ctid t)
          | TM_Deleted \<Rightarrow> (\<exists>x. deleted_by = Some x \<and> final x) \<and> ItemPointerEquals self (t_ctid t)
          | TM_BeingModified \<Rightarrow> (\<exists>x\<in>holders. active x)
          | TM_WouldBlock \<Rightarrow> False))"

lemmas came_meaning = came_def xmin_invalid_iff xmin_frozen_iff

context xid_view
begin

lemma vpost_outcome:
  assumes "ok vs" "known x"
    and "\<And>vs'. ok vs' \<Longrightarrow> vs_tuple vs' = vs_tuple vs \<Longrightarrow> active x \<Longrightarrow> vpost a Q vs'"
    and "\<And>vs'. ok vs' \<Longrightarrow> vs_tuple vs' = vs_tuple vs \<Longrightarrow> final x \<Longrightarrow> vpost c Q vs'"
    and "\<And>vs'. ok vs' \<Longrightarrow> vs_tuple vs' = vs_tuple vs \<Longrightarrow> dead x \<Longrightarrow> vpost d Q vs'"
  shows "vpost (vif (vis_in_progress env x) a (vif (vis_did_commit env x) c d)) Q vs"
  unfolding vpost_if [of "vis_in_progress env x"]
proof (rule vpost_in_progress [OF assms(1,2)])
  fix r be let ?vs = "vs\<lparr>vs_be := be\<rparr>" assume r: "ok ?vs" "r \<longrightarrow> active x" "\<not> r \<longrightarrow> over x"
  show "(if r then vpost a Q else vpost (vif (vis_did_commit env x) c d) Q) ?vs"
  proof (cases r)
    case True
    then show ?thesis using assms(3) [OF r(1)] r(2) by simp
  next
    case False
    then have "over x" using r(3) by blast
    have "vpost (vif (vis_did_commit env x) c d) Q ?vs"
      by (rule vpost_settled [where past = final, OF r(1) assms(2) \<open>over x\<close>]) (use assms(4,5) in auto)
    then show ?thesis using False by simp
  qed
qed

lemma vpost_updater:
  assumes "ok vs" "tuple_good (vs_tuple vs)"
    and "\<not> has (t_infomask (vs_tuple vs)) HEAP_XMAX_INVALID" "\<not> HEAP_XMAX_IS_LOCKED_ONLY (t_infomask (vs_tuple vs))" "has (t_infomask (vs_tuple vs)) HEAP_XMAX_IS_MULTI"
    and "\<And>x vs'. ok vs' \<Longrightarrow> vs_tuple vs' = vs_tuple vs \<Longrightarrow> deleter updater (vs_tuple vs) = Some x \<Longrightarrow> known x \<Longrightarrow> x = updater (t_xmax (vs_tuple vs)) \<Longrightarrow> vpost (k x) Q vs'"
  shows "vpost (vbind (HeapTupleGetUpdateXid env) k) Q vs"
  unfolding vpost_bind
  by (rule vpost_update_xid [OF assms(1)]) (use assms(3-6) tuple_goodD(6,7) [OF assms(2)] in \<open>simp_all add: deleter_def\<close>)

section \<open>Vacuum\<close>

lemma vacuum_xmax_rule:
  assumes ok: "ok vs" and good: "tuple_good (vs_tuple vs)" and came: "came final (vs_tuple vs)"
  shows "vpost (vacuum_xmax env) (\<lambda>r vs'. vacuum_verdict final dead active updater (vs_tuple vs) r \<and> ok vs' \<and> hinted_as (vs_tuple vs) (vs_tuple vs')) vs"
proof -
  define t where "t = vs_tuple vs"
  let ?m = "t_infomask t"
  let ?Q = "\<lambda>r vs'. vacuum_verdict final dead active updater t r \<and> ok vs' \<and> hinted_as t (vs_tuple vs')"
  let ?live = "vret (HEAPTUPLE_LIVE, InvalidTransactionId)" and ?deleting = "vret (HEAPTUPLE_DELETE_IN_PROGRESS, InvalidTransactionId)"
  let ?unlocked = "hint env HEAP_XMAX_INVALID InvalidTransactionId ?live"
  note g = tuple_goodD [OF good, folded t_def]
  have live: "vpost ?live ?Q vs'" if "ok vs'" "vs_tuple vs' = t" "stays dead updater t" for vs'
    using that came by (simp add: vacuum_verdict_def t_def)
  have unlocked: "vpost ?unlocked ?Q vs'" if "ok vs'" "vs_tuple vs' = t" "stays dead updater t" for vs'
    by (rule mark_xmax_invalid [OF that(1)]) (use that came in \<open>auto simp: vacuum_verdict_def t_def stays_def\<close>)
  have deleting: "vpost ?deleting ?Q vs'" if "ok vs'" "vs_tuple vs' = t" "deleter updater t = Some x" "active x" for x vs'
    using that by (simp add: vacuum_verdict_def)
  have recent: "?Q (HEAPTUPLE_RECENTLY_DEAD, x) vs'" if "ok vs'" "hinted_as t (vs_tuple vs')" "deleter updater t = Some x" "final x" for x vs'
    using that came by (simp add: vacuum_verdict_def t_def)
  consider "has ?m HEAP_XMAX_INVALID"
    | "\<not> has ?m HEAP_XMAX_INVALID" "HEAP_XMAX_IS_LOCKED_ONLY ?m" "has ?m HEAP_XMAX_COMMITTED"
    | "\<not> has ?m HEAP_XMAX_INVALID" "HEAP_XMAX_IS_LOCKED_ONLY ?m" "\<not> has ?m HEAP_XMAX_COMMITTED" "has ?m HEAP_XMAX_IS_MULTI"
    | "\<not> has ?m HEAP_XMAX_INVALID" "HEAP_XMAX_IS_LOCKED_ONLY ?m" "\<not> has ?m HEAP_XMAX_COMMITTED" "\<not> has ?m HEAP_XMAX_IS_MULTI"
    | "\<not> has ?m HEAP_XMAX_INVALID" "\<not> HEAP_XMAX_IS_LOCKED_ONLY ?m" "has ?m HEAP_XMAX_IS_MULTI"
    | "\<not> has ?m HEAP_XMAX_INVALID" "\<not> HEAP_XMAX_IS_LOCKED_ONLY ?m" "\<not> has ?m HEAP_XMAX_IS_MULTI" "has ?m HEAP_XMAX_COMMITTED"
    | "\<not> has ?m HEAP_XMAX_INVALID" "\<not> HEAP_XMAX_IS_LOCKED_ONLY ?m" "\<not> has ?m HEAP_XMAX_IS_MULTI" "\<not> has ?m HEAP_XMAX_COMMITTED" by blast
  then have "vpost (vacuum_xmax env) ?Q vs"
  proof cases
    case 1
    then show ?thesis using live [OF ok] by (simp add: vacuum_xmax_def Let_def t_def [symmetric] stays_def deleter_def)
  next
    case 2
    then show ?thesis using live [OF ok] by (simp add: vacuum_xmax_def Let_def t_def [symmetric] stays_def deleter_def)
  next
    case 3
    then have s: "stays dead updater t" by (simp add: stays_def deleter_def)
    have "vpost (if HEAP_LOCKED_UPGRADED ?m then vret False else vis_multi_running env (t_xmax t) True)
        (\<lambda>a. if a then vpost ?live ?Q else vpost ?unlocked ?Q) vs"
      using unlocked [OF ok _ s] vpost_multi_running [OF ok g(6) [OF 3(1,4)], of True "\<lambda>a. if a then vpost ?live ?Q else vpost ?unlocked ?Q"]
        live [OF _ _ s] unlocked [OF _ _ s] by (simp add: t_def del: vpost_hint)
    then show ?thesis using 3 unfolding t_def by (simp add: vacuum_xmax_def Let_def heap_get del: vpost_hint split del: if_split)
  next
    case 4
    then have s: "stays dead updater t" by (simp add: stays_def deleter_def)
    have "vpost (vif (vis_in_progress env (t_xmax t)) ?live ?unlocked) ?Q vs"
      unfolding vpost_if by (rule vpost_in_progress [OF ok]) (use g(5) 4 live unlocked s t_def in \<open>auto simp del: vpost_hint\<close>)
    then show ?thesis using 4 by (simp add: vacuum_xmax_def Let_def t_def [symmetric] heap_get del: vpost_if)
  next
    case 5
    have rest: "vpost (vif (vis_multi_running env (t_xmax t) False) ?live ?unlocked) ?Q vs'"
      if "ok vs'" "vs_tuple vs' = t" "deleter updater t = Some x" "dead x" for vs' x
      unfolding vpost_if
      by (rule vpost_multi_running [OF that(1)]) (use g(6) 5 live unlocked that in \<open>auto simp: stays_def simp del: vpost_hint\<close>)
    have "vpost (vbind (HeapTupleGetUpdateXid env) (\<lambda>x. vif (vis_in_progress env x) ?deleting (vif (vis_did_commit env x) (vret (HEAPTUPLE_RECENTLY_DEAD, x))
        (vif (vis_multi_running env (t_xmax t) False) ?live ?unlocked)))) ?Q vs"
      by (rule vpost_updater [OF ok good], unfold t_def [symmetric], rule 5, rule 5, rule 5, rule vpost_outcome)
        (use rest recent deleting in \<open>simp_all del: vpost_if\<close>)
    then show ?thesis using 5 by (simp add: vacuum_xmax_def Let_def t_def [symmetric] heap_get del: vpost_if vpost_bind)
  next
    case 6
    then show ?thesis using recent [OF ok] g(10) by (simp add: vacuum_xmax_def Let_def t_def [symmetric] heap_get deleter_def)
  next
    case 7
    let ?x = "t_xmax t"
    have d: "deleter updater t = Some ?x" and k: "known ?x" using 7 g(5) by (auto simp: deleter_def)
    have c: "vpost (hint env HEAP_XMAX_COMMITTED ?x (vret (HEAPTUPLE_RECENTLY_DEAD, ?x))) ?Q vs'" if "ok vs'" "vs_tuple vs' = t" "final ?x" for vs'
      using mark_xmax_committed [OF that(1), of ?Q "(HEAPTUPLE_RECENTLY_DEAD, ?x)"] that(2,3) 7(3) recent [OF _ _ d that(3)] by (simp del: vpost_hint)
    have "vpost (vif (vis_in_progress env ?x) ?deleting (vif (vis_did_commit env ?x)
        (hint env HEAP_XMAX_COMMITTED ?x (vret (HEAPTUPLE_RECENTLY_DEAD, ?x))) ?unlocked)) ?Q vs"
      by (rule vpost_outcome [OF ok k]) (use c unlocked deleting d t_def in \<open>auto simp: stays_def simp del: vpost_hint vpost_ret\<close>)
    then show ?thesis using 7 by (simp add: vacuum_xmax_def Let_def t_def [symmetric] heap_get del: vpost_if)
  qed
  then show ?thesis by (simp add: t_def)
qed

lemma only_locked_rule:
  assumes ok: "ok vs" and good: "tuple_good (vs_tuple vs)"
    and m: "\<not> has (t_infomask (vs_tuple vs)) HEAP_XMAX_INVALID" "\<not> HEAP_XMAX_IS_LOCKED_ONLY (t_infomask (vs_tuple vs))"
    and Q: "\<And>r vs'. ok vs' \<Longrightarrow> vs_tuple vs' = vs_tuple vs \<Longrightarrow> Q r vs'"
  shows "vpost (HeapTupleHeaderIsOnlyLocked env) Q vs"
proof (cases "has (t_infomask (vs_tuple vs)) HEAP_XMAX_IS_MULTI")
  case False
  then show ?thesis using ok Q by (simp add: HeapTupleHeaderIsOnlyLocked_def Let_def)
next
  case True
  have "vpost (vbind (HeapTupleGetUpdateXid env) (\<lambda>x. vif (vis_current x) (vret False)
      (vif (vis_in_progress env x) (vret False) (vif (vis_did_commit env x) (vret False) (vret True))))) Q vs"
    by (rule vpost_updater [OF ok good m True], rule vpost_fate [OF _ _ answers_in_progress]) (use Q in simp_all)
  then show ?thesis using True ok Q by (simp add: HeapTupleHeaderIsOnlyLocked_def Let_def del: vpost_bind vpost_if)
qed

lemma own_vacuum_rule:
  assumes ok: "ok vs" and good: "tuple_good (vs_tuple vs)" and own: "own (t_xmin (vs_tuple vs))"
  shows "vpost (own_vacuum env) (\<lambda>r vs'. vacuum_verdict final dead active updater (vs_tuple vs) r \<and> ok vs' \<and> hinted_as (vs_tuple vs) (vs_tuple vs')) vs"
proof -
  define t where "t = vs_tuple vs"
  let ?m = "t_infomask t"
  let ?Q = "\<lambda>r vs'. vacuum_verdict final dead active updater t r \<and> ok vs' \<and> hinted_as t (vs_tuple vs')"
  let ?inserting = "vret (HEAPTUPLE_INSERT_IN_PROGRESS, InvalidTransactionId)" and ?deleting = "vret (HEAPTUPLE_DELETE_IN_PROGRESS, InvalidTransactionId)"
  let ?rest = "vbind (HeapTupleHeaderGetUpdateXid env) (\<lambda>x. vif (vis_current x) ?deleting ?inserting)"
  have inserting: "vpost ?inserting ?Q vs'" if "ok vs'" "vs_tuple vs' = t" for vs'
    using that own outcome [OF ok, of "t_xmin t"] by (simp add: vacuum_verdict_def t_def)
  show ?thesis
  proof (cases "has ?m HEAP_XMAX_INVALID \<or> HEAP_XMAX_IS_LOCKED_ONLY ?m")
    case True
    then show ?thesis using inserting [OF ok] by (auto simp: own_vacuum_def Let_def t_def [symmetric])
  next
    case False
    have fate: "vpost (vif (vis_current x) ?deleting ?inserting) ?Q vs'"
      if "ok vs'" "vs_tuple vs' = t" "known x" "deleter updater t = Some x" for x vs'
      using current [OF that(1,3)] that inserting [OF that(1,2)] outcome [OF ok, of x] by (auto simp: vacuum_verdict_def)
    have lo: "\<not> has ?m HEAP_XMAX_LOCK_ONLY" using False by (simp add: HEAP_XMAX_IS_LOCKED_ONLY_def)
    have rest: "vpost ?rest ?Q vs'" if vs': "ok vs'" "vs_tuple vs' = t" for vs'
    proof (cases "has ?m HEAP_XMAX_IS_MULTI")
      case True
      have "vpost (vbind (HeapTupleGetUpdateXid env) (\<lambda>x. vif (vis_current x) ?deleting ?inserting)) ?Q vs'"
        by (rule vpost_updater [OF vs'(1)]) (use good False True vs' fate in \<open>simp_all add: t_def del: vpost_if\<close>)
      then show ?thesis using True lo False vs'(2) by (simp add: HeapTupleHeaderGetUpdateXid_def Let_def del: vpost_if)
    next
      case multi: False
      then have "known (t_xmax t)" "deleter updater t = Some (t_xmax t)" using tuple_goodD(5) [OF good] False by (auto simp: t_def deleter_def)
      then show ?thesis using fate [OF vs'] multi vs'(2) by (simp add: HeapTupleHeaderGetUpdateXid_def Let_def heap_get del: vpost_if)
    qed
    have "vpost (vif (HeapTupleHeaderIsOnlyLocked env) ?inserting ?rest) ?Q vs"
      unfolding vpost_if by (rule only_locked_rule [OF ok good]) (use False inserting rest t_def in \<open>auto simp del: vpost_bind vpost_ret\<close>)
    then show ?thesis using False by (simp add: own_vacuum_def Let_def t_def [symmetric] del: vpost_bind vpost_if)
  qed
qed

lemma vacuum_correct:
  assumes ok: "ok vs" and good: "tuple_good (vs_tuple vs)"
  shows "vpost (HeapTupleSatisfiesVacuumHorizon env)
    (\<lambda>r vs'. vacuum_verdict final dead active updater (vs_tuple vs) r \<and> ok vs' \<and> hinted_as (vs_tuple vs) (vs_tuple vs')) vs"
proof -
  define t where "t = vs_tuple vs"
  let ?Q = "\<lambda>r vs'. vacuum_verdict final dead active updater t r \<and> ok vs' \<and> hinted_as t (vs_tuple vs')"
  let ?dead = "(HEAPTUPLE_DEAD, InvalidTransactionId)" and ?inserting = "vret (HEAPTUPLE_INSERT_IN_PROGRESS, InvalidTransactionId)"
  note g = tuple_goodD [OF good, folded t_def]
  have rest: "vpost (vacuum_xmax env) ?Q vs'"
    if vs': "ok vs'" "tuple_good (vs_tuple vs')" "hinted_as t (vs_tuple vs')" "deleter updater (vs_tuple vs') = deleter updater t" "t_xmin (vs_tuple vs') = t_xmin t"
      and came: "came final (vs_tuple vs')" "came final t" for vs'
  proof (rule vpost_mono [OF vacuum_xmax_rule [OF vs'(1,2) came(1)]])
    fix r vs'' assume "vacuum_verdict final dead active updater (vs_tuple vs') r \<and> ok vs'' \<and> hinted_as (vs_tuple vs') (vs_tuple vs'')"
    then show "?Q r vs''" using vs'(3-5) came rehinted_trans [of final dead updater t "vs_tuple vs'" "vs_tuple vs''"] outcome [OF ok, of "t_xmin t"]
      by (auto simp: vacuum_verdict_def came_meaning stays_def split: HTSV_Result.splits)
  qed
  have "vpost (check_xmin env (vis_in_progress env) ?dead (vacuum_xmax env) (own_vacuum env) ?inserting (vacuum_xmax env)) ?Q vs"
  proof (rule check_xmin_rule [OF ok good t_def answers_in_progress])
    show "vpost (vacuum_xmax env) ?Q vs" if "has (t_infomask t) HEAP_XMIN_COMMITTED"
      by (rule rest [OF ok]) (use good g(9) that t_def in \<open>auto simp: came_meaning\<close>)
    show "vpost (own_vacuum env) ?Q vs" if "own (t_xmin t)" using own_vacuum_rule [OF ok good] that by (simp add: t_def)
    fix vs' assume vs': "ok vs'" and m: "\<not> has (t_infomask t) HEAP_XMIN_COMMITTED"
    show "?Q ?dead vs'" if "hinted_as t (vs_tuple vs')" "has (t_infomask t) HEAP_XMIN_INVALID \<or> dead (t_xmin t)"
      using that vs' m by (auto simp: vacuum_verdict_def came_meaning)
    show "vpost ?inserting ?Q vs'" if "vs_tuple vs' = t" "active (t_xmin t)"
      using that vs' by (simp add: vacuum_verdict_def)
    show "vpost (vacuum_xmax env) ?Q vs'" if x: "vs_tuple vs' = t \<or> vs_tuple vs' = set_flag HEAP_XMIN_COMMITTED t"
      "\<not> has (t_infomask t) HEAP_XMIN_INVALID" "final (t_xmin t)"
      by (rule rest [OF vs' after_xmin(1-3) [OF good [folded t_def] x(3,2) ok x(1)]]) (use m x in \<open>auto simp: came_meaning\<close>)
  qed
  then show ?thesis using g(1,2)
    by (simp add: HeapTupleSatisfiesVacuumHorizon_def check_xmin_def Let_def t_def [symmetric] del: vpost_if vpost_hint cong: if_cong split del: if_split)
qed

section \<open>Update\<close>

abbreviation may_update :: "CommandId \<Rightarrow> HeapTupleHeaderData \<Rightarrow> TM_Result \<Rightarrow> bool" where
  "may_update curcid t \<equiv> update_verdict final dead active own members (ve_combo env) curcid (ve_self env) t"

abbreviation is_inserted :: "CommandId \<Rightarrow> HeapTupleHeaderData \<Rightarrow> bool" where
  "is_inserted \<equiv> inserted final own (ve_combo env)"

abbreviation judged :: "CommandId \<Rightarrow> HeapTupleHeaderData \<Rightarrow> TM_Result \<Rightarrow> VisState \<Rightarrow> bool" where
  "judged curcid t r vs \<equiv> may_update curcid t r \<and> ok vs \<and> hinted_as t (vs_tuple vs)"

lemma verdict_ok: "is_inserted curcid t \<Longrightarrow> stays dead updater t \<Longrightarrow> may_update curcid t TM_Ok"
  by (simp add: update_verdict_def Let_def)

lemma verdict_self: "is_inserted curcid t \<Longrightarrow> deleter updater t = Some x \<Longrightarrow> own x \<Longrightarrow> may_update curcid t (self_modified env curcid t)"
  by (simp add: update_verdict_def self_modified_def Let_def not_le)

lemma verdict_other: "is_inserted curcid t \<Longrightarrow> deleter updater t = Some x \<Longrightarrow> final x \<Longrightarrow> may_update curcid t (other_modified env t)"
  by (simp add: update_verdict_def other_modified_def Let_def)

lemma verdict_busy:
  assumes "is_inserted curcid t"
  shows "has (t_infomask t) HEAP_XMAX_IS_MULTI \<Longrightarrow> any_active (t_xmax t) \<Longrightarrow> may_update curcid t TM_BeingModified"
    "\<not> has (t_infomask t) HEAP_XMAX_IS_MULTI \<Longrightarrow> active (t_xmax t) \<Longrightarrow> may_update curcid t TM_BeingModified"
  using assms by (auto simp: update_verdict_def Let_def)

lemma update_multi_rule:
  assumes ok: "ok vs" and good: "tuple_good t" and t: "vs_tuple vs = t" and ins: "is_inserted curcid t"
    and m: "\<not> has (t_infomask t) HEAP_XMAX_INVALID" "has (t_infomask t) HEAP_XMAX_IS_MULTI"
    and over: "\<And>vs'. ok vs' \<Longrightarrow> vs_tuple vs' = t \<Longrightarrow> \<not> lo \<Longrightarrow> all_over (t_xmax t) \<Longrightarrow> vpost rest (judged curcid t) vs'"
    and lock: "\<And>vs'. ok vs' \<Longrightarrow> vs_tuple vs' = t \<Longrightarrow> lo \<Longrightarrow> vpost rest (judged curcid t) vs'"
  shows "vpost (vif (vis_multi_running env (t_xmax t) lo) (vret TM_BeingModified) rest) (judged curcid t) vs"
  unfolding vpost_if
proof (rule vpost_multi_running [OF ok tuple_goodD(6) [OF good m]])
  fix a be cache mx let ?vs = "vs\<lparr>vs_be := be, vs_cache := cache, vs_mx := mx\<rparr>"
  assume vs': "ok ?vs" "\<not> lo \<and> \<not> a \<longrightarrow> all_over (t_xmax t)" "a \<longrightarrow> any_active (t_xmax t)"
  show "(if a then vpost (vret TM_BeingModified) (judged curcid t)
      else vpost rest (judged curcid t)) ?vs"
    using vs' over [OF vs'(1)] lock [OF vs'(1)] verdict_busy(1) [OF ins m(2)] t by (cases a; cases lo) auto
qed

lemma unlock_rule:
  assumes "ok vs" "vs_tuple vs = t" "is_inserted curcid t" "stays dead updater t"
  shows "vpost (hint env HEAP_XMAX_INVALID InvalidTransactionId (vret TM_Ok)) (judged curcid t) vs"
  by (rule mark_xmax_invalid [OF assms(1)]) (use assms verdict_ok in \<open>auto simp: stays_def\<close>)

lemma updater_over: "known (updater m) \<Longrightarrow> all_over m \<Longrightarrow> over (updater m)"
  by (erule updater_member) metis

lemma update_settled_rule:
  assumes ok: "ok vs" "vs_tuple vs = t" and good: "tuple_good t" and ins: "is_inserted curcid t"
    and m: "\<not> has (t_infomask t) HEAP_XMAX_INVALID" "has (t_infomask t) HEAP_XMAX_IS_MULTI"
    and x: "known x" "deleter updater t = Some x" "over x"
  shows "vpost (vif (vis_did_commit env x) (vret (other_modified env t)) (vif (vis_multi_running env (t_xmax t) False) (vret TM_BeingModified)
    (hint env HEAP_XMAX_INVALID InvalidTransactionId (vret TM_Ok)))) (judged curcid t) vs"
proof (rule vpost_settled [where past = final, OF ok(1) x(1,3)])
  fix vs' assume vs': "ok vs'" "vs_tuple vs' = vs_tuple vs"
  show "final x \<Longrightarrow> vpost (vret (other_modified env t)) (judged curcid t) vs'" using verdict_other [OF ins x(2)] vs' ok(2) by simp
  show "vpost (vif (vis_multi_running env (t_xmax t) False) (vret TM_BeingModified) (hint env HEAP_XMAX_INVALID InvalidTransactionId (vret TM_Ok)))
    (judged curcid t) vs'" if "dead x"
    by (rule update_multi_rule [OF vs'(1) good _ ins m]) (use unlock_rule [OF _ _ ins] ok(2) x(2) vs'(2) that in \<open>simp_all add: stays_def del: vpost_hint\<close>)
qed

lemma update_updater_rule:
  assumes ok: "ok vs" "vs_tuple vs = t" and good: "tuple_good t" and ins: "is_inserted curcid t"
    and m: "\<not> has (t_infomask t) HEAP_XMAX_INVALID" "has (t_infomask t) HEAP_XMAX_IS_MULTI"
    and x: "known x" "deleter updater t = Some x" "x = updater (t_xmax t)"
  shows "vpost (vif (vis_current x) (vret (self_modified env curcid t)) (vif (vis_multi_running env (t_xmax t) False) (vret TM_BeingModified)
      (vif (vis_did_commit env x) (vret (other_modified env t)) (vif (vis_multi_running env (t_xmax t) False) (vret TM_BeingModified)
        (hint env HEAP_XMAX_INVALID InvalidTransactionId (vret TM_Ok)))))) (judged curcid t) vs" (is "vpost (vif _ _ ?rest) _ _")
proof (cases "own x")
  case True
  then show ?thesis using verdict_self [OF ins x(2)] current [OF ok(1) x(1)] ok by simp
next
  case False
  have "vpost ?rest (judged curcid t) vs"
  proof (rule update_multi_rule [OF ok(1) good ok(2) ins m])
    fix vs' assume vs': "ok vs'" "vs_tuple vs' = t" "all_over (t_xmax t)"
    show "vpost (vif (vis_did_commit env x) (vret (other_modified env t)) (vif (vis_multi_running env (t_xmax t) False) (vret TM_BeingModified)
        (hint env HEAP_XMAX_INVALID InvalidTransactionId (vret TM_Ok)))) (judged curcid t) vs'"
      using update_settled_rule [OF vs'(1,2) good ins m x(1,2)] updater_over vs'(3) x(1,3) by blast
  qed simp
  then show ?thesis using False current [OF ok(1) x(1)] by (simp del: vpost_if add: vpost_if [of "vis_current x"])
qed

lemma update_xmax_rule:
  assumes ok: "ok vs" and good: "tuple_good (vs_tuple vs)" and ins: "is_inserted curcid (vs_tuple vs)"
  shows "vpost (update_xmax env curcid) (judged curcid (vs_tuple vs)) vs"
proof -
  define t where "t = vs_tuple vs"
  let ?m = "t_infomask t" and ?x = "t_xmax t"
  let ?unlock = "hint env HEAP_XMAX_INVALID InvalidTransactionId (vret TM_Ok)"
  note g = tuple_goodD [OF good, folded t_def] and ins = ins [folded t_def] and good' = good [folded t_def]
  note unlock = unlock_rule [OF _ _ ins] and multi = update_multi_rule [OF _ good' _ ins]
  have free: "stays dead updater t" if "has ?m HEAP_XMAX_INVALID \<or> HEAP_XMAX_IS_LOCKED_ONLY ?m" using that by (auto simp: stays_def deleter_def)
  consider "has ?m HEAP_XMAX_INVALID"
    | "\<not> has ?m HEAP_XMAX_INVALID" "has ?m HEAP_XMAX_COMMITTED"
    | "\<not> has ?m HEAP_XMAX_INVALID" "\<not> has ?m HEAP_XMAX_COMMITTED" "has ?m HEAP_XMAX_IS_MULTI" "HEAP_XMAX_IS_LOCKED_ONLY ?m"
    | "\<not> has ?m HEAP_XMAX_INVALID" "\<not> has ?m HEAP_XMAX_COMMITTED" "has ?m HEAP_XMAX_IS_MULTI" "\<not> HEAP_XMAX_IS_LOCKED_ONLY ?m"
    | "\<not> has ?m HEAP_XMAX_INVALID" "\<not> has ?m HEAP_XMAX_COMMITTED" "\<not> has ?m HEAP_XMAX_IS_MULTI" by blast
  then have "vpost (update_xmax env curcid) (judged curcid t) vs"
  proof cases
    case 1
    then show ?thesis using verdict_ok [OF ins] free ok by (simp add: update_xmax_def Let_def t_def [symmetric])
  next
    case 2
    then have "\<not> HEAP_XMAX_IS_LOCKED_ONLY ?m \<Longrightarrow> deleter updater t = Some ?x \<and> final ?x" using g(10) by (auto simp: deleter_def)
    then show ?thesis using 2 verdict_ok [OF ins] verdict_other [OF ins] free ok by (auto simp: update_xmax_def Let_def t_def [symmetric])
  next
    case 3
    have "vpost (vif (vis_multi_running env ?x True) (vret TM_BeingModified) ?unlock) (judged curcid t) vs"
      by (rule multi [OF ok t_def [symmetric] 3(1,3)]) (use unlock free 3(4) in \<open>simp_all del: vpost_hint\<close>)
    then show ?thesis using 3 verdict_ok [OF ins] free ok by (simp add: update_xmax_def Let_def t_def [symmetric] heap_get del: vpost_if)
  next
    case 4
    then have up: "\<not> HEAP_LOCKED_UPGRADED ?m" by (simp add: HEAP_LOCKED_UPGRADED_def HEAP_XMAX_IS_LOCKED_ONLY_def)
    have "vpost (vbind (HeapTupleGetUpdateXid env) (\<lambda>updater.
        vif (if TransactionIdIsValid updater then vret False else vis_multi_running env ?x False) (vret TM_BeingModified)
          (vif (vis_current updater) (vret (self_modified env curcid t)) (vif (vis_multi_running env ?x False) (vret TM_BeingModified)
            (vif (vis_did_commit env updater) (vret (other_modified env t)) (vif (vis_multi_running env ?x False) (vret TM_BeingModified) ?unlock)))))) (judged curcid t) vs"
      by (rule vpost_updater [OF ok good], unfold t_def [symmetric], rule 4, rule 4, rule 4)
        (use update_updater_rule [OF _ _ good' ins 4(1,3)] known_valid in \<open>simp add: vpost_if [of "vret False"] del: vpost_if\<close>)
    then show ?thesis using 4 up by (simp add: update_xmax_def Let_def t_def [symmetric] heap_get del: vpost_if vpost_bind cong: if_cong)
  next
    case 5
    then have x: "known ?x" "\<not> HEAP_XMAX_IS_LOCKED_ONLY ?m \<Longrightarrow> deleter updater t = Some ?x" using g(5) by (auto simp: deleter_def)
    let ?c = "if HEAP_XMAX_IS_LOCKED_ONLY ?m then ?unlock else hint env HEAP_XMAX_COMMITTED ?x (vret (other_modified env t))"
    have "vpost (vif (vis_current ?x) (vret (if HEAP_XMAX_IS_LOCKED_ONLY ?m then TM_BeingModified else self_modified env curcid t))
        (vif (vis_in_progress env ?x) (vret TM_BeingModified) (vif (vis_did_commit env ?x) ?c ?unlock))) (judged curcid t) vs"
    proof (rule vpost_fate [OF ok x(1) answers_in_progress])
      show "own ?x \<Longrightarrow> vpost (vret (if HEAP_XMAX_IS_LOCKED_ONLY ?m then TM_BeingModified else self_modified env curcid t)) (judged curcid t) vs"
        using verdict_busy(2) [OF ins 5(3)] verdict_self [OF ins x(2)] outcome [OF ok, of ?x] ok by (auto simp: t_def)
      fix vs' assume vs': "ok vs'" "vs_tuple vs' = vs_tuple vs"
      show "active ?x \<Longrightarrow> vpost (vret TM_BeingModified) (judged curcid t) vs'" using verdict_busy(2) [OF ins 5(3)] vs' by (simp add: t_def)
      show "vpost ?c (judged curcid t) vs'" if "final ?x"
        using mark_xmax_committed [OF vs'(1), of "judged curcid t" "other_modified env t"] verdict_other [OF ins x(2) that] unlock [OF vs'(1)] free vs'(2) that 5(3)
        by (simp add: t_def del: vpost_hint)
      show "dead ?x \<Longrightarrow> vpost ?unlock (judged curcid t) vs'"
        using unlock [OF vs'(1)] vs'(2) free x(2) by (cases "HEAP_XMAX_IS_LOCKED_ONLY ?m") (simp_all add: t_def stays_def del: vpost_hint)
    qed
    then show ?thesis using 5 by (simp add: update_xmax_def Let_def t_def [symmetric] heap_get del: vpost_if cong: if_cong split del: if_split)
  qed
  then show ?thesis by (simp add: t_def)
qed

lemma own_update_rule:
  assumes ok: "ok vs" and good: "tuple_good (vs_tuple vs)" and own: "own (t_xmin (vs_tuple vs))"
    and m: "\<not> has (t_infomask (vs_tuple vs)) HEAP_XMIN_COMMITTED" "\<not> has (t_infomask (vs_tuple vs)) HEAP_XMIN_INVALID"
  shows "vpost (own_update env curcid) (judged curcid (vs_tuple vs)) vs"
proof -
  define t where "t = vs_tuple vs"
  let ?m = "t_infomask t" and ?x = "t_xmax t" and ?early = "HeapTupleHeaderGetCmin (ve_combo env) t \<ge> curcid"
  note g = tuple_goodD [OF good, folded t_def] and good' = good [folded t_def]
  have ins: "is_inserted curcid t \<longleftrightarrow> \<not> ?early" using own m by (auto simp: t_def inserted_def xmin_invalid_iff xmin_frozen_iff)
  have free: "stays dead updater t" if "has ?m HEAP_XMAX_INVALID \<or> HEAP_XMAX_IS_LOCKED_ONLY ?m" using that by (auto simp: stays_def deleter_def)
  have rolled_back: "stays dead updater t" if "deleter updater t = Some x" "\<not> own x" for x
    using g(8) [OF m(1) [folded t_def] own [folded t_def] that(1)] that by (simp add: stays_def)
  consider "?early" | "is_inserted curcid t" "has ?m HEAP_XMAX_INVALID"
    | "is_inserted curcid t" "\<not> has ?m HEAP_XMAX_INVALID" "HEAP_XMAX_IS_LOCKED_ONLY ?m" "has ?m HEAP_XMAX_IS_MULTI"
    | "is_inserted curcid t" "\<not> has ?m HEAP_XMAX_INVALID" "HEAP_XMAX_IS_LOCKED_ONLY ?m" "\<not> has ?m HEAP_XMAX_IS_MULTI"
    | "is_inserted curcid t" "\<not> has ?m HEAP_XMAX_INVALID" "\<not> HEAP_XMAX_IS_LOCKED_ONLY ?m" "has ?m HEAP_XMAX_IS_MULTI"
    | "is_inserted curcid t" "\<not> has ?m HEAP_XMAX_INVALID" "\<not> HEAP_XMAX_IS_LOCKED_ONLY ?m" "\<not> has ?m HEAP_XMAX_IS_MULTI" using ins by blast
  then have "vpost (own_update env curcid) (judged curcid t) vs"
  proof cases
    case 1
    then show ?thesis using ok ins by (simp add: own_update_def Let_def t_def [symmetric] update_verdict_def)
  next
    case 2
    then show ?thesis using ok ins free verdict_ok by (simp add: own_update_def Let_def t_def [symmetric])
  next
    case 3
    have "vpost (vif (vis_multi_running env ?x True) (vret TM_BeingModified) (vret TM_Ok)) (judged curcid t) vs"
      by (rule update_multi_rule [OF ok good' t_def [symmetric] 3(1,2,4)]) (use free 3(1,3) verdict_ok in simp_all)
    then show ?thesis using 3 ins by (simp add: own_update_def Let_def t_def [symmetric] heap_get del: vpost_if)
  next
    case 4
    have "vpost (vif (vis_in_progress env ?x) (vret TM_BeingModified) (vret TM_Ok)) (judged curcid t) vs"
      unfolding vpost_if by (rule vpost_in_progress [OF ok g(5) [OF 4(2,4)]]) (use free 4 verdict_ok verdict_busy(2) t_def in auto)
    then show ?thesis using 4 ins by (simp add: own_update_def Let_def t_def [symmetric] heap_get del: vpost_if)
  next
    case 5
    have "vpost (vif (vis_current x) (vret (self_modified env curcid t)) (vif (vis_multi_running env ?x False) (vret TM_BeingModified) (vret TM_Ok))) (judged curcid t) vs'"
      if vs': "ok vs'" "vs_tuple vs' = t" and x: "known x" "deleter updater t = Some x" for x vs'
    proof (cases "own x")
      case True
      then show ?thesis using current [OF vs'(1) x(1)] verdict_self [OF 5(1) x(2)] vs' by simp
    next
      case False
      have "vpost (vif (vis_multi_running env ?x False) (vret TM_BeingModified) (vret TM_Ok)) (judged curcid t) vs'"
        by (rule update_multi_rule [OF vs'(1) good' vs'(2) 5(1,2,4)]) (use rolled_back [OF x(2) False] verdict_ok [OF 5(1)] in simp_all)
      then show ?thesis using current [OF vs'(1) x(1)] False by simp
    qed
    then have "vpost (vbind (HeapTupleGetUpdateXid env) (\<lambda>x. vif (vis_current x) (vret (self_modified env curcid t))
        (vif (vis_multi_running env ?x False) (vret TM_BeingModified) (vret TM_Ok)))) (judged curcid t) vs"
      by (intro vpost_updater [OF ok good], unfold t_def [symmetric]) (use 5 in \<open>simp_all del: vpost_if\<close>)
    then show ?thesis using 5 ins by (simp add: own_update_def Let_def t_def [symmetric] heap_get del: vpost_if vpost_bind)
  next
    case 6
    then have x: "known ?x" "deleter updater t = Some ?x" using g(5) by (auto simp: deleter_def)
    show ?thesis
    proof (cases "own ?x")
      case True
      then show ?thesis using 6 ins current [OF ok x(1)] verdict_self [OF 6(1) x(2)] ok by (simp add: own_update_def Let_def t_def [symmetric] heap_get)
    next
      case False
      then show ?thesis using 6 ins current [OF ok x(1)] unlock_rule [OF ok t_def [symmetric] 6(1) rolled_back [OF x(2)]]
        by (simp add: own_update_def Let_def t_def [symmetric] heap_get del: vpost_hint)
    qed
  qed
  then show ?thesis by (simp add: t_def)
qed

lemma update_correct:
  assumes ok: "ok vs" and good: "tuple_good (vs_tuple vs)"
  shows "vpost (HeapTupleSatisfiesUpdate env curcid) (judged curcid (vs_tuple vs)) vs"
proof -
  define t where "t = vs_tuple vs"
  note g = tuple_goodD [OF good, folded t_def] and meaning = inserted_def xmin_invalid_iff xmin_frozen_iff
  have "vpost (check_xmin env (vis_in_progress env) TM_Invisible (update_xmax env curcid) (own_update env curcid) (vret TM_Invisible) (update_xmax env curcid)) (judged curcid t) vs"
  proof (rule check_xmin_rule [OF ok good t_def answers_in_progress])
    show "vpost (update_xmax env curcid) (judged curcid t) vs" if "has (t_infomask t) HEAP_XMIN_COMMITTED"
    proof -
      have "is_inserted curcid t" using that g(9) outcome [OF ok, of "t_xmin t"] by (auto simp: meaning)
      then show ?thesis using update_xmax_rule [OF ok good] by (simp add: t_def)
    qed
    show "vpost (own_update env curcid) (judged curcid t) vs" if "\<not> has (t_infomask t) HEAP_XMIN_COMMITTED" "\<not> has (t_infomask t) HEAP_XMIN_INVALID" "own (t_xmin t)"
      using own_update_rule [OF ok good] that by (simp add: t_def)
    fix vs' assume vs': "ok vs'" and m: "\<not> has (t_infomask t) HEAP_XMIN_COMMITTED"
    show "judged curcid t TM_Invisible vs'" if "hinted_as t (vs_tuple vs')" "has (t_infomask t) HEAP_XMIN_INVALID \<or> dead (t_xmin t)"
      using that vs' m outcome [OF ok, of "t_xmin t"] by (auto simp: update_verdict_def meaning)
    show "vpost (vret TM_Invisible) (judged curcid t) vs'" if "vs_tuple vs' = t" "\<not> own (t_xmin t)" "active (t_xmin t)"
      using that vs' m outcome [OF ok, of "t_xmin t"] by (auto simp: update_verdict_def meaning)
    show "vpost (update_xmax env curcid) (judged curcid t) vs'" if x: "vs_tuple vs' = t \<or> vs_tuple vs' = set_flag HEAP_XMIN_COMMITTED t"
      "\<not> has (t_infomask t) HEAP_XMIN_INVALID" "final (t_xmin t)"
    proof -
      note a = after_xmin [OF good [folded t_def] x(3,2) ok x(1)]
      have ins: "is_inserted curcid t" "is_inserted curcid (vs_tuple vs')" using x outcome [OF ok, of "t_xmin t"] by (auto simp: meaning)
      have same: "may_update curcid (vs_tuple vs') = may_update curcid t"
        using ins a(3-5) x(1) by (intro ext) (auto simp: update_verdict_def stays_def Let_def split: TM_Result.splits)
      show ?thesis by (rule vpost_mono [OF update_xmax_rule [OF vs' a(1) ins(2)]]) (use same a(2) rehinted_trans in metis)
    qed
  qed
  then show ?thesis by (simp add: HeapTupleSatisfiesUpdate_def t_def)
qed

end

end
