(* ===== verification/VisibilitySelf.thy ===== *)
theory VisibilitySelf
  imports VisibilityUpdate
begin

text \<open>
  The tests without a snapshot: \<^verbatim>\<open>HeapTupleSatisfiesSelf\<close>, which sees what has committed by now and everything of
  the own transaction, and \<^verbatim>\<open>HeapTupleSatisfiesDirty\<close>, which also sees open transactions and reports them.
\<close>

section \<open>Verdicts\<close>

definition seen_now :: "(TransactionId \<Rightarrow> bool) \<Rightarrow> (TransactionId \<Rightarrow> bool) \<Rightarrow> (MultiXactId \<Rightarrow> TransactionId) \<Rightarrow> HeapTupleHeaderData \<Rightarrow> bool" where
  "seen_now final own updater t \<longleftrightarrow>
     (came final t \<or> \<not> HeapTupleHeaderXminInvalid t \<and> own (t_xmin t)) \<and>
     (case deleter updater t of None \<Rightarrow> True | Some x \<Rightarrow> \<not> own x \<and> \<not> final x)"

text \<open>
  A dirty read: without an open transaction the answer is that of a read by now; an open transaction makes
  the tuple visible and is reported.
\<close>

definition dirty_verdict ::
    "(TransactionId \<Rightarrow> bool) \<Rightarrow> (TransactionId \<Rightarrow> bool) \<Rightarrow> (TransactionId \<Rightarrow> bool) \<Rightarrow> (MultiXactId \<Rightarrow> TransactionId) \<Rightarrow> HeapTupleHeaderData \<Rightarrow>
     DirtyResult \<Rightarrow> bool" where
  "dirty_verdict final active own updater t d \<longleftrightarrow>
     (if TransactionIdIsValid (d_xmin d) then d_visible d \<and> d_xmin d = t_xmin t \<and> active (t_xmin t) \<and> \<not> own (t_xmin t)
      else if TransactionIdIsValid (d_xmax d) then d_visible d \<and> came final t \<and> deleter updater t = Some (d_xmax d) \<and> active (d_xmax d) \<and> \<not> own (d_xmax d)
      else d_visible d = seen_now final own updater t)"

context xid_view
begin

abbreviation now_seen :: "HeapTupleHeaderData \<Rightarrow> bool" where
  "now_seen \<equiv> seen_now final own updater"

lemma seen_cases:
  "came final t \<Longrightarrow> deleter updater t = Some x \<Longrightarrow> now_seen t = (\<not> own x \<and> \<not> final x)"
  "came final t \<Longrightarrow> deleter updater t = None \<Longrightarrow> now_seen t"
  by (simp_all add: seen_now_def)

section \<open>Tuples of the own transaction\<close>

lemma own_self_rule:
  assumes ok: "ok vs" and good: "tuple_good (vs_tuple vs)" and own: "own (t_xmin (vs_tuple vs))"
    and m: "\<not> has (t_infomask (vs_tuple vs)) HEAP_XMIN_COMMITTED" "\<not> has (t_infomask (vs_tuple vs)) HEAP_XMIN_INVALID"
  shows "vpost (own_self env) (\<lambda>r vs'. r = now_seen (vs_tuple vs) \<and> ok vs' \<and> hinted_as (vs_tuple vs) (vs_tuple vs')) vs"
proof -
  define t where "t = vs_tuple vs"
  let ?m = "t_infomask t" and ?Q = "\<lambda>r vs'. r = now_seen t \<and> ok vs' \<and> hinted_as t (vs_tuple vs')"
  note g = tuple_goodD [OF good, folded t_def]
  have ins: "now_seen t = (case deleter updater t of None \<Rightarrow> True | Some x \<Rightarrow> \<not> own x \<and> \<not> final x)"
    using own m by (auto simp: seen_now_def xmin_invalid_iff t_def)
  have del: "now_seen t = (\<not> own x)" "\<not> own x \<Longrightarrow> dead x" if "deleter updater t = Some x" for x
    using g(8) [OF m(1) [folded t_def] own [folded t_def] that] outcome [OF ok, of x] that by (auto simp: ins)
  consider "has ?m HEAP_XMAX_INVALID \<or> HEAP_XMAX_IS_LOCKED_ONLY ?m"
    | "\<not> has ?m HEAP_XMAX_INVALID" "\<not> HEAP_XMAX_IS_LOCKED_ONLY ?m" "has ?m HEAP_XMAX_IS_MULTI"
    | "\<not> has ?m HEAP_XMAX_INVALID" "\<not> HEAP_XMAX_IS_LOCKED_ONLY ?m" "\<not> has ?m HEAP_XMAX_IS_MULTI" by blast
  then have "vpost (own_self env) ?Q vs"
  proof cases
    case 1
    then show ?thesis using ok by (auto simp: own_self_def Let_def t_def [symmetric] ins deleter_def)
  next
    case 2
    have "vpost (vif (vis_current x) (vret False) (vret True)) ?Q vs'" if "ok vs'" "vs_tuple vs' = t" "known x" "deleter updater t = Some x" for x vs'
      using current [OF that(1,3)] that del(1) [OF that(4)] by simp
    then have "vpost (vbind (HeapTupleGetUpdateXid env) (\<lambda>x. vif (vis_current x) (vret False) (vret True))) ?Q vs"
      by (intro vpost_updater [OF ok good], unfold t_def [symmetric]) (use 2 in \<open>simp_all del: vpost_if\<close>)
    then show ?thesis using 2 by (simp add: own_self_def Let_def t_def [symmetric] del: vpost_if vpost_bind)
  next
    case 3
    then have x: "known (t_xmax t)" "deleter updater t = Some (t_xmax t)" using g(5) by (auto simp: deleter_def)
    show ?thesis
    proof (cases "own (t_xmax t)")
      case True
      then show ?thesis using 3 current [OF ok x(1)] del(1) [OF x(2)] ok by (simp add: own_self_def Let_def t_def [symmetric] heap_get)
    next
      case False
      have "vpost (hint env HEAP_XMAX_INVALID InvalidTransactionId (vret True)) ?Q vs"
        by (rule mark_xmax_invalid [OF ok]) (use x(2) del [OF x(2)] False in \<open>simp_all add: t_def [symmetric]\<close>)
      then show ?thesis using 3 False current [OF ok x(1)] by (simp add: own_self_def Let_def t_def [symmetric] heap_get del: vpost_hint)
    qed
  qed
  then show ?thesis by (simp add: t_def)
qed

section \<open>The deleting transaction\<close>

abbreviation dirty_answer :: "HeapTupleHeaderData \<Rightarrow> DirtyResult \<Rightarrow> VisState \<Rightarrow> bool" where
  "dirty_answer t d vs \<equiv> \<not> TransactionIdIsValid (d_xmin d) \<and> dirty_verdict final active own updater t d \<and> ok vs \<and> hinted_as t (vs_tuple vs)"

lemma dirty_plain: "now_seen t = v \<Longrightarrow> ok vs \<Longrightarrow> hinted_as t (vs_tuple vs) \<Longrightarrow> dirty_answer t (dirty v) vs"
  by (simp add: dirty_verdict_def dirty_def TransactionIdIsValid_def)

lemma dirty_open:
  "came final t \<Longrightarrow> deleter updater t = Some x \<Longrightarrow> known x \<Longrightarrow> active x \<Longrightarrow> \<not> own x \<Longrightarrow> ok vs \<Longrightarrow> hinted_as t (vs_tuple vs) \<Longrightarrow>
    dirty_answer t ((dirty True)\<lparr>d_xmax := x\<rparr>) vs"
  using known_valid [of x] by (simp add: dirty_verdict_def dirty_def TransactionIdIsValid_def)

lemma dirty_xmax_rule:
  assumes ok: "ok vs" and good: "tuple_good (vs_tuple vs)" and came: "came final (vs_tuple vs)"
  shows "vpost (dirty_xmax env) (dirty_answer (vs_tuple vs)) vs"
proof -
  define t where "t = vs_tuple vs"
  let ?m = "t_infomask t" and ?x = "t_xmax t" and ?lo = "HEAP_XMAX_IS_LOCKED_ONLY (t_infomask t)"
  note g = tuple_goodD [OF good, folded t_def] and came = came [folded t_def]
  have free: "now_seen t" "stays dead updater t" if "has ?m HEAP_XMAX_INVALID \<or> ?lo" using that came by (auto simp: seen_now_def stays_def deleter_def)
  have del: "now_seen t = (\<not> own x \<and> \<not> final x)" if "deleter updater t = Some x" for x using seen_cases(1) [OF came that] .
  have unlock: "vpost (hint env HEAP_XMAX_INVALID InvalidTransactionId (vret (dirty True))) (dirty_answer t) vs'"
    if "ok vs'" "vs_tuple vs' = t" "stays dead updater t" for vs'
  proof (rule mark_xmax_invalid [OF that(1)])
    have "now_seen t"
    proof (cases "deleter updater t")
      case None
      then show ?thesis using seen_cases(2) [OF came] by blast
    next
      case (Some x)
      then show ?thesis using del [OF Some] that(3) outcome [OF ok, of x] by (auto simp: stays_def)
    qed
    then show "ok vs'' \<Longrightarrow> hinted_as (vs_tuple vs') (vs_tuple vs'') \<Longrightarrow> dirty_answer t (dirty True) vs''" for vs''
      using dirty_plain [of t True vs''] that(2) by simp
  qed (use that(2,3) in \<open>simp add: stays_def\<close>)
  consider "has ?m HEAP_XMAX_INVALID" | "\<not> has ?m HEAP_XMAX_INVALID" "has ?m HEAP_XMAX_COMMITTED"
    | "\<not> has ?m HEAP_XMAX_INVALID" "\<not> has ?m HEAP_XMAX_COMMITTED" "has ?m HEAP_XMAX_IS_MULTI" "?lo"
    | "\<not> has ?m HEAP_XMAX_INVALID" "\<not> has ?m HEAP_XMAX_COMMITTED" "has ?m HEAP_XMAX_IS_MULTI" "\<not> ?lo"
    | "\<not> has ?m HEAP_XMAX_INVALID" "\<not> has ?m HEAP_XMAX_COMMITTED" "\<not> has ?m HEAP_XMAX_IS_MULTI" by blast
  then have "vpost (dirty_xmax env) (dirty_answer t) vs"
  proof cases
    case 1
    then show ?thesis using free dirty_plain [of t True vs] ok by (simp add: dirty_xmax_def Let_def t_def [symmetric])
  next
    case 2
    have "now_seen t = ?lo"
    proof (cases "?lo")
      case False
      then have "deleter updater t = Some ?x" "final ?x" using 2 g(10) by (auto simp: deleter_def)
      then show ?thesis using del False by simp
    qed (use free in simp)
    then show ?thesis using 2 dirty_plain [of t ?lo vs] ok by (simp add: dirty_xmax_def Let_def t_def [symmetric])
  next
    case 3
    then show ?thesis using free dirty_plain [of t True vs] ok by (simp add: dirty_xmax_def Let_def t_def [symmetric])
  next
    case 4
    have "vpost (vif (vis_current x) (vret (dirty False)) (vif (vis_in_progress env x) (vret ((dirty True)\<lparr>d_xmax := x\<rparr>))
        (vif (vis_did_commit env x) (vret (dirty False)) (vret (dirty True))))) (dirty_answer t) vs'"
      if "ok vs'" "vs_tuple vs' = t" "known x" "deleter updater t = Some x" for x vs'
    proof (rule vpost_fate [OF that(1,3) answers_in_progress])
      note del = del [OF that(4)] and out = outcome [OF ok, of x]
      show "own x \<Longrightarrow> vpost (vret (dirty False)) (dirty_answer t) vs'" using dirty_plain [of t False vs'] del that(1,2) by simp
      fix vs'' assume vs'': "ok vs''" "vs_tuple vs'' = vs_tuple vs'" "\<not> own x"
      show "active x \<Longrightarrow> vpost (vret ((dirty True)\<lparr>d_xmax := x\<rparr>)) (dirty_answer t) vs''" using dirty_open [OF came that(4,3)] vs'' that(2) by simp
      show "final x \<Longrightarrow> vpost (vret (dirty False)) (dirty_answer t) vs''" using dirty_plain [of t False vs''] del vs'' that(2) by simp
      show "vpost (vret (dirty True)) (dirty_answer t) vs''" if "dead x"
      proof -
        have "now_seen t" using del out that by auto
        then show ?thesis using dirty_plain [of t True vs''] vs'' \<open>vs_tuple vs' = t\<close> by simp
      qed
    qed
    then have "vpost (vbind (HeapTupleGetUpdateXid env) (\<lambda>x. vif (vis_current x) (vret (dirty False)) (vif (vis_in_progress env x) (vret ((dirty True)\<lparr>d_xmax := x\<rparr>))
        (vif (vis_did_commit env x) (vret (dirty False)) (vret (dirty True)))))) (dirty_answer t) vs"
      by (intro vpost_updater [OF ok good], unfold t_def [symmetric]) (use 4 in \<open>simp_all del: vpost_if\<close>)
    then show ?thesis using 4 by (simp add: dirty_xmax_def Let_def t_def [symmetric] del: vpost_if vpost_bind)
  next
    case 5
    then have x: "known ?x" "\<not> ?lo \<Longrightarrow> deleter updater t = Some ?x" using g(5) by (auto simp: deleter_def)
    let ?open = "vret (if ?lo then dirty True else (dirty True)\<lparr>d_xmax := ?x\<rparr>)" and ?unlock = "hint env HEAP_XMAX_INVALID InvalidTransactionId (vret (dirty True))"
    let ?c = "if ?lo then ?unlock else hint env HEAP_XMAX_COMMITTED ?x (vret (dirty False))"
    have "vpost (vif (vis_current ?x) (vret (dirty ?lo)) (vif (vis_in_progress env ?x) ?open (vif (vis_did_commit env ?x) ?c ?unlock))) (dirty_answer t) vs"
    proof (rule vpost_fate [OF ok x(1) answers_in_progress])
      have lock: "now_seen t" if "?lo" using free that by blast
      show "own ?x \<Longrightarrow> vpost (vret (dirty ?lo)) (dirty_answer t) vs" using dirty_plain [of t ?lo vs] lock del [OF x(2)] ok t_def by (cases ?lo) simp_all
      fix vs' assume vs': "ok vs'" "vs_tuple vs' = vs_tuple vs" "\<not> own ?x"
      show "active ?x \<Longrightarrow> vpost ?open (dirty_answer t) vs'"
        using dirty_open [OF came x(2) x(1)] dirty_plain [of t True vs'] lock vs' t_def by (cases ?lo) simp_all
      show "vpost ?c (dirty_answer t) vs'" if "final ?x"
        using mark_xmax_committed [OF vs'(1), of "dirty_answer t" "dirty False"] dirty_plain [of t False] unlock [OF vs'(1)] free del [OF x(2)] vs'(2) that 5(3) t_def
        by (cases ?lo) (simp_all del: vpost_hint)
      show "dead ?x \<Longrightarrow> vpost ?unlock (dirty_answer t) vs'"
        using unlock [OF vs'(1)] vs'(2) free x(2) by (cases ?lo) (simp_all add: t_def stays_def del: vpost_hint)
    qed
    then show ?thesis using 5 by (simp add: dirty_xmax_def Let_def t_def [symmetric] heap_get del: vpost_if cong: if_cong split del: if_split)
  qed
  then show ?thesis by (simp add: t_def)
qed

text \<open>The two tests ask the same questions about the deleting transaction.\<close>

lemma self_xmax_dirty: "vpost (self_xmax env) Q vs = vpost (dirty_xmax env) (\<lambda>d. Q (d_visible d)) vs"
  by (simp add: self_xmax_def dirty_xmax_def Let_def dirty_def if_distrib [of "\<lambda>m. vpost m _"] if_distrib [of d_visible] if_distrib [of Q] cong: if_cong)

section \<open>The whole tests\<close>

lemma after_came:
  assumes "tuple_good t" "final (t_xmin t)" "\<not> has (t_infomask t) HEAP_XMIN_INVALID" "ok vs"
    and "t' = t \<or> t' = set_flag HEAP_XMIN_COMMITTED t"
  shows "came final t'" "came final t" "now_seen t' = now_seen t" "dirty_verdict final active own updater t' = dirty_verdict final active own updater t"
proof -
  show came: "came final t'" "came final t" using assms by (auto simp: came_meaning)
  then show "now_seen t' = now_seen t" using after_xmin(3) [OF assms] by (simp add: seen_now_def)
  then show "dirty_verdict final active own updater t' = dirty_verdict final active own updater t"
    using came after_xmin(3) [OF assms] assms(5) by (intro ext) (auto simp: dirty_verdict_def)
qed

lemma dirty_seen:
  assumes "ok vs" "\<not> TransactionIdIsValid (d_xmin d)" "dirty_verdict final active own updater t d"
  shows "d_visible d = now_seen t"
  using assms outcome [OF assms(1), of "d_xmax d"] seen_cases(1) [of t "d_xmax d"] by (auto simp: dirty_verdict_def split: if_splits)

lemma dirty_correct:
  assumes ok: "ok vs" and good: "tuple_good (vs_tuple vs)"
  shows "vpost (HeapTupleSatisfiesDirty env)
    (\<lambda>d vs'. dirty_verdict final active own updater (vs_tuple vs) d \<and> ok vs' \<and> hinted_as (vs_tuple vs) (vs_tuple vs')) vs"
proof -
  define t where "t = vs_tuple vs"
  let ?Q = "\<lambda>d vs'. dirty_verdict final active own updater t d \<and> ok vs' \<and> hinted_as t (vs_tuple vs')"
  note g = tuple_goodD [OF good, folded t_def]
  have plain: "?Q (dirty v) vs'" if "now_seen t = v" "ok vs'" "hinted_as t (vs_tuple vs')" for v vs' using dirty_plain [OF that] by blast
  have "vpost (check_xmin env (vis_in_progress env) (dirty False) (dirty_xmax env) (vbind (own_self env) (\<lambda>r. vret (dirty r))) dirty_inserting (dirty_xmax env)) ?Q vs"
  proof (rule check_xmin_rule [OF ok good t_def answers_in_progress])
    show "vpost (dirty_xmax env) ?Q vs" if "has (t_infomask t) HEAP_XMIN_COMMITTED"
    proof -
      have "came final t" using that g(9) by (auto simp: came_meaning)
      then show ?thesis using dirty_xmax_rule [OF ok good] by (auto simp: t_def elim: vpost_mono)
    qed
    show "vpost (vbind (own_self env) (\<lambda>r. vret (dirty r))) ?Q vs" if "\<not> has (t_infomask t) HEAP_XMIN_COMMITTED" "\<not> has (t_infomask t) HEAP_XMIN_INVALID" "own (t_xmin t)"
      unfolding vpost_bind vpost_ret by (rule vpost_mono [OF own_self_rule [OF ok good]]) (use that plain t_def in auto)
    fix vs' assume vs': "ok vs'" and m: "\<not> has (t_infomask t) HEAP_XMIN_COMMITTED"
    show "?Q (dirty False) vs'" if "hinted_as t (vs_tuple vs')" "has (t_infomask t) HEAP_XMIN_INVALID \<or> dead (t_xmin t)"
      by (rule plain [OF _ vs' that(1)]) (use that(2) m outcome [OF ok, of "t_xmin t"] in \<open>auto simp: seen_now_def came_meaning\<close>)
    show "vpost dirty_inserting ?Q vs'" if "vs_tuple vs' = t" "\<not> has (t_infomask t) HEAP_XMIN_INVALID" "\<not> own (t_xmin t)" "active (t_xmin t)"
      using that vs' known_valid [OF g(4)] by (simp add: dirty_inserting_def dirty_verdict_def dirty_def heap_get)
    show "vpost (dirty_xmax env) ?Q vs'" if x: "vs_tuple vs' = t \<or> vs_tuple vs' = set_flag HEAP_XMIN_COMMITTED t"
      "\<not> has (t_infomask t) HEAP_XMIN_INVALID" "final (t_xmin t)"
    proof -
      note a = after_xmin [OF good [folded t_def] x(3,2) ok x(1)] and b = after_came [OF good [folded t_def] x(3,2) ok x(1)]
      show ?thesis by (rule vpost_mono [OF dirty_xmax_rule [OF vs' a(1) b(1)]]) (use a(2) b(4) rehinted_trans in metis)
    qed
  qed
  then show ?thesis by (simp add: HeapTupleSatisfiesDirty_def t_def)
qed

lemma self_correct:
  assumes ok: "ok vs" and good: "tuple_good (vs_tuple vs)"
  shows "vpost (HeapTupleSatisfiesSelf env) (\<lambda>r vs'. r = now_seen (vs_tuple vs) \<and> ok vs' \<and> hinted_as (vs_tuple vs) (vs_tuple vs')) vs"
proof -
  define t where "t = vs_tuple vs"
  let ?Q = "\<lambda>r vs'. r = now_seen t \<and> ok vs' \<and> hinted_as t (vs_tuple vs')"
  note g = tuple_goodD [OF good, folded t_def]
  have rest: "vpost (self_xmax env) ?Q vs'" if "ok vs'" "tuple_good (vs_tuple vs')" "came final (vs_tuple vs')" "now_seen (vs_tuple vs') = now_seen t" "hinted_as t (vs_tuple vs')" for vs'
    unfolding self_xmax_dirty
  proof (rule vpost_mono [OF dirty_xmax_rule [OF that(1-3)]])
    fix d vs'' assume "dirty_answer (vs_tuple vs') d vs''"
    then show "?Q (d_visible d) vs''" using dirty_seen [OF that(1)] that(4,5) rehinted_trans by metis
  qed
  have "vpost (check_xmin env (vis_in_progress env) False (self_xmax env) (own_self env) (vret False) (self_xmax env)) ?Q vs"
  proof (rule check_xmin_rule [OF ok good t_def answers_in_progress])
    show "vpost (self_xmax env) ?Q vs" if "has (t_infomask t) HEAP_XMIN_COMMITTED"
      by (rule rest [OF ok good]) (use that g(9) t_def in \<open>auto simp: came_meaning\<close>)
    show "vpost (own_self env) ?Q vs" if "\<not> has (t_infomask t) HEAP_XMIN_COMMITTED" "\<not> has (t_infomask t) HEAP_XMIN_INVALID" "own (t_xmin t)"
      using own_self_rule [OF ok good] that by (simp add: t_def)
    fix vs' assume vs': "ok vs'" and m: "\<not> has (t_infomask t) HEAP_XMIN_COMMITTED"
    show "?Q False vs'" if "hinted_as t (vs_tuple vs')" "has (t_infomask t) HEAP_XMIN_INVALID \<or> dead (t_xmin t)"
      using that vs' m outcome [OF ok, of "t_xmin t"] by (auto simp: seen_now_def came_meaning)
    show "vpost (vret False) ?Q vs'" if "vs_tuple vs' = t" "\<not> has (t_infomask t) HEAP_XMIN_INVALID" "\<not> own (t_xmin t)" "active (t_xmin t)"
      using that vs' m outcome [OF ok, of "t_xmin t"] by (auto simp: seen_now_def came_meaning)
    show "vpost (self_xmax env) ?Q vs'" if x: "vs_tuple vs' = t \<or> vs_tuple vs' = set_flag HEAP_XMIN_COMMITTED t"
      "\<not> has (t_infomask t) HEAP_XMIN_INVALID" "final (t_xmin t)"
      using rest [OF vs' after_xmin(1) [OF good [folded t_def] x(3,2) ok x(1)]] after_came [OF good [folded t_def] x(3,2) ok x(1)]
        after_xmin(2) [OF good [folded t_def] x(3,2) ok x(1)] by blast
  qed
  then show ?thesis by (simp add: HeapTupleSatisfiesSelf_def t_def)
qed

end

end
