(* ===== verification/XidAssign.thy ===== *)
theory XidAssign
  imports ProcArray
begin

text \<open>
  The parts of \<^verbatim>\<open>src/src/backend/access/transam/xact.c\<close> that assign transaction ids and record how
  transactions end, with the calls into the array of running transactions and the commit log, and
  \<open>SnapshotResetXmin\<close> of \<^verbatim>\<open>snapmgr.c\<close>.  WAL records, locks and predicate locks are not part of the model.
\<close>

section \<open>Assigning ids\<close>

datatype assign_error = AssignVarsup varsup_error | AssignSubtrans clog_error | AssignParallel

text \<open>
  \<open>AssignTransactionId\<close> for the head of the stack.  Parents without an id get theirs first, outermost
  first.  The second component of the result is \<^verbatim>\<open>XactTopFullTransactionId\<close>; what was done before an
  error stays done.
\<close>

fun AssignTransactionId ::
    "ProcessMode \<Rightarrow> nat \<Rightarrow> XactXids list \<Rightarrow> FullTransactionId \<Rightarrow> ShmemState \<Rightarrow>
     assign_error option \<times> XactXids list \<times> FullTransactionId \<times> ShmemState" where
  "AssignTransactionId mode i [] topfull shm = (None, [], topfull, shm)"
| "AssignTransactionId mode i (s # parents) topfull shm =
     (if InParallelMode mode then (Some AssignParallel, s # parents, topfull, shm)
      else
        let (err, parents, topfull, shm) =
              (if parents \<noteq> [] \<and> \<not> FullTransactionIdIsValid (fullTransactionId (hd parents))
               then AssignTransactionId mode i parents topfull shm
               else (None, parents, topfull, shm))
        in case err of
             Some e \<Rightarrow> (Some e, s # parents, topfull, shm)
           | None \<Rightarrow>
               (case GetNewTransactionId mode i (parents \<noteq> []) shm of
                  Inl e \<Rightarrow> (Some (AssignVarsup e), s # parents, topfull, shm)
                | Inr (full, shm) \<Rightarrow>
                    let s = s\<lparr>fullTransactionId := full\<rparr>
                    in if parents = [] then (None, s # parents, full, shm)
                       else case SubTransSetParent (xs_xid s) (xs_xid (hd parents)) (shm_subtrans shm) of
                              Inl e \<Rightarrow> (Some (AssignSubtrans e), s # parents, topfull, shm)
                            | Inr st \<Rightarrow> (None, s # parents, topfull, shm\<lparr>shm_subtrans := st\<rparr>)))"

section \<open>Recording the end of a transaction\<close>

text \<open>
  \<open>sync\<close> is the outcome of the test for a synchronous commit; \<open>XactLastRecEnd\<close> the end of the commit
  record.  The result is \<^verbatim>\<open>latestXid\<close>.
\<close>

definition RecordTransactionCommit ::
    "bool \<Rightarrow> XLogRecPtr \<Rightarrow> BackendState \<Rightarrow> ShmemState \<Rightarrow> clog_error + TransactionId \<times> ShmemState" where
  "RecordTransactionCommit sync XactLastRecEnd be shm =
     (let xid = XidFromFullTransactionId (XactTopFullTransactionId be);
          children = xactGetCommittedChildren (xact_stack be)
      in if \<not> TransactionIdIsValid xid then Inr (InvalidTransactionId, shm)
         else case (if sync then TransactionIdCommitTree False xid children (shm_clog shm)
                    else TransactionIdAsyncCommitTree False xid children XactLastRecEnd (shm_clog shm)) of
                Inl e \<Rightarrow> Inl e
              | Inr log \<Rightarrow> Inr (TransactionIdLatest xid children, shm\<lparr>shm_clog := log\<rparr>))"

datatype abort_error = AbortLookup clog_error | AlreadyCommitted TransactionId

definition RecordTransactionAbort ::
    "bool \<Rightarrow> BackendState \<Rightarrow> ShmemState \<Rightarrow> (abort_error + TransactionId \<times> BackendState \<times> ShmemState) option" where
  "RecordTransactionAbort isSubXact be shm =
     (let xid = (case xact_stack be of [] \<Rightarrow> InvalidTransactionId | s # _ \<Rightarrow> xs_xid s)
      in if \<not> TransactionIdIsValid xid then Some (Inr (InvalidTransactionId, be, shm))
         else case TransactionIdDidCommit xid (status_state be shm) of
                None \<Rightarrow> None
              | Some (Inl e) \<Rightarrow> Some (Inl (AbortLookup e))
              | Some (Inr (True, s)) \<Rightarrow> Some (Inl (AlreadyCommitted xid))
              | Some (Inr (False, s)) \<Rightarrow>
                  let be = keep_cache s be;
                      children = xactGetCommittedChildren (xact_stack be)
                  in (case TransactionIdAbortTree False xid children (shm_clog shm) of
                        Inl e \<Rightarrow> Some (Inl (AbortLookup e))
                      | Inr log \<Rightarrow>
                          let shm = shm\<lparr>shm_clog := log\<rparr>;
                              latestXid = TransactionIdLatest xid children;
                              shm = (if isSubXact then XidCacheRemoveRunningXids (pgxactoff be) xid children latestXid shm else shm)
                          in Some (Inr (latestXid, be, shm))))"

section \<open>Snapshots held by a backend\<close>

text \<open>
  \<open>active\<close> says whether there is an active snapshot, \<open>registered\<close> are the registered ones; the pairing
  heap orders them by \<^verbatim>\<open>xmin\<close>.
\<close>

fun min_snapshot :: "SnapshotData \<Rightarrow> SnapshotData list \<Rightarrow> SnapshotData" where
  "min_snapshot s [] = s"
| "min_snapshot s (t # ts) = min_snapshot (if TransactionIdPrecedes (snap_xmin t) (snap_xmin s) then t else s) ts"

definition SnapshotResetXmin :: "bool \<Rightarrow> SnapshotData list \<Rightarrow> PGPROC \<Rightarrow> PGPROC" where
  "SnapshotResetXmin active registered p =
     (if active then p
      else case registered of
             [] \<Rightarrow> p\<lparr>proc_xmin := InvalidTransactionId\<rparr>
           | s # ss \<Rightarrow>
               let minSnapshot = min_snapshot s ss
               in if TransactionIdPrecedes (proc_xmin p) (snap_xmin minSnapshot)
                  then p\<lparr>proc_xmin := snap_xmin minSnapshot\<rparr> else p)"

definition CopySnapshot :: "SnapshotData \<Rightarrow> SnapshotData" where
  "CopySnapshot s = s\<lparr>snapXactCompletionCount := 0,
     snap_subxip := (if 0 < length (snap_subxip s) \<and> (\<not> snap_suboverflowed s \<or> snap_takenDuringRecovery s)
                     then snap_subxip s else [])\<rparr>"

text \<open>The end of the transaction-state record, as \<^verbatim>\<open>CommitTransaction\<close> and \<^verbatim>\<open>CleanupTransaction\<close> leave it.\<close>

definition fresh_xact :: XactXids where
  "fresh_xact = \<lparr>fullTransactionId = InvalidFullTransactionId, childXids = [], xs_abort = False\<rparr>"

definition reset_xact :: "BackendState \<Rightarrow> BackendState" where
  "reset_xact be = be\<lparr>xact_stack := [fresh_xact], XactTopFullTransactionId := InvalidFullTransactionId\<rparr>"

text \<open>Setting the flag at the start of a lazy \<^verbatim>\<open>VACUUM\<close>, in \<^verbatim>\<open>vacuum_rel\<close>.\<close>

definition start_vacuum :: "bool \<Rightarrow> nat \<Rightarrow> ShmemState \<Rightarrow> ShmemState" where
  "start_vacuum is_wraparound i shm =
     (let p = procArray shm ! i;
          p = p\<lparr>proc_statusFlags := proc_statusFlags p OR PROC_IN_VACUUM\<rparr>;
          p = (if is_wraparound then p\<lparr>proc_statusFlags := proc_statusFlags p OR PROC_VACUUM_FOR_WRAPAROUND\<rparr> else p)
      in set_proc i p shm)"

end
