(* ===== verification/XidWindow.thy ===== *)
theory XidWindow
  imports Transam
begin

text \<open>
  Transaction ids as distances from a base.  All ids that are alive at one time lie within half the
  circle after some base id; there the circular comparisons are comparisons of distances.  The lemmas
  of this theory carry every argument about the order of ids.
\<close>

section \<open>Distances\<close>

definition xoff :: "TransactionId \<Rightarrow> TransactionId \<Rightarrow> nat" where
  "xoff b x = unat (x - b)"

text \<open>The normal ids within half the circle after the base.\<close>

definition in_window :: "TransactionId \<Rightarrow> TransactionId \<Rightarrow> bool" where
  "in_window b x \<longleftrightarrow> TransactionIdIsNormal x \<and> xoff b x < 2 ^ 31"

lemma xoff_inj [simp]: "xoff b x = xoff b y \<longleftrightarrow> x = y"
proof
  assume "xoff b x = xoff b y"
  then have "x - b = y - b" unfolding xoff_def by (rule word_unat_eq_iff [THEN iffD2])
  then show "x = y" by simp
qed simp

lemma xoff_self [simp]: "xoff b b = 0"
  by (simp add: xoff_def)

lemma xoff_bound: "xoff b x < 2 ^ 32"
  using unsigned_less [of "x - b"] by (simp add: xoff_def)

lemma in_windowD: "in_window b x \<Longrightarrow> TransactionIdIsNormal x" "in_window b x \<Longrightarrow> xoff b x < 2 ^ 31"
  by (simp_all add: in_window_def)

lemma xoff_uint: "int (xoff b x) = uint (x - b)"
  by (simp add: xoff_def)

lemma signed_window:
  fixes u v :: int
  assumes "0 \<le> u" "u < 2147483648" "0 \<le> v" "v < 2147483648"
    and "w = (if v \<le> u then u - v else u - v + 4294967296)"
  shows "(if w < 2147483648 then w else w - 4294967296) = u - v"
  using assms by (simp split: if_splits)

lemma sint_diff_window:
  assumes "xoff b x < 2 ^ 31" "xoff b y < 2 ^ 31"
  shows "sint (x - y) = int (xoff b x) - int (xoff b y)"
proof -
  have w: "uint (x - b) < 2147483648" "uint (y - b) < 2147483648"
    using assms unfolding xoff_uint [symmetric] by simp_all
  have "uint ((x - b) - (y - b)) = (if uint (y - b) \<le> uint (x - b) then uint (x - b) - uint (y - b)
      else uint (x - b) - uint (y - b) + 4294967296)"
    using uint32_sub [of "x - b" "y - b"] by simp
  moreover have "(x - b) - (y - b) = x - y" by simp
  ultimately have "uint (x - y) = (if uint (y - b) \<le> uint (x - b) then uint (x - b) - uint (y - b)
      else uint (x - b) - uint (y - b) + 4294967296)" by (simp only:)
  from signed_window [OF _ w(1) _ w(2) this]
  have "(if uint (x - y) < 2147483648 then uint (x - y) else uint (x - y) - 4294967296) = uint (x - b) - uint (y - b)"
    by simp
  moreover have "sint (x - y) = (if uint (x - y) < 2147483648 then uint (x - y) else uint (x - y) - 4294967296)"
    by (simp add: sint32_uint)
  ultimately show ?thesis unfolding xoff_uint by (simp only:)
qed

lemma prec_window:
  assumes "in_window b x" "in_window b y"
  shows "TransactionIdPrecedes x y \<longleftrightarrow> xoff b x < xoff b y"
    and "TransactionIdPrecedesOrEquals x y \<longleftrightarrow> xoff b x \<le> xoff b y"
    and "TransactionIdFollows x y \<longleftrightarrow> xoff b y < xoff b x"
    and "TransactionIdFollowsOrEquals x y \<longleftrightarrow> xoff b y \<le> xoff b x"
    and "NormalTransactionIdPrecedes x y \<longleftrightarrow> xoff b x < xoff b y"
  using assms sint_diff_window [of b x y]
  by (simp_all add: in_window_def TransactionIdPrecedes_def TransactionIdPrecedesOrEquals_def
      TransactionIdFollows_def TransactionIdFollowsOrEquals_def NormalTransactionIdPrecedes_def Let_def)

lemma window_valid: "in_window b x \<Longrightarrow> TransactionIdIsValid x" "in_window b x \<Longrightarrow> x \<noteq> InvalidTransactionId"
  by (auto simp: in_window_def xid_defs)

lemma not_normal_precedes:
  assumes "\<not> TransactionIdIsNormal x" "TransactionIdIsNormal y"
  shows "TransactionIdPrecedes x y" "\<not> TransactionIdPrecedes y x" "\<not> TransactionIdFollowsOrEquals x y"
  using assms by (auto simp: TransactionIdPrecedes_def TransactionIdFollowsOrEquals_def TransactionIdIsNormal_def)

section \<open>Stepping\<close>

lemma advance_cases:
  assumes "TransactionIdIsNormal x"
  shows "TransactionIdAdvance x = x + 1 \<and> x + 1 \<ge> 3 \<or> TransactionIdAdvance x = x + 4 \<and> x = MaxTransactionId"
proof (cases "x + 1 < 3")
  case True
  have n: "\<not> x < 3" using assms by (simp add: xid_defs not_less)
  have "x = MaxTransactionId"
    using True n uint32_bounds [of x]
    by (auto simp: word_less_def word_uint_eq_iff uint32_add xid_defs split: if_splits)
  then show ?thesis by (simp add: TransactionIdAdvance_def xid_defs)
next
  case False
  then have "TransactionIdAdvance x = x + 1" "x + 1 \<ge> 3"
    by (simp_all only: TransactionIdAdvance_def Let_def FirstNormalTransactionId_def not_less if_False)
      (simp add: not_less [symmetric])
  then show ?thesis by blast
qed

lemma xoff_add: "xoff b x + k < 2 ^ 32 \<Longrightarrow> xoff b (x + of_nat k) = xoff b x + k"
proof -
  assume a: "xoff b x + k < 2 ^ 32"
  have e: "x + of_nat k - b = (x - b) + of_nat k" by simp
  have k: "unat (of_nat k :: uint32) = k" using a by (simp add: unat_of_nat take_bit_eq_mod)
  have "unat ((x - b) + of_nat k) = unat (x - b) + unat (of_nat k :: uint32)"
    using a k by (intro unat_add_lem [THEN iffD1]) (simp add: xoff_def)
  then show ?thesis unfolding xoff_def e using k by simp
qed

lemma advance_window:
  assumes "in_window b x" "xoff b x + 4 < 2 ^ 31"
  shows "in_window b (TransactionIdAdvance x)"
    and "xoff b x < xoff b (TransactionIdAdvance x)"
    and "xoff b (TransactionIdAdvance x) \<le> xoff b x + 4"
    and "TransactionIdIsNormal y \<Longrightarrow> xoff b y < xoff b (TransactionIdAdvance x) \<longleftrightarrow> xoff b y \<le> xoff b x"
proof -
  have n: "TransactionIdIsNormal x" using assms(1) by (simp add: in_window_def)
  have o1: "xoff b (x + 1) = xoff b x + 1" using xoff_add [of b x 1] assms(2) by simp
  have o4: "xoff b (x + 4) = xoff b x + 4" using xoff_add [of b x 4] assms(2) by simp
  have c: "TransactionIdAdvance x = x + 1 \<or> TransactionIdAdvance x = x + 4 \<and> x = MaxTransactionId"
    using advance_cases [OF n] by blast
  show "in_window b (TransactionIdAdvance x)"
    using advance_retreat(1) [OF n] c o1 o4 assms(2) by (auto simp: in_window_def)
  show "xoff b x < xoff b (TransactionIdAdvance x)" "xoff b (TransactionIdAdvance x) \<le> xoff b x + 4"
    using c o1 o4 by auto
  show "xoff b y < xoff b (TransactionIdAdvance x) \<longleftrightarrow> xoff b y \<le> xoff b x" if "TransactionIdIsNormal y"
    using c
  proof
    assume "TransactionIdAdvance x = x + 1"
    then show ?thesis using o1 by auto
  next
    assume m: "TransactionIdAdvance x = x + 4 \<and> x = MaxTransactionId"
    have k: "xoff b (x + of_nat k) = xoff b x + k" if "k < 4" for k
      using that assms(2) by (intro xoff_add) simp
    have skip: "xoff b y \<noteq> xoff b x + k" if "0 < k" "k < 4" for k
    proof
      assume "xoff b y = xoff b x + k"
      then have "y = x + of_nat k" using k [OF that(2)] by (metis xoff_inj)
      moreover have "k = 1 \<or> k = 2 \<or> k = 3" using that by linarith
      ultimately show False using m \<open>TransactionIdIsNormal y\<close> by (auto simp: xid_defs)
    qed
    show ?thesis using m o4 skip [of 1] skip [of 2] skip [of 3] by auto
  qed
qed

text \<open>The full id of a window id, and stepping full ids.\<close>

definition full_in_window :: "FullTransactionId \<Rightarrow> FullTransactionId \<Rightarrow> bool" where
  "full_in_window B f \<longleftrightarrow> 2 \<le> unat (fxid_value B) \<and> unat (fxid_value B) + 2 ^ 32 < 2 ^ 64 \<and>
     unat (fxid_value f) = unat (fxid_value B) + xoff (XidFromFullTransactionId B) (XidFromFullTransactionId f)"

lemma full_skip_up_value:
  assumes "XidFromFullTransactionId d = 0" "unat (fxid_value d) + 3 < 2 ^ 64"
  shows "unat (fxid_value (full_skip_up d)) = unat (fxid_value d) + 3"
proof -
  have s: "unat (fxid_value d + 1) = unat (fxid_value d) + 1" "unat (fxid_value d + 2) = unat (fxid_value d) + 2"
    "unat (fxid_value d + 3) = unat (fxid_value d) + 3"
    using assms(2) by (simp_all add: unat_word_ariths)
  have x: "XidFromFullTransactionId \<lparr>fxid_value = fxid_value d + 1\<rparr> = 1"
    "XidFromFullTransactionId \<lparr>fxid_value = fxid_value d + 2\<rparr> = 2"
    "XidFromFullTransactionId \<lparr>fxid_value = fxid_value d + 3\<rparr> = 3"
    using assms(1) xid_mk_succ [of d] xid_mk_succ [of "\<lparr>fxid_value = fxid_value d + 1\<rparr>"]
      xid_mk_succ [of "\<lparr>fxid_value = fxid_value d + 2\<rparr>"] by (simp_all add: add.assoc)
  have "full_skip_up d = \<lparr>fxid_value = fxid_value d + 3\<rparr>"
    using assms(1) x
    by (simp add: full_skip_up.simps [of d] full_skip_up.simps [of "\<lparr>fxid_value = fxid_value d + 1\<rparr>"]
        full_skip_up.simps [of "\<lparr>fxid_value = fxid_value d + 2\<rparr>"]
        full_skip_up.simps [of "\<lparr>fxid_value = fxid_value d + 3\<rparr>"] FirstNormalTransactionId_def add.assoc)
  then show ?thesis using s(3) by simp
qed

lemma full_advance_window:
  assumes "full_in_window B f" "in_window (XidFromFullTransactionId B) (XidFromFullTransactionId f)"
    and "xoff (XidFromFullTransactionId B) (XidFromFullTransactionId f) + 4 < 2 ^ 31"
  shows "full_in_window B (FullTransactionIdAdvance f)"
    and "XidFromFullTransactionId (FullTransactionIdAdvance f) = TransactionIdAdvance (XidFromFullTransactionId f)"
proof -
  let ?b = "XidFromFullTransactionId B" and ?x = "XidFromFullTransactionId f"
  have v: "2 \<le> unat (fxid_value f)" "unat (fxid_value f) + 4 < 2 ^ 64"
    using assms(1,3) by (auto simp: full_in_window_def)
  have low: "XidFromFullTransactionId (FullTransactionIdAdvance f) = TransactionIdAdvance ?x"
    using v by (intro full_advance_low) (simp_all add: word_le_nat_alt word_less_nat_alt)
  then show "XidFromFullTransactionId (FullTransactionIdAdvance f) = TransactionIdAdvance ?x" .
  have n: "TransactionIdIsNormal ?x" using assms(2) by (rule in_windowD)
  have one: "unat (fxid_value f + 1) = unat (fxid_value f) + 1" using v by (simp add: unat_word_ariths)
  have ge: "\<not> fxid_value f + 1 < 3" using v one by (simp add: word_less_nat_alt)
  have adv: "FullTransactionIdAdvance f = full_skip_up \<lparr>fxid_value = fxid_value f + 1\<rparr>"
    using ge by (simp add: FullTransactionIdAdvance_def Let_def FullTransactionIdPrecedes_def first_normal_full)
  have o: "xoff ?b (?x + 1) = xoff ?b ?x + 1" "xoff ?b (?x + 4) = xoff ?b ?x + 4"
    using xoff_add [of ?b ?x 1] xoff_add [of ?b ?x 4] assms(3) by simp_all
  have "unat (fxid_value (FullTransactionIdAdvance f)) = unat (fxid_value B) + xoff ?b (TransactionIdAdvance ?x)"
    using advance_cases [OF n]
  proof
    assume a: "TransactionIdAdvance ?x = ?x + 1 \<and> ?x + 1 \<ge> 3"
    then have "full_skip_up \<lparr>fxid_value = fxid_value f + 1\<rparr> = \<lparr>fxid_value = fxid_value f + 1\<rparr>"
      by (simp add: full_skip_up.simps [of "\<lparr>fxid_value = fxid_value f + 1\<rparr>"] FirstNormalTransactionId_def not_less [symmetric])
    then show ?thesis using adv a o one assms(1) by (simp add: full_in_window_def)
  next
    assume a: "TransactionIdAdvance ?x = ?x + 4 \<and> ?x = MaxTransactionId"
    have "unat (fxid_value (full_skip_up \<lparr>fxid_value = fxid_value f + 1\<rparr>)) = unat (fxid_value f) + 4"
      using a one v full_skip_up_value [of "\<lparr>fxid_value = fxid_value f + 1\<rparr>"] by (simp add: MaxTransactionId_def)
    then show ?thesis using adv conjunct1 [OF a] o assms(1) unfolding full_in_window_def by simp
  qed
  then show "full_in_window B (FullTransactionIdAdvance f)"
    using assms(1) low by (simp add: full_in_window_def)
qed

section \<open>Oldest and latest\<close>

lemma older_window:
  assumes "in_window b x" "in_window b y"
  shows "in_window b (TransactionIdOlder x y)" "xoff b (TransactionIdOlder x y) = min (xoff b x) (xoff b y)"
  using assms window_valid [OF assms(1)] window_valid [OF assms(2)] prec_window(1) [OF assms]
  by (auto simp: TransactionIdOlder_def)

lemma older_invalid [simp]:
  "TransactionIdOlder x InvalidTransactionId = x" "TransactionIdOlder InvalidTransactionId x = x"
  by (auto simp: TransactionIdOlder_def TransactionIdIsValid_def)

lemma latest_scan_max:
  assumes "in_window b m" "\<forall>x\<in>set xs. in_window b x"
  shows "latest_scan m xs \<in> set (m # xs) \<and> (\<forall>x\<in>set (m # xs). xoff b x \<le> xoff b (latest_scan m xs))"
  using assms
proof (induction xs arbitrary: m)
  case (Cons x xs)
  let ?m = "if TransactionIdPrecedes m x then x else m"
  have "latest_scan ?m xs \<in> set (?m # xs) \<and> (\<forall>x\<in>set (?m # xs). xoff b x \<le> xoff b (latest_scan ?m xs))"
    using Cons.prems by (intro Cons.IH) auto
  moreover have "xoff b m \<le> xoff b ?m" "xoff b x \<le> xoff b ?m"
    using Cons.prems prec_window(1) [of b m x] by auto
  ultimately show ?case by (auto split: if_splits)
qed simp

lemma latest_window:
  assumes "in_window b m" "\<forall>x\<in>set xs. in_window b x"
  shows "TransactionIdLatest m xs \<in> set (m # xs)"
    and "x \<in> set (m # xs) \<Longrightarrow> xoff b x \<le> xoff b (TransactionIdLatest m xs)"
  using latest_scan_max [of b m "rev xs"] assms by (auto simp: TransactionIdLatest_def)

end
