(* ===== verification/XidLogs.thy ===== *)
theory XidLogs
  imports XidAssign XidWindow
begin

text \<open>
  The two logs as maps: what a new page, a recorded outcome and a parent link change, stated for the
  status and the parent of single transactions.
\<close>

section \<open>Parents\<close>

definition sub_has :: "subtrans \<Rightarrow> TransactionId \<Rightarrow> bool" where
  "sub_has st x \<longleftrightarrow> (case st (SubTransToPage x) of None \<Rightarrow> False | Some page \<Rightarrow> length page = SUBTRANS_XACTS_PER_PAGE)"

definition parent_of :: "subtrans \<Rightarrow> TransactionId \<Rightarrow> TransactionId" where
  "parent_of st x = (case st (SubTransToPage x) of None \<Rightarrow> InvalidTransactionId | Some page \<Rightarrow> page ! SubTransToEntry x)"

lemma SUBTRANS_page [simp]: "SUBTRANS_XACTS_PER_PAGE = 2048"
  by (simp add: SUBTRANS_XACTS_PER_PAGE_def BLCKSZ_def)

lemma sub_address: "SubTransToEntry x < 2048"
    "SubTransToPage x = SubTransToPage y \<Longrightarrow> SubTransToEntry x = SubTransToEntry y \<Longrightarrow> x = y"
proof -
  show "SubTransToEntry x < 2048" by (simp add: SubTransToEntry_def)
  assume "SubTransToPage x = SubTransToPage y" "SubTransToEntry x = SubTransToEntry y"
  then have "unat x = unat y" unfolding SubTransToPage_def SubTransToEntry_def by (metis div_mult_mod_eq)
  then show "x = y" by (simp add: word_unat_eq_iff)
qed

lemma GetParent_eq:
  assumes "TransactionIdIsNormal x" "sub_has st x"
  shows "SubTransGetParent st x = Inr (parent_of st x)"
  using assms by (auto simp: SubTransGetParent_def sub_has_def parent_of_def split: option.splits)

lemma SetParent_eq:
  assumes "sub_has st x"
  obtains st' where "SubTransSetParent x q st = Inr st'" "\<And>y. sub_has st' y \<longleftrightarrow> sub_has st y"
    "\<And>y. parent_of st' y = (if y = x then q else parent_of st y)"
proof -
  obtain page where page: "st (SubTransToPage x) = Some page" "length page = 2048"
    using assms by (auto simp: sub_has_def split: option.splits)
  let ?st = "if page ! SubTransToEntry x \<noteq> q then st(SubTransToPage x \<mapsto> page[SubTransToEntry x := q]) else st"
  have "SubTransSetParent x q st = Inr ?st" using page by (simp add: SubTransSetParent_def)
  moreover have "sub_has ?st y \<longleftrightarrow> sub_has st y" for y using page by (simp add: sub_has_def)
  moreover have "parent_of ?st y = (if y = x then q else parent_of st y)" for y
    using page sub_address(1) [of x] sub_address(2) [of y x] by (auto simp: parent_of_def nth_list_update)
  ultimately show ?thesis by (rule that)
qed

section \<open>New pages\<close>

text \<open>
  Extending a log for the next id wipes a page only where no id of the window is in use: a page is
  zeroed when its first id is assigned.
\<close>

lemma page_start_later:
  assumes "TransactionIdIsNormal x" "unat x div k = unat y div k" "unat y mod k = 0 \<or> y = FirstNormalTransactionId"
    and "xoff b y < 2 ^ 31" "k \<le> 2 ^ 16" "0 < k"
  shows "xoff b y \<le> xoff b x"
proof -
  have le: "unat y \<le> unat x"
  proof (cases "unat y mod k = 0")
    case True
    then have "unat y = k * (unat y div k)" using mult_div_mod_eq [of k "unat y"] by simp
    also have "\<dots> \<le> unat x" using assms(2) by (metis times_div_less_eq_dividend)
    finally show ?thesis .
  next
    case False
    then have "y = 3" using assms(3) by (simp add: FirstNormalTransactionId_def)
    then show ?thesis using assms(1) by (simp add: xid_defs word_le_nat_alt)
  qed
  define d where "d = unat x - unat y"
  have "unat x < unat x div k * k + k" "unat y div k * k \<le> unat y"
    using mod_less_divisor [OF assms(6), of "unat x"] div_mult_mod_eq [of "unat x" k] div_mult_mod_eq [of "unat y" k]
    by linarith+
  then have "unat x < unat y + k" unfolding assms(2) by linarith
  then have d: "d < 2 ^ 16" using assms(5) le unfolding d_def by linarith
  have "x = y + of_nat d" using le by (simp add: d_def word_unat_eq_iff of_nat_diff)
  moreover have "xoff b (y + of_nat d) = xoff b y + d" using d assms(4) by (intro xoff_add) simp
  ultimately show ?thesis by simp
qed

lemma zero_page_ok: "page_ok zero_clog_page"
  by (simp add: page_ok_def zero_clog_page_def)

lemma zero_page_bits: "clog_bits zero_clog_page x = TRANSACTION_STATUS_IN_PROGRESS"
  using clog_address [of x] by (simp add: clog_bits_def zero_clog_page_def status_defs)

lemma ExtendCLOG_old:
  assumes "TransactionIdIsNormal y" "xoff b y < xoff b x" "xoff b x < 2 ^ 31"
  shows "xid_status (ExtendCLOG x log) y = xid_status log y" "log_has (ExtendCLOG x log) y \<longleftrightarrow> log_has log y"
proof -
  have "TransactionIdToPage y \<noteq> TransactionIdToPage x"
    if "\<not> (TransactionIdToPgIndex x \<noteq> 0 \<and> x \<noteq> FirstNormalTransactionId)"
    using page_start_later [of y CLOG_XACTS_PER_PAGE x b] assms that
    by (auto simp: TransactionIdToPage_def TransactionIdToPgIndex_def clog_consts)
  then show "xid_status (ExtendCLOG x log) y = xid_status log y" "log_has (ExtendCLOG x log) y \<longleftrightarrow> log_has log y"
    by (auto simp: ExtendCLOG_def ZeroCLOGPage_def xid_status_def log_has_def)
qed

lemma ExtendCLOG_new:
  assumes "\<not> (TransactionIdToPgIndex x \<noteq> 0 \<and> x \<noteq> FirstNormalTransactionId)" "TransactionIdToPage y = TransactionIdToPage x"
  shows "xid_status (ExtendCLOG x log) y = TRANSACTION_STATUS_IN_PROGRESS" "log_has (ExtendCLOG x log) y"
  using assms zero_page_ok zero_page_bits by (auto simp: ExtendCLOG_def ZeroCLOGPage_def xid_status_def log_has_def)

lemma ExtendSUBTRANS_old:
  assumes "TransactionIdIsNormal y" "xoff b y < xoff b x" "xoff b x < 2 ^ 31"
  shows "parent_of (ExtendSUBTRANS x st) y = parent_of st y" "sub_has (ExtendSUBTRANS x st) y \<longleftrightarrow> sub_has st y"
proof -
  have "SubTransToPage y \<noteq> SubTransToPage x"
    if "\<not> (SubTransToEntry x \<noteq> 0 \<and> x \<noteq> FirstNormalTransactionId)"
    using page_start_later [of y 2048 x b] assms that by (auto simp: SubTransToPage_def SubTransToEntry_def)
  then show "parent_of (ExtendSUBTRANS x st) y = parent_of st y" "sub_has (ExtendSUBTRANS x st) y \<longleftrightarrow> sub_has st y"
    by (auto simp: ExtendSUBTRANS_def ZeroSUBTRANSPage_def parent_of_def sub_has_def)
qed

lemma ExtendSUBTRANS_new:
  assumes "\<not> (SubTransToEntry x \<noteq> 0 \<and> x \<noteq> FirstNormalTransactionId)" "SubTransToPage y = SubTransToPage x"
  shows "parent_of (ExtendSUBTRANS x st) y = InvalidTransactionId" "sub_has (ExtendSUBTRANS x st) y"
  using assms sub_address(1) [of y] by (auto simp: ExtendSUBTRANS_def ZeroSUBTRANSPage_def parent_of_def sub_has_def)

section \<open>Recorded outcomes\<close>

lemma SetTreeStatus_final:
  assumes "\<forall>x\<in>set (xid # subs). log_has log x" "TransactionIdIsValid xid"
    and "st = TRANSACTION_STATUS_COMMITTED \<or> st = TRANSACTION_STATUS_ABORTED"
  obtains log' where "TransactionIdSetTreeStatus False xid subs st lsn log = Inr log'"
    "\<And>y. log_has log' y \<longleftrightarrow> log_has log y"
    "\<And>y. xid_status log' y = (if y \<in> set (xid # subs) then st else xid_status log y)"
proof -
  let ?ws = "tree_writes xid subs st"
  have lt: "st < 4" using assms(3) by auto
  have "\<exists>as cs. ?ws = map (\<lambda>s. (s, TRANSACTION_STATUS_SUB_COMMITTED)) as @ map (\<lambda>s. (s, st)) cs \<and>
      set as \<subseteq> set cs \<and> set cs = set (xid # subs)"
    using assms(3)
  proof
    assume st: "st = TRANSACTION_STATUS_COMMITTED"
    from tree_writes_commit [OF assms(2), of subs] obtain as cs where
      w: "tree_writes xid subs TRANSACTION_STATUS_COMMITTED =
        map (\<lambda>s. (s, TRANSACTION_STATUS_SUB_COMMITTED)) as @ (xid, TRANSACTION_STATUS_COMMITTED) # map (\<lambda>s. (s, TRANSACTION_STATUS_COMMITTED)) cs"
      "set as = set subs" "set cs = set subs" by blast
    then have "?ws = map (\<lambda>s. (s, TRANSACTION_STATUS_SUB_COMMITTED)) as @ map (\<lambda>s. (s, st)) (xid # cs)" by (simp add: st)
    moreover have "set as \<subseteq> set (xid # cs)" "set (xid # cs) = set (xid # subs)" using w(2,3) by auto
    ultimately show ?thesis by blast
  next
    assume st: "st = TRANSACTION_STATUS_ABORTED"
    have "?ws = map (\<lambda>s. (s, st)) (xid # subs)"
      using assms(2) by (simp add: st tree_writes_def page_writes_def Let_def flip: map_append)
    then have "?ws = map (\<lambda>s. (s, TRANSACTION_STATUS_SUB_COMMITTED)) [] @ map (\<lambda>s. (s, st)) (xid # subs)" by simp
    then show ?thesis by (metis empty_set empty_subsetI)
  qed
  then obtain as cs where w: "?ws = map (\<lambda>s. (s, TRANSACTION_STATUS_SUB_COMMITTED)) as @ map (\<lambda>s. (s, st)) cs"
    "set as \<subseteq> set cs" "set cs = set (xid # subs)" by blast
  have has: "\<forall>x\<in>set as. log_has log x" "\<forall>x\<in>set cs. log_has log x" using w(2,3) assms(1) by auto
  have "xid_status (apply_writes False lsn ?ws log) y = (if y \<in> set (xid # subs) then st else xid_status log y)" for y
    using status_const_writes [of cs "apply_writes False lsn (map (\<lambda>s. (s, TRANSACTION_STATUS_SUB_COMMITTED)) as) log" st lsn y]
      status_const_writes [OF has(1), of TRANSACTION_STATUS_SUB_COMMITTED lsn y] has(2) lt w by auto
  then show ?thesis using SetTreeStatus_writes [OF assms(1,2)] by (intro that [of "apply_writes False lsn ?ws log"]) simp_all
qed

section \<open>The walk to the topmost transaction\<close>

text \<open>
  On ids closed under the parent links, which lead downwards, the walk returns one of them: one
  without a parent, or one older than the horizon.
\<close>

lemma topmost_walk_closed:
  assumes "x \<in> C" "\<And>y. y \<in> C \<Longrightarrow> in_window b y \<and> sub_has st y"
    and "\<And>y. y \<in> C \<Longrightarrow> parent_of st y = InvalidTransactionId \<or> parent_of st y \<in> C \<and> xoff b (parent_of st y) < xoff b y"
  shows "\<exists>t\<in>C. topmost_walk xmin st x z = Some (Inr t) \<and>
     (parent_of st t = InvalidTransactionId \<or> TransactionIdPrecedes t xmin)"
  using assms(1)
proof (induction "xoff b x" arbitrary: x z rule: less_induct)
  case less
  have x: "in_window b x" "TransactionIdIsNormal x" "TransactionIdIsValid x" "sub_has st x"
    using assms(2) [OF less.prems] by (auto simp: in_window_def xid_defs)
  note parent = GetParent_eq [OF x(2,4)]
  show ?case
  proof (cases "TransactionIdPrecedes x xmin")
    case True
    then show ?thesis using x less.prems by (subst topmost_walk.simps) auto
  next
    case prec: False
    show ?thesis
    proof (cases "parent_of st x = InvalidTransactionId")
      case True
      have "TransactionIdPrecedes InvalidTransactionId x"
        using not_normal_precedes(1) [OF _ x(2)] by (simp add: xid_defs)
      then have "topmost_walk xmin st x z = topmost_walk xmin st InvalidTransactionId x"
        using prec x(3) parent True by (subst topmost_walk.simps) simp
      also have "\<dots> = Some (Inr x)" by (subst topmost_walk.simps) (simp add: TransactionIdIsValid_def)
      finally show ?thesis using True less.prems by blast
    next
      case False
      then have p: "parent_of st x \<in> C" "xoff b (parent_of st x) < xoff b x" using assms(3) [OF less.prems] by auto
      then have "TransactionIdPrecedes (parent_of st x) x" using assms(2) x(1) prec_window(1) by blast
      then have "topmost_walk xmin st x z = topmost_walk xmin st (parent_of st x) x"
        using prec x(3) parent by (subst topmost_walk.simps) simp
      then show ?thesis using less.hyps [OF p(2,1)] by simp
    qed
  qed
qed

lemmas topmost_closed = topmost_walk_closed [of xid _ _ _ _ xid for xid, folded SubTransGetTopmostTransaction_def]

end
