(* ===== verification/RunningSet.thy ===== *)
theory RunningSet
  imports XidWindow XidLookup
begin

text \<open>
  The contract of the transaction system, abstracted from shared memory: which ids each backend's
  transaction has, the next id to assign, the latest completed one, the recorded outcome and parent of
  every id.  A step assigns an id, records an outcome, aborts a subtransaction or takes a transaction
  out of the running set.  The invariant of these steps, and what a snapshot must hold so that its
  answers never change, are stated and proved here once; the model of shared memory implements them.
\<close>

section \<open>States and steps\<close>

text \<open>
  \<open>r_tree i\<close> lists the ids of backend \<open>i\<close>'s transaction in the order of assignment, the top-level one
  first, without those of aborted subtransactions.  \<open>r_ended i\<close> says that the outcome has been recorded
  in the commit log while the transaction still is in the running set.
\<close>

record Running =
  r_tree :: "nat \<Rightarrow> TransactionId list"
  r_ended :: "nat \<Rightarrow> bool"
  r_next :: TransactionId
  r_latest :: TransactionId
  r_status :: "TransactionId \<Rightarrow> XidStatus"
  r_parent :: "TransactionId \<Rightarrow> TransactionId"

definition r_assigned :: "TransactionId \<Rightarrow> Running \<Rightarrow> TransactionId \<Rightarrow> bool" where
  "r_assigned b r x \<longleftrightarrow> in_window b x \<and> xoff b x < xoff b (r_next r)"

definition r_live :: "nat \<Rightarrow> Running \<Rightarrow> TransactionId \<Rightarrow> bool" where
  "r_live n r x \<longleftrightarrow> (\<exists>i<n. x \<in> set (r_tree r i))"

definition later :: "TransactionId \<Rightarrow> TransactionId \<Rightarrow> TransactionId \<Rightarrow> TransactionId" where
  "later b x y = (if xoff b x < xoff b y then y else x)"

inductive run_step :: "TransactionId \<Rightarrow> nat \<Rightarrow> Running \<Rightarrow> Running \<Rightarrow> bool" for b n where
  run_assign: "run_step b n r (r\<lparr>r_tree := (r_tree r)(i := r_tree r i @ [r_next r]),
      r_next := TransactionIdAdvance (r_next r),
      r_status := (r_status r)(r_next r := TRANSACTION_STATUS_IN_PROGRESS),
      r_parent := (r_parent r)(r_next r := q)\<rparr>)"
  if "i < n" "\<not> r_ended r i" "xoff b (r_next r) + 4 < 2 ^ 31"
    "if r_tree r i = [] then q = InvalidTransactionId else q \<in> set (r_tree r i)"
| run_record: "run_step b n r (r\<lparr>r_ended := (r_ended r)(i := True),
      r_status := (\<lambda>x. if x \<in> set (r_tree r i) then st else r_status r x)\<rparr>)"
  if "i < n" "\<not> r_ended r i" "r_tree r i \<noteq> []"
    "st = TRANSACTION_STATUS_COMMITTED \<or> st = TRANSACTION_STATUS_ABORTED"
| run_subabort: "run_step b n r (r\<lparr>r_tree := (r_tree r)(i := take k (r_tree r i)),
      r_latest := later b (r_latest r) (last (r_tree r i)),
      r_status := (\<lambda>x. if x \<in> set (drop k (r_tree r i)) then TRANSACTION_STATUS_ABORTED else r_status r x)\<rparr>)"
  if "i < n" "\<not> r_ended r i" "0 < k" "k < length (r_tree r i)"
| run_end: "run_step b n r (r\<lparr>r_tree := (r_tree r)(i := []), r_ended := (r_ended r)(i := False),
      r_latest := later b (r_latest r) (last (r_tree r i))\<rparr>)"
  if "i < n" "r_ended r i" "r_tree r i \<noteq> []"
| run_other: "run_step b n r r"

section \<open>The invariant\<close>

text \<open>One backend: its ids are assigned, in ascending order, each but the first with its parent before it.\<close>

definition tree_inv :: "TransactionId \<Rightarrow> Running \<Rightarrow> nat \<Rightarrow> bool" where
  "tree_inv b r i \<longleftrightarrow>
     (\<forall>x\<in>set (r_tree r i). r_assigned b r x) \<and>
     sorted_wrt (\<lambda>x y. xoff b x < xoff b y) (r_tree r i) \<and>
     (r_tree r i \<noteq> [] \<longrightarrow> r_parent r (hd (r_tree r i)) = InvalidTransactionId) \<and>
     (\<forall>k. 0 < k \<longrightarrow> k < length (r_tree r i) \<longrightarrow> r_parent r (r_tree r i ! k) \<in> set (take k (r_tree r i))) \<and>
     (if r_ended r i then r_tree r i \<noteq> [] \<and>
        (\<exists>st\<in>{TRANSACTION_STATUS_COMMITTED, TRANSACTION_STATUS_ABORTED}. \<forall>x\<in>set (r_tree r i). r_status r x = st)
      else \<forall>x\<in>set (r_tree r i). r_status r x = TRANSACTION_STATUS_IN_PROGRESS)"

text \<open>
  One assigned id: it is running if no later one has completed; its outcome is not the intermediate
  status; its parent is older; and once it has left the running set without having aborted, its parent
  has done so too, with the same outcome.
\<close>

definition xid_inv :: "TransactionId \<Rightarrow> nat \<Rightarrow> Running \<Rightarrow> TransactionId \<Rightarrow> bool" where
  "xid_inv b n r x \<longleftrightarrow>
     (xoff b (r_latest r) < xoff b x \<longrightarrow> r_live n r x) \<and>
     r_status r x \<noteq> TRANSACTION_STATUS_SUB_COMMITTED \<and>
     (r_parent r x = InvalidTransactionId \<or> r_assigned b r (r_parent r x) \<and> xoff b (r_parent r x) < xoff b x) \<and>
     (\<not> r_live n r x \<and> r_status r x \<noteq> TRANSACTION_STATUS_ABORTED \<longrightarrow>
        r_parent r x = InvalidTransactionId \<or>
        \<not> r_live n r (r_parent r x) \<and> r_status r (r_parent r x) = r_status r x)"

definition disjoint_trees :: "nat \<Rightarrow> Running \<Rightarrow> bool" where
  "disjoint_trees n r \<longleftrightarrow> (\<forall>i<n. \<forall>j<n. i \<noteq> j \<longrightarrow> set (r_tree r i) \<inter> set (r_tree r j) = {})"

definition run_inv :: "TransactionId \<Rightarrow> nat \<Rightarrow> Running \<Rightarrow> bool" where
  "run_inv b n r \<longleftrightarrow>
     in_window b (r_next r) \<and> in_window b (r_latest r) \<and> xoff b (r_latest r) < xoff b (r_next r) \<and>
     (\<forall>i<n. tree_inv b r i) \<and> disjoint_trees n r \<and> (\<forall>x. r_assigned b r x \<longrightarrow> xid_inv b n r x)"

lemma run_inv_bounds:
  assumes "run_inv b n r"
  shows "in_window b (r_next r)" "in_window b (r_latest r)" "xoff b (r_latest r) < xoff b (r_next r)"
  using assms by (simp_all add: run_inv_def)

lemma run_inv_tree: "run_inv b n r \<Longrightarrow> i < n \<Longrightarrow> tree_inv b r i"
  by (simp add: run_inv_def)

lemma run_inv_xid: "run_inv b n r \<Longrightarrow> r_assigned b r x \<Longrightarrow> xid_inv b n r x"
  by (simp add: run_inv_def)

lemma run_inv_disjoint:
  "run_inv b n r \<Longrightarrow> i < n \<Longrightarrow> j < n \<Longrightarrow> i \<noteq> j \<Longrightarrow> x \<in> set (r_tree r i) \<Longrightarrow> x \<notin> set (r_tree r j)"
  by (auto simp: run_inv_def disjoint_trees_def)

lemma run_inv_live_assigned: "run_inv b n r \<Longrightarrow> r_live n r x \<Longrightarrow> r_assigned b r x"
  by (auto simp: r_live_def dest!: run_inv_tree simp: tree_inv_def)

lemma later_window:
  "in_window b x \<Longrightarrow> in_window b y \<Longrightarrow> in_window b (later b x y)"
  "xoff b x \<le> xoff b (later b x y)" "xoff b y \<le> xoff b (later b x y)"
  "xoff b x < k \<Longrightarrow> xoff b y < k \<Longrightarrow> xoff b (later b x y) < k"
  by (simp_all add: later_def)

lemma sorted_last:
  assumes "sorted_wrt (\<lambda>x y. xoff b x < xoff b y) xs" "x \<in> set xs"
  shows "xoff b x \<le> xoff b (last xs)"
  using assms by (induction xs) (auto simp: last_in_set intro: less_imp_le)

section \<open>Every step keeps it\<close>

lemma tree_inv_keep:
  assumes "tree_inv b r j" "r_tree r' j = r_tree r j" "r_ended r' j = r_ended r j"
    and "\<And>x. x \<in> set (r_tree r j) \<Longrightarrow> r_assigned b r' x \<and> r_status r' x = r_status r x \<and> r_parent r' x = r_parent r x"
  shows "tree_inv b r' j"
proof -
  have "k < length (r_tree r j) \<Longrightarrow> r_parent r' (r_tree r j ! k) = r_parent r (r_tree r j ! k)" for k
    using assms(4) nth_mem by blast
  moreover have "(\<forall>x\<in>set (r_tree r j). r_status r' x = st) \<longleftrightarrow> (\<forall>x\<in>set (r_tree r j). r_status r x = st)" for st
    using assms(4) by auto
  moreover have "r_tree r j \<noteq> [] \<Longrightarrow> r_parent r' (hd (r_tree r j)) = r_parent r (hd (r_tree r j))" using assms(4) by simp
  ultimately show ?thesis using assms unfolding tree_inv_def by (cases "r_ended r j") simp_all
qed

lemma run_assign_inv:
  assumes inv: "run_inv b n r" and i: "i < n" "\<not> r_ended r i" "xoff b (r_next r) + 4 < 2 ^ 31"
    and q: "if r_tree r i = [] then q = InvalidTransactionId else q \<in> set (r_tree r i)"
    and r': "r' = r\<lparr>r_tree := (r_tree r)(i := r_tree r i @ [r_next r]), r_next := TransactionIdAdvance (r_next r),
      r_status := (r_status r)(r_next r := TRANSACTION_STATUS_IN_PROGRESS), r_parent := (r_parent r)(r_next r := q)\<rparr>"
  shows "run_inv b n r'"
proof -
  note bounds = run_inv_bounds [OF inv]
  note adv = advance_window [OF bounds(1) i(3)]
  have asg: "r_assigned b r' x \<longleftrightarrow> r_assigned b r x \<or> x = r_next r" for x
    using adv(4) [of x] bounds(1) by (auto simp: r_assigned_def r' in_window_def order_le_less)
  have fresh: "r_assigned b r x \<Longrightarrow> x \<noteq> r_next r" for x by (auto simp: r_assigned_def)
  have tree: "r_tree r' j = (if j = i then r_tree r i @ [r_next r] else r_tree r j)" for j by (simp add: r')
  have old: "x \<in> set (r_tree r j) \<Longrightarrow> j < n \<Longrightarrow> r_assigned b r x" for x j
    using run_inv_tree [OF inv, of j] by (simp add: tree_inv_def)
  have st: "r_assigned b r x \<Longrightarrow> r_status r' x = r_status r x \<and> r_parent r' x = r_parent r x" for x
    using fresh by (auto simp: r')
  have new: "r_status r' (r_next r) = TRANSACTION_STATUS_IN_PROGRESS" "r_parent r' (r_next r) = q" by (simp_all add: r')
  have live: "r_live n r' x \<longleftrightarrow> r_live n r x \<or> x = r_next r" for x
    using i(1) by (auto simp: r_live_def tree)
  have "tree_inv b r' j" if j: "j < n" for j
  proof (cases "j = i")
    case False
    show ?thesis
    proof (rule tree_inv_keep [OF run_inv_tree [OF inv j]])
      show "r_tree r' j = r_tree r j" "r_ended r' j = r_ended r j" using False by (simp_all add: r')
      show "r_assigned b r' x \<and> r_status r' x = r_status r x \<and> r_parent r' x = r_parent r x" if "x \<in> set (r_tree r j)" for x
        using old [OF that j] st asg by blast
    qed
  next
    case True
    let ?t = "r_tree r i"
    have ti: "tree_inv b r i" using run_inv_tree [OF inv i(1)] .
    have "\<forall>x\<in>set ?t. xoff b x < xoff b (r_next r)" using old i(1) by (auto simp: r_assigned_def)
    moreover have "r_parent r' ((?t @ [r_next r]) ! k) \<in> set (take k (?t @ [r_next r]))" if k: "0 < k" "k < Suc (length ?t)" for k
    proof (cases "k < length ?t")
      case True
      then have "r_parent r' (?t ! k) = r_parent r (?t ! k)" using st old [of "?t ! k" i] i(1) by simp
      then show ?thesis using ti True k(1) by (simp add: tree_inv_def nth_append)
    next
      case False
      then have "k = length ?t" "?t \<noteq> []" using k by auto
      then show ?thesis using q new by simp
    qed
    moreover have "r_parent r' (hd (?t @ [r_next r])) = InvalidTransactionId"
      using ti q new st [of "hd ?t"] old [of "hd ?t" i] i(1) by (cases "?t = []") (simp_all add: tree_inv_def)
    moreover have "r_status r' x = TRANSACTION_STATUS_IN_PROGRESS" if "x \<in> set (?t @ [r_next r])" for x
      using that ti i(2) st old i(1) new by (auto simp: tree_inv_def)
    moreover have "\<not> r_ended r' i" using i(2) by (simp add: r')
    ultimately show ?thesis using ti True asg q
      by (simp add: tree_inv_def tree sorted_wrt_append)
  qed
  moreover have "disjoint_trees n r'"
    unfolding disjoint_trees_def
  proof (intro allI impI)
    fix j k assume jk: "j < n" "k < n" "j \<noteq> k"
    have "set (r_tree r j) \<inter> set (r_tree r k) = {}" using inv jk by (simp add: run_inv_def disjoint_trees_def)
    moreover have "r_next r \<notin> set (r_tree r j)" "r_next r \<notin> set (r_tree r k)" using old fresh jk by blast+
    ultimately show "set (r_tree r' j) \<inter> set (r_tree r' k) = {}" using jk(3) by (auto simp: tree)
  qed
  moreover have "xid_inv b n r' x" if "r_assigned b r' x" for x
  proof (cases "x = r_next r")
    case True
    have "q = InvalidTransactionId \<or> r_assigned b r' q \<and> xoff b q < xoff b x"
      using q old [of q i] i(1) asg True by (auto simp: r_assigned_def split: if_splits)
    then show ?thesis using True new live by (simp add: xid_inv_def status_defs)
  next
    case False
    with that have a: "r_assigned b r x" using asg by simp
    have x: "xid_inv b n r x" using run_inv_xid [OF inv a] .
    have p: "r_parent r x = InvalidTransactionId \<or> r_assigned b r (r_parent r x)" using x by (auto simp: xid_inv_def)
    have l: "r_latest r' = r_latest r" by (simp add: r')
    show ?thesis
      using x False asg st [OF a] st [of "r_parent r x"] p fresh [of "r_parent r x"]
      unfolding xid_inv_def live l by auto
  qed
  moreover have "in_window b (r_next r')" "in_window b (r_latest r')" "xoff b (r_latest r') < xoff b (r_next r')"
    using adv(1,2) bounds by (simp_all add: r')
  ultimately show ?thesis by (simp add: run_inv_def)
qed

lemma run_record_inv:
  assumes inv: "run_inv b n r" and i: "i < n" "\<not> r_ended r i" "r_tree r i \<noteq> []"
    and st: "st = TRANSACTION_STATUS_COMMITTED \<or> st = TRANSACTION_STATUS_ABORTED"
    and r': "r' = r\<lparr>r_ended := (r_ended r)(i := True), r_status := (\<lambda>x. if x \<in> set (r_tree r i) then st else r_status r x)\<rparr>"
  shows "run_inv b n r'"
proof -
  have asg: "r_assigned b r' = r_assigned b r" "r_live n r' = r_live n r"
    by (auto simp: r_assigned_def r_live_def r')
  have "tree_inv b r' j" if "j < n" for j
  proof (cases "j = i")
    case True
    then show ?thesis using run_inv_tree [OF inv i(1)] i(3) st asg by (auto simp: tree_inv_def r')
  next
    case False
    have "x \<notin> set (r_tree r i)" if "x \<in> set (r_tree r j)" for x
      using run_inv_disjoint [OF inv \<open>j < n\<close> i(1) False that] .
    moreover have "x \<in> set (r_tree r j) \<Longrightarrow> r_assigned b r' x" for x
      using run_inv_tree [OF inv that] by (simp add: tree_inv_def asg(1))
    ultimately show ?thesis using False by (intro tree_inv_keep [OF run_inv_tree [OF inv that]]) (simp_all add: r')
  qed
  moreover have "disjoint_trees n r'" using inv by (simp add: run_inv_def disjoint_trees_def r')
  moreover have "xid_inv b n r' x" if a: "r_assigned b r' x" for x
  proof -
    have x: "xid_inv b n r x" using run_inv_xid [OF inv] a asg by simp
    have live: "x \<in> set (r_tree r i) \<Longrightarrow> r_live n r x" for x using i(1) by (auto simp: r_live_def)
    show ?thesis using x st live [of x] live [of "r_parent r x"] asg
      by (auto simp: xid_inv_def r' status_defs)
  qed
  ultimately show ?thesis using run_inv_bounds [OF inv] by (simp add: run_inv_def r')
qed

lemma run_remove_inv:
  assumes inv: "run_inv b n r" and i: "i < n"
    and k: "k < length (r_tree r i)" "r_ended r i \<longrightarrow> k = 0" "\<not> r_ended r i \<longrightarrow> 0 < k"
    and r': "r_tree r' = (r_tree r)(i := take k (r_tree r i))" "r_ended r' = (r_ended r)(i := False)"
      "r_next r' = r_next r" "r_parent r' = r_parent r" "r_latest r' = later b (r_latest r) (last (r_tree r i))"
      "r_status r' = (\<lambda>x. if \<not> r_ended r i \<and> x \<in> set (drop k (r_tree r i)) then TRANSACTION_STATUS_ABORTED else r_status r x)"
  shows "run_inv b n r'"
proof -
  let ?t = "r_tree r i"
  have ti: "tree_inv b r i" using run_inv_tree [OF inv i] .
  have asg: "r_assigned b r' x \<longleftrightarrow> r_assigned b r x" for x by (simp add: r_assigned_def r')
  have "last ?t \<in> set ?t" using k(1) by (intro last_in_set) auto
  then have la: "r_assigned b r (last ?t)" using ti by (simp add: tree_inv_def)
  have sorted: "sorted_wrt (\<lambda>x y. xoff b x < xoff b y) ?t" using ti by (simp add: tree_inv_def)
  have "sorted_wrt (\<lambda>x y. xoff b x < xoff b y) (take k ?t @ drop k ?t)" using sorted by simp
  then have tk: "sorted_wrt (\<lambda>x y. xoff b x < xoff b y) (take k ?t)"
    and "\<forall>x\<in>set (take k ?t). \<forall>y\<in>set (drop k ?t). xoff b x < xoff b y" unfolding sorted_wrt_append by blast+
  then have sep: "x \<notin> set (drop k ?t)" if "x \<in> set (take k ?t)" for x using that by blast
  have split: "x \<in> set ?t \<longleftrightarrow> x \<in> set (take k ?t) \<or> x \<in> set (drop k ?t)" for x
    by (metis Un_iff append_take_drop_id set_append)
  have live: "r_live n r' x \<longleftrightarrow> r_live n r x \<and> x \<notin> set (drop k ?t)" for x
  proof -
    have "j < n \<Longrightarrow> j \<noteq> i \<Longrightarrow> x \<in> set (r_tree r j) \<Longrightarrow> x \<notin> set (drop k ?t)" for j
      using run_inv_disjoint [OF inv _ i] split by blast
    moreover have "x \<in> set (r_tree r' j) \<longleftrightarrow> (if j = i then x \<in> set (take k ?t) else x \<in> set (r_tree r j))" for j
      by (simp add: r'(1))
    ultimately show ?thesis using i sep [of x] split [of x] unfolding r_live_def by metis
  qed
  have keep: "r_status r' x = r_status r x" if "x \<notin> set (drop k ?t)" for x using that by (simp add: r')
  have "tree_inv b r' j" if j: "j < n" for j
  proof (cases "j = i")
    case True
    have "\<forall>x\<in>set (take k ?t). x \<in> set ?t" by (auto dest: in_set_takeD)
    moreover have "\<forall>x\<in>set (take k ?t). r_status r' x = r_status r x" using sep keep by blast
    ultimately show ?thesis using ti tk True k asg
      by (cases "r_ended r i") (auto simp: tree_inv_def r'(1,2,4) min_def)
  next
    case False
    have "x \<notin> set (drop k ?t)" if "x \<in> set (r_tree r j)" for x
      using run_inv_disjoint [OF inv j i False that] split by blast
    moreover have "x \<in> set (r_tree r j) \<Longrightarrow> r_assigned b r' x" for x
      using run_inv_tree [OF inv j] by (simp add: tree_inv_def asg)
    ultimately show ?thesis
      using False keep by (intro tree_inv_keep [OF run_inv_tree [OF inv j]]) (simp_all add: r'(1,2,4))
  qed
  moreover have "disjoint_trees n r'"
    unfolding disjoint_trees_def
  proof (intro allI impI)
    fix j k' assume jk: "j < n" "k' < n" "j \<noteq> k'"
    have "set (r_tree r j) \<inter> set (r_tree r k') = {}" using inv jk by (simp add: run_inv_def disjoint_trees_def)
    moreover have "set (r_tree r' j) \<subseteq> set (r_tree r j)" for j by (auto simp: r'(1) dest: in_set_takeD)
    ultimately show "set (r_tree r' j) \<inter> set (r_tree r' k') = {}" by blast
  qed
  moreover have "xid_inv b n r' x" if a: "r_assigned b r' x" for x
  proof -
    have a: "r_assigned b r x" using a asg by simp
    have x: "xid_inv b n r x" using run_inv_xid [OF inv a] .
    have "xoff b (r_latest r') < xoff b x \<longrightarrow> r_live n r' x"
      using x sorted_last [OF sorted, of x] split [of x] live [of x] later_window(2,3) [where b = b and x = "r_latest r" and y = "last ?t"]
      by (auto simp: xid_inv_def r'(5))
    moreover have "r_status r' x \<noteq> TRANSACTION_STATUS_SUB_COMMITTED" using x by (auto simp: xid_inv_def r'(6) status_defs)
    moreover have "r_parent r' x = InvalidTransactionId \<or>
        \<not> r_live n r' (r_parent r' x) \<and> r_status r' (r_parent r' x) = r_status r' x"
      if c: "\<not> r_live n r' x" "r_status r' x \<noteq> TRANSACTION_STATUS_ABORTED"
    proof (cases "x \<in> set (drop k ?t)")
      case True
      then have e: "r_ended r i" "k = 0" using c(2) k(2) by (auto simp: r'(6) split: if_splits)
      obtain m where m: "m < length ?t" "?t ! m = x" using True e(2) by (auto simp: in_set_conv_nth)
      have "r_parent r x = InvalidTransactionId \<or> r_parent r x \<in> set ?t"
        using ti m by (cases "m = 0") (auto simp: tree_inv_def hd_conv_nth dest: in_set_takeD)
      moreover have "\<forall>y\<in>set ?t. r_status r y = r_status r x"
        using ti e True unfolding tree_inv_def by auto
      ultimately show ?thesis using e live by (auto simp: r'(4,6))
    next
      case False
      then have "\<not> r_live n r x" "r_status r x \<noteq> TRANSACTION_STATUS_ABORTED" "r_status r' x = r_status r x" using c live keep by auto
      then have "r_parent r x = InvalidTransactionId \<or> \<not> r_live n r (r_parent r x) \<and> r_status r (r_parent r x) = r_status r' x"
        using x by (simp add: xid_inv_def)
      moreover have "y \<in> set (drop k ?t) \<Longrightarrow> r_live n r y" for y using split i by (auto simp: r_live_def)
      ultimately show ?thesis using live keep unfolding r'(4) by metis
    qed
    ultimately show ?thesis using x asg by (simp add: xid_inv_def r'(4))
  qed
  moreover have "in_window b (r_latest r')" "xoff b (r_latest r') < xoff b (r_next r')"
    using run_inv_bounds [OF inv] la later_window(1,4) by (simp_all add: r' r_assigned_def)
  ultimately show ?thesis using run_inv_bounds(1) [OF inv] by (simp add: run_inv_def r'(3))
qed

lemma run_step_inv: "run_step b n r r' \<Longrightarrow> run_inv b n r \<Longrightarrow> run_inv b n r'"
proof (induction rule: run_step.induct)
  case (run_assign i r q)
  then show ?case by (intro run_assign_inv [OF _ _ _ _ _ refl])
next
  case (run_record i r st)
  then show ?case by (intro run_record_inv [OF _ _ _ _ _ refl])
next
  case (run_subabort i r k)
  have "(r_ended r)(i := False) = r_ended r" using run_subabort(2) by (simp add: fun_upd_idem_iff)
  then show ?case using run_subabort
    by (intro run_remove_inv [OF run_subabort(5,1,4)]) simp_all
next
  case (run_end i r)
  show ?case by (rule run_remove_inv [OF run_end(4,1), of 0]) (use run_end(2,3) in simp_all)
qed (assumption)

section \<open>What never changes again\<close>

text \<open>
  Between two states of a run, ids are only added, parents stay, and an id outside the running set stays
  outside with the outcome it has.
\<close>

definition evolves :: "TransactionId \<Rightarrow> nat \<Rightarrow> Running \<Rightarrow> Running \<Rightarrow> bool" where
  "evolves b n r r' \<longleftrightarrow>
     xoff b (r_next r) \<le> xoff b (r_next r') \<and> xoff b (r_latest r) \<le> xoff b (r_latest r') \<and>
     (\<forall>x. r_assigned b r x \<longrightarrow> r_parent r' x = r_parent r x \<and>
        (\<not> r_live n r x \<longrightarrow> \<not> r_live n r' x \<and> r_status r' x = r_status r x))"

lemma evolvesD:
  assumes "evolves b n r r'" "r_assigned b r x"
  shows "r_assigned b r' x" "r_parent r' x = r_parent r x"
    and "\<not> r_live n r x \<Longrightarrow> \<not> r_live n r' x" "\<not> r_live n r x \<Longrightarrow> r_status r' x = r_status r x"
  using assms by (auto simp: evolves_def r_assigned_def)

lemma evolves_refl: "evolves b n r r"
  by (simp add: evolves_def)

lemma evolves_trans:
  assumes "evolves b n r r'" "evolves b n r' r''"
  shows "evolves b n r r''"
  unfolding evolves_def
proof (intro conjI allI impI)
  show "xoff b (r_next r) \<le> xoff b (r_next r'')" "xoff b (r_latest r) \<le> xoff b (r_latest r'')"
    using assms by (auto simp: evolves_def)
  fix x assume a: "r_assigned b r x"
  note one = evolvesD [OF assms(1) a] and two = evolvesD [OF assms(2) evolvesD(1) [OF assms(1) a]]
  show "r_parent r'' x = r_parent r x" using one(2) two(2) by simp
  show "\<not> r_live n r'' x" "r_status r'' x = r_status r x" if "\<not> r_live n r x"
    using one(3,4) [OF that] two(3,4) by simp_all
qed

lemma evolves_remove:
  assumes "run_inv b n r" "i < n"
    and "r_tree r' = (r_tree r)(i := take k (r_tree r i))" "r_next r' = r_next r" "r_parent r' = r_parent r"
      "r_latest r' = later b (r_latest r) (last (r_tree r i))"
      "\<And>x. x \<notin> set (r_tree r i) \<Longrightarrow> r_status r' x = r_status r x"
  shows "evolves b n r r'"
proof -
  have "r_live n r' x \<Longrightarrow> r_live n r x" for x
    using assms(2) by (auto simp: r_live_def assms(3) split: if_splits dest: in_set_takeD)
  moreover have "\<not> r_live n r x \<Longrightarrow> x \<notin> set (r_tree r i)" for x using assms(2) by (auto simp: r_live_def)
  ultimately show ?thesis
    using assms(7) unfolding evolves_def by (auto simp: assms(4-6) later_window(2))
qed

lemma run_step_evolves: "run_step b n r r' \<Longrightarrow> run_inv b n r \<Longrightarrow> evolves b n r r'"
proof (induction rule: run_step.induct)
  case (run_assign i r q)
  let ?r = "r\<lparr>r_tree := (r_tree r)(i := r_tree r i @ [r_next r]), r_next := TransactionIdAdvance (r_next r),
      r_status := (r_status r)(r_next r := TRANSACTION_STATUS_IN_PROGRESS), r_parent := (r_parent r)(r_next r := q)\<rparr>"
  have "r_assigned b r x \<Longrightarrow> x \<noteq> r_next r" for x by (auto simp: r_assigned_def)
  moreover have "r_live n ?r x \<longleftrightarrow> r_live n r x \<or> x = r_next r" for x
    using run_assign(1) by (auto simp: r_live_def)
  moreover have "xoff b (r_next r) \<le> xoff b (r_next ?r)"
    using advance_window(2) [OF run_inv_bounds(1) [OF run_assign(5)] run_assign(3)] by simp
  ultimately show ?case by (simp add: evolves_def)
next
  case (run_record i r st)
  have "x \<in> set (r_tree r i) \<Longrightarrow> r_live n r x" for x using run_record(1) by (auto simp: r_live_def)
  then show ?case by (auto simp: evolves_def r_live_def)
next
  case (run_subabort i r k)
  show ?case by (rule evolves_remove [OF run_subabort(5,1), of _ k]) (auto dest: in_set_dropD)
next
  case (run_end i r)
  show ?case by (rule evolves_remove [OF run_end(4,1), of _ 0]) simp_all
next
  case (run_other r)
  show ?case by (rule evolves_refl)
qed

section \<open>What a snapshot must hold\<close>

text \<open>
  \<open>hide\<close> are the backends whose ids a snapshot leaves out: the one that takes it and those running a
  lazy vacuum or logical decoding.
\<close>

definition covers ::
    "TransactionId \<Rightarrow> TransactionId \<Rightarrow> TransactionId \<Rightarrow> TransactionId set \<Rightarrow> TransactionId set \<Rightarrow> bool \<Rightarrow> TransactionId list \<Rightarrow> bool" where
  "covers b xmin xmax xip subxip overflowed t \<longleftrightarrow>
     (t \<noteq> [] \<and> xoff b (hd t) < xoff b xmax \<longrightarrow>
        hd t \<in> xip \<and> xoff b xmin \<le> xoff b (hd t) \<and>
        (overflowed \<or> (\<forall>x\<in>set (tl t). xoff b x < xoff b xmax \<longrightarrow> x \<in> subxip)))"

definition snap_holds ::
    "TransactionId \<Rightarrow> nat \<Rightarrow> (nat \<Rightarrow> bool) \<Rightarrow> Running \<Rightarrow> TransactionId \<Rightarrow> TransactionId \<Rightarrow> TransactionId set \<Rightarrow> TransactionId set \<Rightarrow> bool \<Rightarrow> bool" where
  "snap_holds b n hide r xmin xmax xip subxip overflowed \<longleftrightarrow>
     in_window b xmin \<and> xmax = TransactionIdAdvance (r_latest r) \<and> xoff b xmin \<le> xoff b xmax \<and>
     (\<forall>j<n. \<not> hide j \<longrightarrow> covers b xmin xmax xip subxip overflowed (r_tree r j)) \<and>
     (\<forall>x\<in>xip \<union> subxip. \<exists>j<n. \<not> hide j \<and> x \<in> set (r_tree r j))"

text \<open>Which transactions had committed and left the running set.\<close>

definition r_committed :: "TransactionId \<Rightarrow> nat \<Rightarrow> Running \<Rightarrow> TransactionId \<Rightarrow> bool" where
  "r_committed b n r x \<longleftrightarrow> r_assigned b r x \<and> \<not> r_live n r x \<and> r_status r x = TRANSACTION_STATUS_COMMITTED"

lemma r_committed_parent:
  assumes "run_inv b n r" "r_committed b n r x"
  shows "r_parent r x = InvalidTransactionId \<or> r_committed b n r (r_parent r x) \<and> xoff b (r_parent r x) < xoff b x"
  using assms(2) run_inv_xid [OF assms(1), of x] by (auto simp: r_committed_def xid_inv_def)

lemma tree_parent:
  assumes "tree_inv b r i" "x \<in> set (r_tree r i)" "x \<noteq> hd (r_tree r i)"
  shows "r_parent r x \<in> set (r_tree r i)" "xoff b (r_parent r x) < xoff b x"
proof -
  obtain k where k: "k < length (r_tree r i)" "r_tree r i ! k = x" using assms(2) by (auto simp: in_set_conv_nth)
  then have "0 < k" using assms(3) by (cases k) (auto simp: hd_conv_nth)
  then have p: "r_parent r x \<in> set (take k (r_tree r i))" using assms(1) k by (auto simp: tree_inv_def)
  then obtain m where m: "m < k" "r_tree r i ! m = r_parent r x" using k(1) by (auto simp: in_set_conv_nth)
  show "r_parent r x \<in> set (r_tree r i)" using p by (rule in_set_takeD)
  show "xoff b (r_parent r x) < xoff b x"
    using sorted_wrt_nth_less [of "\<lambda>x y. xoff b x < xoff b y" "r_tree r i" m k] assms(1) k m by (simp add: tree_inv_def)
qed

lemma tree_hd_least:
  assumes "tree_inv b r i" "x \<in> set (r_tree r i)"
  shows "xoff b (hd (r_tree r i)) \<le> xoff b x"
  using assms by (cases "r_tree r i") (auto simp: tree_inv_def intro: less_imp_le)

section \<open>Runs\<close>

lemma run_steps_inv: "(run_step b n)\<^sup>*\<^sup>* r r' \<Longrightarrow> run_inv b n r \<Longrightarrow> run_inv b n r'"
  by (induction rule: rtranclp_induct) (auto intro: run_step_inv)

lemma run_steps_evolves: "(run_step b n)\<^sup>*\<^sup>* r r' \<Longrightarrow> run_inv b n r \<Longrightarrow> evolves b n r r'"
proof (induction rule: rtranclp_induct)
  case base
  show ?case by (rule evolves_refl)
next
  case (step y z)
  then show ?case using run_steps_inv [OF step(1) step(4)] run_step_evolves [OF step(2)] evolves_trans by blast
qed

text \<open>An outcome, once recorded, stays.\<close>

lemma final_status_step:
  "run_step b n r r' \<Longrightarrow> run_inv b n r \<Longrightarrow> r_assigned b r x \<Longrightarrow>
   r_status r x = TRANSACTION_STATUS_COMMITTED \<or> r_status r x = TRANSACTION_STATUS_ABORTED \<Longrightarrow> r_status r' x = r_status r x"
proof (induction rule: run_step.induct)
  case (run_assign i r q)
  then show ?case by (auto simp: r_assigned_def)
next
  case (run_record i r st)
  then show ?case using run_inv_tree [OF run_record(5,1)] by (auto simp: tree_inv_def)
next
  case (run_subabort i r k)
  then show ?case using run_inv_tree [OF run_subabort(5,1)] by (auto simp: tree_inv_def dest!: in_set_dropD)
qed simp_all

section \<open>Lower bounds of the running ids\<close>

text \<open>
  An id that precedes every running transaction which snapshots of backend \<open>i\<close> show, \<open>F\<close> marking the
  backends they leave out.
\<close>

definition lower :: "TransactionId \<Rightarrow> nat \<Rightarrow> (nat \<Rightarrow> bool) \<Rightarrow> Running \<Rightarrow> nat \<Rightarrow> TransactionId \<Rightarrow> bool" where
  "lower b n F r i y \<longleftrightarrow> in_window b y \<and> xoff b y \<le> xoff b (TransactionIdAdvance (r_latest r)) \<and>
     (\<forall>j<n. (j = i \<or> \<not> F j) \<and> r_tree r j \<noteq> [] \<longrightarrow> xoff b y \<le> xoff b (hd (r_tree r j)))"

definition room :: "TransactionId \<Rightarrow> Running \<Rightarrow> bool" where
  "room b r \<longleftrightarrow> xoff b (r_next r) + 4 < 2 ^ 31"

lemma advance_latest:
  assumes "run_inv b n r" "room b r"
  shows "in_window b (TransactionIdAdvance (r_latest r))"
    and "xoff b (r_latest r) < xoff b (TransactionIdAdvance (r_latest r))"
    and "xoff b (TransactionIdAdvance (r_latest r)) \<le> xoff b (r_next r)"
    and "in_window b x \<Longrightarrow> xoff b x < xoff b (TransactionIdAdvance (r_latest r)) \<longleftrightarrow> xoff b x \<le> xoff b (r_latest r)"
proof -
  note bounds = run_inv_bounds [OF assms(1)]
  have l: "xoff b (r_latest r) + 4 < 2 ^ 31" using bounds(3) assms(2) by (simp add: room_def)
  note adv = advance_window [OF bounds(2) l]
  show "in_window b (TransactionIdAdvance (r_latest r))" "xoff b (r_latest r) < xoff b (TransactionIdAdvance (r_latest r))"
    by (rule adv)+
  show "xoff b x < xoff b (TransactionIdAdvance (r_latest r)) \<longleftrightarrow> xoff b x \<le> xoff b (r_latest r)" if "in_window b x"
    using adv(4) in_windowD(1) [OF that] by blast
  show "xoff b (TransactionIdAdvance (r_latest r)) \<le> xoff b (r_next r)"
    using adv(4) [of "r_next r"] bounds by (simp add: in_window_def not_less [symmetric])
qed

lemma run_step_room: "run_step b n r r' \<Longrightarrow> run_inv b n r \<Longrightarrow> room b r' \<Longrightarrow> room b r"
  using run_step_evolves [of b n r r'] by (simp add: room_def evolves_def)

lemma run_step_tree:
  "run_step b n r r' \<Longrightarrow> r_tree r' j \<noteq> [] \<Longrightarrow> r_tree r j = [] \<and> hd (r_tree r' j) = r_next r \<or> r_tree r j \<noteq> [] \<and> hd (r_tree r' j) = hd (r_tree r j)"
  by (induction rule: run_step.induct) (auto split: if_splits)

lemma lower_step:
  assumes "run_step b n r r'" "run_inv b n r" "room b r'" "lower b n F r i y"
  shows "lower b n F r' i y"
proof -
  have rm: "room b r" using run_step_room assms(1-3) .
  have inv': "run_inv b n r'" using run_step_inv assms(1,2) .
  note al = advance_latest [OF assms(2) rm] and al' = advance_latest [OF inv' assms(3)]
  have "xoff b (r_latest r) \<le> xoff b (r_latest r')" using run_step_evolves [OF assms(1,2)] by (simp add: evolves_def)
  then have "\<not> xoff b (TransactionIdAdvance (r_latest r')) < xoff b (TransactionIdAdvance (r_latest r))"
    using al(4) [OF al'(1)] al'(2) by linarith
  then have adv: "xoff b y \<le> xoff b (TransactionIdAdvance (r_latest r'))" using assms(4) by (simp add: lower_def)
  moreover have "xoff b y \<le> xoff b (hd (r_tree r' j))" if j: "j < n" "j = i \<or> \<not> F j" "r_tree r' j \<noteq> []" for j
    using run_step_tree [OF assms(1) j(3)] assms(4) j(1,2) al(3) by (auto simp: lower_def)
  ultimately show ?thesis using assms(4) by (simp add: lower_def)
qed

lemma run_steps_room: "(run_step b n)\<^sup>*\<^sup>* r r' \<Longrightarrow> run_inv b n r \<Longrightarrow> room b r' \<Longrightarrow> room b r"
  using run_steps_evolves [of b n r r'] by (simp add: room_def evolves_def)

lemma lower_steps:
  "(run_step b n)\<^sup>*\<^sup>* r r' \<Longrightarrow> run_inv b n r \<Longrightarrow> room b r' \<Longrightarrow> lower b n F r i y \<Longrightarrow> lower b n F r' i y"
proof (induction rule: rtranclp_induct)
  case (step r1 r2)
  have inv: "run_inv b n r1" using run_steps_inv step.hyps(1) step.prems(1) .
  then have "room b r1" using run_step_room step.hyps(2) step.prems(2) by blast
  then show ?case using step inv lower_step by blast
qed

lemma lower_flags:
  "lower b n F r i y \<Longrightarrow> \<forall>j<n. r_tree r j \<noteq> [] \<longrightarrow> F' j = F j \<Longrightarrow> lower b n F' r i y"
  by (auto simp: lower_def)

section \<open>Snapshots while nobody leaves the running set\<close>

definition grows :: "TransactionId \<Rightarrow> Running \<Rightarrow> Running \<Rightarrow> bool" where
  "grows b r r' \<longleftrightarrow> r_latest r' = r_latest r \<and>
     (\<forall>j. \<exists>zs. r_tree r' j = r_tree r j @ zs \<and> (\<forall>z\<in>set zs. xoff b (r_next r) \<le> xoff b z))"

lemma grows_refl: "grows b r r"
  by (auto simp: grows_def intro: exI [of _ "[]"])

lemma grows_trans:
  assumes "grows b r r'" "grows b r' r''" "xoff b (r_next r) \<le> xoff b (r_next r')"
  shows "grows b r r''"
  unfolding grows_def
proof (intro conjI allI)
  show "r_latest r'' = r_latest r" using assms by (simp add: grows_def)
  fix j
  obtain zs ys where "r_tree r' j = r_tree r j @ zs" "\<forall>z\<in>set zs. xoff b (r_next r) \<le> xoff b z"
    "r_tree r'' j = r_tree r' j @ ys" "\<forall>z\<in>set ys. xoff b (r_next r') \<le> xoff b z"
    using assms(1,2) unfolding grows_def by meson
  then show "\<exists>zs. r_tree r'' j = r_tree r j @ zs \<and> (\<forall>z\<in>set zs. xoff b (r_next r) \<le> xoff b z)"
    using assms(3) by (intro exI [of _ "zs @ ys"]) (auto intro: order_trans)
qed

lemma snap_holds_members:
  "snap_holds b n hide r xmin xmax xip subxip over \<Longrightarrow> x \<in> xip \<union> subxip \<Longrightarrow> \<exists>j<n. \<not> hide j \<and> x \<in> set (r_tree r j)"
  unfolding snap_holds_def by blast

lemma snap_holds_covers:
  "snap_holds b n hide r xmin xmax xip subxip over \<Longrightarrow> j < n \<Longrightarrow> \<not> hide j \<Longrightarrow> covers b xmin xmax xip subxip over (r_tree r j)"
  unfolding snap_holds_def by blast

lemma snap_holds_grows:
  assumes "grows b r r'" "run_inv b n r" "room b r" "snap_holds b n hide r xmin xmax xip subxip over"
  shows "snap_holds b n hide r' xmin xmax xip subxip over"
proof -
  have xmax: "xmax = TransactionIdAdvance (r_latest r')" "xoff b xmax \<le> xoff b (r_next r)"
    using assms(1,4) advance_latest(3) [OF assms(2,3)] by (auto simp: grows_def snap_holds_def)
  have "covers b xmin xmax xip subxip over (r_tree r' j)" if j: "j < n" "\<not> hide j" for j
    unfolding covers_def
  proof (intro impI, elim conjE)
    assume j': "r_tree r' j \<noteq> []" "xoff b (hd (r_tree r' j)) < xoff b xmax"
    obtain zs where zs: "r_tree r' j = r_tree r j @ zs" "\<forall>z\<in>set zs. xoff b (r_next r) \<le> xoff b z"
      using assms(1) by (auto simp: grows_def)
    have ne: "r_tree r j \<noteq> []"
    proof
      assume "r_tree r j = []"
      then have "hd (r_tree r' j) \<in> set zs" using zs(1) j'(1) by simp
      then show False using zs(2) j'(2) xmax(2) by fastforce
    qed
    then have eq: "hd (r_tree r' j) = hd (r_tree r j)" "tl (r_tree r' j) = tl (r_tree r j) @ zs" using zs(1) by simp_all
    have "covers b xmin xmax xip subxip over (r_tree r j)" using snap_holds_covers [OF assms(4) j] .
    moreover have "\<forall>z\<in>set zs. \<not> xoff b z < xoff b xmax" using zs(2) xmax(2) by fastforce
    ultimately show "hd (r_tree r' j) \<in> xip \<and> xoff b xmin \<le> xoff b (hd (r_tree r' j)) \<and>
        (over \<or> (\<forall>x\<in>set (tl (r_tree r' j)). xoff b x < xoff b xmax \<longrightarrow> x \<in> subxip))"
      using j'(2) ne unfolding eq covers_def by auto
  qed
  moreover have "\<forall>x\<in>xip \<union> subxip. \<exists>j<n. \<not> hide j \<and> x \<in> set (r_tree r' j)"
  proof
    fix x assume "x \<in> xip \<union> subxip"
    then obtain j where "j < n" "\<not> hide j" "x \<in> set (r_tree r j)" using snap_holds_members [OF assms(4)] by blast
    moreover obtain zs where "r_tree r' j = r_tree r j @ zs" using assms(1) by (auto simp: grows_def)
    ultimately show "\<exists>j<n. \<not> hide j \<and> x \<in> set (r_tree r' j)" by auto
  qed
  ultimately show ?thesis using assms(4) xmax(1) unfolding snap_holds_def by blast
qed

lemma snap_holds_hide:
  assumes "snap_holds b n hide r xmin xmax xip subxip over" "\<forall>j<n. r_tree r j \<noteq> [] \<longrightarrow> hide' j = hide j"
  shows "snap_holds b n hide' r xmin xmax xip subxip over"
proof -
  have "\<exists>j<n. \<not> hide' j \<and> x \<in> set (r_tree r j)" if x: "x \<in> xip \<union> subxip" for x
  proof -
    obtain j where "j < n" "\<not> hide j" "x \<in> set (r_tree r j)" using snap_holds_members [OF assms(1) x] by blast
    moreover have "r_tree r j \<noteq> []" using calculation(3) by auto
    ultimately show ?thesis using assms(2) by auto
  qed
  moreover have "covers b xmin xmax xip subxip over (r_tree r j)" if "j < n" "\<not> hide' j" for j
    using snap_holds_covers [OF assms(1)] assms(2) that by (cases "r_tree r j = []") (simp_all add: covers_def)
  ultimately show ?thesis using assms(1) unfolding snap_holds_def by blast
qed

end
