(* ===== verification/Cluster.thy ===== *)
theory Cluster
  imports XidLogs RunningSet
begin

text \<open>
  Several backends over one shared memory.  A step is one critical section of one backend: assigning
  ids, ending a subtransaction, recording an outcome in the commit log, leaving the running set, taking
  or releasing a snapshot, looking up a transaction, computing horizons.  The commit log is updated in a
  step of its own before the transaction leaves the running set, as \<^verbatim>\<open>CommitTransaction\<close> does it.
  Ids looked up lie within half the circle after the base \<open>b\<close>, and the 64-bit count of completed
  transactions does not wrap.
\<close>

section \<open>Sessions and steps\<close>

text \<open>
  \<open>se_latestXid\<close> is the local variable \<^verbatim>\<open>latestXid\<close> of \<^verbatim>\<open>CommitTransaction\<close> and \<^verbatim>\<open>AbortTransaction\<close> between
  recording the outcome and \<^verbatim>\<open>ProcArrayEndTransaction\<close>; \<open>se_current\<close> is the static \<^verbatim>\<open>CurrentSnapshotData\<close>,
  \<open>se_held\<close> are the copies that are active or registered.
\<close>

record Session =
  se_be :: BackendState
  se_latestXid :: "TransactionId option"
  se_current :: SnapshotData
  se_held :: "SnapshotData list"

record Cluster =
  cl_shm :: ShmemState
  cl_sessions :: "Session list"

abbreviation session :: "Cluster \<Rightarrow> nat \<Rightarrow> Session" where
  "session c i \<equiv> cl_sessions c ! i"

definition put :: "nat \<Rightarrow> Session \<Rightarrow> ShmemState \<Rightarrow> Cluster \<Rightarrow> Cluster" where
  "put i se shm c = c\<lparr>cl_shm := shm, cl_sessions := (cl_sessions c)[i := se]\<rparr>"

text \<open>\<^verbatim>\<open>CommitSubTransaction\<close>: hand the ids to the parent, if there are any, and pop.\<close>

definition commit_sub_xids :: "BackendState \<Rightarrow> childxids_error + BackendState" where
  "commit_sub_xids be =
     (case xact_stack be of
        s # parents \<Rightarrow>
          if FullTransactionIdIsValid (fullTransactionId s)
          then case AtSubCommit_childXids (s # parents) of
                 Inl e \<Rightarrow> Inl e
               | Inr stack \<Rightarrow> Inr (be\<lparr>xact_stack := tl stack\<rparr>)
          else Inr (be\<lparr>xact_stack := parents\<rparr>)
      | [] \<Rightarrow> Inl NoParentTransaction)"

definition mark_abort :: "BackendState \<Rightarrow> BackendState" where
  "mark_abort be = be\<lparr>xact_stack := (case xact_stack be of [] \<Rightarrow> [] | s # parents \<Rightarrow> s\<lparr>xs_abort := True\<rparr> # parents)\<rparr>"

text \<open>\<^verbatim>\<open>AbortSubTransaction\<close> and \<^verbatim>\<open>CleanupSubTransaction\<close>: record the abort, drop the ids and pop.\<close>

definition abort_sub_xids :: "BackendState \<Rightarrow> ShmemState \<Rightarrow> (abort_error + BackendState \<times> ShmemState) option" where
  "abort_sub_xids be shm =
     (case RecordTransactionAbort True (mark_abort be) shm of
        None \<Rightarrow> None
      | Some (Inl e) \<Rightarrow> Some (Inl e)
      | Some (Inr (latestXid, be, shm)) \<Rightarrow>
          Some (Inr (be\<lparr>xact_stack := tl (AtSubAbort_childXids (xact_stack be))\<rparr>, shm)))"

inductive cluster_step :: "ProcessMode \<Rightarrow> TransactionId \<Rightarrow> Cluster \<Rightarrow> Cluster \<Rightarrow> bool" for mode b where
  begin_sub: "cluster_step mode b c (put i (se\<lparr>se_be := (se_be se)\<lparr>xact_stack := fresh_xact # xact_stack (se_be se)\<rparr>\<rparr>) (cl_shm c) c)"
  if "i < length (cl_sessions c)" "session c i = se" "se_latestXid se = None"
| assign: "cluster_step mode b c (put i (se\<lparr>se_be := (se_be se)\<lparr>xact_stack := stack, XactTopFullTransactionId := topfull\<rparr>\<rparr>) shm c)"
  if "i < length (cl_sessions c)" "session c i = se" "se_latestXid se = None"
    "\<not> FullTransactionIdIsValid (fullTransactionId (hd (xact_stack (se_be se))))"
    "AssignTransactionId mode i (xact_stack (se_be se)) (XactTopFullTransactionId (se_be se)) (cl_shm c) = (err, stack, topfull, shm)"
| commit_sub: "cluster_step mode b c (put i (se\<lparr>se_be := be\<rparr>) (cl_shm c) c)"
  if "i < length (cl_sessions c)" "session c i = se" "se_latestXid se = None"
    "1 < length (xact_stack (se_be se))" "commit_sub_xids (se_be se) = Inr be"
| abort_sub: "cluster_step mode b c (put i (se\<lparr>se_be := be\<rparr>) shm c)"
  if "i < length (cl_sessions c)" "session c i = se" "se_latestXid se = None"
    "1 < length (xact_stack (se_be se))" "abort_sub_xids (se_be se) (cl_shm c) = Some (Inr (be, shm))"
    "xactCompletionCount (cl_shm c) + 1 \<noteq> 0"
| record_commit: "cluster_step mode b c (put i (se\<lparr>se_latestXid := Some latestXid\<rparr>) shm c)"
  if "i < length (cl_sessions c)" "session c i = se" "se_latestXid se = None"
    "length (xact_stack (se_be se)) = 1" "RecordTransactionCommit sync lsn (se_be se) (cl_shm c) = Inr (latestXid, shm)"
| record_abort: "cluster_step mode b c (put i (se\<lparr>se_be := be, se_latestXid := Some latestXid\<rparr>) shm c)"
  if "i < length (cl_sessions c)" "session c i = se" "se_latestXid se = None"
    "length (xact_stack (se_be se)) = 1"
    "RecordTransactionAbort False (mark_abort (se_be se)) (cl_shm c) = Some (Inr (latestXid, be, shm))"
| end_xact: "cluster_step mode b c (put i (se\<lparr>se_be := reset_xact (se_be se), se_latestXid := None, se_held := []\<rparr>)
      (ProcArrayEndTransaction i latestXid (cl_shm c)) c)"
  if "i < length (cl_sessions c)" "session c i = se" "se_latestXid se = Some latestXid"
    "xactCompletionCount (cl_shm c) + 1 \<noteq> 0"
| snapshot: "cluster_step mode b c (put i (se\<lparr>se_be := be, se_current := snap, se_held := CopySnapshot snap # se_held se\<rparr>) shm c)"
  if "i < length (cl_sessions c)" "session c i = se" "se_latestXid se = None"
    "GetSnapshotData (se_current se) (se_be se) (cl_shm c) = (snap, be, shm)"
| release: "cluster_step mode b c (put i (se\<lparr>se_held := held\<rparr>)
      (set_proc i (SnapshotResetXmin active held (procArray (cl_shm c) ! i)) (cl_shm c)) c)"
  if "i < length (cl_sessions c)" "session c i = se" "set held \<subseteq> set (se_held se)"
| vacuum: "cluster_step mode b c (put i se (start_vacuum is_wraparound i (cl_shm c)) c)"
  if "i < length (cl_sessions c)" "session c i = se" "se_latestXid se = None" "se_held se = []"
    "\<not> TransactionIdIsValid (proc_xid (procArray (cl_shm c) ! i))" "\<not> TransactionIdIsValid (proc_xmin (procArray (cl_shm c) ! i))"
| lookup: "cluster_step mode b c (put i (se\<lparr>se_be := be\<rparr>) (cl_shm c) c)"
  if "i < length (cl_sessions c)" "session c i = se" "in_window b xid"
    "TransactionIdIsInProgress xid (se_be se) (cl_shm c) = Some (Inr (answer, be))"
| horizons: "cluster_step mode b c (put i (se\<lparr>se_be := snd (ComputeXidHorizons (se_be se) (cl_shm c))\<rparr>) (cl_shm c) c)"
  if "i < length (cl_sessions c)" "session c i = se"

section \<open>The running set of a cluster\<close>

text \<open>The ids of a stack in the order in which they were assigned.\<close>

fun chron :: "XactXids list \<Rightarrow> TransactionId list" where
  "chron [] = []"
| "chron (s # parents) =
     chron parents @ (if FullTransactionIdIsValid (fullTransactionId s) then xs_xid s # childXids s else [])"

abbreviation next_of :: "ShmemState \<Rightarrow> TransactionId" where
  "next_of shm \<equiv> XidFromFullTransactionId (nextXid shm)"

abbreviation latest_of :: "ShmemState \<Rightarrow> TransactionId" where
  "latest_of shm \<equiv> XidFromFullTransactionId (latestCompletedXid shm)"

definition tree_of :: "Session \<Rightarrow> TransactionId list" where
  "tree_of se = chron (xact_stack (se_be se))"

text \<open>Values at ids that have not been assigned are left out.\<close>

definition mask_xid :: "TransactionId \<Rightarrow> ShmemState \<Rightarrow> (TransactionId \<Rightarrow> 'a :: zero) \<Rightarrow> TransactionId \<Rightarrow> 'a" where
  "mask_xid b shm f x = (if in_window b x \<and> xoff b x < xoff b (next_of shm) then f x else 0)"

definition running :: "TransactionId \<Rightarrow> Cluster \<Rightarrow> Running" where
  "running b c =
     \<lparr>r_tree = (\<lambda>i. if i < length (cl_sessions c) then tree_of (session c i) else []),
      r_ended = (\<lambda>i. i < length (cl_sessions c) \<and> se_latestXid (session c i) \<noteq> None \<and> tree_of (session c i) \<noteq> []),
      r_next = next_of (cl_shm c),
      r_latest = latest_of (cl_shm c),
      r_status = mask_xid b (cl_shm c) (xid_status (shm_clog (cl_shm c))),
      r_parent = mask_xid b (cl_shm c) (parent_of (shm_subtrans (cl_shm c)))\<rparr>"

definition flagged :: "PGPROC \<Rightarrow> bool" where
  "flagged p \<longleftrightarrow> proc_statusFlags p AND (PROC_IN_LOGICAL_DECODING OR PROC_IN_VACUUM) \<noteq> 0"

abbreviation flags :: "Cluster \<Rightarrow> nat \<Rightarrow> bool" where
  "flags c j \<equiv> flagged (procArray (cl_shm c) ! j)"

section \<open>The invariant\<close>

text \<open>Shared memory: the window of ids and the pages of the logs.\<close>

definition shm_ok :: "FullTransactionId \<Rightarrow> ShmemState \<Rightarrow> bool" where
  "shm_ok B shm \<longleftrightarrow> (let b = XidFromFullTransactionId B; nx = next_of shm in
     full_in_window B (nextXid shm) \<and> in_window b nx \<and>
     in_window b (xidVacLimit shm) \<and> in_window b (xidStopLimit shm) \<and>
     xoff b (xidVacLimit shm) \<le> xoff b (xidStopLimit shm) \<and> xoff b (xidStopLimit shm) + 4 < 2 ^ 31 \<and>
     xoff b nx \<le> xoff b (xidStopLimit shm) \<and>
     \<not> RecoveryInProgress shm \<and>
     (\<forall>s\<in>{replication_slot_xmin shm, replication_slot_catalog_xmin shm}. s = InvalidTransactionId \<or> in_window b s) \<and>
     (\<forall>x. in_window b x \<and> xoff b x < xoff b nx \<longrightarrow> log_has (shm_clog shm) x \<and> sub_has (shm_subtrans shm) x) \<and>
     (\<forall>x. TransactionIdIsNormal x \<and> xoff b nx \<le> xoff b x \<longrightarrow>
        (TransactionIdToPage x = TransactionIdToPage nx \<and> TransactionIdToPgIndex nx \<noteq> 0 \<and> nx \<noteq> FirstNormalTransactionId \<longrightarrow>
           log_has (shm_clog shm) x \<and> xid_status (shm_clog shm) x = TRANSACTION_STATUS_IN_PROGRESS) \<and>
        (SubTransToPage x = SubTransToPage nx \<and> SubTransToEntry nx \<noteq> 0 \<and> nx \<noteq> FirstNormalTransactionId \<longrightarrow>
           sub_has (shm_subtrans shm) x \<and> parent_of (shm_subtrans shm) x = InvalidTransactionId)))"

text \<open>The stack of one backend: entries with an id are below those without.\<close>

fun frames_ok :: "XactXids list \<Rightarrow> bool" where
  "frames_ok [] \<longleftrightarrow> True"
| "frames_ok (s # parents) \<longleftrightarrow> frames_ok parents \<and>
     (if FullTransactionIdIsValid (fullTransactionId s)
      then \<forall>p\<in>set parents. FullTransactionIdIsValid (fullTransactionId p) else childXids s = [])"

definition first_xid :: "TransactionId list \<Rightarrow> TransactionId" where
  "first_xid t = (case t of [] \<Rightarrow> InvalidTransactionId | x # _ \<Rightarrow> x)"

definition last_xid :: "TransactionId list \<Rightarrow> TransactionId" where
  "last_xid t = (case t of [] \<Rightarrow> InvalidTransactionId | _ \<Rightarrow> last t)"

text \<open>The entry in the array of running transactions agrees with the stack.\<close>

definition session_ok :: "ShmemState \<Rightarrow> nat \<Rightarrow> Session \<Rightarrow> bool" where
  "session_ok shm i se \<longleftrightarrow> (let be = se_be se; p = procArray shm ! i; t = tree_of se in
     pgxactoff be = i \<and> ParallelCurrentXids be = [] \<and> xact_stack be \<noteq> [] \<and> frames_ok (xact_stack be) \<and>
     proc_xid p = first_xid t \<and> XidFromFullTransactionId (XactTopFullTransactionId be) = first_xid t \<and>
     distinct (proc_subxids p) \<and> set (proc_subxids p) \<subseteq> set (tl t) \<and>
     (\<not> proc_overflowed p \<longrightarrow> set (proc_subxids p) = set (tl t)) \<and> (t = [] \<longrightarrow> \<not> proc_overflowed p) \<and>
     (case se_latestXid se of
        None \<Rightarrow> \<forall>s\<in>set (xact_stack be). \<not> xs_abort s
      | Some latest \<Rightarrow> length (xact_stack be) = 1 \<and> latest = last_xid t))"

text \<open>The horizons a backend has published and the snapshots that rely on them.\<close>

definition xmin_ok :: "TransactionId \<Rightarrow> nat \<Rightarrow> (nat \<Rightarrow> bool) \<Rightarrow> Running \<Rightarrow> nat \<Rightarrow> PGPROC \<Rightarrow> Session \<Rightarrow> bool" where
  "xmin_ok b n F r i p se \<longleftrightarrow> (let be = se_be se in
     in_window b (be_TransactionXmin be) \<and> xoff b (be_TransactionXmin be) \<le> xoff b (RecentXmin be) \<and>
     lower b n F r i (RecentXmin be) \<and>
     (proc_xmin p = InvalidTransactionId \<and> se_held se = [] \<or>
      lower b n F r i (proc_xmin p) \<and> xoff b (be_TransactionXmin be) \<le> xoff b (proc_xmin p)) \<and>
     (\<forall>s\<in>set (se_held se). lower b n F r i (snap_xmin s) \<and> xoff b (proc_xmin p) \<le> xoff b (snap_xmin s) \<and>
        \<not> snap_takenDuringRecovery s))"

text \<open>What a backend remembers of earlier lookups.\<close>

definition memo_ok :: "TransactionId \<Rightarrow> nat \<Rightarrow> (nat \<Rightarrow> bool) \<Rightarrow> Running \<Rightarrow> nat \<Rightarrow> Session \<Rightarrow> bool" where
  "memo_ok b n F r i se \<longleftrightarrow> (let be = se_be se; y = cachedXidIsNotInProgress be; (x, st, _) = be_fetch_cache be in
     (y = InvalidTransactionId \<or> r_assigned b r y \<and>
        (\<forall>j<n. y \<in> set (r_tree r j) \<longrightarrow>
           (if j = i then r_ended r i else F j \<or> r_status r y = TRANSACTION_STATUS_ABORTED))) \<and>
     (x = InvalidTransactionId \<or> r_assigned b r x \<and> st = r_status r x \<and>
        (st = TRANSACTION_STATUS_COMMITTED \<or> st = TRANSACTION_STATUS_ABORTED)))"

definition snap_current :: "TransactionId \<Rightarrow> nat \<Rightarrow> (nat \<Rightarrow> bool) \<Rightarrow> Running \<Rightarrow> nat \<Rightarrow> SnapshotData \<Rightarrow> bool" where
  "snap_current b n F r i s \<longleftrightarrow>
     snap_holds b n (\<lambda>j. j = i \<or> F j) r (snap_xmin s) (snap_xmax s) (set (snap_xip s)) (set (snap_subxip s)) (snap_suboverflowed s) \<and>
     lower b n F r i (snap_xmin s) \<and> \<not> snap_takenDuringRecovery s \<and>
     (snap_xmin s = snap_xmax s \<or> (\<exists>j<n. (j = i \<or> \<not> F j) \<and> r_tree r j \<noteq> [] \<and> snap_xmin s = hd (r_tree r j)))"

definition static_ok :: "TransactionId \<Rightarrow> nat \<Rightarrow> (nat \<Rightarrow> bool) \<Rightarrow> uint64 \<Rightarrow> Running \<Rightarrow> nat \<Rightarrow> Session \<Rightarrow> bool" where
  "static_ok b n F completed r i se \<longleftrightarrow> (let s = se_current se in
     snapXactCompletionCount s \<le> completed \<and>
     (snapXactCompletionCount s \<noteq> 0 \<and> snapXactCompletionCount s = completed \<longrightarrow> snap_current b n F r i s))"

definition cluster_inv :: "FullTransactionId \<Rightarrow> Cluster \<Rightarrow> bool" where
  "cluster_inv B c \<longleftrightarrow> (let b = XidFromFullTransactionId B; shm = cl_shm c; n = length (cl_sessions c); r = running b c in
     length (procArray shm) = n \<and> shm_ok B shm \<and> run_inv b n r \<and>
     (\<forall>i<n. session_ok shm i (session c i) \<and>
        xmin_ok b n (flags c) r i (procArray shm ! i) (session c i) \<and>
        memo_ok b n (flags c) r i (session c i) \<and>
        static_ok b n (flags c) (xactCompletionCount shm) r i (session c i)))"

end
