(* ===== verification/ClusterInv.thy ===== *)
theory ClusterInv
  imports Cluster
begin

text \<open>
  Every step of a cluster keeps its invariant and implements steps of the abstract running set.  The
  first part shows what a step of one backend leaves intact for all backends; then each kind of step is
  treated in turn.
\<close>

section \<open>What steps leave intact\<close>

lemma run_step_member: "run_step b n r r' \<Longrightarrow> y \<in> set (r_tree r' j) \<Longrightarrow> y \<in> set (r_tree r j) \<or> y = r_next r"
  by (induction rule: run_step.induct) (auto split: if_splits dest: in_set_takeD)

lemma run_step_ended: "run_step b n r r' \<Longrightarrow> r_ended r i \<Longrightarrow> r_tree r' i \<noteq> [] \<Longrightarrow> r_ended r' i"
  by (induction rule: run_step.induct) (auto split: if_splits)

lemma memo_ok_step:
  assumes "run_step b n r r'" "run_inv b n r" "memo_ok b n F r i se"
  shows "memo_ok b n F r' i se"
proof -
  obtain x st l where cache: "be_fetch_cache (se_be se) = (x, st, l)" by (cases "be_fetch_cache (se_be se)")
  let ?y = "cachedXidIsNotInProgress (se_be se)"
  note ev = run_step_evolves [OF assms(1,2)]
  let ?ok = "\<lambda>r j. if j = i then r_ended r i else F j \<or> r_status r ?y = TRANSACTION_STATUS_ABORTED"
  have "?y = InvalidTransactionId \<or> r_assigned b r' ?y \<and> (\<forall>j<n. ?y \<in> set (r_tree r' j) \<longrightarrow> ?ok r' j)"
  proof (cases "?y = InvalidTransactionId")
    case False
    then have y: "r_assigned b r ?y" "\<forall>j<n. ?y \<in> set (r_tree r j) \<longrightarrow> ?ok r j"
      using assms(3) by (auto simp: memo_ok_def Let_def cache)
    have "?ok r' j" if j: "j < n" "?y \<in> set (r_tree r' j)" for j
    proof -
      have "?y \<in> set (r_tree r j)" using run_step_member [OF assms(1) j(2)] y(1) by (auto simp: r_assigned_def)
      then have ok: "?ok r j" using y(2) j(1) by blast
      have "r_tree r' j \<noteq> []" using j(2) by auto
      then show ?thesis
        using ok run_step_ended [OF assms(1), of i] final_status_step [OF assms(1,2) y(1)] by (cases "j = i") auto
    qed
    then show ?thesis using evolvesD(1) [OF ev y(1)] by blast
  qed simp
  moreover have "x = InvalidTransactionId \<or> r_assigned b r' x \<and> st = r_status r' x \<and>
      (st = TRANSACTION_STATUS_COMMITTED \<or> st = TRANSACTION_STATUS_ABORTED)"
  proof (cases "x = InvalidTransactionId")
    case False
    then have x: "r_assigned b r x" "st = r_status r x" "st = TRANSACTION_STATUS_COMMITTED \<or> st = TRANSACTION_STATUS_ABORTED"
      using assms(3) by (auto simp: memo_ok_def Let_def cache)
    then show ?thesis using final_status_step [OF assms(1,2) x(1)] evolvesD(1) [OF ev x(1)] by simp
  qed simp
  ultimately show ?thesis by (simp add: memo_ok_def Let_def cache)
qed

lemma memo_ok_steps:
  assumes "(run_step b n)\<^sup>*\<^sup>* r r'" "run_inv b n r" "\<forall>j<n. r_tree r' j \<noteq> [] \<longrightarrow> F' j = F j" "memo_ok b n F r i se"
  shows "memo_ok b n F' r' i se"
proof -
  have "memo_ok b n F r' i se"
    using assms(1,2,4)
  proof (induction rule: rtranclp_induct)
    case (step r1 r2)
    have "run_inv b n r1" using run_steps_inv step.hyps(1) step.prems(1) .
    then show ?case using memo_ok_step [OF step.hyps(2)] step.IH step.prems by blast
  qed
  then show ?thesis using assms(3) by (fastforce simp: memo_ok_def Let_def split: prod.splits)
qed

lemma xmin_ok_steps:
  assumes "(run_step b n)\<^sup>*\<^sup>* r r'" "run_inv b n r" "room b r'" "\<forall>j<n. r_tree r' j \<noteq> [] \<longrightarrow> F' j = F j"
    and "xmin_ok b n F r i p se"
  shows "xmin_ok b n F' r' i p se"
proof -
  have "lower b n F r i y \<Longrightarrow> lower b n F' r' i y" for y
    using lower_flags [OF lower_steps [OF assms(1-3)] assms(4)] .
  then show ?thesis using assms(5) unfolding xmin_ok_def Let_def by blast
qed

lemma snap_current_grows:
  assumes "grows b r r'" "(run_step b n)\<^sup>*\<^sup>* r r'" "run_inv b n r" "room b r'" "\<forall>j<n. r_tree r' j \<noteq> [] \<longrightarrow> F' j = F j"
    and "snap_current b n F r i s"
  shows "snap_current b n F' r' i s"
proof -
  have rm: "room b r" using run_steps_room [OF assms(2-4)] .
  have "snap_holds b n (\<lambda>j. j = i \<or> F j) r (snap_xmin s) (snap_xmax s) (set (snap_xip s)) (set (snap_subxip s)) (snap_suboverflowed s)"
    using assms(6) by (simp add: snap_current_def)
  from snap_holds_grows [OF assms(1,3) rm this]
  have "snap_holds b n (\<lambda>j. j = i \<or> F' j) r' (snap_xmin s) (snap_xmax s) (set (snap_xip s)) (set (snap_subxip s)) (snap_suboverflowed s)"
    by (rule snap_holds_hide) (use assms(5) in auto)
  moreover have "lower b n F' r' i (snap_xmin s)"
    using lower_flags [OF lower_steps [OF assms(2-4)] assms(5)] assms(6) by (simp add: snap_current_def)
  moreover have "snap_xmin s = snap_xmax s \<or> (\<exists>j<n. (j = i \<or> \<not> F' j) \<and> r_tree r' j \<noteq> [] \<and> snap_xmin s = hd (r_tree r' j))"
  proof (cases "snap_xmin s = snap_xmax s")
    case False
    then obtain j where j: "j < n" "j = i \<or> \<not> F j" "r_tree r j \<noteq> []" "snap_xmin s = hd (r_tree r j)"
      using assms(6) unfolding snap_current_def by blast
    obtain zs where "r_tree r' j = r_tree r j @ zs" using assms(1) by (auto simp: grows_def)
    then have "r_tree r' j \<noteq> []" "hd (r_tree r' j) = hd (r_tree r j)" using j(3) by auto
    then show ?thesis using j assms(5) by metis
  qed simp
  ultimately show ?thesis using assms(6) by (simp add: snap_current_def)
qed

lemma static_ok_steps:
  assumes "(run_step b n)\<^sup>*\<^sup>* r r'" "run_inv b n r" "room b r'" "\<forall>j<n. r_tree r' j \<noteq> [] \<longrightarrow> F' j = F j"
    and "completed' = completed \<and> grows b r r' \<or> completed' = completed + 1 \<and> completed + 1 \<noteq> 0"
    and "static_ok b n F completed r i se"
  shows "static_ok b n F' completed' r' i se"
  using assms(5)
proof
  assume "completed' = completed \<and> grows b r r'"
  then show ?thesis using assms(6) snap_current_grows [OF _ assms(1-4)] by (auto simp: static_ok_def Let_def)
next
  assume c: "completed' = completed + 1 \<and> completed + 1 \<noteq> 0"
  then have "completed < completed'" using inc_less_eq_triv_imp [of completed] by (auto simp: not_le [symmetric])
  then show ?thesis using assms(6) by (auto simp: static_ok_def Let_def)
qed

section \<open>A step of one backend\<close>

lemma put_simps [simp]:
  "cl_shm (put i se shm c) = shm" "length (cl_sessions (put i se shm c)) = length (cl_sessions c)"
  "i < length (cl_sessions c) \<Longrightarrow> session (put i se shm c) i = se"
  "j \<noteq> i \<Longrightarrow> session (put i se shm c) j = session c j"
  by (simp_all add: put_def)

lemma running_put:
  assumes "i < length (cl_sessions c)"
  shows "running b (put i se shm c) =
    \<lparr>r_tree = (r_tree (running b c))(i := tree_of se),
     r_ended = (r_ended (running b c))(i := se_latestXid se \<noteq> None \<and> tree_of se \<noteq> []),
     r_next = next_of shm, r_latest = latest_of shm,
     r_status = mask_xid b shm (xid_status (shm_clog shm)), r_parent = mask_xid b shm (parent_of (shm_subtrans shm))\<rparr>"
  using assms by (auto simp: running_def put_def fun_eq_iff nth_list_update)

lemma running_simps [simp]:
  "r_next (running b c) = next_of (cl_shm c)" "r_latest (running b c) = latest_of (cl_shm c)"
  "i < length (cl_sessions c) \<Longrightarrow> r_tree (running b c) i = tree_of (session c i)"
  "i < length (cl_sessions c) \<Longrightarrow> r_ended (running b c) i \<longleftrightarrow> se_latestXid (session c i) \<noteq> None \<and> tree_of (session c i) \<noteq> []"
  by (simp_all add: running_def)

lemma shm_ok_room: "shm_ok B (cl_shm c) \<Longrightarrow> room (XidFromFullTransactionId B) (running (XidFromFullTransactionId B) c)"
  by (auto simp: shm_ok_def room_def Let_def)

text \<open>What is shown of every step: it keeps the invariant, and the abstract running set follows it.\<close>

definition simulated :: "FullTransactionId \<Rightarrow> Cluster \<Rightarrow> Cluster \<Rightarrow> bool" where
  "simulated B c c' \<longleftrightarrow> cluster_inv B c' \<and> length (cl_sessions c') = length (cl_sessions c) \<and>
     (run_step (XidFromFullTransactionId B) (length (cl_sessions c)))\<^sup>*\<^sup>*
       (running (XidFromFullTransactionId B) c) (running (XidFromFullTransactionId B) c')"

lemma cluster_inv_put:
  fixes B :: FullTransactionId
  defines "b \<equiv> XidFromFullTransactionId B"
  assumes inv: "cluster_inv B c" and i: "i < length (cl_sessions c)"
    and c': "c' = put i se shm c" and n: "n = length (cl_sessions c)"
    and procs: "length (procArray shm) = length (procArray (cl_shm c))"
      "\<And>j. j \<noteq> i \<Longrightarrow> procArray shm ! j = procArray (cl_shm c) ! j"
    and shm: "shm_ok B shm"
    and run: "(run_step b n)\<^sup>*\<^sup>* (running b c) (running b c')"
    and flag: "tree_of se \<noteq> [] \<Longrightarrow> flagged (procArray shm ! i) = flags c i"
    and completed: "xactCompletionCount shm = xactCompletionCount (cl_shm c) \<and> grows b (running b c) (running b c') \<or>
      xactCompletionCount shm = xactCompletionCount (cl_shm c) + 1 \<and> xactCompletionCount (cl_shm c) + 1 \<noteq> 0"
    and se: "session_ok shm i se" "xmin_ok b n (flags c') (running b c') i (procArray shm ! i) se"
      "memo_ok b n (flags c') (running b c') i se" "static_ok b n (flags c') (xactCompletionCount shm) (running b c') i se"
  shows "simulated B c c'"
proof -
  have old: "length (procArray (cl_shm c)) = n" "run_inv b n (running b c)"
    "\<And>j. j < n \<Longrightarrow> session_ok (cl_shm c) j (session c j)"
    "\<And>j. j < n \<Longrightarrow> xmin_ok b n (flags c) (running b c) j (procArray (cl_shm c) ! j) (session c j)"
    "\<And>j. j < n \<Longrightarrow> memo_ok b n (flags c) (running b c) j (session c j)"
    "\<And>j. j < n \<Longrightarrow> static_ok b n (flags c) (xactCompletionCount (cl_shm c)) (running b c) j (session c j)"
    using inv by (simp_all add: cluster_inv_def Let_def b_def n)
  have n': "length (cl_sessions c') = n" and shm': "cl_shm c' = shm" by (simp_all add: c' n)
  have rm: "room b (running b c')" using shm_ok_room [of B c'] shm by (simp add: b_def shm')
  have flag': "\<forall>j<n. r_tree (running b c') j \<noteq> [] \<longrightarrow> flags c' j = flags c j"
  proof (intro allI impI)
    fix j assume "j < n" "r_tree (running b c') j \<noteq> []"
    then show "flags c' j = flags c j" using flag procs(2) [of j] i by (cases "j = i") (simp_all add: c' n)
  qed
  have "session_ok shm j (session c' j) \<and> xmin_ok b n (flags c') (running b c') j (procArray shm ! j) (session c' j) \<and>
      memo_ok b n (flags c') (running b c') j (session c' j) \<and>
      static_ok b n (flags c') (xactCompletionCount shm) (running b c') j (session c' j)" if j: "j < n" for j
  proof (cases "j = i")
    case True
    then show ?thesis using se i by (simp add: c')
  next
    case False
    have eq: "session c' j = session c j" "procArray shm ! j = procArray (cl_shm c) ! j" using False procs(2) by (simp_all add: c')
    have "session_ok shm j (session c j)" using old(3) [OF j] by (simp add: session_ok_def eq(2) Let_def)
    moreover have "xmin_ok b n (flags c') (running b c') j (procArray shm ! j) (session c j)"
      unfolding eq(2) by (rule xmin_ok_steps [OF run old(2) rm flag' old(4) [OF j]])
    moreover have "memo_ok b n (flags c') (running b c') j (session c j)" by (rule memo_ok_steps [OF run old(2) flag' old(5) [OF j]])
    moreover have "static_ok b n (flags c') (xactCompletionCount shm) (running b c') j (session c j)"
      by (rule static_ok_steps [OF run old(2) rm flag' completed old(6) [OF j]])
    ultimately show ?thesis by (simp add: eq(1))
  qed
  then have "cluster_inv B c'"
    using procs(1) old(1) shm run_steps_inv [OF run old(2)] unfolding cluster_inv_def Let_def b_def [symmetric] n' shm' by simp
  then show ?thesis using run n' unfolding simulated_def b_def n by simp
qed

text \<open>The invariant of one backend, and the shared parts, taken out of the invariant of the cluster.\<close>

lemma cluster_invD:
  assumes "cluster_inv B c" "b = XidFromFullTransactionId B" "n = length (cl_sessions c)"
  shows "length (procArray (cl_shm c)) = n" "shm_ok B (cl_shm c)" "run_inv b n (running b c)" "room b (running b c)"
    and "i < n \<Longrightarrow> session_ok (cl_shm c) i (session c i)"
    and "i < n \<Longrightarrow> xmin_ok b n (flags c) (running b c) i (procArray (cl_shm c) ! i) (session c i)"
    and "i < n \<Longrightarrow> memo_ok b n (flags c) (running b c) i (session c i)"
    and "i < n \<Longrightarrow> static_ok b n (flags c) (xactCompletionCount (cl_shm c)) (running b c) i (session c i)"
  using assms shm_ok_room [of B c] by (simp_all add: cluster_inv_def Let_def)

section \<open>Steps that only touch a backend's own memory\<close>

lemma running_put_same:
  assumes "i < length (cl_sessions c)" "tree_of se = tree_of (session c i)"
    and "tree_of se = [] \<or> (se_latestXid se = None) = (se_latestXid (session c i) = None)"
    and "nextXid shm = nextXid (cl_shm c)" "latestCompletedXid shm = latestCompletedXid (cl_shm c)"
      "shm_clog shm = shm_clog (cl_shm c)" "shm_subtrans shm = shm_subtrans (cl_shm c)"
  shows "running b (put i se shm c) = running b c"
proof -
  have e: "(se_latestXid se \<noteq> None \<and> tree_of se \<noteq> []) = r_ended (running b c) i" "tree_of se = r_tree (running b c) i"
    using assms(1-3) by auto
  have m: "mask_xid b shm (xid_status (shm_clog shm)) = r_status (running b c)"
    "mask_xid b shm (parent_of (shm_subtrans shm)) = r_parent (running b c)"
    using assms(4,6,7) by (simp_all add: running_def mask_xid_def [abs_def])
  show ?thesis
    unfolding running_put [OF assms(1)] e(1) unfolding e(2) m fun_upd_triv assms(4,5) by (intro Running.equality) simp_all
qed

lemma local_step:
  assumes inv: "cluster_inv B c" and i: "i < length (cl_sessions c)"
    and same: "tree_of se = tree_of (session c i)" "se_latestXid se = se_latestXid (session c i)"
    and se: "session_ok (cl_shm c) i se"
      "xmin_ok (XidFromFullTransactionId B) (length (cl_sessions c)) (flags c) (running (XidFromFullTransactionId B) c) i (procArray (cl_shm c) ! i) se"
      "memo_ok (XidFromFullTransactionId B) (length (cl_sessions c)) (flags c) (running (XidFromFullTransactionId B) c) i se"
      "static_ok (XidFromFullTransactionId B) (length (cl_sessions c)) (flags c) (xactCompletionCount (cl_shm c)) (running (XidFromFullTransactionId B) c) i se"
  shows "simulated B c (put i se (cl_shm c) c)"
proof -
  have r: "running b (put i se (cl_shm c) c) = running b c" for b by (rule running_put_same [OF i same(1)]) (simp_all add: same(2))
  show ?thesis
    by (rule cluster_inv_put [OF inv i refl refl]) (use cluster_invD(2) [OF inv refl refl] se in \<open>simp_all add: r grows_refl\<close>)
qed

text \<open>What a backend's invariant reads of its own memory.\<close>

lemma session_okD:
  assumes "session_ok shm i se"
  shows "pgxactoff (se_be se) = i" "ParallelCurrentXids (se_be se) = []" "xact_stack (se_be se) \<noteq> []"
    and "frames_ok (xact_stack (se_be se))" "proc_xid (procArray shm ! i) = first_xid (tree_of se)"
    and "XidFromFullTransactionId (XactTopFullTransactionId (se_be se)) = first_xid (tree_of se)"
    and "distinct (proc_subxids (procArray shm ! i))" "set (proc_subxids (procArray shm ! i)) \<subseteq> set (tl (tree_of se))"
    and "\<not> proc_overflowed (procArray shm ! i) \<Longrightarrow> set (proc_subxids (procArray shm ! i)) = set (tl (tree_of se))"
    and "tree_of se = [] \<Longrightarrow> \<not> proc_overflowed (procArray shm ! i)"
    and "se_latestXid se = None \<Longrightarrow> s \<in> set (xact_stack (se_be se)) \<Longrightarrow> \<not> xs_abort s"
    and "se_latestXid se = Some latest \<Longrightarrow> length (xact_stack (se_be se)) = 1 \<and> latest = last_xid (tree_of se)"
  using assms by (simp_all add: session_ok_def Let_def)

lemma session_ok_cong:
  assumes "session_ok shm i se" "xact_stack (se_be se') = xact_stack (se_be se)" "pgxactoff (se_be se') = pgxactoff (se_be se)"
    and "ParallelCurrentXids (se_be se') = ParallelCurrentXids (se_be se)"
    and "XactTopFullTransactionId (se_be se') = XactTopFullTransactionId (se_be se)" "se_latestXid se' = se_latestXid se"
  shows "session_ok shm i se'" "tree_of se' = tree_of se"
  using assms by (cases "se_latestXid se"; simp add: session_ok_def tree_of_def Let_def)+

lemma session_ok_stack:
  assumes "session_ok shm i se" "se_be se' = (se_be se)\<lparr>xact_stack := st\<rparr>" "se_latestXid se' = se_latestXid se"
    and "st \<noteq> []" "frames_ok st" "chron st = chron (xact_stack (se_be se))"
    and "se_latestXid se = None" "\<forall>s\<in>set st. \<not> xs_abort s"
  shows "session_ok shm i se'" "tree_of se' = tree_of se"
  using assms by (simp_all add: session_ok_def tree_of_def Let_def)

lemma xmin_ok_cong:
  "xmin_ok b n F r i p se \<Longrightarrow> be_TransactionXmin (se_be se') = be_TransactionXmin (se_be se) \<Longrightarrow>
   RecentXmin (se_be se') = RecentXmin (se_be se) \<Longrightarrow> se_held se' = se_held se \<Longrightarrow> xmin_ok b n F r i p se'"
  by (simp add: xmin_ok_def Let_def)

lemma memo_ok_cong:
  "memo_ok b n F r i se \<Longrightarrow> cachedXidIsNotInProgress (se_be se') = cachedXidIsNotInProgress (se_be se) \<Longrightarrow>
   be_fetch_cache (se_be se') = be_fetch_cache (se_be se) \<Longrightarrow> memo_ok b n F r i se'"
  by (simp only: memo_ok_def Let_def)

lemma static_ok_cong: "static_ok b n F k r i se \<Longrightarrow> se_current se' = se_current se \<Longrightarrow> static_ok b n F k r i se'"
  by (auto simp: static_ok_def Let_def)

lemma stack_step:
  assumes inv: "cluster_inv B c" and i: "i < length (cl_sessions c)" and se: "session c i = se" "se_latestXid se = None"
    and st: "st \<noteq> []" "frames_ok st" "chron st = chron (xact_stack (se_be se))" "\<forall>s\<in>set st. \<not> xs_abort s"
  shows "simulated B c (put i (se\<lparr>se_be := (se_be se)\<lparr>xact_stack := st\<rparr>\<rparr>) (cl_shm c) c)"
proof -
  note old = cluster_invD [OF inv refl refl]
  let ?se = "se\<lparr>se_be := (se_be se)\<lparr>xact_stack := st\<rparr>\<rparr>"
  have ok: "session_ok (cl_shm c) i ?se" "tree_of ?se = tree_of se"
    using session_ok_stack [of "cl_shm c" i se ?se st] old(5) [OF i] se st by simp_all
  show ?thesis
    by (rule local_step [OF inv i])
      (use ok se xmin_ok_cong [OF old(6) [OF i]] memo_ok_cong [OF old(7) [OF i]] static_ok_cong [OF old(8) [OF i]] in simp_all)
qed

lemma begin_sub_inv:
  assumes "cluster_inv B c" "i < length (cl_sessions c)" "session c i = se" "se_latestXid se = None"
  shows "simulated B c (put i (se\<lparr>se_be := (se_be se)\<lparr>xact_stack := fresh_xact # xact_stack (se_be se)\<rparr>\<rparr>) (cl_shm c) c)"
  using cluster_invD(5) [OF assms(1) refl refl assms(2)] assms(3,4)
  by (intro stack_step [OF assms]) (simp_all add: session_ok_def Let_def fresh_xact_def InvalidFullTransactionId_def xid_defs)

lemma commit_sub_inv:
  assumes "cluster_inv B c" "i < length (cl_sessions c)" "session c i = se" "se_latestXid se = None"
    and "1 < length (xact_stack (se_be se))" "commit_sub_xids (se_be se) = Inr be"
  shows "simulated B c (put i (se\<lparr>se_be := be\<rparr>) (cl_shm c) c)"
proof -
  obtain s q rest where st: "xact_stack (se_be se) = s # q # rest"
    using assms(5) by (cases "xact_stack (se_be se)" rule: list.exhaust) (auto simp: less_Suc_eq_0_disj neq_Nil_conv Suc_lessI length_Suc_conv)
  have ok: "frames_ok (s # q # rest)" "\<forall>s\<in>set (s # q # rest). \<not> xs_abort s"
    using session_okD(4,11) [OF cluster_invD(5) [OF assms(1) refl refl assms(2)]] assms(3,4) st by metis+
  show ?thesis
  proof (cases "FullTransactionIdIsValid (fullTransactionId s)")
    case True
    let ?q = "q\<lparr>childXids := childXids q @ xs_xid s # childXids s\<rparr>"
    have "be = (se_be se)\<lparr>xact_stack := ?q # rest\<rparr>"
      using assms(6) True by (auto simp: commit_sub_xids_def st split: if_splits)
    moreover have "chron (?q # rest) = chron (s # q # rest)" using True ok(1) by (simp add: xs_xid_def)
    moreover have "frames_ok (?q # rest)" using True ok(1) by simp
    ultimately show ?thesis using stack_step [OF assms(1-4), of "?q # rest"] ok(2) st by simp
  next
    case False
    then have "be = (se_be se)\<lparr>xact_stack := q # rest\<rparr>" using assms(6) by (simp add: commit_sub_xids_def st)
    then show ?thesis using stack_step [OF assms(1-4), of "q # rest"] ok False st by simp
  qed
qed

lemma horizons_inv:
  assumes "cluster_inv B c" "i < length (cl_sessions c)" "session c i = se"
  shows "simulated B c (put i (se\<lparr>se_be := snd (ComputeXidHorizons (se_be se) (cl_shm c))\<rparr>) (cl_shm c) c)"
proof -
  note old = cluster_invD [OF assms(1) refl refl]
  let ?be = "snd (ComputeXidHorizons (se_be se) (cl_shm c))" and ?old = "se_be se"
  have eq: "xact_stack ?be = xact_stack ?old" "pgxactoff ?be = pgxactoff ?old" "ParallelCurrentXids ?be = ParallelCurrentXids ?old"
    "XactTopFullTransactionId ?be = XactTopFullTransactionId ?old" "be_TransactionXmin ?be = be_TransactionXmin ?old"
    "RecentXmin ?be = RecentXmin ?old" "cachedXidIsNotInProgress ?be = cachedXidIsNotInProgress ?old"
    "be_fetch_cache ?be = be_fetch_cache ?old"
    by (simp_all add: ComputeXidHorizons_def GlobalVisUpdateApply_def Let_def)
  have "session_ok (cl_shm c) i (se\<lparr>se_be := ?be\<rparr>)" "tree_of (se\<lparr>se_be := ?be\<rparr>) = tree_of se"
    using session_ok_cong [OF old(5) [OF assms(2)], of "se\<lparr>se_be := ?be\<rparr>"] assms(3) by (simp_all add: eq)
  then show ?thesis
    by (intro local_step [OF assms(1,2)])
      (use assms(3) eq xmin_ok_cong [OF old(6) [OF assms(2)]] memo_ok_cong [OF old(7) [OF assms(2)]] static_ok_cong [OF old(8) [OF assms(2)]] in simp_all)
qed

end
