(* ===== verification/ClusterXids.thy ===== *)
theory ClusterXids
  imports ClusterInv
begin

text \<open>
  The steps that change the running set: recording an outcome in the commit log, leaving the running
  set, aborting a subtransaction, and assigning ids.
\<close>

section \<open>Shared memory\<close>

lemma shm_ok_other [simp]:
  "shm_ok B (shm\<lparr>procArray := ps\<rparr>) = shm_ok B shm" "shm_ok B (shm\<lparr>latestCompletedXid := f\<rparr>) = shm_ok B shm"
  "shm_ok B (shm\<lparr>xactCompletionCount := k\<rparr>) = shm_ok B shm" "shm_ok B (set_proc i p shm) = shm_ok B shm"
  by (simp_all add: shm_ok_def set_proc_def Let_def)

lemma set_proc_simps [simp]:
  "nextXid (set_proc i p shm) = nextXid shm" "latestCompletedXid (set_proc i p shm) = latestCompletedXid shm"
  "shm_clog (set_proc i p shm) = shm_clog shm" "shm_subtrans (set_proc i p shm) = shm_subtrans shm"
  "xactCompletionCount (set_proc i p shm) = xactCompletionCount shm"
  "length (procArray (set_proc i p shm)) = length (procArray shm)"
  "i < length (procArray shm) \<Longrightarrow> procArray (set_proc i p shm) ! i = p"
  "j \<noteq> i \<Longrightarrow> procArray (set_proc i p shm) ! j = procArray shm ! j"
  by (simp_all add: set_proc_def)

lemma shm_ok_clog:
  assumes "shm_ok B shm" "\<And>y. log_has log y \<longleftrightarrow> log_has (shm_clog shm) y"
    and "\<And>y. xoff (XidFromFullTransactionId B) (next_of shm) \<le> xoff (XidFromFullTransactionId B) y \<Longrightarrow>
      xid_status log y = xid_status (shm_clog shm) y"
  shows "shm_ok B (shm\<lparr>shm_clog := log\<rparr>)"
  using assms unfolding shm_ok_def Let_def by simp

lemma shm_ok_logs:
  assumes "shm_ok B shm" "in_window (XidFromFullTransactionId B) x"
    "xoff (XidFromFullTransactionId B) x < xoff (XidFromFullTransactionId B) (next_of shm)"
  shows "log_has (shm_clog shm) x" "sub_has (shm_subtrans shm) x"
  using assms by (auto simp: shm_ok_def Let_def)

lemma ucast_64_32_add: "(ucast (v + w :: uint64) :: uint32) = ucast v + ucast w"
proof -
  have "(ucast (v + w) :: uint32) = word_of_int (uint (v + w))" by (rule ucast_eq)
  also have "uint (v + w) = (uint v + uint w) mod 18446744073709551616"
    by (simp add: uint_word_arith_bintrs(1) take_bit_eq_mod)
  also have "(word_of_int \<dots> :: uint32) = word_of_int (uint v + uint w)" by (rule word32_of_int_mod_64)
  also have "\<dots> = ucast v + ucast w" by simp
  finally show ?thesis .
qed

lemma FullXidRelativeTo_xid [simp]: "XidFromFullTransactionId (FullXidRelativeTo f x) = x"
proof -
  have "(ucast (scast w :: uint64) :: uint32) = w" for w :: uint32
    by (rule bit_word_eqI) (simp add: bit_ucast_iff bit_signed_iff)
  then have "(ucast (fxid_value f + scast (x - XidFromFullTransactionId f)) :: uint32) = ucast (fxid_value f) + (x - XidFromFullTransactionId f)"
    by (simp add: ucast_64_32_add)
  then show ?thesis by (simp add: FullXidRelativeTo_def Let_def XidFromFullTransactionId_def FullTransactionIdFromU64_def)
qed

lemma MaintainLatest:
  assumes "in_window b (latest_of shm)" "in_window b x"
  shows "latest_of (MaintainLatestCompletedXid x shm) = later b (latest_of shm) x"
    and "\<exists>f. MaintainLatestCompletedXid x shm = shm\<lparr>latestCompletedXid := f\<rparr>"
proof -
  show "latest_of (MaintainLatestCompletedXid x shm) = later b (latest_of shm) x"
    using prec_window(1) [OF assms] by (simp add: MaintainLatestCompletedXid_def Let_def later_def)
  show "\<exists>f. MaintainLatestCompletedXid x shm = shm\<lparr>latestCompletedXid := f\<rparr>"
    by (cases "TransactionIdPrecedes (latest_of shm) x")
      (auto simp: MaintainLatestCompletedXid_def Let_def intro: exI [of _ "latestCompletedXid shm"])
qed

lemma latest_last:
  assumes "sorted_wrt (\<lambda>x y. xoff b x < xoff b y) (x # xs)" "\<forall>y\<in>set (x # xs). in_window b y"
  shows "TransactionIdLatest x xs = last (x # xs)"
proof -
  have l: "TransactionIdLatest x xs \<in> set (x # xs)"
    "\<And>y. y \<in> set (x # xs) \<Longrightarrow> xoff b y \<le> xoff b (TransactionIdLatest x xs)"
    using latest_window [of b x xs] assms(2) by auto
  have "last (x # xs) \<in> set (x # xs)" by (rule last_in_set) simp
  then have "xoff b (last (x # xs)) \<le> xoff b (TransactionIdLatest x xs)" by (rule l(2))
  moreover have "xoff b (TransactionIdLatest x xs) \<le> xoff b (last (x # xs))" by (rule sorted_last [OF assms(1) l(1)])
  ultimately show ?thesis using xoff_inj by (metis le_antisym)
qed

section \<open>Stacks\<close>

lemma valid_xid: "FullTransactionIdIsValid f \<longleftrightarrow> TransactionIdIsValid (XidFromFullTransactionId f)"
  by (simp add: FullTransactionIdIsValid_def)

lemma first_last_xid [simp]:
  "first_xid (x # t) = x" "first_xid [] = InvalidTransactionId" "last_xid (x # t) = last (x # t)" "last_xid [] = InvalidTransactionId"
  by (simp_all add: first_xid_def last_xid_def)

lemma first_append: "u \<noteq> [] \<Longrightarrow> first_xid (u @ v) = first_xid u" "u \<noteq> [] \<Longrightarrow> tl (u @ v) = tl u @ v"
  by (cases u; simp)+

lemma tree_facts:
  assumes "cluster_inv B c" "i < length (cl_sessions c)" "b = XidFromFullTransactionId B"
  shows "sorted_wrt (\<lambda>x y. xoff b x < xoff b y) (tree_of (session c i))"
    and "x \<in> set (tree_of (session c i)) \<Longrightarrow> in_window b x \<and> xoff b x < xoff b (next_of (cl_shm c))"
    and "x \<in> set (tree_of (session c i)) \<Longrightarrow> TransactionIdIsValid x"
    and "x \<in> set (tree_of (session c i)) \<Longrightarrow> log_has (shm_clog (cl_shm c)) x"
    and "x \<in> set (tree_of (session c i)) \<Longrightarrow> se_latestXid (session c i) = None \<Longrightarrow>
      xid_status (shm_clog (cl_shm c)) x = TRANSACTION_STATUS_IN_PROGRESS"
proof -
  have ti: "tree_inv b (running b c) i" using run_inv_tree [OF cluster_invD(3) [OF assms(1,3) refl] assms(2)] .
  then show "sorted_wrt (\<lambda>x y. xoff b x < xoff b y) (tree_of (session c i))"
    using assms(2) by (simp add: tree_inv_def)
  show w: "in_window b x \<and> xoff b x < xoff b (next_of (cl_shm c))" if "x \<in> set (tree_of (session c i))" for x
    using ti that assms(2) by (simp add: tree_inv_def r_assigned_def)
  show "TransactionIdIsValid x" "log_has (shm_clog (cl_shm c)) x" if "x \<in> set (tree_of (session c i))"
    using w [OF that] window_valid(1) shm_ok_logs(1) [OF cluster_invD(2) [OF assms(1,3) refl]] assms(3) by auto
  show "xid_status (shm_clog (cl_shm c)) x = TRANSACTION_STATUS_IN_PROGRESS"
    if x: "x \<in> set (tree_of (session c i))" "se_latestXid (session c i) = None"
  proof -
    have "r_status (running b c) x = TRANSACTION_STATUS_IN_PROGRESS" using ti x assms(2) by (simp add: tree_inv_def)
    then show ?thesis using w [OF x(1)] by (simp add: running_def mask_xid_def)
  qed
qed

text \<open>
  A step of one backend that leaves its horizons and memos as they are, or drops its horizon together
  with its snapshots, keeps the invariant once the running set has made a step.
\<close>

definition same_memory :: "Session \<Rightarrow> Session \<Rightarrow> bool" where
  "same_memory se se' \<longleftrightarrow>
     be_TransactionXmin (se_be se') = be_TransactionXmin (se_be se) \<and> RecentXmin (se_be se') = RecentXmin (se_be se) \<and>
     cachedXidIsNotInProgress (se_be se') = cachedXidIsNotInProgress (se_be se) \<and>
     be_fetch_cache (se_be se') = be_fetch_cache (se_be se) \<and> se_current se' = se_current se"

lemma quiet_step:
  fixes B :: FullTransactionId
  defines "b \<equiv> XidFromFullTransactionId B"
  assumes inv: "cluster_inv B c" and i: "i < length (cl_sessions c)" and shm: "shm_ok B shm"
    and procs: "length (procArray shm) = length (procArray (cl_shm c))"
      "\<And>j. j \<noteq> i \<Longrightarrow> procArray shm ! j = procArray (cl_shm c) ! j"
    and flag: "tree_of se \<noteq> [] \<Longrightarrow> flagged (procArray shm ! i) = flags c i"
    and step: "run_step b (length (cl_sessions c)) (running b c) (running b (put i se shm c))"
    and count: "xactCompletionCount shm = xactCompletionCount (cl_shm c) \<and> grows b (running b c) (running b (put i se shm c)) \<or>
      xactCompletionCount shm = xactCompletionCount (cl_shm c) + 1 \<and> xactCompletionCount (cl_shm c) + 1 \<noteq> 0"
    and ok: "session_ok shm i se" and mem: "same_memory (session c i) se"
    and xmin: "proc_xmin (procArray shm ! i) = proc_xmin (procArray (cl_shm c) ! i) \<and> se_held se = se_held (session c i) \<or>
      proc_xmin (procArray shm ! i) = InvalidTransactionId \<and> se_held se = []"
  shows "simulated B c (put i se shm c)"
proof -
  define n where "n = length (cl_sessions c)"
  let ?c = "put i se shm c"
  note old = cluster_invD [OF inv b_def [THEN meta_eq_to_obj_eq] n_def]
  have i': "i < n" using i by (simp add: n_def)
  note steps = r_into_rtranclp [of "run_step b n", OF step [folded n_def]]
  have rm: "room b (running b ?c)" using shm_ok_room [of B ?c] shm by (simp add: b_def)
  have flag': "\<forall>j<n. r_tree (running b ?c) j \<noteq> [] \<longrightarrow> flags ?c j = flags c j"
  proof (intro allI impI)
    fix j assume "j < n" "r_tree (running b ?c) j \<noteq> []"
    then show "flags ?c j = flags c j" using procs(2) flag i by (cases "j = i") (simp_all add: n_def)
  qed
  have "xmin_ok b n (flags ?c) (running b ?c) i (procArray (cl_shm c) ! i) (session c i)"
    by (rule xmin_ok_steps [OF steps old(3) rm flag' old(6) [OF i']])
  then have xmin': "xmin_ok b n (flags ?c) (running b ?c) i (procArray shm ! i) se"
    using xmin mem by (auto simp: xmin_ok_def same_memory_def Let_def)
  show ?thesis
  proof (rule cluster_inv_put [OF inv i refl n_def, folded b_def])
    show "memo_ok b n (flags ?c) (running b ?c) i se"
      by (rule memo_ok_cong [OF memo_ok_steps [OF steps old(3) flag' old(7) [OF i']]]) (use mem in \<open>simp_all add: same_memory_def\<close>)
    show "static_ok b n (flags ?c) (xactCompletionCount shm) (running b ?c) i se"
      by (rule static_ok_cong [OF static_ok_steps [OF steps old(3) rm flag' count old(8) [OF i']]]) (use mem in \<open>simp add: same_memory_def\<close>)
  qed (use procs shm flag steps count ok xmin' in auto)
qed

section \<open>Recording an outcome\<close>

lemma record_outcome:
  assumes inv: "cluster_inv B c" and i: "i < length (cl_sessions c)" and se: "session c i = se" "se_latestXid se = None"
    and t: "tree_of se \<noteq> []" and st: "st = TRANSACTION_STATUS_COMMITTED \<or> st = TRANSACTION_STATUS_ABORTED"
    and log: "\<And>y. log_has log y \<longleftrightarrow> log_has (shm_clog (cl_shm c)) y"
      "\<And>y. xid_status log y = (if y \<in> set (tree_of se) then st else xid_status (shm_clog (cl_shm c)) y)"
    and se': "se_latestXid se' = Some (last (tree_of se))" "length stack = 1" "frames_ok stack" "chron stack = tree_of se"
      "se_be se' = (se_be se)\<lparr>xact_stack := stack\<rparr>" "se_held se' = se_held se" "se_current se' = se_current se"
  shows "simulated B c (put i se' ((cl_shm c)\<lparr>shm_clog := log\<rparr>) c)"
proof -
  define b n where "b = XidFromFullTransactionId B" and "n = length (cl_sessions c)"
  let ?shm = "(cl_shm c)\<lparr>shm_clog := log\<rparr>" and ?r = "running b c"
  let ?c = "put i se' ?shm c"
  note old = cluster_invD [OF inv b_def n_def]
  note tf = tree_facts [OF inv i b_def, unfolded se(1)]
  have tree: "tree_of se' = tree_of se" using se'(4,5) by (simp add: tree_of_def)
  have r: "running b ?c = ?r\<lparr>r_ended := (r_ended ?r)(i := True),
      r_status := (\<lambda>x. if x \<in> set (r_tree ?r i) then st else r_status ?r x)\<rparr>"
  proof -
    have "mask_xid b ?shm (xid_status log) x = (if x \<in> set (tree_of se) then st else r_status ?r x)" for x
      using tf(2) [of x] log(2) by (auto simp: mask_xid_def running_def)
    then show ?thesis
      using i se tree t se'(1) unfolding running_put [OF i] by (intro Running.equality) (auto simp: fun_eq_iff running_def mask_xid_def)
  qed
  have run: "run_step b n ?r (running b ?c)"
    unfolding r by (rule run_record) (use i t se st in \<open>simp_all add: n_def\<close>)
  have grow: "grows b ?r (running b ?c)" unfolding r by (simp add: grows_def)
  have so: "session_ok ?shm i se'"
    using session_okD [OF cluster_invD(5) [OF inv refl refl i]] se se' t tree
    by (cases "tree_of se") (auto simp: session_ok_def Let_def last_xid_def)
  have "shm_ok B ?shm"
    by (rule shm_ok_clog [OF old(2)]) (use log tf(2) in \<open>fastforce simp: b_def\<close>)+
  then show ?thesis
    using quiet_step [OF inv i, of ?shm se'] run grow so se se' by (simp add: b_def n_def same_memory_def)
qed

text \<open>A transaction without an id has no outcome to record.\<close>

lemma record_nothing:
  assumes inv: "cluster_inv B c" and i: "i < length (cl_sessions c)" and se: "session c i = se"
    and t: "tree_of se = []" and se': "se_latestXid se' = Some InvalidTransactionId" "length stack = 1" "frames_ok stack" "chron stack = []"
      "se_be se' = (se_be se)\<lparr>xact_stack := stack\<rparr>" "se_held se' = se_held se" "se_current se' = se_current se"
  shows "simulated B c (put i se' (cl_shm c) c)"
proof -
  note old = cluster_invD [OF inv refl refl]
  have tree: "tree_of se' = []" using se' by (simp add: tree_of_def)
  have r: "running b (put i se' (cl_shm c) c) = running b c" for b
    by (rule running_put_same [OF i]) (simp_all add: tree t se)
  have so: "session_ok (cl_shm c) i se'"
    using session_okD [OF old(5) [OF i]] se se' t tree by (auto simp: session_ok_def Let_def)
  show ?thesis
    by (rule cluster_inv_put [OF inv i refl refl])
      (use old(2) so se se' xmin_ok_cong [OF old(6) [OF i]] memo_ok_cong [OF old(7) [OF i]] static_ok_cong [OF old(8) [OF i]] in
        \<open>simp_all add: r grows_refl\<close>)
qed

lemma single_stack:
  assumes "session_ok shm i se" "length (xact_stack (se_be se)) = 1"
  obtains s where "xact_stack (se_be se) = [s]"
    "tree_of se = (if TransactionIdIsValid (xs_xid s) then xs_xid s # childXids s else [])"
    "XidFromFullTransactionId (XactTopFullTransactionId (se_be se)) = xs_xid s"
proof -
  obtain s where s: "xact_stack (se_be se) = [s]" using assms(2) by (auto simp: length_Suc_conv)
  have t: "tree_of se = (if TransactionIdIsValid (xs_xid s) then xs_xid s # childXids s else [])"
    by (simp add: tree_of_def s valid_xid xs_xid_def)
  have "XidFromFullTransactionId (XactTopFullTransactionId (se_be se)) = xs_xid s"
    using session_okD(6) [OF assms(1)] t by (auto simp: TransactionIdIsValid_def split: if_splits)
  with s t show ?thesis by (rule that)
qed

lemma record_commit_inv:
  assumes inv: "cluster_inv B c" and i: "i < length (cl_sessions c)" and se: "session c i = se" "se_latestXid se = None"
    and one: "length (xact_stack (se_be se)) = 1"
    and rec: "RecordTransactionCommit sync lsn (se_be se) (cl_shm c) = Inr (latestXid, shm)"
  shows "simulated B c (put i (se\<lparr>se_latestXid := Some latestXid\<rparr>) shm c)"
proof -
  have ok: "session_ok (cl_shm c) i se" using cluster_invD(5) [OF inv refl refl i] se(1) by simp
  obtain s where s: "xact_stack (se_be se) = [s]"
    "tree_of se = (if TransactionIdIsValid (xs_xid s) then xs_xid s # childXids s else [])"
    "XidFromFullTransactionId (XactTopFullTransactionId (se_be se)) = xs_xid s"
    by (rule single_stack [OF ok one])
  show ?thesis
  proof (cases "TransactionIdIsValid (xs_xid s)")
    case False
    then have "latestXid = InvalidTransactionId" "shm = cl_shm c" using rec s by (auto simp: RecordTransactionCommit_def)
    then show ?thesis using record_nothing [OF inv i se(1), of "se\<lparr>se_latestXid := Some latestXid\<rparr>" "[s]"] s False session_okD(4) [OF ok]
      by (simp add: tree_of_def)
  next
    case True
    let ?lsn = "if sync then InvalidXLogRecPtr else lsn"
    have t: "tree_of se = xs_xid s # childXids s" using s(2) True by simp
    note tf = tree_facts [OF inv i refl, unfolded se(1) t]
    have has: "\<forall>x\<in>set (xs_xid s # childXids s). log_has (shm_clog (cl_shm c)) x" using tf(4) by blast
    obtain log where log: "TransactionIdSetTreeStatus False (xs_xid s) (childXids s) TRANSACTION_STATUS_COMMITTED ?lsn (shm_clog (cl_shm c)) = Inr log"
      "\<And>y. log_has log y \<longleftrightarrow> log_has (shm_clog (cl_shm c)) y"
      "\<And>y. xid_status log y = (if y \<in> set (xs_xid s # childXids s) then TRANSACTION_STATUS_COMMITTED else xid_status (shm_clog (cl_shm c)) y)"
      by (rule SetTreeStatus_final [OF has True, of TRANSACTION_STATUS_COMMITTED ?lsn]) simp_all
    have "latestXid = TransactionIdLatest (xs_xid s) (childXids s)" "shm = (cl_shm c)\<lparr>shm_clog := log\<rparr>"
      using rec s True log(1)
      by (cases sync; simp add: RecordTransactionCommit_def Let_def xactGetCommittedChildren_def TransactionIdCommitTree_def TransactionIdAsyncCommitTree_def)+
    moreover have "TransactionIdLatest (xs_xid s) (childXids s) = last (xs_xid s # childXids s)"
      by (rule latest_last [OF tf(1)]) (use tf(2) in blast)
    ultimately have eq: "latestXid = last (tree_of se)" "shm = (cl_shm c)\<lparr>shm_clog := log\<rparr>" unfolding t by simp_all
    have be: "(se_be se)\<lparr>xact_stack := [s]\<rparr> = se_be se" by (simp flip: s(1))
    show ?thesis
      unfolding eq(2)
      by (rule record_outcome [OF inv i se, of TRANSACTION_STATUS_COMMITTED log "se\<lparr>se_latestXid := Some latestXid\<rparr>" "[s]"])
        (use t log(2,3) eq(1) be session_okD(4) [OF ok] in \<open>simp_all del: last.simps add: tree_of_def s(1)\<close>)
  qed
qed

lemma DidCommit_running:
  assumes "TransactionIdIsNormal x" "log_has (shm_clog shm) x" "xid_status (shm_clog shm) x = TRANSACTION_STATUS_IN_PROGRESS"
    and "fst (be_fetch_cache be) \<noteq> x"
  shows "TransactionIdDidCommit x (status_state be shm) = Some (Inr (False, status_state be shm))"
proof -
  obtain p where p: "shm_clog shm (TransactionIdToPage x) = Some p" using log_has_page [OF assms(2)] by blast
  then have "TransactionLogFetch x (status_state be shm) = Inr (TRANSACTION_STATUS_IN_PROGRESS, status_state be shm)"
    using assms by (simp add: TransactionLogFetch_def status_state_def TransactionIdGetStatus_def SimpleLruReadPage_def xid_status_def)
  then show ?thesis by (subst TransactionIdDidCommit.simps) simp
qed

lemma keep_cache_same [simp]: "keep_cache (status_state be shm) be = be"
  by (simp add: keep_cache_def status_state_def)

lemma status_state_mark [simp]: "status_state (mark_abort be) shm = status_state be shm"
  by (simp add: mark_abort_def status_state_def)

text \<open>\<open>RecordTransactionAbort\<close> for a running transaction with an id.\<close>

lemma RecordAbort_running:
  assumes inv: "cluster_inv B c" and i: "i < length (cl_sessions c)" and se: "session c i = se" "se_latestXid se = None"
    and st: "xact_stack (se_be se) = s # parents" "TransactionIdIsValid (xs_xid s)"
  obtains log where
    "RecordTransactionAbort isSub (mark_abort (se_be se)) (cl_shm c) =
       Some (Inr (last (xs_xid s # childXids s), mark_abort (se_be se),
         if isSub then XidCacheRemoveRunningXids i (xs_xid s) (childXids s) (last (xs_xid s # childXids s)) ((cl_shm c)\<lparr>shm_clog := log\<rparr>)
         else (cl_shm c)\<lparr>shm_clog := log\<rparr>))"
    "\<And>y. log_has log y \<longleftrightarrow> log_has (shm_clog (cl_shm c)) y"
    "\<And>y. xid_status log y = (if y \<in> set (xs_xid s # childXids s) then TRANSACTION_STATUS_ABORTED else xid_status (shm_clog (cl_shm c)) y)"
proof -
  define b where "b = XidFromFullTransactionId B"
  have t: "tree_of se = chron parents @ xs_xid s # childXids s" using st by (simp add: tree_of_def valid_xid xs_xid_def)
  note tf = tree_facts [OF inv i b_def, unfolded se(1)]
  have mem: "x \<in> set (tree_of se)" if "x \<in> set (xs_xid s # childXids s)" for x using that t by auto
  have x: "in_window b (xs_xid s)" "xid_status (shm_clog (cl_shm c)) (xs_xid s) = TRANSACTION_STATUS_IN_PROGRESS"
    using tf(2,5) [OF mem, of "xs_xid s"] se(2) by auto
  have has: "\<forall>x\<in>set (xs_xid s # childXids s). log_has (shm_clog (cl_shm c)) x" using tf(4) mem by blast
  have off: "pgxactoff (se_be se) = i" using session_okD(1) [OF cluster_invD(5) [OF inv refl refl i]] se(1) by simp
  have memo: "memo_ok b (length (cl_sessions c)) (flags c) (running b c) i se" using cluster_invD(7) [OF inv b_def refl i] se(1) by simp
  have "fst (be_fetch_cache (se_be se)) \<noteq> xs_xid s"
  proof
    assume "fst (be_fetch_cache (se_be se)) = xs_xid s"
    moreover have "xs_xid s \<noteq> InvalidTransactionId" using st(2) by (simp add: TransactionIdIsValid_def)
    ultimately have "r_status (running b c) (xs_xid s) = TRANSACTION_STATUS_COMMITTED \<or> r_status (running b c) (xs_xid s) = TRANSACTION_STATUS_ABORTED"
      using memo by (auto simp: memo_ok_def Let_def split: prod.splits)
    moreover have "r_status (running b c) (xs_xid s) = TRANSACTION_STATUS_IN_PROGRESS"
      using x tf(2) [OF mem, of "xs_xid s"] by (simp add: running_def mask_xid_def)
    ultimately show False by simp
  qed
  then have did: "TransactionIdDidCommit (xs_xid s) (status_state (se_be se) (cl_shm c)) = Some (Inr (False, status_state (se_be se) (cl_shm c)))"
    using DidCommit_running x has in_windowD(1) [OF x(1)] by simp
  have "sorted_wrt (\<lambda>x y. xoff b x < xoff b y) (xs_xid s # childXids s)" using tf(1) t by (simp add: sorted_wrt_append)
  then have latest: "TransactionIdLatest (xs_xid s) (childXids s) = last (xs_xid s # childXids s)"
    by (rule latest_last) (use tf(2) mem in blast)
  obtain log where log: "TransactionIdSetTreeStatus False (xs_xid s) (childXids s) TRANSACTION_STATUS_ABORTED InvalidXLogRecPtr (shm_clog (cl_shm c)) = Inr log"
    "\<And>y. log_has log y \<longleftrightarrow> log_has (shm_clog (cl_shm c)) y"
    "\<And>y. xid_status log y = (if y \<in> set (xs_xid s # childXids s) then TRANSACTION_STATUS_ABORTED else xid_status (shm_clog (cl_shm c)) y)"
    by (rule SetTreeStatus_final [OF has st(2), of TRANSACTION_STATUS_ABORTED InvalidXLogRecPtr]) simp_all
  have stack: "xact_stack (mark_abort (se_be se)) = s\<lparr>xs_abort := True\<rparr> # parents" by (simp add: mark_abort_def st)
  have kc: "keep_cache (status_state (se_be se) (cl_shm c)) (mark_abort (se_be se)) = mark_abort (se_be se)"
    using keep_cache_same [of "mark_abort (se_be se)" "cl_shm c"] by simp
  have xid: "xs_xid (s\<lparr>xs_abort := True\<rparr>) = xs_xid s" by (simp add: xs_xid_def)
  have off': "pgxactoff (mark_abort (se_be se)) = i" using off by (simp add: mark_abort_def)
  have "RecordTransactionAbort isSub (mark_abort (se_be se)) (cl_shm c) =
       Some (Inr (last (xs_xid s # childXids s), mark_abort (se_be se),
         if isSub then XidCacheRemoveRunningXids i (xs_xid s) (childXids s) (last (xs_xid s # childXids s)) ((cl_shm c)\<lparr>shm_clog := log\<rparr>)
         else (cl_shm c)\<lparr>shm_clog := log\<rparr>))"
    using st(2) did log(1) latest
    by (cases isSub) (simp_all del: last.simps add: RecordTransactionAbort_def stack xid kc Let_def xactGetCommittedChildren_def TransactionIdAbortTree_def off')
  then show ?thesis using log(2,3) by (rule that)
qed

lemma record_abort_inv:
  assumes inv: "cluster_inv B c" and i: "i < length (cl_sessions c)" and se: "session c i = se" "se_latestXid se = None"
    and one: "length (xact_stack (se_be se)) = 1"
    and rec: "RecordTransactionAbort False (mark_abort (se_be se)) (cl_shm c) = Some (Inr (latestXid, be, shm))"
  shows "simulated B c (put i (se\<lparr>se_be := be, se_latestXid := Some latestXid\<rparr>) shm c)"
proof -
  have ok: "session_ok (cl_shm c) i se" using cluster_invD(5) [OF inv refl refl i] se(1) by simp
  obtain s where s: "xact_stack (se_be se) = [s]"
    "tree_of se = (if TransactionIdIsValid (xs_xid s) then xs_xid s # childXids s else [])"
    by (rule single_stack [OF ok one])
  let ?s = "s\<lparr>xs_abort := True\<rparr>" and ?se = "se\<lparr>se_be := be, se_latestXid := Some latestXid\<rparr>"
  have mark: "mark_abort (se_be se) = (se_be se)\<lparr>xact_stack := [?s]\<rparr>" by (simp add: mark_abort_def s(1))
  have ch: "chron [?s] = tree_of se" "frames_ok [?s]" using session_okD(4) [OF ok] s(1) by (simp_all add: tree_of_def xs_xid_def)
  show ?thesis
  proof (cases "TransactionIdIsValid (xs_xid s)")
    case False
    then have "latestXid = InvalidTransactionId" "shm = cl_shm c" "be = mark_abort (se_be se)"
      using rec by (simp_all add: RecordTransactionAbort_def mark xs_xid_def)
    then show ?thesis using record_nothing [OF inv i se(1), of ?se "[?s]"] s(2) ch mark False by simp
  next
    case True
    obtain log where log: "RecordTransactionAbort False (mark_abort (se_be se)) (cl_shm c) =
        Some (Inr (last (xs_xid s # childXids s), mark_abort (se_be se), (cl_shm c)\<lparr>shm_clog := log\<rparr>))"
      "\<And>y. log_has log y \<longleftrightarrow> log_has (shm_clog (cl_shm c)) y"
      "\<And>y. xid_status log y = (if y \<in> set (xs_xid s # childXids s) then TRANSACTION_STATUS_ABORTED else xid_status (shm_clog (cl_shm c)) y)"
      by (rule RecordAbort_running [OF inv i se s(1) True, of False]) simp
    have eq: "latestXid = last (tree_of se)" "be = mark_abort (se_be se)" "shm = (cl_shm c)\<lparr>shm_clog := log\<rparr>"
      using rec log(1) s(2) True by (simp_all del: last.simps)
    show ?thesis
      unfolding eq(3)
      by (rule record_outcome [OF inv i se, of TRANSACTION_STATUS_ABORTED log ?se "[?s]"])
        (use s(2) True log(2,3) eq(1,2) mark ch in \<open>simp_all del: last.simps\<close>)
  qed
qed

section \<open>Leaving the running set\<close>

lemma reset_xact_simps [simp]:
  "xact_stack (reset_xact be) = [fresh_xact]" "XactTopFullTransactionId (reset_xact be) = InvalidFullTransactionId"
  "pgxactoff (reset_xact be) = pgxactoff be" "ParallelCurrentXids (reset_xact be) = ParallelCurrentXids be"
  "be_TransactionXmin (reset_xact be) = be_TransactionXmin be" "RecentXmin (reset_xact be) = RecentXmin be"
  "cachedXidIsNotInProgress (reset_xact be) = cachedXidIsNotInProgress be" "be_fetch_cache (reset_xact be) = be_fetch_cache be"
  by (simp_all add: reset_xact_def)

lemma fresh_simps [simp]: "\<not> FullTransactionIdIsValid (fullTransactionId fresh_xact)" "childXids fresh_xact = []" "XidFromFullTransactionId InvalidFullTransactionId = InvalidTransactionId"
  "xs_abort fresh_xact = False"
  by (simp_all add: fresh_xact_def InvalidFullTransactionId_def xid_defs)

lemma clear_vacuum_simps [simp]:
  "proc_xid (clear_vacuum_flags p) = proc_xid p" "proc_xmin (clear_vacuum_flags p) = proc_xmin p"
  "proc_subxids (clear_vacuum_flags p) = proc_subxids p" "proc_overflowed (clear_vacuum_flags p) = proc_overflowed p"
  by (simp_all add: clear_vacuum_flags_def)

lemma end_xact_inv:
  assumes inv: "cluster_inv B c" and i: "i < length (cl_sessions c)" and se: "session c i = se" "se_latestXid se = Some latestXid"
    and wrap: "xactCompletionCount (cl_shm c) + 1 \<noteq> 0"
  shows "simulated B c (put i (se\<lparr>se_be := reset_xact (se_be se), se_latestXid := None, se_held := []\<rparr>)
      (ProcArrayEndTransaction i latestXid (cl_shm c)) c)"
proof -
  define b n where "b = XidFromFullTransactionId B" and "n = length (cl_sessions c)"
  define se' where "se' = se\<lparr>se_be := reset_xact (se_be se), se_latestXid := None, se_held := []\<rparr>"
  define shm where "shm = ProcArrayEndTransaction i latestXid (cl_shm c)"
  let ?t = "tree_of se" and ?r = "running b c" and ?c = "put i se' shm c"
  note old = cluster_invD [OF inv b_def n_def]
  note tf = tree_facts [OF inv i b_def, unfolded se(1)]
  have i': "i < n" "i < length (procArray (cl_shm c))" using i old(1) by (simp_all add: n_def)
  have ok: "session_ok (cl_shm c) i se" using old(5) [OF i'(1)] se(1) by simp
  have latest: "latestXid = last_xid ?t" using session_okD(12) [OF ok se(2)] by simp
  have tree: "tree_of se' = []" by (simp add: se'_def tree_of_def)
  have r: "running b ?c = (if ?t = [] then ?r else ?r\<lparr>r_tree := (r_tree ?r)(i := []), r_ended := (r_ended ?r)(i := False),
      r_latest := later b (r_latest ?r) (last (r_tree ?r i))\<rparr>) \<and> shm_ok B shm \<and> length (procArray shm) = length (procArray (cl_shm c)) \<and>
    (\<forall>j. j \<noteq> i \<longrightarrow> procArray shm ! j = procArray (cl_shm c) ! j) \<and> proc_xmin (procArray shm ! i) = InvalidTransactionId \<and>
    proc_xid (procArray shm ! i) = InvalidTransactionId \<and> proc_subxids (procArray shm ! i) = [] \<and> \<not> proc_overflowed (procArray shm ! i) \<and>
    xactCompletionCount shm = xactCompletionCount (cl_shm c) + (if ?t = [] then 0 else 1)"
  proof (cases ?t)
    case Nil
    have "latestXid = InvalidTransactionId" using latest Nil by simp
    then have shm: "shm = set_proc i (clear_vacuum_flags ((procArray (cl_shm c) ! i)\<lparr>proc_xmin := InvalidTransactionId\<rparr>)) (cl_shm c)"
      by (simp add: shm_def ProcArrayEndTransaction_def TransactionIdIsValid_def)
    have "running b ?c = ?r" by (rule running_put_same [OF i]) (simp_all add: tree se(1) Nil shm)
    moreover have "proc_subxids (procArray (cl_shm c) ! i) = []" using session_okD(8) [OF ok] Nil by simp
    ultimately show ?thesis using session_okD(5,10) [OF ok] Nil old(2) i'(2) by (simp add: shm)
  next
    case (Cons x ch)
    then have l: "latestXid = last ?t" "last ?t \<in> set ?t" using latest last_in_set [of ?t] by (simp_all del: last.simps)
    let ?p = "\<lambda>p. p\<lparr>proc_xid := InvalidTransactionId, proc_xmin := InvalidTransactionId\<rparr>"
    let ?q = "clear_vacuum_flags (?p (procArray (cl_shm c) ! i))"
    let ?q2 = "if proc_subxids ?q \<noteq> [] \<or> proc_overflowed ?q then ?q\<lparr>proc_subxids := [], proc_overflowed := False\<rparr> else ?q"
    have w: "in_window b (latest_of (set_proc i ?q2 (cl_shm c)))" "in_window b latestXid" "TransactionIdIsValid latestXid"
      using run_inv_bounds(2) [OF old(3)] tf(2,3) [OF l(2)] by (simp_all add: l(1))
    obtain f where f: "MaintainLatestCompletedXid latestXid (set_proc i ?q2 (cl_shm c)) = (set_proc i ?q2 (cl_shm c))\<lparr>latestCompletedXid := f\<rparr>"
      "XidFromFullTransactionId f = later b (latest_of (cl_shm c)) latestXid"
      using MaintainLatest [OF w(1,2)] by auto
    have shm: "shm = (set_proc i ?q2 (cl_shm c))\<lparr>latestCompletedXid := f, xactCompletionCount := xactCompletionCount (cl_shm c) + 1\<rparr>"
      using w(3) f(1) by (simp add: shm_def ProcArrayEndTransaction_def ProcArrayEndTransactionInternal_def Let_def)
    have m: "mask_xid b shm (xid_status (shm_clog shm)) = r_status ?r" "mask_xid b shm (parent_of (shm_subtrans shm)) = r_parent ?r"
      by (simp_all add: shm running_def mask_xid_def [abs_def])
    have "running b ?c = ?r\<lparr>r_tree := (r_tree ?r)(i := []), r_ended := (r_ended ?r)(i := False),
      r_latest := later b (r_latest ?r) (last (r_tree ?r i))\<rparr>"
      unfolding running_put [OF i] m using tree f(2) l(1) i se(1) by (intro Running.equality) (simp_all add: shm)
    then show ?thesis using Cons old(2) i'(2) by (simp add: shm)
  qed
  then have procs: "shm_ok B shm" "length (procArray shm) = length (procArray (cl_shm c))"
      "\<And>j. j \<noteq> i \<Longrightarrow> procArray shm ! j = procArray (cl_shm c) ! j" "proc_xmin (procArray shm ! i) = InvalidTransactionId"
      "proc_xid (procArray shm ! i) = InvalidTransactionId" "proc_subxids (procArray shm ! i) = []" "\<not> proc_overflowed (procArray shm ! i)"
    by blast+
  have step: "run_step b n ?r (running b ?c)"
    using r run_end [of i n ?r b] i' se by (cases "?t = []") (simp_all add: run_other n_def [symmetric])
  have count: "xactCompletionCount shm = xactCompletionCount (cl_shm c) \<and> grows b ?r (running b ?c) \<or>
      xactCompletionCount shm = xactCompletionCount (cl_shm c) + 1 \<and> xactCompletionCount (cl_shm c) + 1 \<noteq> 0"
    using r wrap grows_refl by (cases "?t = []") simp_all
  have so: "session_ok shm i se'"
    using procs session_okD(1,2) [OF ok] tree unfolding session_ok_def Let_def by (simp add: se'_def)
  have "simulated B c ?c"
    by (rule quiet_step [OF inv i procs(1-3)])
      (use step count so procs tree se(1) in \<open>simp_all add: b_def n_def same_memory_def se'_def\<close>)
  then show ?thesis by (simp add: se'_def shm_def)
qed

section \<open>Aborting a subtransaction\<close>

lemma last_index_spec:
  "case last_index x xs of None \<Rightarrow> x \<notin> set xs | Some j \<Rightarrow> j < length xs \<and> xs ! j = x"
  by (induction xs) (auto split: option.splits)

lemma remove_subxid_set:
  assumes "distinct xs"
  shows "set (remove_subxid x xs) = set xs - {x}" "distinct (remove_subxid x xs)"
proof -
  have "set (remove_subxid x xs) = set xs - {x} \<and> distinct (remove_subxid x xs)"
  proof (cases "last_index x xs")
    case None
    then show ?thesis using last_index_spec [of x xs] assms by (auto simp: remove_subxid_def)
  next
    case (Some j)
    then have j: "j < length xs" "xs ! j = x" using last_index_spec [of x xs] by simp_all
    then obtain ys l where xs: "xs = ys @ [l]" by (cases xs rule: rev_cases) auto
    show ?thesis
    proof (cases "j = length ys")
      case True
      then show ?thesis using Some j xs assms by (auto simp: remove_subxid_def)
    next
      case False
      then have "j < length ys" using j(1) xs by simp
      then show ?thesis using Some j xs assms
        by (auto simp: remove_subxid_def list_update_append nth_append set_update_distinct distinct_list_update)
    qed
  qed
  then show "set (remove_subxid x xs) = set xs - {x}" "distinct (remove_subxid x xs)" by auto
qed

lemma remove_subxids_set:
  "distinct xs \<Longrightarrow> set (fold remove_subxid ys xs) = set xs - set ys \<and> distinct (fold remove_subxid ys xs)"
  by (induction ys arbitrary: xs) (auto simp: remove_subxid_set)

lemma abort_sub_inv:
  assumes inv: "cluster_inv B c" and i: "i < length (cl_sessions c)" and se: "session c i = se" "se_latestXid se = None"
    and two: "1 < length (xact_stack (se_be se))"
    and abort: "abort_sub_xids (se_be se) (cl_shm c) = Some (Inr (be, shm))" and wrap: "xactCompletionCount (cl_shm c) + 1 \<noteq> 0"
  shows "simulated B c (put i (se\<lparr>se_be := be\<rparr>) shm c)"
proof -
  define b n where "b = XidFromFullTransactionId B" and "n = length (cl_sessions c)"
  note old = cluster_invD [OF inv b_def n_def]
  obtain s q rest where st: "xact_stack (se_be se) = s # q # rest"
    using two by (cases "xact_stack (se_be se)") (auto simp: neq_Nil_conv)
  have i': "i < n" "i < length (procArray (cl_shm c))" using i old(1) by (simp_all add: n_def)
  have ok: "session_ok (cl_shm c) i se" using old(5) [OF i'(1)] se(1) by simp
  have mark: "mark_abort (se_be se) = (se_be se)\<lparr>xact_stack := s\<lparr>xs_abort := True\<rparr> # q # rest\<rparr>" by (simp add: mark_abort_def st)
  have fr: "frames_ok (s # q # rest)" using session_okD(4) [OF ok] unfolding st .
  have fr': "frames_ok (q # rest)" using fr by (rule frames_ok.simps(2) [THEN iffD1, THEN conjunct1])
  have live: "\<forall>s\<in>set (q # rest). \<not> xs_abort s" using session_okD(11) [OF ok se(2)] unfolding st by (meson list.set_intros(2))
  show ?thesis
  proof (cases "TransactionIdIsValid (xs_xid s)")
    case False
    then have "be = (se_be se)\<lparr>xact_stack := q # rest\<rparr>" "shm = cl_shm c"
      using abort by (simp_all add: abort_sub_xids_def RecordTransactionAbort_def mark xs_xid_def)
    moreover have "chron (q # rest) = chron (xact_stack (se_be se))" using False st by (simp add: valid_xid xs_xid_def)
    ultimately show ?thesis using stack_step [OF inv i se _ fr' _ live] by simp
  next
    case True
    let ?sub = "xs_xid s # childXids s" and ?t = "tree_of se" and ?r = "running b c" and ?k = "length (chron (q # rest))"
    define se' where "se' = se\<lparr>se_be := be\<rparr>"
    have t: "?t = chron (q # rest) @ ?sub" "last ?t = last ?sub" "last ?sub \<in> set ?t"
      using True st last_in_set [of ?sub] by (simp_all add: tree_of_def valid_xid xs_xid_def)
    have "FullTransactionIdIsValid (fullTransactionId q)"
      using frames_ok.simps(2) [THEN iffD1, OF fr] True by (simp add: valid_xid xs_xid_def)
    then have k: "0 < ?k" "?k < length ?t" using t(1) by simp_all
    note tf = tree_facts [OF inv i b_def, unfolded se(1)]
    obtain log where log: "RecordTransactionAbort True (mark_abort (se_be se)) (cl_shm c) =
        Some (Inr (last ?sub, mark_abort (se_be se), XidCacheRemoveRunningXids i (xs_xid s) (childXids s) (last ?sub) ((cl_shm c)\<lparr>shm_clog := log\<rparr>)))"
      "\<And>y. log_has log y \<longleftrightarrow> log_has (shm_clog (cl_shm c)) y"
      "\<And>y. xid_status log y = (if y \<in> set ?sub then TRANSACTION_STATUS_ABORTED else xid_status (shm_clog (cl_shm c)) y)"
      by (rule RecordAbort_running [OF inv i se st True, of True]) simp
    let ?p = "procArray (cl_shm c) ! i"
    let ?subs = "remove_subxid (xs_xid s) (fold remove_subxid (rev (childXids s)) (proc_subxids ?p))"
    let ?shm0 = "set_proc i (?p\<lparr>proc_subxids := ?subs\<rparr>) ((cl_shm c)\<lparr>shm_clog := log\<rparr>)"
    have w: "in_window b (latest_of ?shm0)" "in_window b (last ?sub)"
      using run_inv_bounds(2) [OF old(3)] tf(2) [OF t(3)] by (simp_all del: last.simps)
    obtain f where f: "MaintainLatestCompletedXid (last ?sub) ?shm0 = ?shm0\<lparr>latestCompletedXid := f\<rparr>"
      "XidFromFullTransactionId f = later b (latest_of (cl_shm c)) (last ?sub)"
      using MaintainLatest [OF w] by (auto simp del: last.simps)
    have be: "be = (se_be se)\<lparr>xact_stack := q # rest\<rparr>" and
      shm: "shm = ?shm0\<lparr>latestCompletedXid := f, xactCompletionCount := xactCompletionCount (cl_shm c) + 1\<rparr>"
      using abort log(1) f(1) by (simp_all del: last.simps add: abort_sub_xids_def mark XidCacheRemoveRunningXids_def Let_def)
    have tree: "tree_of se' = chron (q # rest)" by (simp add: se'_def tree_of_def be)
    have m: "mask_xid b shm (xid_status (shm_clog shm)) x = (if x \<in> set ?sub then TRANSACTION_STATUS_ABORTED else r_status ?r x)" for x
      using tf(2) [of x] log(3) t(1) by (auto simp: shm mask_xid_def running_def)
    have "run_step b n ?r (running b (put i se' shm c))"
    proof -
      have "running b (put i se' shm c) = ?r\<lparr>r_tree := (r_tree ?r)(i := take ?k (r_tree ?r i)),
          r_latest := later b (r_latest ?r) (last (r_tree ?r i)),
          r_status := (\<lambda>x. if x \<in> set (drop ?k (r_tree ?r i)) then TRANSACTION_STATUS_ABORTED else r_status ?r x)\<rparr>"
        unfolding running_put [OF i] using tree t(1,2) i se f(2) m
        by (intro Running.equality) (auto simp: fun_eq_iff shm running_def mask_xid_def se'_def simp del: last.simps)
      then show ?thesis using run_subabort [OF i'(1), of ?r ?k b] k se i by (simp add: n_def)
    qed
    moreover have "shm_ok B ((cl_shm c)\<lparr>shm_clog := log\<rparr>)"
      by (rule shm_ok_clog [OF old(2)]) (use log tf(2) t(1) in \<open>fastforce simp: b_def\<close>)+
    then have "shm_ok B shm" unfolding shm by simp
    moreover have "session_ok shm i se'"
    proof -
      have sub: "set ?subs = set (proc_subxids ?p) - set ?sub" "distinct ?subs"
        using remove_subxids_set [OF session_okD(7) [OF ok], of "rev (childXids s)"] remove_subxid_set by auto
      have hd: "first_xid (chron (q # rest)) = first_xid ?t" "tl ?t = tl (chron (q # rest)) @ ?sub" "chron (q # rest) \<noteq> []"
        using first_append [of "chron (q # rest)" ?sub] k(1) unfolding t(1) by (simp_all del: chron.simps)
      have "set (tl (chron (q # rest))) \<inter> set ?sub = {}"
        using tf(1) unfolding t(1) sorted_wrt_append by (fastforce dest: list.set_sel(2) [OF hd(3)])
      then have "set ?subs \<subseteq> set (tl (chron (q # rest)))"
        "\<not> proc_overflowed ?p \<Longrightarrow> set ?subs = set (tl (chron (q # rest)))"
        using session_okD(8,9) [OF ok] unfolding sub(1) hd(2) by auto
      then show ?thesis
        using session_okD(1,2,5,6) [OF ok] sub(2) hd fr' live i'(2) se(2)
        by (simp add: session_ok_def Let_def tree shm del: chron.simps frames_ok.simps)
          (simp add: se'_def be del: chron.simps frames_ok.simps)
    qed
    ultimately have "simulated B c (put i se' shm c)"
      using wrap se i'(2) by (intro quiet_step [OF inv i]) (auto simp: b_def n_def shm be se'_def same_memory_def flagged_def)
    then show ?thesis by (simp add: se'_def)
  qed
qed

end
