(* ===== verification/ClusterAssign.thy ===== *)
theory ClusterAssign
  imports ClusterXids
begin

text \<open>
  Assigning ids: one call of \<open>GetNewTransactionId\<close> with its parent link, then the whole of
  \<open>AssignTransactionId\<close>, which may assign ids to several levels.
\<close>

section \<open>Pages for a new id\<close>

lemma advance_same_page:
  assumes "TransactionIdIsNormal x" "TransactionIdAdvance x \<noteq> FirstNormalTransactionId" "0 < k" "unat (TransactionIdAdvance x) mod k \<noteq> 0"
  shows "unat (TransactionIdAdvance x) div k = unat x div k"
proof -
  have "TransactionIdAdvance x = x + 1" "x + 1 \<noteq> 0"
    using advance_cases [OF assms(1)] assms(2) by (auto simp: xid_defs)
  then have "unat (TransactionIdAdvance x) = Suc (unat x)" by (simp add: unatSuc add.commute)
  then show ?thesis using assms(3,4) by (metis div_Suc)
qed

text \<open>After extending the logs for the next id, they hold it and all later ids of its page.\<close>

lemma extend_next:
  assumes ok: "shm_ok B shm" and b: "b = XidFromFullTransactionId B" and nx: "nx = next_of shm"
    and x: "TransactionIdIsNormal x" "xoff b nx \<le> xoff b x"
  shows "TransactionIdToPage x = TransactionIdToPage nx \<Longrightarrow>
      log_has (ExtendCLOG nx (shm_clog shm)) x \<and> xid_status (ExtendCLOG nx (shm_clog shm)) x = TRANSACTION_STATUS_IN_PROGRESS"
    and "SubTransToPage x = SubTransToPage nx \<Longrightarrow>
      sub_has (ExtendSUBTRANS nx (shm_subtrans shm)) x \<and> parent_of (ExtendSUBTRANS nx (shm_subtrans shm)) x = InvalidTransactionId"
proof -
  have fresh: "TransactionIdToPage x = TransactionIdToPage nx \<and> TransactionIdToPgIndex nx \<noteq> 0 \<and> nx \<noteq> FirstNormalTransactionId \<longrightarrow>
           log_has (shm_clog shm) x \<and> xid_status (shm_clog shm) x = TRANSACTION_STATUS_IN_PROGRESS"
    "SubTransToPage x = SubTransToPage nx \<and> SubTransToEntry nx \<noteq> 0 \<and> nx \<noteq> FirstNormalTransactionId \<longrightarrow>
           sub_has (shm_subtrans shm) x \<and> parent_of (shm_subtrans shm) x = InvalidTransactionId"
    using ok x unfolding shm_ok_def Let_def b nx by blast+
  show "log_has (ExtendCLOG nx (shm_clog shm)) x \<and> xid_status (ExtendCLOG nx (shm_clog shm)) x = TRANSACTION_STATUS_IN_PROGRESS"
    if p: "TransactionIdToPage x = TransactionIdToPage nx"
  proof (cases "TransactionIdToPgIndex nx \<noteq> 0 \<and> nx \<noteq> FirstNormalTransactionId")
    case True
    then show ?thesis using fresh(1) p by (simp add: ExtendCLOG_def)
  next
    case False
    then show ?thesis using ExtendCLOG_new [OF False p] by blast
  qed
  show "sub_has (ExtendSUBTRANS nx (shm_subtrans shm)) x \<and> parent_of (ExtendSUBTRANS nx (shm_subtrans shm)) x = InvalidTransactionId"
    if p: "SubTransToPage x = SubTransToPage nx"
  proof (cases "SubTransToEntry nx \<noteq> 0 \<and> nx \<noteq> FirstNormalTransactionId")
    case True
    then show ?thesis using fresh(2) p by (simp add: ExtendSUBTRANS_def)
  next
    case False
    then show ?thesis using ExtendSUBTRANS_new [OF False p] by blast
  qed
qed

lemma shm_ok_window:
  assumes "shm_ok B shm" "b = XidFromFullTransactionId B"
  shows "in_window b (next_of shm)" "in_window b (xidVacLimit shm)" "in_window b (xidStopLimit shm)"
    "xoff b (xidVacLimit shm) \<le> xoff b (xidStopLimit shm)" "xoff b (xidStopLimit shm) + 4 < 2 ^ 31"
    "xoff b (next_of shm) \<le> xoff b (xidStopLimit shm)" "full_in_window B (nextXid shm)" "\<not> RecoveryInProgress shm"
  using assms by (simp_all add: shm_ok_def Let_def)

text \<open>
  Shared memory after the allocation: \<open>st\<close> is the parent log with the new link set or left empty.
\<close>

lemma shm_ok_assign:
  assumes ok: "shm_ok B shm" and b: "b = XidFromFullTransactionId B" and nx: "nx = next_of shm"
    and lt: "xoff b nx < xoff b (xidStopLimit shm)"
    and st: "\<And>y. sub_has st y \<longleftrightarrow> sub_has (ExtendSUBTRANS nx (shm_subtrans shm)) y"
      "\<And>y. y \<noteq> nx \<Longrightarrow> parent_of st y = parent_of (ExtendSUBTRANS nx (shm_subtrans shm)) y"
  shows "shm_ok B (shm\<lparr>shm_clog := ExtendCLOG nx (shm_clog shm), shm_subtrans := st, nextXid := FullTransactionIdAdvance (nextXid shm)\<rparr>)"
    and "XidFromFullTransactionId (FullTransactionIdAdvance (nextXid shm)) = TransactionIdAdvance nx"
proof -
  note w = shm_ok_window [OF ok b]
  have nxw: "in_window b nx" "TransactionIdIsNormal nx" "xoff b nx < 2 ^ 31" "xoff b nx + 4 < 2 ^ 31"
    using w(1,5) lt by (simp_all add: nx in_window_def)
  note adv = advance_window [OF nxw(1,4)]
  note full = full_advance_window [OF w(7) w(1) [unfolded b] nxw(4) [unfolded nx b]]
  show next_adv: "XidFromFullTransactionId (FullTransactionIdAdvance (nextXid shm)) = TransactionIdAdvance nx"
    using full(2) by (simp add: nx)
  have stop: "xoff b (TransactionIdAdvance nx) \<le> xoff b (xidStopLimit shm)"
    using adv(4) [OF in_windowD(1) [OF w(3)]] lt by linarith
  have old: "log_has (ExtendCLOG nx (shm_clog shm)) x \<and> sub_has st x"
    if x: "in_window b x" "xoff b x < xoff b (TransactionIdAdvance nx)" for x
  proof (cases "x = nx")
    case True
    then show ?thesis using extend_next [OF ok b nx nxw(2) order_refl] st(1) by simp
  next
    case False
    then have "xoff b x < xoff b nx" using adv(4) [OF in_windowD(1) [OF x(1)]] x(2) xoff_inj le_neq_implies_less by metis
    moreover have "log_has (shm_clog shm) x" "sub_has (shm_subtrans shm) x"
      using shm_ok_logs [OF ok] x(1) calculation by (simp_all add: b nx)
    ultimately show ?thesis
      using ExtendCLOG_old(2) [OF in_windowD(1) [OF x(1)] _ nxw(3)] ExtendSUBTRANS_old(2) [OF in_windowD(1) [OF x(1)] _ nxw(3)] st(1) by simp
  qed
  have fresh: "(TransactionIdToPage x = TransactionIdToPage (TransactionIdAdvance nx) \<and> TransactionIdToPgIndex (TransactionIdAdvance nx) \<noteq> 0 \<and>
        TransactionIdAdvance nx \<noteq> FirstNormalTransactionId \<longrightarrow>
        log_has (ExtendCLOG nx (shm_clog shm)) x \<and> xid_status (ExtendCLOG nx (shm_clog shm)) x = TRANSACTION_STATUS_IN_PROGRESS) \<and>
      (SubTransToPage x = SubTransToPage (TransactionIdAdvance nx) \<and> SubTransToEntry (TransactionIdAdvance nx) \<noteq> 0 \<and>
        TransactionIdAdvance nx \<noteq> FirstNormalTransactionId \<longrightarrow> sub_has st x \<and> parent_of st x = InvalidTransactionId)"
    if x: "TransactionIdIsNormal x" "xoff b (TransactionIdAdvance nx) \<le> xoff b x" for x
  proof -
    have later: "xoff b nx \<le> xoff b x" "x \<noteq> nx" using x(2) adv(2) by auto
    have "TransactionIdToPage (TransactionIdAdvance nx) = TransactionIdToPage nx"
      if "TransactionIdToPgIndex (TransactionIdAdvance nx) \<noteq> 0" "TransactionIdAdvance nx \<noteq> FirstNormalTransactionId"
      using advance_same_page [OF nxw(2) that(2), of CLOG_XACTS_PER_PAGE] that(1)
      by (simp add: TransactionIdToPage_def TransactionIdToPgIndex_def clog_consts)
    moreover have "SubTransToPage (TransactionIdAdvance nx) = SubTransToPage nx"
      if "SubTransToEntry (TransactionIdAdvance nx) \<noteq> 0" "TransactionIdAdvance nx \<noteq> FirstNormalTransactionId"
      using advance_same_page [OF nxw(2) that(2), of 2048] that(1) by (simp add: SubTransToPage_def SubTransToEntry_def)
    ultimately show ?thesis using extend_next [OF ok b nx x(1) later(1)] st later(2) by metis
  qed
  show "shm_ok B (shm\<lparr>shm_clog := ExtendCLOG nx (shm_clog shm), shm_subtrans := st, nextXid := FullTransactionIdAdvance (nextXid shm)\<rparr>)"
    using ok old fresh adv(1) stop full(1) unfolding shm_ok_def Let_def by (simp add: next_adv b)
qed

section \<open>One id\<close>

lemma chron_prefix: "\<forall>s\<in>set pre. \<not> FullTransactionIdIsValid (fullTransactionId s) \<Longrightarrow> chron (pre @ st) = chron st"
  by (induction pre) simp_all

lemma frames_prefix:
  "\<forall>s\<in>set pre. \<not> FullTransactionIdIsValid (fullTransactionId s) \<Longrightarrow>
   frames_ok (pre @ st) \<longleftrightarrow> (\<forall>s\<in>set pre. childXids s = []) \<and> frames_ok st"
  by (induction pre) auto

definition assigned_proc :: "bool \<Rightarrow> TransactionId \<Rightarrow> PGPROC \<Rightarrow> PGPROC" where
  "assigned_proc isSubXact xid p =
     (if \<not> isSubXact then p\<lparr>proc_xid := xid\<rparr>
      else if length (proc_subxids p) < PGPROC_MAX_CACHED_SUBXIDS then p\<lparr>proc_subxids := proc_subxids p @ [xid]\<rparr>
      else p\<lparr>proc_overflowed := True\<rparr>)"

lemma GetNew_result:
  assumes ok: "shm_ok B shm" "b = XidFromFullTransactionId B" and mode: "IsUnderPostmaster mode" "\<not> IsBootstrapProcessingMode mode"
    and get: "GetNewTransactionId mode i isSubXact shm = Inr (full, shm')"
  shows "full = nextXid shm" "xoff b (next_of shm) < xoff b (xidStopLimit shm)"
    and "shm' = set_proc i (assigned_proc isSubXact (next_of shm) (procArray shm ! i))
      (shm\<lparr>shm_clog := ExtendCLOG (next_of shm) (shm_clog shm), shm_subtrans := ExtendSUBTRANS (next_of shm) (shm_subtrans shm),
           nextXid := FullTransactionIdAdvance (nextXid shm)\<rparr>)"
proof -
  note w = shm_ok_window [OF ok]
  have par: "\<not> InParallelMode mode" using get by (auto simp: GetNewTransactionId_def)
  have lim: "\<not> (TransactionIdFollowsOrEquals (next_of shm) (xidVacLimit shm) \<and> TransactionIdFollowsOrEquals (next_of shm) (xidStopLimit shm))"
    using get mode par w(8) by (auto simp: GetNewTransactionId_def Let_def)
  then show "xoff b (next_of shm) < xoff b (xidStopLimit shm)"
    using prec_window(4) [OF w(1,2)] prec_window(4) [OF w(1,3)] w(4) by auto
  have eq: "Inr (full, shm') = (Inr (nextXid shm, set_proc i (assigned_proc isSubXact (next_of shm) (procArray shm ! i))
      (shm\<lparr>shm_clog := ExtendCLOG (next_of shm) (shm_clog shm), shm_subtrans := ExtendSUBTRANS (next_of shm) (shm_subtrans shm),
           nextXid := FullTransactionIdAdvance (nextXid shm)\<rparr>)) :: varsup_error + _)"
    using lim mode par w(8) unfolding get [symmetric] GetNewTransactionId_def Let_def assigned_proc_def
    by (auto simp: set_proc_def)
  then show "full = nextXid shm" "shm' = set_proc i (assigned_proc isSubXact (next_of shm) (procArray shm ! i))
      (shm\<lparr>shm_clog := ExtendCLOG (next_of shm) (shm_clog shm), shm_subtrans := ExtendSUBTRANS (next_of shm) (shm_subtrans shm),
           nextXid := FullTransactionIdAdvance (nextXid shm)\<rparr>)" by simp_all
qed

lemma assign_one:
  assumes inv: "cluster_inv B c" and i: "i < length (cl_sessions c)" and se: "session c i = se" "se_latestXid se = None"
    and stack: "xact_stack (se_be se) = pre @ s # parents" "\<forall>s\<in>set (pre @ [s]). \<not> FullTransactionIdIsValid (fullTransactionId s)"
      "\<forall>s\<in>set parents. FullTransactionIdIsValid (fullTransactionId s)"
    and nx: "nx = next_of (cl_shm c)" "xoff (XidFromFullTransactionId B) nx < xoff (XidFromFullTransactionId B) (xidStopLimit (cl_shm c))"
    and st: "\<And>y. sub_has st y \<longleftrightarrow> sub_has (ExtendSUBTRANS nx (shm_subtrans (cl_shm c))) y"
      "\<And>y. parent_of st y = (if y = nx \<and> parents \<noteq> [] then xs_xid (hd parents) else parent_of (ExtendSUBTRANS nx (shm_subtrans (cl_shm c))) y)"
    and shm: "shm = set_proc i (assigned_proc (parents \<noteq> []) nx (procArray (cl_shm c) ! i))
      ((cl_shm c)\<lparr>shm_clog := ExtendCLOG nx (shm_clog (cl_shm c)), shm_subtrans := st, nextXid := FullTransactionIdAdvance (nextXid (cl_shm c))\<rparr>)"
    and se': "se' = se\<lparr>se_be := (se_be se)\<lparr>xact_stack := pre @ s\<lparr>fullTransactionId := nextXid (cl_shm c)\<rparr> # parents,
      XactTopFullTransactionId := (if parents = [] then nextXid (cl_shm c) else XactTopFullTransactionId (se_be se))\<rparr>\<rparr>"
  shows "simulated B c (put i se' shm c)"
proof -
  define b n where "b = XidFromFullTransactionId B" and "n = length (cl_sessions c)"
  note old = cluster_invD [OF inv b_def n_def]
  let ?r = "running b c" and ?t = "tree_of se" and ?p = "procArray (cl_shm c) ! i"
  have i': "i < n" "i < length (procArray (cl_shm c))" using i old(1) by (simp_all add: n_def)
  have ok: "session_ok (cl_shm c) i se" using old(5) [OF i'(1)] se(1) by simp
  note w = shm_ok_window [OF old(2) b_def]
  have nxw: "in_window b nx" "TransactionIdIsNormal nx" "xoff b nx < 2 ^ 31" "xoff b nx + 4 < 2 ^ 31" "TransactionIdIsValid nx"
    using w(1,5) nx by (auto simp: in_window_def b_def xid_defs)
  have fresh: "parent_of (ExtendSUBTRANS nx (shm_subtrans (cl_shm c))) nx = InvalidTransactionId"
    "xid_status (ExtendCLOG nx (shm_clog (cl_shm c))) nx = TRANSACTION_STATUS_IN_PROGRESS"
    using extend_next [OF old(2) b_def nx(1) nxw(2) order_refl] by auto
  have sok: "shm_ok B shm" "next_of shm = TransactionIdAdvance nx"
    using shm_ok_assign [OF old(2) b_def nx(1) nx(2) [folded b_def], of st] st by (simp_all add: shm)
  have ch: "childXids s = []" "?t = chron parents" "frames_ok parents"
    using session_okD(4) [OF ok] stack frames_prefix [of pre "s # parents"] chron_prefix [of pre "s # parents"]
    by (simp_all add: tree_of_def)
  have tree: "tree_of se' = ?t @ [nx]"
    using stack(2) ch nxw(5) chron_prefix [of pre "s\<lparr>fullTransactionId := nextXid (cl_shm c)\<rparr> # parents"]
    by (simp add: tree_of_def se' valid_xid xs_xid_def nx(1))
  have par: "?t = [] \<longleftrightarrow> parents = []" "parents \<noteq> [] \<Longrightarrow> xs_xid (hd parents) \<in> set ?t"
    using ch(2) stack(3) by (cases parents; auto)+
  let ?q = "if parents = [] then InvalidTransactionId else xs_xid (hd parents)"
  have lt: "in_window b x \<Longrightarrow> xoff b x < xoff b (TransactionIdAdvance nx) \<longleftrightarrow> xoff b x < xoff b nx \<or> x = nx" for x
    using advance_window(4) [OF nxw(1,4), of x] in_windowD(1) [of b x] xoff_inj [of b x nx] by (auto simp: order_le_less)
  have r: "running b (put i se' shm c) = ?r\<lparr>r_tree := (r_tree ?r)(i := r_tree ?r i @ [r_next ?r]),
      r_next := TransactionIdAdvance (r_next ?r), r_status := (r_status ?r)(r_next ?r := TRANSACTION_STATUS_IN_PROGRESS),
      r_parent := (r_parent ?r)(r_next ?r := ?q)\<rparr>"
  proof -
    have "mask_xid b shm (xid_status (shm_clog shm)) x = ((r_status ?r)(nx := TRANSACTION_STATUS_IN_PROGRESS)) x" for x
      using lt [of x] ExtendCLOG_old(1) [OF in_windowD(1) _ nxw(3), of b x "shm_clog (cl_shm c)"] fresh(2) nxw(1)
      by (auto simp: mask_xid_def sok(2) running_def nx(1) [symmetric]) (simp_all add: shm status_defs)
    moreover have "mask_xid b shm (parent_of (shm_subtrans shm)) x = ((r_parent ?r)(nx := ?q)) x" for x
      using lt [of x] ExtendSUBTRANS_old(1) [OF in_windowD(1) _ nxw(3), of b x "shm_subtrans (cl_shm c)"] fresh(1) nxw(1) st(2) [of x]
      by (auto simp: mask_xid_def sok(2) running_def nx(1) [symmetric]) (simp_all add: shm)
    moreover have "latest_of shm = latest_of (cl_shm c)" by (simp add: shm)
    moreover have "se_latestXid se' = None" using se(2) by (simp add: se')
    ultimately show ?thesis
      unfolding running_put [OF i] using tree i se sok(2) by (intro Running.equality) (auto simp: fun_eq_iff nx(1))
  qed
  have "run_step b n ?r (running b (put i se' shm c))"
    unfolding r by (rule run_assign) (use i' i se par nxw(4) in \<open>simp_all add: nx(1)\<close>)
  moreover have "grows b ?r (running b (put i se' shm c))" unfolding r by (auto simp: grows_def)
  moreover have "session_ok shm i se'"
  proof -
    have nt: "nx \<notin> set ?t" using tree_facts(2) [OF inv i b_def, of nx] se(1) nx(1) by auto
    have pi: "procArray shm ! i = assigned_proc (parents \<noteq> []) nx ?p" using i'(2) by (simp add: shm)
    have st': "xact_stack (se_be se') \<noteq> []" "frames_ok (xact_stack (se_be se'))" "\<forall>s\<in>set (xact_stack (se_be se')). \<not> xs_abort s"
      using stack session_okD(4) [OF ok] session_okD(11) [OF ok se(2)] ch(1,3) frames_prefix [of pre "s # parents"]
        frames_prefix [of pre "s\<lparr>fullTransactionId := nextXid (cl_shm c)\<rparr> # parents"]
      by (auto simp: se')
    have xi: "proc_xid (procArray shm ! i) = first_xid (?t @ [nx])"
      "XidFromFullTransactionId (XactTopFullTransactionId (se_be se')) = first_xid (?t @ [nx])"
      using session_okD(5,6) [OF ok] par(1) nx(1) unfolding pi
      by (auto simp: assigned_proc_def se' first_append first_xid_def split: list.splits)
    have sub: "distinct (proc_subxids (procArray shm ! i)) \<and> set (proc_subxids (procArray shm ! i)) \<subseteq> set (tl (?t @ [nx])) \<and>
      (\<not> proc_overflowed (procArray shm ! i) \<longrightarrow> set (proc_subxids (procArray shm ! i)) = set (tl (?t @ [nx])))"
      using session_okD(7-10) [OF ok] par(1) nt list.set_sel(2) [of ?t] unfolding pi
      by (cases "?t") (auto simp: assigned_proc_def)
    show ?thesis
      using st' xi sub session_okD(1,2) [OF ok] se(2) unfolding session_ok_def Let_def tree
      by (simp add: se')
  qed
  ultimately show ?thesis
    using se i' sok(1) by (intro quiet_step [OF inv i]) (auto simp: b_def n_def shm se' same_memory_def flagged_def assigned_proc_def)
qed

section \<open>A backend's whole stack\<close>

lemma put_twice [simp]: "put i se' shm' (put i se shm c) = put i se' shm' c"
  by (simp add: put_def)

lemma simulated_trans: "simulated B c c1 \<Longrightarrow> simulated B c1 c2 \<Longrightarrow> simulated B c c2"
  by (auto simp: simulated_def)

lemma simulated_refl: "cluster_inv B c \<Longrightarrow> simulated B c c"
  by (simp add: simulated_def)

definition assigned :: "XactXids list \<Rightarrow> FullTransactionId \<Rightarrow> Session \<Rightarrow> Session" where
  "assigned stack topfull se = se\<lparr>se_be := (se_be se)\<lparr>xact_stack := stack, XactTopFullTransactionId := topfull\<rparr>\<rparr>"

lemma assigned_simps [simp]:
  "assigned stack topfull (assigned stack' topfull' se) = assigned stack topfull se"
  "se_latestXid (assigned stack topfull se) = se_latestXid se" "xact_stack (se_be (assigned stack topfull se)) = stack"
  "XactTopFullTransactionId (se_be (assigned stack topfull se)) = topfull"
  by (simp_all add: assigned_def)

lemma assigned_id: "assigned (xact_stack (se_be se)) (XactTopFullTransactionId (se_be se)) se = se"
  by (simp add: assigned_def)

abbreviation has_xid :: "XactXids \<Rightarrow> bool" where
  "has_xid s \<equiv> FullTransactionIdIsValid (fullTransactionId s)"

text \<open>The frame on top of a stack whose parents all have ids.\<close>

lemma assign_top:
  assumes inv: "cluster_inv B c" and i: "i < length (cl_sessions c)" and se: "session c i = se" "se_latestXid se = None"
    and mode: "IsUnderPostmaster mode" "\<not> IsBootstrapProcessingMode mode"
    and stack: "xact_stack (se_be se) = pre @ s # parents" "\<forall>s\<in>set (pre @ [s]). \<not> has_xid s" "\<forall>s\<in>set parents. has_xid s"
    and get: "GetNewTransactionId mode i (parents \<noteq> []) (cl_shm c) = Inr (full, shm)"
  shows "parents = [] \<Longrightarrow> simulated B c (put i (assigned (pre @ s\<lparr>fullTransactionId := full\<rparr> # parents) full se) shm c)"
    and "parents \<noteq> [] \<Longrightarrow> \<exists>st. SubTransSetParent (XidFromFullTransactionId full) (xs_xid (hd parents)) (shm_subtrans shm) = Inr st \<and>
      simulated B c (put i (assigned (pre @ s\<lparr>fullTransactionId := full\<rparr> # parents) (XactTopFullTransactionId (se_be se)) se) (shm\<lparr>shm_subtrans := st\<rparr>) c)"
    and "has_xid (s\<lparr>fullTransactionId := full\<rparr>)"
proof -
  note old = cluster_invD [OF inv refl refl]
  note new = GetNew_result [OF old(2) refl mode get]
  note one = assign_one [OF inv i se stack refl new(2)]
  have nx: "in_window (XidFromFullTransactionId B) (next_of (cl_shm c))" using shm_ok_window(1) [OF old(2) refl] .
  then have v: "TransactionIdIsNormal (next_of (cl_shm c))" by (rule in_windowD)
  then have "TransactionIdIsValid (next_of (cl_shm c))" by (auto simp: xid_defs)
  then show "has_xid (s\<lparr>fullTransactionId := full\<rparr>)" using new(1) by (simp add: valid_xid)
  show "simulated B c (put i (assigned (pre @ s\<lparr>fullTransactionId := full\<rparr> # parents) full se) shm c)" if "parents = []"
    using one [OF _ _ refl refl, of "ExtendSUBTRANS (next_of (cl_shm c)) (shm_subtrans (cl_shm c))"] that new by (simp add: assigned_def)
  have has: "sub_has (shm_subtrans shm) (XidFromFullTransactionId full)"
    using extend_next [OF old(2) refl refl v order_refl] new(1,3) by simp
  show "\<exists>st. SubTransSetParent (XidFromFullTransactionId full) (xs_xid (hd parents)) (shm_subtrans shm) = Inr st \<and>
      simulated B c (put i (assigned (pre @ s\<lparr>fullTransactionId := full\<rparr> # parents) (XactTopFullTransactionId (se_be se)) se) (shm\<lparr>shm_subtrans := st\<rparr>) c)"
    if ne: "parents \<noteq> []"
  proof (rule SetParent_eq [OF has, of "xs_xid (hd parents)"])
    fix st assume st: "SubTransSetParent (XidFromFullTransactionId full) (xs_xid (hd parents)) (shm_subtrans shm) = Inr st"
      "\<And>y. sub_has st y \<longleftrightarrow> sub_has (shm_subtrans shm) y"
      "\<And>y. parent_of st y = (if y = XidFromFullTransactionId full then xs_xid (hd parents) else parent_of (shm_subtrans shm) y)"
    have "simulated B c (put i (assigned (pre @ s\<lparr>fullTransactionId := full\<rparr> # parents) (XactTopFullTransactionId (se_be se)) se) (shm\<lparr>shm_subtrans := st\<rparr>) c)"
      by (rule one [where st = st]) (use st(2,3) ne new(1,3) in \<open>simp_all add: assigned_def set_proc_def\<close>)
    then show ?thesis using st(1) by blast
  qed
qed

lemma assign_stack:
  assumes mode: "IsUnderPostmaster mode" "\<not> IsBootstrapProcessingMode mode"
  shows "AssignTransactionId mode i stack topfull shm = (err, stack', topfull', shm') \<Longrightarrow>
    cluster_inv B c \<Longrightarrow> i < length (cl_sessions c) \<Longrightarrow> session c i = se \<Longrightarrow> se_latestXid se = None \<Longrightarrow>
    xact_stack (se_be se) = pre @ stack \<Longrightarrow> XactTopFullTransactionId (se_be se) = topfull \<Longrightarrow> cl_shm c = shm \<Longrightarrow>
    \<forall>s\<in>set pre. \<not> has_xid s \<Longrightarrow> stack \<noteq> [] \<Longrightarrow> \<not> has_xid (hd stack) \<Longrightarrow>
    simulated B c (put i (assigned (pre @ stack') topfull' se) shm' c) \<and> (err = None \<longrightarrow> (\<forall>s\<in>set stack'. has_xid s) \<and> stack' \<noteq> [])"
proof (induction stack arbitrary: topfull shm err stack' topfull' shm' pre)
  case (Cons s parents)
  have "assigned (pre @ s # parents) topfull se = session c i" using assigned_id [of se] Cons.prems(4,6,7) by simp
  then have keep: "put i (assigned (pre @ s # parents) topfull se) shm c = c" using Cons.prems(8) by (simp add: put_def)
  note [simp] = Cons.prems(4-8)
  show ?case
  proof (cases "InParallelMode mode")
    case True
    then show ?thesis using Cons.prems(1) keep simulated_refl [OF Cons.prems(2)] by auto
  next
    case par: False
    define rest where "rest = (if parents \<noteq> [] \<and> \<not> has_xid (hd parents) then AssignTransactionId mode i parents topfull shm
      else (None, parents, topfull, shm))"
    obtain err1 parents1 topfull1 shm1 where rest: "rest = (err1, parents1, topfull1, shm1)" by (cases rest)
    let ?se1 = "assigned (pre @ s # parents1) topfull1 se" and ?c1 = "put i (assigned (pre @ s # parents1) topfull1 se) shm1 c"
    have "frames_ok (pre @ s # parents)"
      using session_okD(4) [OF cluster_invD(5) [OF Cons.prems(2) refl refl Cons.prems(3)]] by simp
    then have fr: "frames_ok (s # parents)" "\<not> has_xid s" using frames_prefix [of pre "s # parents"] Cons.prems(9,11) by simp_all
    have one: "simulated B c ?c1 \<and> (err1 = None \<longrightarrow> (\<forall>s\<in>set parents1. has_xid s) \<and> (parents1 = [] \<longleftrightarrow> parents = []))"
    proof (cases "parents \<noteq> [] \<and> \<not> has_xid (hd parents)")
      case True
      then show ?thesis using Cons.IH [of topfull shm err1 parents1 topfull1 shm1 "pre @ [s]"] Cons.prems rest fr(2) by (auto simp: rest_def)
    next
      case False
      then have "\<forall>s\<in>set parents. has_xid s" using fr(1) by (cases parents) auto
      then show ?thesis using False rest keep simulated_refl [OF Cons.prems(2)] by (auto simp: rest_def)
    qed
    have inv1: "cluster_inv B ?c1" using one by (simp add: simulated_def)
    have c1: "i < length (cl_sessions ?c1)" "session ?c1 i = ?se1" "se_latestXid ?se1 = None" "xact_stack (se_be ?se1) = pre @ s # parents1"
      "\<forall>s\<in>set (pre @ [s]). \<not> has_xid s" using Cons.prems(3,5,9) fr(2) by simp_all
    have res: "(err, stack', topfull', shm') = (case err1 of Some e \<Rightarrow> (Some e, s # parents1, topfull1, shm1)
      | None \<Rightarrow> (case GetNewTransactionId mode i (parents1 \<noteq> []) shm1 of
          Inl e \<Rightarrow> (Some (AssignVarsup e), s # parents1, topfull1, shm1)
        | Inr (full, shm) \<Rightarrow> if parents1 = [] then (None, s\<lparr>fullTransactionId := full\<rparr> # parents1, full, shm)
            else case SubTransSetParent (XidFromFullTransactionId full) (xs_xid (hd parents1)) (shm_subtrans shm) of
                   Inl e \<Rightarrow> (Some (AssignSubtrans e), s\<lparr>fullTransactionId := full\<rparr> # parents1, topfull1, shm)
                 | Inr st \<Rightarrow> (None, s\<lparr>fullTransactionId := full\<rparr> # parents1, topfull1, shm\<lparr>shm_subtrans := st\<rparr>)))"
      using Cons.prems(1) par unfolding AssignTransactionId.simps rest_def [symmetric] rest Let_def
      by (auto simp: xs_xid_def split: option.splits sum.splits if_splits)
    show ?thesis
    proof (cases "err1 = None \<and> \<not> isl (GetNewTransactionId mode i (parents1 \<noteq> []) shm1)")
      case False
      then have "err \<noteq> None" "stack' = s # parents1" "topfull' = topfull1" "shm' = shm1"
        using res by (auto split: option.splits sum.splits)
      then show ?thesis using one by auto
    next
      case True
      then obtain full shm2 where get: "GetNewTransactionId mode i (parents1 \<noteq> []) shm1 = Inr (full, shm2)" by (auto simp: isl_def) (metis old.sum.exhaust surj_pair)
      have all: "\<forall>s\<in>set parents1. has_xid s" using one True by simp
      note top = assign_top [OF inv1 c1(1-3) mode c1(4,5) all, of full shm2]
      show ?thesis
      proof (cases "parents1 = []")
        case ne: True
        then have r: "err = None" "stack' = s\<lparr>fullTransactionId := full\<rparr> # parents1" "topfull' = full" "shm' = shm2" using res True get by simp_all
        show ?thesis using simulated_trans [OF conjunct1 [OF one]] top(1,3) get ne all unfolding r by simp
      next
        case ne: False
        then obtain st where st: "SubTransSetParent (XidFromFullTransactionId full) (xs_xid (hd parents1)) (shm_subtrans shm2) = Inr st"
          "simulated B ?c1 (put i (assigned (pre @ s\<lparr>fullTransactionId := full\<rparr> # parents1) topfull1 se) (shm2\<lparr>shm_subtrans := st\<rparr>) ?c1)"
          using top(2) get by auto
        then have r: "err = None" "stack' = s\<lparr>fullTransactionId := full\<rparr> # parents1" "topfull' = topfull1" "shm' = shm2\<lparr>shm_subtrans := st\<rparr>"
          using res True get ne by simp_all
        show ?thesis using simulated_trans [OF conjunct1 [OF one] st(2)] top(3) get ne all unfolding r by simp
      qed
    qed
  qed
qed simp

lemma assign_inv:
  assumes inv: "cluster_inv B c" and i: "i < length (cl_sessions c)" and se: "session c i = se" "se_latestXid se = None"
    and mode: "IsUnderPostmaster mode" "\<not> IsBootstrapProcessingMode mode"
    and hd: "\<not> has_xid (hd (xact_stack (se_be se)))"
    and res: "AssignTransactionId mode i (xact_stack (se_be se)) (XactTopFullTransactionId (se_be se)) (cl_shm c) = (err, stack, topfull, shm)"
  shows "simulated B c (put i (se\<lparr>se_be := (se_be se)\<lparr>xact_stack := stack, XactTopFullTransactionId := topfull\<rparr>\<rparr>) shm c)"
proof -
  have "xact_stack (se_be se) \<noteq> []" using cluster_invD(5) [OF inv refl refl i] session_okD(3) se(1) by metis
  then show ?thesis
    using assign_stack [OF mode res inv i se, of "[]"] hd by (simp add: assigned_def)
qed

end
