(* ===== verification/ClusterSnapshot.thy ===== *)
theory ClusterSnapshot
  imports ClusterAssign
begin

text \<open>
  Taking and releasing snapshots: the scan of the array of running transactions builds what the
  contract asks of a snapshot, a reused snapshot still holds it, and the horizon a backend publishes
  stays below every snapshot it holds.
\<close>

section \<open>The scan\<close>

definition scanned :: "TransactionId \<Rightarrow> nat \<Rightarrow> TransactionId \<Rightarrow> (nat \<Rightarrow> TransactionId list) \<Rightarrow> PGPROC list \<Rightarrow> nat \<Rightarrow> bool" where
  "scanned b i xmax t ps j \<longleftrightarrow> j \<noteq> i \<and> t j \<noteq> [] \<and> xoff b (hd (t j)) < xoff b xmax \<and> \<not> flagged (ps ! j)"

definition scan_ok ::
    "TransactionId \<Rightarrow> nat \<Rightarrow> TransactionId \<Rightarrow> TransactionId \<Rightarrow> (nat \<Rightarrow> TransactionId list) \<Rightarrow> PGPROC list \<Rightarrow> snapshot_scan \<Rightarrow> bool" where
  "scan_ok b i xmax xmin t ps sc \<longleftrightarrow>
     in_window b (scan_xmin sc) \<and> xoff b (scan_xmin sc) \<le> xoff b xmin \<and>
     (scan_xmin sc = xmin \<or> (\<exists>j<length ps. scanned b i xmax t ps j \<and> scan_xmin sc = hd (t j))) \<and>
     (\<forall>j<length ps. scanned b i xmax t ps j \<longrightarrow> hd (t j) \<in> set (scan_xip sc) \<and> xoff b (scan_xmin sc) \<le> xoff b (hd (t j)) \<and>
        (scan_suboverflowed sc \<or> set (tl (t j)) \<subseteq> set (scan_subxip sc))) \<and>
     (\<forall>x\<in>set (scan_xip sc) \<union> set (scan_subxip sc). \<exists>j<length ps. scanned b i xmax t ps j \<and> x \<in> set (t j))"

definition proc_of :: "TransactionId list \<Rightarrow> PGPROC \<Rightarrow> bool" where
  "proc_of t p \<longleftrightarrow> proc_xid p = first_xid t \<and> set (proc_subxids p) \<subseteq> set (tl t) \<and>
     (\<not> proc_overflowed p \<longrightarrow> set (proc_subxids p) = set (tl t))"

lemma scan_proc_skip:
  assumes "proc_of (t j) p" "in_window b xmax" "t j \<noteq> [] \<Longrightarrow> in_window b (hd (t j))"
    and "\<not> (j \<noteq> i \<and> t j \<noteq> [] \<and> xoff b (hd (t j)) < xoff b xmax \<and> \<not> flagged p)"
  shows "scan_proc i xmax (j, p) sc = sc"
proof -
  have "proc_xid p = InvalidTransactionId \<or> t j \<noteq> [] \<and> proc_xid p = hd (t j)"
    using assms(1) by (cases "t j") (auto simp: proc_of_def first_xid_def)
  then show ?thesis using assms(2-4) by (auto simp: scan_proc_def flagged_def Let_def prec_window)
qed

lemma scan_proc_take:
  assumes "proc_of (t j) p" "in_window b xmax" "in_window b (hd (t j))" "in_window b (scan_xmin sc)"
    and "j \<noteq> i" "t j \<noteq> []" "xoff b (hd (t j)) < xoff b xmax" "\<not> flagged p"
  shows "scan_proc i xmax (j, p) sc =
    \<lparr>scan_xmin = (if xoff b (hd (t j)) < xoff b (scan_xmin sc) then hd (t j) else scan_xmin sc), scan_xip = scan_xip sc @ [hd (t j)],
     scan_subxip = (if scan_suboverflowed sc \<or> proc_overflowed p then scan_subxip sc else scan_subxip sc @ proc_subxids p),
     scan_suboverflowed = (scan_suboverflowed sc \<or> proc_overflowed p)\<rparr>"
proof -
  have x: "proc_xid p = hd (t j)" "proc_xid p \<noteq> InvalidTransactionId"
    using assms(1,3,6) by (auto simp: proc_of_def first_xid_def in_window_def xid_defs split: list.splits)
  show ?thesis using assms(2-5,7,8) unfolding scan_proc_def Let_def x(1) prod.case
    using x(2) [unfolded x(1)] by (auto simp: flagged_def prec_window intro!: snapshot_scan.equality)
qed

lemma scanned_snoc:
  "scanned b i xmax t (ps @ [p]) (length ps) \<longleftrightarrow>
     length ps \<noteq> i \<and> t (length ps) \<noteq> [] \<and> xoff b (hd (t (length ps))) < xoff b xmax \<and> \<not> flagged p"
  "j < length ps \<Longrightarrow> scanned b i xmax t (ps @ [p]) j \<longleftrightarrow> scanned b i xmax t ps j"
  by (simp_all add: scanned_def nth_append)

lemma ex_less_Suc: "(\<exists>j<Suc k. P j) \<longleftrightarrow> (\<exists>j<k. P j) \<or> P k"
  by (auto simp: less_Suc_eq)

lemma scan_ok_skip:
  assumes "scan_ok b i xmax xmin t ps sc" "\<not> scanned b i xmax t (ps @ [p]) (length ps)"
  shows "scan_ok b i xmax xmin t (ps @ [p]) sc"
  using assms unfolding scan_ok_def by (simp add: scanned_snoc(2) All_less_Suc ex_less_Suc cong: conj_cong)

lemma scan_ok_take:
  assumes ok: "scan_ok b i xmax xmin t ps sc" and p: "scanned b i xmax t (ps @ [p]) (length ps)" "proc_of (t (length ps)) p"
    "in_window b (hd (t (length ps)))"
  shows "scan_ok b i xmax xmin t (ps @ [p])
    \<lparr>scan_xmin = (if xoff b (hd (t (length ps))) < xoff b (scan_xmin sc) then hd (t (length ps)) else scan_xmin sc),
     scan_xip = scan_xip sc @ [hd (t (length ps))],
     scan_subxip = (if scan_suboverflowed sc \<or> proc_overflowed p then scan_subxip sc else scan_subxip sc @ proc_subxids p),
     scan_suboverflowed = (scan_suboverflowed sc \<or> proc_overflowed p)\<rparr>"
    (is "scan_ok _ _ _ _ _ _ ?sc")
proof -
  let ?t = "t (length ps)"
  have ne: "?t \<noteq> []" using p(1) by (simp add: scanned_def)
  note ok = ok [unfolded scan_ok_def]
  show ?thesis unfolding scan_ok_def
  proof (intro conjI ballI allI impI)
    show "in_window b (scan_xmin ?sc)" "xoff b (scan_xmin ?sc) \<le> xoff b xmin" using ok p(3) by auto
    show "scan_xmin ?sc = xmin \<or> (\<exists>j<length (ps @ [p]). scanned b i xmax t (ps @ [p]) j \<and> scan_xmin ?sc = hd (t j))"
      using ok p(1) by (auto simp: ex_less_Suc scanned_snoc(2) cong: conj_cong)
  next
    fix j assume "j < length (ps @ [p])" "scanned b i xmax t (ps @ [p]) j"
    then consider "j = length ps" | "j < length ps" "scanned b i xmax t ps j" by (auto simp: less_Suc_eq scanned_snoc(2))
    then have "hd (t j) \<in> set (scan_xip ?sc) \<and> xoff b (scan_xmin ?sc) \<le> xoff b (hd (t j)) \<and>
      (scan_suboverflowed ?sc \<or> set (tl (t j)) \<subseteq> set (scan_subxip ?sc))"
    proof cases
      case 1
      then show ?thesis using p(2) by (auto simp: proc_of_def)
    next
      case 2
      then show ?thesis using ok by auto
    qed
    then show "hd (t j) \<in> set (scan_xip ?sc)" "xoff b (scan_xmin ?sc) \<le> xoff b (hd (t j))"
      "scan_suboverflowed ?sc \<or> set (tl (t j)) \<subseteq> set (scan_subxip ?sc)" by blast+
  next
    fix x assume "x \<in> set (scan_xip ?sc) \<union> set (scan_subxip ?sc)"
    then have "x \<in> set (scan_xip sc) \<union> set (scan_subxip sc) \<or> x \<in> set ?t"
      using p(2) ne list.set_sel(2) [OF ne] by (auto simp: proc_of_def split: if_splits)
    then show "\<exists>j<length (ps @ [p]). scanned b i xmax t (ps @ [p]) j \<and> x \<in> set (t j)"
      using ok p(1) by (auto simp: ex_less_Suc scanned_snoc(2) cong: conj_cong)
  qed
qed

lemma scan_fold:
  assumes xmax: "in_window b xmax" and xmin: "in_window b xmin"
  shows "\<forall>j<length ps. proc_of (t j) (ps ! j) \<and> (t j \<noteq> [] \<longrightarrow> in_window b (hd (t j))) \<Longrightarrow>
    scan_ok b i xmax xmin t ps (fold (scan_proc i xmax) (enumerate 0 ps)
      \<lparr>scan_xmin = xmin, scan_xip = [], scan_subxip = [], scan_suboverflowed = False\<rparr>)"
proof (induction ps rule: rev_induct)
  case Nil
  then show ?case using xmin by (simp add: scan_ok_def)
next
  case (snoc p ps)
  let ?sc = "fold (scan_proc i xmax) (enumerate 0 ps) \<lparr>scan_xmin = xmin, scan_xip = [], scan_subxip = [], scan_suboverflowed = False\<rparr>"
  let ?j = "length ps"
  have IH: "scan_ok b i xmax xmin t ps ?sc" 
  proof (rule snoc.IH, intro allI impI)
    fix j assume "j < length ps"
    then show "proc_of (t j) (ps ! j) \<and> (t j \<noteq> [] \<longrightarrow> in_window b (hd (t j)))"
      using snoc.prems [rule_format, of j] by (simp add: nth_append)
  qed
  have p: "proc_of (t ?j) p" "t ?j \<noteq> [] \<Longrightarrow> in_window b (hd (t ?j))"
    using snoc.prems [rule_format, of ?j] by (simp_all add: nth_append)
  have eq: "fold (scan_proc i xmax) (enumerate 0 (ps @ [p])) s = scan_proc i xmax (?j, p) (fold (scan_proc i xmax) (enumerate 0 ps) s)" for s
    by (simp add: enumerate_append_eq)
  show ?case
  proof (cases "scanned b i xmax t (ps @ [p]) ?j")
    case False
    then have "scan_proc i xmax (?j, p) ?sc = ?sc" unfolding scanned_snoc by (intro scan_proc_skip [of t ?j, OF p(1) xmax p(2)])
    then show ?thesis using scan_ok_skip [OF IH False] unfolding eq by simp
  next
    case True
    then have c: "?j \<noteq> i" "t ?j \<noteq> []" "xoff b (hd (t ?j)) < xoff b xmax" "\<not> flagged p" by (simp_all add: scanned_snoc)
    have "in_window b (scan_xmin ?sc)" using IH by (simp add: scan_ok_def)
    note take = scan_proc_take [of t ?j, OF p(1) xmax p(2) [OF c(2)] this c]
    show ?thesis unfolding eq take by (intro scan_ok_take [OF IH True p(1)] p(2) c(2))
  qed
qed

section \<open>Taking a snapshot\<close>

text \<open>What \<^verbatim>\<open>GetSnapshotData\<close> changes besides the snapshot.\<close>

definition same_xact :: "BackendState \<Rightarrow> BackendState \<Rightarrow> bool" where
  "same_xact be be' \<longleftrightarrow> xact_stack be' = xact_stack be \<and> pgxactoff be' = pgxactoff be \<and> ParallelCurrentXids be' = ParallelCurrentXids be \<and>
     XactTopFullTransactionId be' = XactTopFullTransactionId be"

definition same_caches :: "BackendState \<Rightarrow> BackendState \<Rightarrow> bool" where
  "same_caches be be' \<longleftrightarrow> cachedXidIsNotInProgress be' = cachedXidIsNotInProgress be \<and> be_fetch_cache be' = be_fetch_cache be"

lemma GetSnapshotData_effect:
  assumes "GetSnapshotData s be shm = (snap, be', shm')" "pgxactoff be = i"
  shows "shm' = (if TransactionIdIsValid (proc_xmin (procArray shm ! i)) then shm
      else set_proc i ((procArray shm ! i)\<lparr>proc_xmin := snap_xmin snap\<rparr>) shm)" (is ?e)
    and "RecentXmin be' = snap_xmin snap" (is ?r)
    and "be_TransactionXmin be' = (if TransactionIdIsValid (proc_xmin (procArray shm ! i)) then be_TransactionXmin be else snap_xmin snap)" (is ?t)
    and "same_xact be be'" (is ?x) and "same_caches be be'" (is ?m)
    and "snapXactCompletionCount snap = xactCompletionCount shm" (is ?c)
proof -
  consider (reuse) "snapXactCompletionCount s = xactCompletionCount shm" "GetSnapshotDataReuse s be shm = Some (snap, be', shm')"
    | (new) "GetSnapshotDataReuse s be shm = None"
    using assms(1) by (cases "GetSnapshotDataReuse s be shm") (auto simp: GetSnapshotData_def GetSnapshotDataReuse_def split: if_splits)
  note cases = this
  have "?e \<and> ?r \<and> ?t \<and> ?x \<and> ?m \<and> ?c"
    using cases
  proof cases
    case reuse
    then show ?thesis using assms(2) by (cases "TransactionIdIsValid (proc_xmin (procArray shm ! i))")
        (auto simp: GetSnapshotDataReuse_def MyProc_def same_xact_def same_caches_def Let_def split: if_splits)
  next
    case new
    then show ?thesis using assms
      by (cases "TransactionIdIsValid (proc_xmin (procArray shm ! i))")
        (auto simp add: GetSnapshotData_def MyProc_def same_xact_def same_caches_def snapshot_global_vis_def Let_def simp del: fold_simps enumerate_simps split del: if_split)
  qed
  then show ?e ?r ?t ?x ?m ?c by blast+
qed

lemma proc_of_session: "session_ok shm i se \<Longrightarrow> proc_of (tree_of se) (procArray shm ! i)"
  by (simp add: session_ok_def proc_of_def Let_def)

lemma GetSnapshotData_new:
  assumes "GetSnapshotDataReuse s be shm = None" "GetSnapshotData s be shm = (snap, be', shm')" "\<not> RecoveryInProgress shm"
    and "xmax = TransactionIdAdvance (latest_of shm)" "myxid = proc_xid (procArray shm ! pgxactoff be)"
    and "xmin = (if TransactionIdIsNormal myxid \<and> NormalTransactionIdPrecedes myxid xmax then myxid else xmax)"
    and "sc = fold (scan_proc (pgxactoff be) xmax) (enumerate 0 (procArray shm))
           \<lparr>scan_xmin = xmin, scan_xip = [], scan_subxip = [], scan_suboverflowed = False\<rparr>"
  shows "snap_xmin snap = scan_xmin sc \<and> snap_xmax snap = xmax \<and> snap_xip snap = scan_xip sc \<and> snap_subxip snap = scan_subxip sc \<and>
    snap_suboverflowed snap = scan_suboverflowed sc \<and> \<not> snap_takenDuringRecovery snap"
  using assms(1-3) unfolding GetSnapshotData_def Let_def assms(4-7)
  by (cases "TransactionIdIsValid (proc_xmin (MyProc be shm))") (auto simp: set_proc_def split del: if_split)

lemma reuse_current:
  assumes "GetSnapshotDataReuse s be shm = Some (snap, be', shm')"
  shows "snap = s\<lparr>snap_curcid := currentCommandId be\<rparr>" "snapXactCompletionCount s \<noteq> 0" "snapXactCompletionCount s = xactCompletionCount shm"
  using assms by (auto simp: GetSnapshotDataReuse_def Let_def split: if_splits)

lemma not_normal_invalid [simp]: "\<not> TransactionIdIsNormal InvalidTransactionId"
  by (simp add: xid_defs)

lemma scan_current:
  assumes inv: "run_inv b n r" and rm: "room b r" and i: "i < n" and ps: "length ps = n"
    and procs: "\<And>j. j < n \<Longrightarrow> proc_of (r_tree r j) (ps ! j)"
    and xmax: "xmax = TransactionIdAdvance (r_latest r)"
    and xmin: "xmin = (if TransactionIdIsNormal myxid \<and> NormalTransactionIdPrecedes myxid xmax then myxid else xmax)" "myxid = proc_xid (ps ! i)"
    and snap: "scan_ok b i xmax xmin (r_tree r) ps sc" "snap_xmin snap = scan_xmin sc" "snap_xmax snap = xmax" "snap_xip snap = scan_xip sc"
      "snap_subxip snap = scan_subxip sc" "snap_suboverflowed snap = scan_suboverflowed sc" "\<not> snap_takenDuringRecovery snap"
  shows "snap_current b n (\<lambda>j. flagged (ps ! j)) r i snap"
proof -
  note al = advance_latest [OF inv rm]
  note ok = snap(1) [unfolded scan_ok_def ps]
  have hdw: "in_window b (hd (r_tree r j))" if "j < n" "r_tree r j \<noteq> []" for j
    using run_inv_tree [OF inv that(1)] that(2) by (auto simp: tree_inv_def r_assigned_def)
  have my: "myxid = (if r_tree r i = [] then InvalidTransactionId else hd (r_tree r i))"
    using procs [OF i] xmin(2) by (auto simp: proc_of_def first_xid_def split: list.splits)
  have xm: "xmin = (if r_tree r i \<noteq> [] \<and> xoff b (hd (r_tree r i)) < xoff b xmax then hd (r_tree r i) else xmax)"
    using hdw [OF i] al(1) in_windowD(1) [OF hdw [OF i]] unfolding xmin(1) my xmax
    by (auto simp: prec_window not_normal_invalid)
  have xw: "in_window b xmax" "xoff b xmin \<le> xoff b xmax" using al(1) xm by (auto simp: xmax)
  have low: "xoff b (scan_xmin sc) \<le> xoff b (hd (r_tree r j))" if "j < n" "j = i \<or> \<not> flagged (ps ! j)" "r_tree r j \<noteq> []" for j
  proof (cases "xoff b (hd (r_tree r j)) < xoff b xmax")
    case True
    then show ?thesis using that ok xm by (cases "j = i") (auto simp: scanned_def)
  next
    case False
    then show ?thesis using ok xw(2) by linarith
  qed
  have "covers b (scan_xmin sc) xmax (set (scan_xip sc)) (set (scan_subxip sc)) (scan_suboverflowed sc) (r_tree r j)"
    if "j < n" "\<not> (j = i \<or> flagged (ps ! j))" for j
    using ok that by (auto simp: covers_def scanned_def)
  moreover have "\<exists>j<n. \<not> (j = i \<or> flagged (ps ! j)) \<and> x \<in> set (r_tree r j)" if "x \<in> set (scan_xip sc) \<union> set (scan_subxip sc)" for x
    using ok that by (auto simp: scanned_def)
  moreover have "scan_xmin sc = xmax \<or> (\<exists>j<n. (j = i \<or> \<not> flagged (ps ! j)) \<and> r_tree r j \<noteq> [] \<and> scan_xmin sc = hd (r_tree r j))"
    using ok xm i by (auto simp: scanned_def split: if_splits)
  ultimately show ?thesis
    using ok xw low snap(7) unfolding snap_current_def snap_holds_def lower_def snap(2-6) by (auto simp: xmax)
qed

lemma fresh_current:
  assumes inv: "cluster_inv B c" "b = XidFromFullTransactionId B" "n = length (cl_sessions c)" and i: "i < n"
    and new: "GetSnapshotDataReuse s (se_be (session c i)) (cl_shm c) = None"
    and get: "GetSnapshotData s (se_be (session c i)) (cl_shm c) = (snap, be, shm)"
  shows "snap_current b n (flags c) (running b c) i snap"
proof -
  note old = cluster_invD [OF inv]
  have off: "pgxactoff (se_be (session c i)) = i" using session_okD(1) [OF old(5) [OF i]] .
  have tr: "r_tree (running b c) j = tree_of (session c j)" if "j < n" for j using that inv(3) by simp
  have rec: "\<not> RecoveryInProgress (cl_shm c)" using shm_ok_window(8) [OF old(2) inv(2)] .
  note new = GetSnapshotData_new [OF new get rec refl refl refl refl]
  have procs: "proc_of (r_tree (running b c) j) (procArray (cl_shm c) ! j)" if "j < n" for j
    using proc_of_session [OF old(5) [OF that]] tr [OF that] by simp
  have hdw: "in_window b (hd (r_tree (running b c) j))" if "j < n" "r_tree (running b c) j \<noteq> []" for j
    using run_inv_tree [OF old(3) that(1)] that(2) by (auto simp: tree_inv_def r_assigned_def)
  have mw: "in_window b (proc_xid (procArray (cl_shm c) ! i))" if "TransactionIdIsNormal (proc_xid (procArray (cl_shm c) ! i))"
    using procs [OF i] hdw [OF i] that by (auto simp: proc_of_def first_xid_def xid_defs split: list.splits)
  note al = advance_latest [OF old(3,4)]
  show ?thesis
    by (rule scan_current [OF old(3,4) i old(1) procs refl refl refl scan_fold])
      (use new off al(1) mw procs hdw old(1) in auto)
qed

lemma snapshot_current:
  assumes inv: "cluster_inv B c" "b = XidFromFullTransactionId B" "n = length (cl_sessions c)" and i: "i < n"
    and get: "GetSnapshotData (se_current (session c i)) (se_be (session c i)) (cl_shm c) = (snap, be, shm)"
  shows "snap_current b n (flags c) (running b c) i snap"
proof (cases "GetSnapshotDataReuse (se_current (session c i)) (se_be (session c i)) (cl_shm c)")
  case (Some r)
  then have "GetSnapshotDataReuse (se_current (session c i)) (se_be (session c i)) (cl_shm c) = Some (snap, be, shm)"
    using get by (simp add: GetSnapshotData_def)
  note re = reuse_current [OF this]
  have "snap_current b n (flags c) (running b c) i (se_current (session c i))"
    using cluster_invD(8) [OF inv i] re(2,3) by (simp add: static_ok_def Let_def)
  then show ?thesis unfolding re(1) by (simp add: snap_current_def)
next
  case None
  then show ?thesis by (rule fresh_current [OF inv i _ get])
qed

section \<open>Steps on a backend's own entry\<close>

definition same_proc_xids :: "PGPROC \<Rightarrow> PGPROC \<Rightarrow> bool" where
  "same_proc_xids p q \<longleftrightarrow> proc_xid q = proc_xid p \<and> proc_subxids q = proc_subxids p \<and> proc_overflowed q = proc_overflowed p"

lemma proc_step:
  fixes B :: FullTransactionId
  defines "b \<equiv> XidFromFullTransactionId B"
  assumes inv: "cluster_inv B c" and i: "i < length (cl_sessions c)" and n: "n = length (cl_sessions c)"
    and se: "same_xact (se_be (session c i)) (se_be se)" "same_caches (se_be (session c i)) (se_be se)" "se_latestXid se = se_latestXid (session c i)"
    and p: "same_proc_xids (procArray (cl_shm c) ! i) p" "tree_of se \<noteq> [] \<Longrightarrow> flagged p = flags c i"
    and shm: "shm = set_proc i p (cl_shm c)"
    and ok: "xmin_ok b n (flags (put i se shm c)) (running b c) i p se"
      "static_ok b n (flags (put i se shm c)) (xactCompletionCount (cl_shm c)) (running b c) i se"
  shows "simulated B c (put i se shm c)"
proof -
  note old = cluster_invD [OF inv b_def [THEN meta_eq_to_obj_eq] n]
  have i': "i < n" "i < length (procArray (cl_shm c))" using i n old(1) by simp_all
  have pi: "procArray shm ! i = p" using i'(2) by (simp add: shm)
  have so: "session_ok (cl_shm c) i se" "tree_of se = tree_of (session c i)"
    using session_ok_cong [OF old(5) [OF i'(1)], of se] se by (simp_all add: same_xact_def)
  have so': "session_ok shm i se" using so(1) p(1) by (simp add: session_ok_def same_proc_xids_def pi Let_def)
  have r: "running b (put i se shm c) = running b c"
    by (rule running_put_same [OF i so(2)]) (simp_all add: se shm)
  have shm': "shm_ok B shm" using old(2) by (simp add: shm)
  have fl: "\<forall>j<n. r_tree (running b c) j \<noteq> [] \<longrightarrow> flags (put i se shm c) j = flags c j"
  proof (intro allI impI)
    fix j assume "j < n" "r_tree (running b c) j \<noteq> []"
    then show "flags (put i se shm c) j = flags c j" using p(2) so(2) i'(2) n by (cases "j = i") (simp_all add: shm)
  qed
  have memo: "memo_ok b n (flags (put i se shm c)) (running b c) i se"
    by (rule memo_ok_cong [OF memo_ok_steps [OF rtranclp.rtrancl_refl old(3) fl old(7) [OF i'(1)]]])
      (use se(2) in \<open>simp_all add: same_caches_def\<close>)
  show ?thesis
    by (rule cluster_inv_put [OF inv i refl n])
      (use shm' so' p(2) ok memo in \<open>simp_all add: b_def [symmetric] r [unfolded shm] grows_refl shm i'\<close>)
qed

lemma flags_same:
  assumes "flagged p = flags c i"
  shows "flags (put i se (set_proc i p (cl_shm c)) c) = flags c"
proof
  fix j
  show "flags (put i se (set_proc i p (cl_shm c)) c) j = flags c j"
    using assms by (cases "i < length (procArray (cl_shm c))"; cases "j = i") (simp_all add: set_proc_def list_update_beyond)
qed

lemma snapshot_inv:
  assumes inv: "cluster_inv B c" and i: "i < length (cl_sessions c)" and se: "session c i = se"
    and get: "GetSnapshotData (se_current se) (se_be se) (cl_shm c) = (snap, be, shm)"
  shows "simulated B c (put i (se\<lparr>se_be := be, se_current := snap, se_held := CopySnapshot snap # se_held se\<rparr>) shm c)"
proof -
  define b n where "b = XidFromFullTransactionId B" and "n = length (cl_sessions c)"
  note old = cluster_invD [OF inv b_def n_def]
  have i': "i < n" using i by (simp add: n_def)
  let ?p = "procArray (cl_shm c) ! i" and ?se = "se\<lparr>se_be := be, se_current := snap, se_held := CopySnapshot snap # se_held se\<rparr>"
  let ?v = "TransactionIdIsValid (proc_xmin ?p)" and ?r = "running b c"
  let ?q = "if ?v then ?p else ?p\<lparr>proc_xmin := snap_xmin snap\<rparr>"
  have off: "pgxactoff (se_be se) = i" using session_okD(1) [OF old(5) [OF i']] se by simp
  note eff = GetSnapshotData_effect [OF get off]
  have cur: "snap_current b n (flags c) ?r i snap" using snapshot_current [OF inv b_def n_def i'] get se by simp
  have shm: "shm = set_proc i ?q (cl_shm c)" using eff(1) by (simp add: set_proc_def)
  have fl: "flags (put i ?se shm c) = flags c" unfolding shm by (rule flags_same) (simp add: flagged_def)
  have xo: "xmin_ok b n (flags c) ?r i ?p se" using old(6) [OF i'] se by simp
  have low: "lower b n (flags c) ?r i (snap_xmin snap)" "\<not> snap_takenDuringRecovery snap" using cur by (simp_all add: snap_current_def)
  have le: "xoff b y \<le> xoff b (snap_xmin snap)" if "lower b n (flags c) ?r i y" for y
    using cur that by (auto simp: snap_current_def snap_holds_def lower_def)
  have le2: "xoff b (be_TransactionXmin (se_be se)) \<le> xoff b (snap_xmin snap)"
    using xo le [of "RecentXmin (se_be se)"] by (auto simp: xmin_ok_def Let_def)
  have xm: "xmin_ok b n (flags c) ?r i ?q ?se"
  proof (cases ?v)
    case True
    then have "lower b n (flags c) ?r i (proc_xmin ?p)" using xo by (auto simp: xmin_ok_def Let_def xid_defs)
    note le = le [OF this]
    show ?thesis using xo low le le2 eff(2,3) True by (auto simp: xmin_ok_def Let_def CopySnapshot_def xid_defs)
  next
    case False
    then have "se_held se = []" using xo by (auto simp: xmin_ok_def Let_def lower_def window_valid)
    then show ?thesis using low eff(2,3) False by (auto simp: xmin_ok_def Let_def CopySnapshot_def lower_def)
  qed
  show ?thesis
    by (rule proc_step [OF inv i n_def _ _ _ _ _ shm])
      (use se eff(4-6) xm cur fl in \<open>simp_all add: same_proc_xids_def flagged_def static_ok_def b_def Let_def\<close>)
qed

section \<open>Releasing snapshots\<close>

lemma min_snapshot_least:
  "\<forall>t\<in>set (s # ss). in_window b (snap_xmin t) \<Longrightarrow>
   min_snapshot s ss \<in> set (s # ss) \<and> (\<forall>t\<in>set (s # ss). xoff b (snap_xmin (min_snapshot s ss)) \<le> xoff b (snap_xmin t))"
proof (induction ss arbitrary: s)
  case (Cons t ss)
  let ?m = "if TransactionIdPrecedes (snap_xmin t) (snap_xmin s) then t else s"
  have "min_snapshot ?m ss \<in> set (?m # ss) \<and> (\<forall>u\<in>set (?m # ss). xoff b (snap_xmin (min_snapshot ?m ss)) \<le> xoff b (snap_xmin u))"
    using Cons.prems by (intro Cons.IH) auto
  moreover have "xoff b (snap_xmin ?m) \<le> xoff b (snap_xmin s)" "xoff b (snap_xmin ?m) \<le> xoff b (snap_xmin t)"
    using Cons.prems by (auto simp: prec_window(1) [of b])
  ultimately show ?case by (auto split: if_splits)
qed simp

lemma release_inv:
  assumes inv: "cluster_inv B c" and i: "i < length (cl_sessions c)" and se: "session c i = se" and held: "set held \<subseteq> set (se_held se)"
  shows "simulated B c (put i (se\<lparr>se_held := held\<rparr>) (set_proc i (SnapshotResetXmin active held (procArray (cl_shm c) ! i)) (cl_shm c)) c)"
proof -
  define b n where "b = XidFromFullTransactionId B" and "n = length (cl_sessions c)"
  note old = cluster_invD [OF inv b_def n_def]
  have i': "i < n" using i by (simp add: n_def)
  let ?p = "procArray (cl_shm c) ! i" and ?se = "se\<lparr>se_held := held\<rparr>"
  define q where "q = SnapshotResetXmin active held ?p"
  have xo: "xmin_ok b n (flags c) (running b c) i ?p se" using old(6) [OF i'] se by simp
  have q: "same_proc_xids ?p q" "flagged q = flags c i"
    by (auto simp: q_def SnapshotResetXmin_def same_proc_xids_def flagged_def Let_def split: list.splits)
  have fl: "flags (put i ?se (set_proc i q (cl_shm c)) c) = flags c" by (rule flags_same [OF q(2)])
  have hl: "lower b n (flags c) (running b c) i (snap_xmin s)" "xoff b (proc_xmin ?p) \<le> xoff b (snap_xmin s)" "\<not> snap_takenDuringRecovery s"
    "lower b n (flags c) (running b c) i (proc_xmin ?p)" "xoff b (be_TransactionXmin (se_be se)) \<le> xoff b (proc_xmin ?p)"
    if "s \<in> set held" for s
    using xo that held by (auto simp: xmin_ok_def Let_def)
  have "xmin_ok b n (flags c) (running b c) i q ?se"
  proof (cases "active \<or> held = []")
    case True
    then show ?thesis using xo held by (auto simp: q_def SnapshotResetXmin_def xmin_ok_def Let_def)
  next
    case False
    then obtain s ss where h: "held = s # ss" "\<not> active" by (cases held) auto
    let ?m = "min_snapshot s ss"
    have m: "?m \<in> set held" "\<forall>t\<in>set held. xoff b (snap_xmin ?m) \<le> xoff b (snap_xmin t)"
      using min_snapshot_least [of s ss b] hl(1) unfolding h by (auto simp: lower_def)
    have qx: "proc_xmin q = (if xoff b (proc_xmin ?p) < xoff b (snap_xmin ?m) then snap_xmin ?m else proc_xmin ?p)"
      using hl(1,4) [OF m(1)] h by (auto simp: q_def SnapshotResetXmin_def Let_def lower_def prec_window(1) [of b])
    have "in_window b (be_TransactionXmin (se_be se)) \<and> xoff b (be_TransactionXmin (se_be se)) \<le> xoff b (RecentXmin (se_be se)) \<and>
      lower b n (flags c) (running b c) i (RecentXmin (se_be se))" using xo by (auto simp: xmin_ok_def Let_def)
    moreover have "lower b n (flags c) (running b c) i (proc_xmin q)" "xoff b (be_TransactionXmin (se_be se)) \<le> xoff b (proc_xmin q)"
      using hl(1,4,5) [OF m(1)] qx by auto
    moreover have "xoff b (proc_xmin q) \<le> xoff b (snap_xmin t)" if "t \<in> set held" for t using hl(2) [OF that] m(2) that qx by auto
    ultimately show ?thesis using hl(1,3) by (auto simp: xmin_ok_def Let_def)
  qed
  then show ?thesis
    unfolding q_def [symmetric]
    by (intro proc_step [OF inv i n_def _ _ _ q(1) _ refl])
      (use se fl q(2) static_ok_cong [OF old(8) [OF i'], of ?se] in \<open>simp_all add: same_xact_def same_caches_def b_def\<close>)
qed

section \<open>A backend that starts vacuuming\<close>

lemma vacuum_inv:
  assumes inv: "cluster_inv B c" and i: "i < length (cl_sessions c)" and se: "session c i = se" and held: "se_held se = []"
    and xid: "\<not> TransactionIdIsValid (proc_xid (procArray (cl_shm c) ! i))" "\<not> TransactionIdIsValid (proc_xmin (procArray (cl_shm c) ! i))"
  shows "simulated B c (put i se (start_vacuum w i (cl_shm c)) c)"
proof -
  define b n where "b = XidFromFullTransactionId B" and "n = length (cl_sessions c)"
  note old = cluster_invD [OF inv b_def n_def]
  have i': "i < n" using i by (simp add: n_def)
  let ?p = "procArray (cl_shm c) ! i" and ?r = "running b c"
  define q where "q = ?p\<lparr>proc_statusFlags := if w then proc_statusFlags ?p OR PROC_IN_VACUUM OR PROC_VACUUM_FOR_WRAPAROUND
    else proc_statusFlags ?p OR PROC_IN_VACUUM\<rparr>"
  define F where "F = flags (put i se (set_proc i q (cl_shm c)) c)"
  have shm: "start_vacuum w i (cl_shm c) = set_proc i q (cl_shm c)" by (simp add: start_vacuum_def q_def Let_def or.assoc)
  have t: "tree_of se = []"
    using session_okD(5) [OF old(5) [OF i']] xid(1) tree_facts(3) [OF inv i b_def] se by (auto simp: first_xid_def split: list.splits)
  have "F j = flags c j" if "j < n" "r_tree ?r j \<noteq> []" for j
    using that t se by (cases "j = i") (simp_all add: F_def n_def)
  then have fl: "\<forall>j<n. r_tree ?r j \<noteq> [] \<longrightarrow> F j = flags c j" by blast
  have xo: "xmin_ok b n F ?r i ?p se" using xmin_ok_steps [OF rtranclp.rtrancl_refl old(3,4) fl old(6) [OF i']] se by simp
  have "proc_xmin q = proc_xmin ?p" by (simp add: q_def)
  then have "xmin_ok b n F ?r i q se" using xo by (simp add: xmin_ok_def)
  moreover have "static_ok b n F (xactCompletionCount (cl_shm c)) ?r i se"
    using static_ok_steps [OF rtranclp.rtrancl_refl old(3,4) fl _ old(8) [OF i']] se grows_refl by blast
  ultimately show ?thesis
    unfolding shm by (intro proc_step [OF inv i n_def _ _ _ _ _ refl])
      (use se t in \<open>simp_all add: same_xact_def same_caches_def same_proc_xids_def q_def b_def F_def\<close>)
qed

end
