(* ===== verification/ClusterLookup.thy ===== *)
theory ClusterLookup
  imports ClusterSnapshot
begin

text \<open>
  \<^verbatim>\<open>TransactionIdIsInProgress\<close> over the shared state: the search of a backend's own stack, the scan of the
  array, and the walk to the topmost transaction for subtransactions that are not cached.
\<close>

section \<open>A backend's own ids\<close>

lemma chron_set: "set (chron st) = (\<Union>s\<in>set st. if has_xid s then set (xs_xid s # childXids s) else {})"
  by (induction st) auto

lemma search_children:
  assumes "sorted_wrt (\<lambda>x y. xoff b x < xoff b y) xs" "\<forall>y\<in>set xs. in_window b y" "in_window b x"
  shows "xid_search TransactionIdPrecedes x xs 0 (int (length xs) - 1) \<longleftrightarrow> x \<in> set xs"
proof (rule xid_search_all)
  show "sorted_wrt TransactionIdPrecedes xs"
    using sorted_wrt_mono_rel [OF _ assms(1), of TransactionIdPrecedes] assms(2) prec_window(1) by blast
  show "\<forall>y\<in>set (x # xs). \<forall>z\<in>set (x # xs). TransactionIdPrecedes y z \<longrightarrow> \<not> TransactionIdPrecedes z y"
    using assms(2,3) by (auto simp: prec_window(1) [of b])
qed

lemma current_in_stack_iff:
  assumes "sorted_wrt (\<lambda>x y. xoff b x < xoff b y) (chron st)" "\<forall>y\<in>set (chron st). in_window b y" "in_window b x"
  shows "current_in_stack x st \<longleftrightarrow> (\<exists>s\<in>set st. \<not> xs_abort s \<and> has_xid s \<and> x \<in> set (xs_xid s # childXids s))"
  using assms(1,2)
proof (induction st)
  case (Cons s st)
  then have IH: "current_in_stack x st \<longleftrightarrow> (\<exists>s\<in>set st. \<not> xs_abort s \<and> has_xid s \<and> x \<in> set (xs_xid s # childXids s))"
    by (auto simp: sorted_wrt_append)
  show ?case
  proof (cases "has_xid s")
    case True
    then have "xid_search TransactionIdPrecedes x (childXids s) 0 (int (length (childXids s)) - 1) \<longleftrightarrow> x \<in> set (childXids s)"
      using Cons.prems assms(3) by (intro search_children) (auto simp: sorted_wrt_append)
    then show ?thesis using IH True by auto
  qed (use IH in auto)
qed simp

abbreviation own_xid :: "BackendState \<Rightarrow> TransactionId \<Rightarrow> bool" where
  "own_xid be \<equiv> TransactionIdIsCurrentTransactionId (XactTopFullTransactionId be) (ParallelCurrentXids be) (xact_stack be)"

lemma own_current:
  assumes "session_ok shm i se" and t: "sorted_wrt (\<lambda>x y. xoff b x < xoff b y) (tree_of se)" "\<forall>y\<in>set (tree_of se). in_window b y"
    and x: "in_window b x"
  shows "own_xid (se_be se) x \<Longrightarrow> x \<in> set (tree_of se)" and "x \<in> set (tree_of se) \<Longrightarrow> se_latestXid se = None \<Longrightarrow> own_xid (se_be se) x"
proof -
  note ok = session_okD [OF assms(1)]
  have c: "own_xid (se_be se) x \<longleftrightarrow> x = first_xid (tree_of se) \<or> (\<exists>s\<in>set (xact_stack (se_be se)). \<not> xs_abort s \<and> has_xid s \<and> x \<in> set (xs_xid s # childXids s))"
    using ok(2,6) in_windowD(1) [OF x] current_in_stack_iff [OF t [unfolded tree_of_def] x]
    by (simp add: TransactionIdIsCurrentTransactionId_def)
  have "x = first_xid (tree_of se) \<Longrightarrow> x \<in> set (tree_of se)"
    using window_valid(2) [OF x] by (cases "tree_of se") (simp_all add: first_xid_def)
  then show "own_xid (se_be se) x \<Longrightarrow> x \<in> set (tree_of se)" unfolding c by (auto simp: tree_of_def chron_set)
  show "x \<in> set (tree_of se) \<Longrightarrow> se_latestXid se = None \<Longrightarrow> own_xid (se_be se) x"
    unfolding c using ok(11) by (auto simp: tree_of_def chron_set split: if_splits)
qed

section \<open>The scan of the array\<close>

lemma in_progress_scan_spec:
  assumes "in_window b x" "\<forall>(off, p)\<in>set ps. proc_of (t off) p \<and> (\<forall>y\<in>set (t off). in_window b y \<and> xoff b (hd (t off)) \<le> xoff b y)"
  shows "case in_progress_scan i x xids ps of
      None \<Rightarrow> \<exists>(off, p)\<in>set ps. off \<noteq> i \<and> x \<in> set (t off)
    | Some ys \<Rightarrow> set xids \<subseteq> set ys \<and> (\<forall>y\<in>set ys. y \<in> set xids \<or> (\<exists>(off, p)\<in>set ps. off \<noteq> i \<and> y \<in> set (t off))) \<and>
        (\<forall>(off, p)\<in>set ps. off \<noteq> i \<and> x \<in> set (t off) \<longrightarrow> x \<noteq> hd (t off) \<and> hd (t off) \<in> set ys)"
  using assms(2)
proof (induction ps arbitrary: xids)
  case (Cons q ps)
  obtain off p where q: "q = (off, p)" by (cases q)
  have IH: "case in_progress_scan i x xids ps of
      None \<Rightarrow> \<exists>(off, p)\<in>set ps. off \<noteq> i \<and> x \<in> set (t off)
    | Some ys \<Rightarrow> set xids \<subseteq> set ys \<and> (\<forall>y\<in>set ys. y \<in> set xids \<or> (\<exists>(off, p)\<in>set ps. off \<noteq> i \<and> y \<in> set (t off))) \<and>
        (\<forall>(off, p)\<in>set ps. off \<noteq> i \<and> x \<in> set (t off) \<longrightarrow> x \<noteq> hd (t off) \<and> hd (t off) \<in> set ys)" for xids
    using Cons by simp
  have p: "proc_of (t off) p" "\<And>y. y \<in> set (t off) \<Longrightarrow> in_window b y \<and> xoff b (hd (t off)) \<le> xoff b y"
    using Cons.prems by (auto simp: q)
  show ?case
  proof (cases "off = i \<or> t off = []")
    case True
    then have "in_progress_scan i x xids (q # ps) = in_progress_scan i x xids ps"
      using p(1) by (cases "off = i") (simp_all add: q proc_of_def first_xid_def TransactionIdIsValid_def Let_def)
    then show ?thesis using IH [of xids] True by (auto simp: q split: option.splits)
  next
    case False
    then have px: "proc_xid p = hd (t off)" "hd (t off) \<in> set (t off)" using p(1) by (auto simp: proc_of_def first_xid_def split: list.splits)
    have v: "TransactionIdIsValid (hd (t off))" "in_window b (hd (t off))" using p(2) [OF px(2)] window_valid(1) by auto
    have prec: "TransactionIdPrecedes x (hd (t off)) \<longleftrightarrow> xoff b x < xoff b (hd (t off))" using prec_window(1) [OF assms(1) v(2)] .
    have mem: "x \<in> set (t off) \<longleftrightarrow> x = hd (t off) \<or> x \<in> set (tl (t off))" using False by (cases "t off") auto
    have sub: "set (proc_subxids p) \<subseteq> set (tl (t off))" "\<not> proc_overflowed p \<Longrightarrow> set (proc_subxids p) = set (tl (t off))"
      using p(1) by (auto simp: proc_of_def)
    consider (found) "x = hd (t off) \<or> xoff b (hd (t off)) \<le> xoff b x \<and> x \<in> set (proc_subxids p)"
      | (younger) "x \<noteq> hd (t off)" "xoff b x < xoff b (hd (t off))"
      | (keep) "x \<noteq> hd (t off)" "xoff b (hd (t off)) \<le> xoff b x" "x \<notin> set (proc_subxids p)" "proc_overflowed p"
      | (other) "x \<noteq> hd (t off)" "xoff b (hd (t off)) \<le> xoff b x" "x \<notin> set (proc_subxids p)" "\<not> proc_overflowed p"
      by linarith
    then show ?thesis
    proof cases
      case found
      then have "in_progress_scan i x xids (q # ps) = None" "x \<in> set (t off)"
        using False px v prec mem sub(1) by (auto simp: q Let_def)
      then show ?thesis using False by (auto simp: q)
    next
      case younger
      then have "in_progress_scan i x xids (q # ps) = in_progress_scan i x xids ps" "x \<notin> set (t off)"
        using False px v prec p(2) [of x] by (auto simp: q Let_def)
      then show ?thesis using IH [of xids] by (auto simp: q split: option.splits)
    next
      case keep
      then have "in_progress_scan i x xids (q # ps) = in_progress_scan i x (xids @ [hd (t off)]) ps"
        using False px v prec by (auto simp: q Let_def)
      then show ?thesis using IH [of "xids @ [hd (t off)]"] keep(1) False px(2) by (auto simp: q split: option.splits)
    next
      case other
      then have "in_progress_scan i x xids (q # ps) = in_progress_scan i x xids ps" "x \<notin> set (t off)"
        using False px v prec mem sub(2) by (auto simp: q Let_def)
      then show ?thesis using IH [of xids] by (auto simp: q split: option.splits)
    qed
  qed
qed simp

lemma scan_cluster:
  assumes inv: "cluster_inv B c" "b = XidFromFullTransactionId B" "n = length (cl_sessions c)" and x: "in_window b x" and t: "t = r_tree (running b c)"
  shows "case in_progress_scan i x [] (enumerate 0 (procArray (cl_shm c))) of
      None \<Rightarrow> \<exists>j<n. j \<noteq> i \<and> x \<in> set (t j)
    | Some ys \<Rightarrow> (\<forall>y\<in>set ys. \<exists>j<n. y \<in> set (t j)) \<and>
        (\<forall>j<n. j \<noteq> i \<and> x \<in> set (t j) \<longrightarrow> x \<noteq> hd (t j) \<and> hd (t j) \<in> set ys)"
proof -
  note old = cluster_invD [OF inv]
  have "proc_of (t j) (procArray (cl_shm c) ! j) \<and> (\<forall>y\<in>set (t j). in_window b y \<and> xoff b (hd (t j)) \<le> xoff b y)" if "j < n" for j
    using proc_of_session [OF old(5) [OF that]] that inv(3) run_inv_tree [OF old(3) that] tree_hd_least [OF run_inv_tree [OF old(3) that]]
    by (auto simp: t tree_inv_def r_assigned_def)
  then have "\<forall>(off, p)\<in>set (enumerate 0 (procArray (cl_shm c))). proc_of (t off) p \<and> (\<forall>y\<in>set (t off). in_window b y \<and> xoff b (hd (t off)) \<le> xoff b y)"
    using old(1) by (auto simp: in_set_enumerate_eq)
  from in_progress_scan_spec [OF x this, of i "[]"] show ?thesis
    using old(1) by (auto simp: in_set_enumerate_eq Bex_def Ball_def split: option.splits)
qed

section \<open>The walk to the topmost transaction\<close>

lemma assigned_logs:
  assumes "cluster_inv B c" "b = XidFromFullTransactionId B" "r_assigned b (running b c) y"
  shows "in_window b y" "sub_has (shm_subtrans (cl_shm c)) y" "parent_of (shm_subtrans (cl_shm c)) y = r_parent (running b c) y"
    and "log_has (shm_clog (cl_shm c)) y" "xid_status (shm_clog (cl_shm c)) y = r_status (running b c) y"
  using assms(3) cluster_invD(2) [OF assms(1,2) refl] assms(2)
  by (auto simp: r_assigned_def running_def mask_xid_def shm_ok_def Let_def)

lemma walk_live:
  assumes inv: "cluster_inv B c" "b = XidFromFullTransactionId B" and j: "j < length (cl_sessions c)" "x \<in> set (r_tree (running b c) j)"
    and xm: "in_window b xmin" "xoff b xmin \<le> xoff b (hd (r_tree (running b c) j))"
  shows "SubTransGetTopmostTransaction xmin (shm_subtrans (cl_shm c)) x = Some (Inr (hd (r_tree (running b c) j)))"
proof -
  let ?r = "running b c" and ?st = "shm_subtrans (cl_shm c)"
  let ?t = "r_tree ?r j"
  have ti: "tree_inv b ?r j" using run_inv_tree [OF cluster_invD(3) [OF inv refl] j(1)] .
  have as: "r_assigned b ?r y" if "y \<in> set ?t" for y using ti that by (simp add: tree_inv_def)
  note logs = assigned_logs [OF inv as]
  have "\<exists>t\<in>set ?t. SubTransGetTopmostTransaction xmin ?st x = Some (Inr t) \<and> (parent_of ?st t = InvalidTransactionId \<or> TransactionIdPrecedes t xmin)"
  proof (rule topmost_closed [OF j(2), of b])
    fix y assume y: "y \<in> set ?t"
    show "in_window b y \<and> sub_has ?st y" using logs [OF y] by simp
    show "parent_of ?st y = InvalidTransactionId \<or> parent_of ?st y \<in> set ?t \<and> xoff b (parent_of ?st y) < xoff b y"
      using logs(3) [OF y] tree_parent [OF ti y] ti y by (cases "y = hd ?t") (auto simp: tree_inv_def)
  qed
  then obtain t where t: "t \<in> set ?t" "SubTransGetTopmostTransaction xmin ?st x = Some (Inr t)"
    "parent_of ?st t = InvalidTransactionId \<or> TransactionIdPrecedes t xmin" by blast
  have "\<not> TransactionIdPrecedes t xmin"
    using prec_window(1) [OF logs(1) [OF t(1)] xm(1)] tree_hd_least [OF ti t(1)] xm(2) by simp
  then have "r_parent ?r t = InvalidTransactionId" using t(3) logs(3) [OF t(1)] by simp
  then have "t = hd ?t" using tree_parent(1) [OF ti t(1)] window_valid(2) [OF logs(1)] by metis
  then show ?thesis using t(2) by simp
qed

lemma walk_assigned:
  assumes inv: "cluster_inv B c" "b = XidFromFullTransactionId B" and x: "r_assigned b (running b c) x"
  shows "\<exists>t. SubTransGetTopmostTransaction xmin (shm_subtrans (cl_shm c)) x = Some (Inr t)"
proof -
  let ?r = "running b c" and ?st = "shm_subtrans (cl_shm c)"
  have "\<exists>t\<in>Collect (r_assigned b ?r). SubTransGetTopmostTransaction xmin ?st x = Some (Inr t) \<and>
      (parent_of ?st t = InvalidTransactionId \<or> TransactionIdPrecedes t xmin)"
  proof (rule topmost_closed [of x _ b])
    fix y assume y: "y \<in> Collect (r_assigned b ?r)"
    then show "in_window b y \<and> sub_has ?st y" using assigned_logs [OF inv] by simp
    show "parent_of ?st y = InvalidTransactionId \<or> parent_of ?st y \<in> Collect (r_assigned b ?r) \<and> xoff b (parent_of ?st y) < xoff b y"
      using run_inv_xid [OF cluster_invD(3) [OF inv refl], of y] y assigned_logs(3) [OF inv, of y] by (auto simp: xid_inv_def)
  qed (use x in simp)
  then show ?thesis by blast
qed

lemma walk_dead:
  assumes inv: "cluster_inv B c" "b = XidFromFullTransactionId B" "n = length (cl_sessions c)" and x: "r_assigned b (running b c) x" "\<not> r_live n (running b c) x"
    "r_status (running b c) x \<noteq> TRANSACTION_STATUS_ABORTED"
  shows "\<exists>t. SubTransGetTopmostTransaction xmin (shm_subtrans (cl_shm c)) x = Some (Inr t) \<and> r_assigned b (running b c) t \<and> \<not> r_live n (running b c) t"
proof -
  let ?r = "running b c" and ?st = "shm_subtrans (cl_shm c)"
  let ?C = "{y. r_assigned b ?r y \<and> \<not> r_live n ?r y \<and> r_status ?r y = r_status ?r x}"
  have "\<exists>t\<in>?C. SubTransGetTopmostTransaction xmin ?st x = Some (Inr t) \<and> (parent_of ?st t = InvalidTransactionId \<or> TransactionIdPrecedes t xmin)"
  proof (rule topmost_closed [of x _ b])
    fix y assume y: "y \<in> ?C"
    then show "in_window b y \<and> sub_has ?st y" using assigned_logs [OF inv(1,2)] by simp
    show "parent_of ?st y = InvalidTransactionId \<or> parent_of ?st y \<in> ?C \<and> xoff b (parent_of ?st y) < xoff b y"
      using run_inv_xid [OF cluster_invD(3) [OF inv], of y] y assigned_logs(3) [OF inv(1,2), of y] x(3) by (auto simp: xid_inv_def)
  qed (use x in simp)
  then show ?thesis by blast
qed

section \<open>The whole lookup\<close>

definition gone :: "TransactionId \<Rightarrow> nat \<Rightarrow> (nat \<Rightarrow> bool) \<Rightarrow> Running \<Rightarrow> nat \<Rightarrow> TransactionId \<Rightarrow> bool" where
  "gone b n F r i y \<longleftrightarrow> r_assigned b r y \<and>
     (\<forall>j<n. y \<in> set (r_tree r j) \<longrightarrow> (if j = i then r_ended r i else F j \<or> r_status r y = TRANSACTION_STATUS_ABORTED))"

definition fetch_cache_ok :: "TransactionId \<Rightarrow> Running \<Rightarrow> TransactionId \<times> XidStatus \<times> XLogRecPtr \<Rightarrow> bool" where
  "fetch_cache_ok b r = (\<lambda>(x, st, _). x = InvalidTransactionId \<or> r_assigned b r x \<and> st = r_status r x \<and>
     (st = TRANSACTION_STATUS_COMMITTED \<or> st = TRANSACTION_STATUS_ABORTED))"

lemma memo_ok_alt:
  "memo_ok b n F r i se \<longleftrightarrow>
     (cachedXidIsNotInProgress (se_be se) = InvalidTransactionId \<or> gone b n F r i (cachedXidIsNotInProgress (se_be se))) \<and>
     fetch_cache_ok b r (be_fetch_cache (se_be se))"
  by (cases "be_fetch_cache (se_be se)") (simp only: memo_ok_def gone_def fetch_cache_ok_def Let_def prod.case)

lemma two_bit_cases:
  fixes w :: "8 word"
  shows "w AND mask 2 = 0 \<or> w AND mask 2 = 1 \<or> w AND mask 2 = 2 \<or> w AND mask 2 = 3"
proof -
  have "unat (w AND mask 2) = unat w mod 4"
    by (simp add: take_bit_eq_mask [symmetric] unsigned_take_bit_eq take_bit_eq_mod unat_mod)
  moreover have "unat w mod 4 = 0 \<or> unat w mod 4 = 1 \<or> unat w mod 4 = 2 \<or> unat w mod 4 = 3" by linarith
  ultimately show ?thesis by (simp add: word_unat_eq_iff [of _ "0 :: 8 word"] word_unat_eq_iff [of _ "1 :: 8 word"]
      word_unat_eq_iff [of _ "2 :: 8 word"] word_unat_eq_iff [of _ "3 :: 8 word"] del: unat_eq_zero)
qed

lemma xid_status_cases:
  "xid_status log x \<noteq> TRANSACTION_STATUS_SUB_COMMITTED \<Longrightarrow> xid_status log x = TRANSACTION_STATUS_IN_PROGRESS \<or>
   xid_status log x = TRANSACTION_STATUS_COMMITTED \<or> xid_status log x = TRANSACTION_STATUS_ABORTED"
  using two_bit_cases by (auto simp: xid_status_def clog_bits_def status_defs split: option.splits)

lemma LogFetch_assigned:
  assumes inv: "cluster_inv B c" "b = XidFromFullTransactionId B" and x: "r_assigned b (running b c) x"
    and cache: "fetch_cache_ok b (running b c) (be_fetch_cache be)"
  shows "\<exists>s. TransactionLogFetch x (status_state be (cl_shm c)) = Inr (r_status (running b c) x, s) \<and>
    (\<exists>k. keep_cache s be = be\<lparr>be_fetch_cache := k\<rparr> \<and> fetch_cache_ok b (running b c) k)"
    and "r_status (running b c) x \<noteq> TRANSACTION_STATUS_SUB_COMMITTED"
proof -
  let ?s = "status_state be (cl_shm c)" and ?r = "running b c"
  let ?st = "r_status ?r x"
  note logs = assigned_logs [OF inv x]
  show sub: "?st \<noteq> TRANSACTION_STATUS_SUB_COMMITTED"
    using run_inv_xid [OF cluster_invD(3) [OF inv refl] x] by (simp add: xid_inv_def)
  have lt: "?st = TRANSACTION_STATUS_IN_PROGRESS \<or> ?st = TRANSACTION_STATUS_COMMITTED \<or> ?st = TRANSACTION_STATUS_ABORTED"
    using xid_status_cases [of "shm_clog (cl_shm c)" x] sub logs(5) by simp
  show "\<exists>s. TransactionLogFetch x ?s = Inr (?st, s) \<and> (\<exists>k. keep_cache s be = be\<lparr>be_fetch_cache := k\<rparr> \<and> fetch_cache_ok b ?r k)"
  proof (cases "fst (be_fetch_cache be) = x")
    case True
    then have "fst (snd (be_fetch_cache be)) = ?st"
      using cache window_valid(2) [OF logs(1)] by (auto simp: fetch_cache_ok_def)
    then have "TransactionLogFetch x ?s = Inr (?st, ?s)" using True by (simp add: TransactionLogFetch_def status_state_def)
    then show ?thesis using cache by (intro exI [of _ ?s] conjI exI [of _ "be_fetch_cache be"]) simp_all
  next
    case False
    obtain p where p: "shm_clog (cl_shm c) (TransactionIdToPage x) = Some p" using log_has_page [OF logs(4)] by blast
    then obtain lsn where g: "TransactionIdGetStatus (shm_clog (cl_shm c)) x = Inr (?st, lsn)"
      using logs(5) by (simp add: TransactionIdGetStatus_def SimpleLruReadPage_def xid_status_def)
    show ?thesis
    proof (cases "?st = TRANSACTION_STATUS_IN_PROGRESS")
      case True
      then have "TransactionLogFetch x ?s = Inr (?st, ?s)" using False g in_windowD(1) [OF logs(1)]
        by (auto simp: TransactionLogFetch_def status_state_def)
      then show ?thesis using cache by (intro exI [of _ ?s] conjI exI [of _ "be_fetch_cache be"]) simp_all
    next
      case final: False
      then have "TransactionLogFetch x ?s = Inr (?st, ?s\<lparr>cachedFetchXid := x, cachedFetchXidStatus := ?st, cachedCommitLSN := lsn\<rparr>)"
        using False g in_windowD(1) [OF logs(1)] sub by (auto simp: TransactionLogFetch_def status_state_def)
      moreover have "fetch_cache_ok b ?r (x, ?st, lsn)" using x final lt by (simp add: fetch_cache_ok_def)
      ultimately show ?thesis by (intro exI conjI) (auto simp: keep_cache_def)
    qed
  qed
qed

lemma DidAbort_assigned:
  assumes inv: "cluster_inv B c" "b = XidFromFullTransactionId B" and x: "r_assigned b (running b c) x"
    and cache: "fetch_cache_ok b (running b c) (be_fetch_cache be)"
  shows "\<exists>s. TransactionIdDidAbort x (status_state be (cl_shm c)) = Some (Inr (r_status (running b c) x = TRANSACTION_STATUS_ABORTED, s)) \<and>
    (\<exists>k. keep_cache s be = be\<lparr>be_fetch_cache := k\<rparr> \<and> fetch_cache_ok b (running b c) k)"
proof -
  obtain s where s: "TransactionLogFetch x (status_state be (cl_shm c)) = Inr (r_status (running b c) x, s)"
    "\<exists>k. keep_cache s be = be\<lparr>be_fetch_cache := k\<rparr> \<and> fetch_cache_ok b (running b c) k" using LogFetch_assigned(1) [OF assms] by blast
  then show ?thesis using LogFetch_assigned(2) [OF assms] by (intro exI [of _ s] conjI) (subst TransactionIdDidAbort.simps, auto)
qed

lemma DidCommit_assigned:
  assumes inv: "cluster_inv B c" "b = XidFromFullTransactionId B" and x: "r_assigned b (running b c) x"
    and cache: "fetch_cache_ok b (running b c) (be_fetch_cache be)"
  shows "\<exists>s. TransactionIdDidCommit x (status_state be (cl_shm c)) = Some (Inr (r_status (running b c) x = TRANSACTION_STATUS_COMMITTED, s)) \<and>
    (\<exists>k. keep_cache s be = be\<lparr>be_fetch_cache := k\<rparr> \<and> fetch_cache_ok b (running b c) k)"
proof -
  obtain s where s: "TransactionLogFetch x (status_state be (cl_shm c)) = Inr (r_status (running b c) x, s)"
    "\<exists>k. keep_cache s be = be\<lparr>be_fetch_cache := k\<rparr> \<and> fetch_cache_ok b (running b c) k" using LogFetch_assigned(1) [OF assms] by blast
  then show ?thesis using LogFetch_assigned(2) [OF assms] by (intro exI [of _ s] conjI) (subst TransactionIdDidCommit.simps, auto)
qed

text \<open>The last step, for ids that may be uncached subtransactions of the main ids in \<open>xids\<close>.\<close>

lemma lookup_uncached:
  assumes inv: "cluster_inv B c" "b = XidFromFullTransactionId B" "n = length (cl_sessions c)" and i: "i < n"
    and x: "r_assigned b (running b c) x"
    and xids: "\<forall>y\<in>set xids. \<exists>j<n. y \<in> set (r_tree (running b c) j)"
      "\<forall>j<n. j \<noteq> i \<and> x \<in> set (r_tree (running b c) j) \<longrightarrow> x \<noteq> hd (r_tree (running b c) j) \<and> hd (r_tree (running b c) j) \<in> set xids"
    and own: "x \<in> set (r_tree (running b c) i) \<Longrightarrow> r_ended (running b c) i"
    and ab: "r_status (running b c) x \<noteq> TRANSACTION_STATUS_ABORTED"
  obtains t where "SubTransGetTopmostTransaction (be_TransactionXmin (se_be (session c i))) (shm_subtrans (cl_shm c)) x = Some (Inr t)"
    "t \<in> set xids \<longrightarrow> r_live n (running b c) x" "\<not> (t \<noteq> x \<and> t \<in> set xids) \<longrightarrow> gone b n (flags c) (running b c) i x"
proof -
  let ?r = "running b c" and ?xmin = "be_TransactionXmin (se_be (session c i))"
  note old = cluster_invD [OF inv]
  obtain t where t: "SubTransGetTopmostTransaction ?xmin (shm_subtrans (cl_shm c)) x = Some (Inr t)"
    using walk_assigned [OF inv(1,2) x] by blast
  have live: "r_live n ?r x" if "t \<in> set xids"
  proof (rule ccontr)
    assume "\<not> r_live n ?r x"
    from walk_dead [OF inv x this ab, of ?xmin] have "\<not> r_live n ?r t" using t by auto
    then show False using xids(1) that by (auto simp: r_live_def)
  qed
  have xm: "in_window b ?xmin" "xoff b ?xmin \<le> xoff b (hd (r_tree ?r j))" if "j < n" "\<not> flags c j" "r_tree ?r j \<noteq> []" for j
    using old(6) [OF i] that by (fastforce simp: xmin_ok_def lower_def Let_def)+
  have "gone b n (flags c) ?r i x" if nt: "\<not> (t \<noteq> x \<and> t \<in> set xids)"
    unfolding gone_def
  proof (intro conjI allI impI x)
    fix j assume j: "j < n" "x \<in> set (r_tree ?r j)"
    then have ne: "r_tree ?r j \<noteq> []" by auto
    have "flags c j" if "j \<noteq> i"
    proof (rule ccontr)
      assume "\<not> flags c j"
      with xm [OF j(1) this ne] walk_live [OF inv(1,2) j(1) [unfolded inv(3)] j(2)] have "t = hd (r_tree ?r j)" using t by auto
      then show False using xids(2) j that nt by auto
    qed
    then show "if j = i then r_ended ?r i else flags c j \<or> r_status ?r x = TRANSACTION_STATUS_ABORTED" using own j(2) by auto
  qed
  then show ?thesis using that t live by blast
qed

definition lookup_ok ::
    "TransactionId \<Rightarrow> nat \<Rightarrow> (nat \<Rightarrow> bool) \<Rightarrow> Running \<Rightarrow> nat \<Rightarrow> BackendState \<Rightarrow> TransactionId \<Rightarrow> bool \<Rightarrow> BackendState \<Rightarrow> bool" where
  "lookup_ok b n F r i be x answer be' \<longleftrightarrow>
     (if answer then \<not> r_assigned b r x \<or> r_live n r x else gone b n F r i x) \<and>
     (\<exists>k. fetch_cache_ok b r k \<and> (be' = be\<lparr>be_fetch_cache := k\<rparr> \<or>
        gone b n F r i x \<and> be' = be\<lparr>be_fetch_cache := k, cachedXidIsNotInProgress := x\<rparr>))"

lemma lookup_okI:
  "fetch_cache_ok b r k \<Longrightarrow> r_live n r x \<Longrightarrow> lookup_ok b n F r i be x True (be\<lparr>be_fetch_cache := k\<rparr>)"
  "fetch_cache_ok b r k \<Longrightarrow> gone b n F r i x \<Longrightarrow> lookup_ok b n F r i be x False (be\<lparr>be_fetch_cache := k, cachedXidIsNotInProgress := x\<rparr>)"
  unfolding lookup_ok_def by (simp_all only: if_True if_False) blast+

lemma lookup_same:
  assumes "TransactionIdIsInProgress x be shm = Some (Inr (a, be))" "fetch_cache_ok b r (be_fetch_cache be)"
    and "if a then \<not> r_assigned b r x \<or> r_live n r x else gone b n F r i x"
  shows "\<exists>answer be'. TransactionIdIsInProgress x be shm = Some (Inr (answer, be')) \<and> lookup_ok b n F r i be x answer be'"
proof -
  have "be = be\<lparr>be_fetch_cache := be_fetch_cache be\<rparr>" by simp
  then have "lookup_ok b n F r i be x a be" using assms(2,3) unfolding lookup_ok_def by blast
  then show ?thesis using assms(1) by blast
qed

lemma gone_recent:
  assumes inv: "run_inv b n r" "room b r" and low: "lower b n F r i y" and x: "in_window b x" "TransactionIdPrecedes x y"
  shows "gone b n F r i x"
proof -
  have lt: "xoff b x < xoff b y" using prec_window(1) [OF x(1)] low x(2) by (simp add: lower_def)
  have "x \<notin> set (r_tree r j)" if "j < n" "j = i \<or> \<not> F j" for j
  proof
    assume m: "x \<in> set (r_tree r j)"
    then have "xoff b y \<le> xoff b (hd (r_tree r j))" using low that by (auto simp: lower_def)
    then show False using tree_hd_least [OF run_inv_tree [OF inv(1) that(1)] m] lt by simp
  qed
  moreover have "xoff b y \<le> xoff b (r_next r)" using low advance_latest(3) [OF inv] by (auto simp: lower_def)
  then have "r_assigned b r x" using x(1) lt by (simp add: r_assigned_def)
  ultimately show ?thesis by (auto simp: gone_def)
qed

lemma lookup_scan:
  assumes inv: "cluster_inv B c" "b = XidFromFullTransactionId B" "n = length (cl_sessions c)" and i: "i < n"
    and x: "r_assigned b (running b c) x" and own: "x \<in> set (r_tree (running b c) i) \<Longrightarrow> r_ended (running b c) i"
    and be: "be = se_be (session c i)"
    and no: "\<not> TransactionIdPrecedes x (RecentXmin be)" "cachedXidIsNotInProgress be \<noteq> x" "\<not> own_xid be x"
        "\<not> TransactionIdPrecedes (latest_of (cl_shm c)) x"
  shows "\<exists>answer be'. TransactionIdIsInProgress x be (cl_shm c) = Some (Inr (answer, be')) \<and> lookup_ok b n (flags c) (running b c) i be x answer be'"
proof -
  note old = cluster_invD [OF inv]
  let ?r = "running b c" and ?shm = "cl_shm c"
  have off: "pgxactoff be = i" and rec: "\<not> RecoveryInProgress ?shm"
    using session_okD(1) [OF old(5) [OF i]] shm_ok_window(8) [OF old(2) inv(2)] be by auto
  have xw: "in_window b x" using x by (simp add: r_assigned_def)
  have fc: "fetch_cache_ok b ?r (be_fetch_cache be)" using old(7) [OF i] by (simp add: memo_ok_alt be)
  note sc = scan_cluster [OF inv xw refl, of i]
  show ?thesis
  proof (cases "in_progress_scan i x [] (enumerate 0 (procArray ?shm))")
    case None
    then have "r_live n ?r x" using sc by (auto simp: r_live_def)
    then show ?thesis using no None off by (intro lookup_same [OF _ fc, where a = True]) (simp_all add: TransactionIdIsInProgress_def)
  next
    case (Some ys)
    have ys: "\<forall>y\<in>set ys. \<exists>j<n. y \<in> set (r_tree ?r j)"
      "\<forall>j<n. j \<noteq> i \<and> x \<in> set (r_tree ?r j) \<longrightarrow> x \<noteq> hd (r_tree ?r j) \<and> hd (r_tree ?r j) \<in> set ys"
      using sc unfolding Some by simp_all
    obtain s where s: "TransactionIdDidAbort x (status_state be ?shm) = Some (Inr (r_status ?r x = TRANSACTION_STATUS_ABORTED, s))"
      and "\<exists>k. keep_cache s be = be\<lparr>be_fetch_cache := k\<rparr> \<and> fetch_cache_ok b ?r k"
      using DidAbort_assigned [OF inv(1,2) x fc] by blast
    then obtain k where k: "keep_cache s be = be\<lparr>be_fetch_cache := k\<rparr>" "fetch_cache_ok b ?r k" by blast
    show ?thesis
    proof (cases "ys = [] \<or> r_status ?r x = TRANSACTION_STATUS_ABORTED")
      case True
      have g: "gone b n (flags c) ?r i x" using True ys own x by (auto simp: gone_def)
      define k' where "k' = (if ys = [] then be_fetch_cache be else k)"
      have "TransactionIdIsInProgress x be ?shm = Some (Inr (False, be\<lparr>be_fetch_cache := k', cachedXidIsNotInProgress := x\<rparr>))"
        using no Some off rec True s k(1) by (auto simp: TransactionIdIsInProgress_def Let_def k'_def)
      moreover have "lookup_ok b n (flags c) ?r i be x False (be\<lparr>be_fetch_cache := k', cachedXidIsNotInProgress := x\<rparr>)"
        using g fc k(2) by (intro lookup_okI(2)) (simp_all add: k'_def)
      ultimately show ?thesis by blast
    next
      case False
      then have ab: "r_status ?r x \<noteq> TRANSACTION_STATUS_ABORTED" by simp
      obtain t where t: "SubTransGetTopmostTransaction (be_TransactionXmin be) (shm_subtrans ?shm) x = Some (Inr t)"
        "t \<in> set ys \<longrightarrow> r_live n ?r x" "\<not> (t \<noteq> x \<and> t \<in> set ys) \<longrightarrow> gone b n (flags c) ?r i x"
        unfolding be by (rule lookup_uncached [OF inv i x ys own ab])
      show ?thesis
      proof (cases "t \<noteq> x \<and> t \<in> set ys")
        case True
        have "TransactionIdIsInProgress x be ?shm = Some (Inr (True, be\<lparr>be_fetch_cache := k\<rparr>))"
          using no Some off rec False s k(1) t(1) True by (auto simp: TransactionIdIsInProgress_def Let_def)
        moreover have "lookup_ok b n (flags c) ?r i be x True (be\<lparr>be_fetch_cache := k\<rparr>)" using t(2) True k(2) by (intro lookup_okI(1)) simp_all
        ultimately show ?thesis by blast
      next
        case nt: False
        have "TransactionIdIsInProgress x be ?shm = Some (Inr (False, be\<lparr>be_fetch_cache := k, cachedXidIsNotInProgress := x\<rparr>))"
          using no Some off rec False s k(1) t(1) nt by (auto simp: TransactionIdIsInProgress_def Let_def)
        moreover have "lookup_ok b n (flags c) ?r i be x False (be\<lparr>be_fetch_cache := k, cachedXidIsNotInProgress := x\<rparr>)"
          using t(3) nt k(2) by (intro lookup_okI(2)) simp_all
        ultimately show ?thesis by blast
      qed
    qed
  qed
qed

lemma lookup_result:
  assumes inv: "cluster_inv B c" "b = XidFromFullTransactionId B" "n = length (cl_sessions c)" and i: "i < n" and x: "in_window b x"
    and be: "be = se_be (session c i)"
  shows "\<exists>answer be'. TransactionIdIsInProgress x be (cl_shm c) = Some (Inr (answer, be')) \<and> lookup_ok b n (flags c) (running b c) i be x answer be'"
proof -
  note old = cluster_invD [OF inv]
  let ?r = "running b c" and ?se = "session c i" and ?shm = "cl_shm c"
  have low: "lower b n (flags c) ?r i (RecentXmin be)" using old(6) [OF i] by (auto simp: xmin_ok_def Let_def be)
  have mm: "cachedXidIsNotInProgress be = InvalidTransactionId \<or> gone b n (flags c) ?r i (cachedXidIsNotInProgress be)"
    and fc: "fetch_cache_ok b ?r (be_fetch_cache be)" using old(7) [OF i] by (auto simp: memo_ok_alt be)
  have tr: "r_tree ?r i = tree_of ?se" "r_ended ?r i \<longleftrightarrow> se_latestXid ?se \<noteq> None \<and> tree_of ?se \<noteq> []" using i inv(3) by simp_all
  note tf = tree_facts [OF inv(1) i [unfolded inv(3)] inv(2)]
  have tw: "\<forall>y\<in>set (tree_of ?se). in_window b y" using tf(2) by blast
  have ow: "own_xid be x \<Longrightarrow> x \<in> set (r_tree ?r i)" "x \<in> set (r_tree ?r i) \<Longrightarrow> \<not> own_xid be x \<Longrightarrow> r_ended ?r i"
    using own_current [OF old(5) [OF i] tf(1) tw x] tr unfolding be by auto
  consider (early) "TransactionIdPrecedes x (RecentXmin be)"
    | (known) "\<not> TransactionIdPrecedes x (RecentXmin be)" "cachedXidIsNotInProgress be = x"
    | (own) "\<not> TransactionIdPrecedes x (RecentXmin be)" "cachedXidIsNotInProgress be \<noteq> x" "own_xid be x"
    | (late) "\<not> TransactionIdPrecedes x (RecentXmin be)" "cachedXidIsNotInProgress be \<noteq> x" "\<not> own_xid be x"
        "TransactionIdPrecedes (latest_of ?shm) x"
    | (scan) "\<not> TransactionIdPrecedes x (RecentXmin be)" "cachedXidIsNotInProgress be \<noteq> x" "\<not> own_xid be x"
        "\<not> TransactionIdPrecedes (latest_of ?shm) x"
    by blast
  then show ?thesis
  proof cases
    case early
    then show ?thesis using gone_recent [OF old(3,4) low x]
      by (intro lookup_same [OF _ fc, where a = False]) (simp_all add: TransactionIdIsInProgress_def)
  next
    case known
    then show ?thesis using mm window_valid(2) [OF x]
      by (intro lookup_same [OF _ fc, where a = False]) (simp_all add: TransactionIdIsInProgress_def)
  next
    case own
    then have "r_live n ?r x" using ow(1) i by (auto simp: r_live_def)
    then show ?thesis using own by (intro lookup_same [OF _ fc, where a = True]) (simp_all add: TransactionIdIsInProgress_def)
  next
    case late
    have "xoff b (latest_of ?shm) < xoff b x" using prec_window(1) [OF run_inv_bounds(2) [OF old(3)] x] late(4) by simp
    then have "r_assigned b ?r x \<Longrightarrow> r_live n ?r x" using run_inv_xid [OF old(3), of x] by (simp add: xid_inv_def)
    then show ?thesis using late by (intro lookup_same [OF _ fc, where a = True]) (auto simp: TransactionIdIsInProgress_def)
  next
    case scan
    have "\<not> xoff b (latest_of ?shm) < xoff b x" using prec_window(1) [OF run_inv_bounds(2) [OF old(3)] x] scan(4) by simp
    then have "r_assigned b ?r x" using run_inv_bounds(3) [OF old(3)] x by (simp add: r_assigned_def)
    then show ?thesis by (rule lookup_scan [OF inv i _ _ be scan]) (use ow(2) scan(3) in blast)
  qed
qed

lemma lookup_ok_memo:
  assumes "lookup_ok b n F r i (se_be se) x answer be" "memo_ok b n F r i se"
  shows "memo_ok b n F r i (se\<lparr>se_be := be\<rparr>)"
  using assms by (auto simp: lookup_ok_def memo_ok_alt)

lemma lookup_inv:
  assumes inv: "cluster_inv B c" and i: "i < length (cl_sessions c)" and se: "session c i = se" and x: "in_window (XidFromFullTransactionId B) x"
    and res: "TransactionIdIsInProgress x (se_be se) (cl_shm c) = Some (Inr (answer, be))"
  shows "simulated B c (put i (se\<lparr>se_be := be\<rparr>) (cl_shm c) c)"
proof -
  note old = cluster_invD [OF inv refl refl]
  let ?se = "se\<lparr>se_be := be\<rparr>"
  have ok: "lookup_ok (XidFromFullTransactionId B) (length (cl_sessions c)) (flags c) (running (XidFromFullTransactionId B) c) i (se_be se) x answer be"
    using lookup_result [OF inv refl refl i x refl] res se by auto
  then have eq: "same_xact (se_be se) be" "be_TransactionXmin be = be_TransactionXmin (se_be se)" "RecentXmin be = RecentXmin (se_be se)"
    by (auto simp: lookup_ok_def same_xact_def)
  have so: "session_ok (cl_shm c) i ?se" "tree_of ?se = tree_of se"
    using session_ok_cong [OF old(5) [OF i], of ?se] eq(1) se by (simp_all add: same_xact_def)
  show ?thesis
    by (rule local_step [OF inv i])
      (use so se eq xmin_ok_cong [OF old(6) [OF i]] lookup_ok_memo [OF ok] old(7) [OF i] static_ok_cong [OF old(8) [OF i]] in simp_all)
qed

section \<open>Every step\<close>

text \<open>In every step the invariant is kept and the running set takes steps of the specification.\<close>

lemma cluster_step_simulated:
  assumes step: "cluster_step mode (XidFromFullTransactionId B) c c'" and inv: "cluster_inv B c"
    and mode: "IsUnderPostmaster mode" "\<not> IsBootstrapProcessingMode mode"
  shows "simulated B c c'"
  using step inv
proof (induction rule: cluster_step.induct)
  case (begin_sub i c se)
  then show ?case by (intro begin_sub_inv)
next
  case (assign i c se err stack topfull shm)
  then show ?case by (intro assign_inv [OF _ _ _ _ mode])
next
  case (commit_sub i c se be)
  then show ?case by (intro commit_sub_inv)
next
  case (abort_sub i c se be shm)
  then show ?case by (intro abort_sub_inv)
next
  case (record_commit i c se sync lsn latestXid shm)
  then show ?case by (intro record_commit_inv)
next
  case (record_abort i c se latestXid be shm)
  then show ?case by (intro record_abort_inv)
next
  case (end_xact i c se latestXid)
  then show ?case by (intro end_xact_inv)
next
  case (snapshot i c se snap be shm)
  then show ?case by (intro snapshot_inv)
next
  case (release i c se held active)
  then show ?case by (intro release_inv)
next
  case (vacuum i c se w)
  then show ?case by (intro vacuum_inv)
next
  case (lookup i c se xid answer be)
  then show ?case by (intro lookup_inv)
next
  case (horizons i c se)
  then show ?case by (intro horizons_inv)
qed

end
