(* ===== verification/ClusterMVCC.thy ===== *)
theory ClusterMVCC
  imports ClusterLookup
begin

text \<open>
  What snapshots, lookups and horizons promise in every reachable state of a cluster: a snapshot's
  answers never change, a reused snapshot is as good as a new one, a transaction is reported as running
  exactly while it is, and what lies before the removal horizon is decided for every snapshot.
\<close>

section \<open>Answers of a snapshot\<close>

text \<open>The transactions that have committed and are no longer in the array.\<close>

definition had_committed :: "FullTransactionId \<Rightarrow> Cluster \<Rightarrow> TransactionId \<Rightarrow> bool" where
  "had_committed B c x \<longleftrightarrow> (let b = XidFromFullTransactionId B in
     in_window b x \<and> xoff b x < xoff b (next_of (cl_shm c)) \<and> (\<forall>se\<in>set (cl_sessions c). x \<notin> set (tree_of se)) \<and>
     xid_status (shm_clog (cl_shm c)) x = TRANSACTION_STATUS_COMMITTED)"

text \<open>Ids a snapshot of backend \<open>i\<close> does not account for: its own and those of lazy vacuum and logical decoding.\<close>

definition unsnapped :: "Cluster \<Rightarrow> nat \<Rightarrow> TransactionId \<Rightarrow> bool" where
  "unsnapped c i x \<longleftrightarrow> (\<exists>j<length (cl_sessions c). (j = i \<or> flags c j) \<and> x \<in> set (tree_of (session c j)))"

lemma live_sessions: "r_live (length (cl_sessions c)) (running b c) x \<longleftrightarrow> (\<exists>se\<in>set (cl_sessions c). x \<in> set (tree_of se))"
  by (auto simp: r_live_def set_conv_nth [of "cl_sessions c"])

lemma had_committed_iff:
  "had_committed B c x \<longleftrightarrow> r_committed (XidFromFullTransactionId B) (length (cl_sessions c)) (running (XidFromFullTransactionId B) c) x"
  by (auto simp: had_committed_def r_committed_def live_sessions r_assigned_def Let_def) (auto simp: running_def mask_xid_def)

lemma CopySnapshot_answers [simp]:
  "\<not> snap_takenDuringRecovery s \<Longrightarrow> XidInMVCCSnapshot xm st x (CopySnapshot s) = XidInMVCCSnapshot xm st x s"
  by (cases "snap_suboverflowed s") (auto simp: XidInMVCCSnapshot_def CopySnapshot_def split: option.splits sum.splits)

lemma snapshot_between:
  assumes "in_window b x" "in_window b (snap_xmin s)" "in_window b (snap_xmax s)" "\<not> snap_takenDuringRecovery s"
  shows "XidInMVCCSnapshot xm st x s =
    (if xoff b x < xoff b (snap_xmin s) then Some (Inr False)
     else if xoff b (snap_xmax s) \<le> xoff b x then Some (Inr True)
     else if \<not> snap_suboverflowed s then Some (Inr (x \<in> set (snap_subxip s) \<union> set (snap_xip s)))
     else case SubTransGetTopmostTransaction xm st x of
            None \<Rightarrow> None
          | Some (Inl e) \<Rightarrow> Some (Inl e)
          | Some (Inr t) \<Rightarrow> if TransactionIdPrecedes t (snap_xmin s) then Some (Inr False) else Some (Inr (t \<in> set (snap_xip s))))"
  using assms prec_window [OF assms(1,2)] prec_window [OF assms(1,3)] by (simp add: XidInMVCCSnapshot_def)

text \<open>Parent links never change, so the walk through a tree of an earlier state ends at that tree's root.\<close>

lemma walk_live_later:
  assumes inv: "cluster_inv B c" "cluster_inv B c'" "b = XidFromFullTransactionId B" "n = length (cl_sessions c)"
    and ev: "evolves b n (running b c) (running b c')" and j: "j < n" "x \<in> set (r_tree (running b c) j)"
    and xm: "in_window b xm" "xoff b xm \<le> xoff b (hd (r_tree (running b c) j))"
  shows "SubTransGetTopmostTransaction xm (shm_subtrans (cl_shm c')) x = Some (Inr (hd (r_tree (running b c) j)))"
proof -
  let ?r = "running b c" and ?st = "shm_subtrans (cl_shm c')"
  let ?t = "r_tree ?r j"
  have ti: "tree_inv b ?r j" using run_inv_tree [OF cluster_invD(3) [OF inv(1,3,4)] j(1)] .
  have as: "r_assigned b ?r y" if "y \<in> set ?t" for y using ti that by (simp add: tree_inv_def)
  have par: "parent_of ?st y = r_parent ?r y" "in_window b y" "sub_has ?st y" if "y \<in> set ?t" for y
    using assigned_logs [OF inv(2,3) evolvesD(1) [OF ev as [OF that]]] evolvesD(2) [OF ev as [OF that]] by simp_all
  have "\<exists>t\<in>set ?t. SubTransGetTopmostTransaction xm ?st x = Some (Inr t) \<and> (parent_of ?st t = InvalidTransactionId \<or> TransactionIdPrecedes t xm)"
  proof (rule topmost_closed [OF j(2), of b])
    fix y assume y: "y \<in> set ?t"
    show "in_window b y \<and> sub_has ?st y" using par(2,3) [OF y] by simp
    show "parent_of ?st y = InvalidTransactionId \<or> parent_of ?st y \<in> set ?t \<and> xoff b (parent_of ?st y) < xoff b y"
      using par(1) [OF y] tree_parent [OF ti y] ti y by (cases "y = hd ?t") (auto simp: tree_inv_def)
  qed
  then obtain t where t: "t \<in> set ?t" "SubTransGetTopmostTransaction xm ?st x = Some (Inr t)"
    "parent_of ?st t = InvalidTransactionId \<or> TransactionIdPrecedes t xm" by blast
  have "\<not> TransactionIdPrecedes t xm"
    using prec_window(1) [OF par(2) [OF t(1)] xm(1)] tree_hd_least [OF ti t(1)] xm(2) by simp
  then have "r_parent ?r t = InvalidTransactionId" using t(3) par(1) [OF t(1)] by simp
  then have "t = hd ?t" using tree_parent(1) [OF ti t(1)] window_valid(2) [OF par(2)] by metis
  then show ?thesis using t(2) by simp
qed

lemma walk_committed_later:
  assumes inv: "cluster_inv B c" "cluster_inv B c'" "b = XidFromFullTransactionId B" "n = length (cl_sessions c)"
    and ev: "evolves b n (running b c) (running b c')" and x: "r_committed b n (running b c) x"
  shows "\<exists>t. SubTransGetTopmostTransaction xm (shm_subtrans (cl_shm c')) x = Some (Inr t) \<and> r_committed b n (running b c) t"
proof -
  let ?r = "running b c" and ?st = "shm_subtrans (cl_shm c')"
  have "\<exists>t\<in>Collect (r_committed b n ?r). SubTransGetTopmostTransaction xm ?st x = Some (Inr t) \<and>
      (parent_of ?st t = InvalidTransactionId \<or> TransactionIdPrecedes t xm)"
  proof (rule topmost_closed [of x _ b])
    fix y assume "y \<in> Collect (r_committed b n ?r)"
    then have y: "r_committed b n ?r y" "r_assigned b ?r y" by (auto simp: r_committed_def)
    note logs = assigned_logs [OF inv(2,3) evolvesD(1) [OF ev y(2)]]
    show "in_window b y \<and> sub_has ?st y" using logs by simp
    show "parent_of ?st y = InvalidTransactionId \<or> parent_of ?st y \<in> Collect (r_committed b n ?r) \<and> xoff b (parent_of ?st y) < xoff b y"
      using r_committed_parent [OF cluster_invD(3) [OF inv(1,3,4)] y(1)] logs(3) evolvesD(2) [OF ev y(2)] by simp
  qed (use x in simp)
  then show ?thesis by auto
qed

lemma snapshot_decides:
  assumes inv: "cluster_inv B c" "cluster_inv B c'" "b = XidFromFullTransactionId B" "n = length (cl_sessions c)"
    and ev: "evolves b n (running b c) (running b c')" and cur: "snap_current b n (flags c) (running b c) i s"
    and xm: "in_window b xm" "xoff b xm \<le> xoff b (snap_xmin s)" and x: "in_window b x" "\<not> unsnapped c i x"
  shows "\<exists>a. XidInMVCCSnapshot xm (shm_subtrans (cl_shm c')) x s = Some (Inr a) \<and>
    (\<not> a \<and> xid_status (shm_clog (cl_shm c')) x = TRANSACTION_STATUS_COMMITTED \<longleftrightarrow> had_committed B c x) \<and>
    (\<not> a \<longrightarrow> r_assigned b (running b c) x \<and> \<not> r_live n (running b c) x)"
proof -
  let ?r = "running b c" and ?st = "shm_subtrans (cl_shm c')"
  note old = cluster_invD [OF inv(1,3,4)]
  note al = advance_latest [OF old(3,4)]
  have holds: "snap_holds b n (\<lambda>j. j = i \<or> flags c j) ?r (snap_xmin s) (snap_xmax s) (set (snap_xip s)) (set (snap_subxip s)) (snap_suboverflowed s)"
    and rec: "\<not> snap_takenDuringRecovery s" using cur by (simp_all add: snap_current_def)
  have w: "in_window b (snap_xmin s)" "in_window b (snap_xmax s)" "xoff b (snap_xmin s) \<le> xoff b (snap_xmax s)"
      "snap_xmax s = TransactionIdAdvance (r_latest ?r)"
    using holds al(1) by (auto simp: snap_holds_def)
  note eq = snapshot_between [OF x(1) w(1,2) rec, of xm ?st]
  have hc: "had_committed B c x \<longleftrightarrow> r_committed b n ?r x" by (simp add: had_committed_iff inv(3,4))
  consider (new) "\<not> r_assigned b ?r x" | (live) j where "j < n" "x \<in> set (r_tree ?r j)"
    | (past) "r_assigned b ?r x" "\<not> r_live n ?r x" by (auto simp: r_live_def)
  then show ?thesis
  proof cases
    case new
    then have "xoff b (snap_xmax s) \<le> xoff b x" using x(1) al(3) w(4) by (simp add: r_assigned_def)
    then show ?thesis using eq w(3) new hc by (auto simp: r_committed_def)
  next
    case live
    then have nh: "\<not> (j = i \<or> flags c j)" using x(2) inv(4) by (auto simp: unsnapped_def)
    have cov: "covers b (snap_xmin s) (snap_xmax s) (set (snap_xip s)) (set (snap_subxip s)) (snap_suboverflowed s) (r_tree ?r j)"
      using holds live(1) nh by (auto simp: snap_holds_def)
    have le: "xoff b (hd (r_tree ?r j)) \<le> xoff b x" using tree_hd_least [OF run_inv_tree [OF old(3) live(1)] live(2)] .
    have "XidInMVCCSnapshot xm ?st x s = Some (Inr True)"
    proof (cases "xoff b (snap_xmax s) \<le> xoff b x")
      case True
      then show ?thesis using eq w(3) by simp
    next
      case False
      then have c: "hd (r_tree ?r j) \<in> set (snap_xip s)" "xoff b (snap_xmin s) \<le> xoff b (hd (r_tree ?r j))"
        "snap_suboverflowed s \<or> x = hd (r_tree ?r j) \<or> x \<in> set (snap_subxip s)"
        using cov le live(2) by (cases "r_tree ?r j"; auto simp: covers_def)+
      have hw: "in_window b (hd (r_tree ?r j))"
        using run_inv_tree [OF old(3) live(1)] live(2) by (cases "r_tree ?r j") (auto simp: tree_inv_def r_assigned_def)
      show ?thesis
      proof (cases "snap_suboverflowed s")
        case True
        have "SubTransGetTopmostTransaction xm ?st x = Some (Inr (hd (r_tree ?r j)))"
          by (rule walk_live_later [OF inv ev live xm(1)]) (use xm(2) c(2) in linarith)
        then show ?thesis using eq True False c(1,2) le prec_window(1) [OF hw w(1)] by simp
      next
        case no: False
        then show ?thesis using eq False c le by auto
      qed
    qed
    moreover have "\<not> had_committed B c x" using live hc by (auto simp: r_committed_def r_live_def)
    ultimately show ?thesis by (intro exI [of _ True]) simp
  next
    case past
    have st: "xid_status (shm_clog (cl_shm c')) x = r_status ?r x"
      using assigned_logs(5) [OF inv(2,3) evolvesD(1) [OF ev past(1)]] evolvesD(4) [OF ev past] by simp
    obtain a where a: "XidInMVCCSnapshot xm ?st x s = Some (Inr a)"
      using eq walk_assigned [OF inv(2,3) evolvesD(1) [OF ev past(1)], of xm] by (auto split: if_splits)
    have "\<not> a" if com: "r_committed b n ?r x"
    proof -
      have lx: "xoff b x < xoff b (snap_xmax s)"
        using run_inv_xid [OF old(3) past(1)] past(2) al(4) [OF x(1)] w(4) by (auto simp: xid_inv_def)
      have dead: "t \<notin> set (snap_xip s) \<union> set (snap_subxip s)" if "\<not> r_live n ?r t" for t
        using holds that by (auto simp: snap_holds_def r_live_def)
      obtain t where "SubTransGetTopmostTransaction xm ?st x = Some (Inr t)" "\<not> r_live n ?r t"
        using walk_committed_later [OF inv ev com] by (auto simp: r_committed_def)
      then show ?thesis using a eq lx dead [OF past(2)] dead [of t] by (auto split: if_splits)
    qed
    then show ?thesis using a st hc past by (auto simp: r_committed_def)
  qed
qed

lemma snapshot_answer:
  assumes inv: "cluster_inv B c" "cluster_inv B c'" "b = XidFromFullTransactionId B" "n = length (cl_sessions c)"
    and ev: "evolves b n (running b c) (running b c')" and cur: "snap_current b n (flags c) (running b c) i s"
    and xm: "in_window b xm" "xoff b xm \<le> xoff b (snap_xmin s)" and x: "in_window b x" "\<not> unsnapped c i x"
  shows "\<exists>a. XidInMVCCSnapshot xm (shm_subtrans (cl_shm c')) x s = Some (Inr a) \<and>
    (\<not> a \<and> xid_status (shm_clog (cl_shm c')) x = TRANSACTION_STATUS_COMMITTED \<longleftrightarrow> had_committed B c x)"
  using snapshot_decides [OF assms] by blast

section \<open>Runs\<close>

definition normal_mode :: "ProcessMode \<Rightarrow> bool" where
  "normal_mode mode \<longleftrightarrow> IsUnderPostmaster mode \<and> \<not> IsBootstrapProcessingMode mode"

lemma cluster_run:
  assumes "(cluster_step mode (XidFromFullTransactionId B))\<^sup>*\<^sup>* c c'" "cluster_inv B c" "normal_mode mode"
  shows "simulated B c c'"
  using assms(1)
proof (induction rule: rtranclp_induct)
  case base
  show ?case using simulated_refl [OF assms(2)] .
next
  case (step c1 c2)
  then have "cluster_inv B c1" by (simp add: simulated_def)
  then show ?case using simulated_trans [OF step.IH cluster_step_simulated [OF step.hyps(2)]] assms(3) by (simp add: normal_mode_def)
qed

lemma simulatedD:
  assumes "simulated B c c'" "cluster_inv B c" "b = XidFromFullTransactionId B" "n = length (cl_sessions c)"
  shows "cluster_inv B c'" "length (cl_sessions c') = n" "evolves b n (running b c) (running b c')"
  using assms run_steps_evolves [of b n "running b c" "running b c'"] cluster_invD(3) [OF assms(2-4)] by (auto simp: simulated_def)

section \<open>Horizons\<close>

lemma older_le:
  assumes "in_window b x" "y = InvalidTransactionId \<or> in_window b y"
  shows "in_window b (TransactionIdOlder x y)" "xoff b (TransactionIdOlder x y) \<le> xoff b x"
    and "y \<noteq> InvalidTransactionId \<Longrightarrow> xoff b (TransactionIdOlder x y) \<le> xoff b y"
  using assms older_window [of b x y] by auto

text \<open>The backends a horizon for relations of database \<^verbatim>\<open>MyDatabaseId\<close> takes into account.\<close>

definition considered :: "BackendState \<Rightarrow> GlobalVisHorizonKind \<Rightarrow> PGPROC \<Rightarrow> bool" where
  "considered be kind p \<longleftrightarrow> \<not> flagged p \<and> kind \<noteq> VISHORIZON_TEMP \<and>
     (kind = VISHORIZON_SHARED \<or> proc_databaseId p = MyDatabaseId be \<or> MyDatabaseId be = InvalidOid \<or>
      proc_statusFlags p AND PROC_AFFECTS_ALL_HORIZONS \<noteq> 0)"

definition proc_window :: "TransactionId \<Rightarrow> PGPROC \<Rightarrow> bool" where
  "proc_window b p \<longleftrightarrow> (proc_xmin p = InvalidTransactionId \<or> in_window b (proc_xmin p)) \<and>
     (proc_xid p = InvalidTransactionId \<or> in_window b (proc_xid p))"

definition horizon_window :: "TransactionId \<Rightarrow> ComputeXidHorizonsResult \<Rightarrow> bool" where
  "horizon_window b h \<longleftrightarrow> in_window b (shared_oldest_nonremovable h) \<and> in_window b (data_oldest_nonremovable h)"

definition horizon_le :: "TransactionId \<Rightarrow> ComputeXidHorizonsResult \<Rightarrow> ComputeXidHorizonsResult \<Rightarrow> bool" where
  "horizon_le b h h' \<longleftrightarrow> xoff b (shared_oldest_nonremovable h) \<le> xoff b (shared_oldest_nonremovable h') \<and>
     xoff b (data_oldest_nonremovable h) \<le> xoff b (data_oldest_nonremovable h') \<and>
     h_slot_xmin h = h_slot_xmin h' \<and> h_slot_catalog_xmin h = h_slot_catalog_xmin h'"

definition horizon_below :: "TransactionId \<Rightarrow> BackendState \<Rightarrow> ComputeXidHorizonsResult \<Rightarrow> PGPROC \<Rightarrow> bool" where
  "horizon_below b be h p \<longleftrightarrow> (\<forall>x\<in>{proc_xmin p, proc_xid p}. x \<noteq> InvalidTransactionId \<longrightarrow>
     (considered be VISHORIZON_SHARED p \<longrightarrow> xoff b (shared_oldest_nonremovable h) \<le> xoff b x) \<and>
     (considered be VISHORIZON_DATA p \<longrightarrow> xoff b (data_oldest_nonremovable h) \<le> xoff b x))"

lemma horizon_proc_step:
  assumes "horizon_window b h" "proc_window b p"
  shows "horizon_window b (horizon_proc be False p h) \<and> horizon_le b (horizon_proc be False p h) h \<and>
    horizon_below b be (horizon_proc be False p h) p"
proof -
  let ?x = "TransactionIdOlder (proc_xmin p) (proc_xid p)"
  have x: "?x = InvalidTransactionId \<and> proc_xmin p = InvalidTransactionId \<and> proc_xid p = InvalidTransactionId \<or>
      in_window b ?x \<and> (\<forall>y\<in>{proc_xmin p, proc_xid p}. y \<noteq> InvalidTransactionId \<longrightarrow> xoff b ?x \<le> xoff b y)"
    using assms(2) older_window [of b "proc_xmin p" "proc_xid p"] by (auto simp: proc_window_def)
  have fl: "proc_statusFlags p AND (PROC_IN_VACUUM OR PROC_IN_LOGICAL_DECODING) \<noteq> 0 \<longleftrightarrow> flagged p"
    by (simp add: flagged_def or.commute)
  show ?thesis
  proof (cases "?x = InvalidTransactionId")
    case True
    then show ?thesis using x assms(1) window_valid(2)
      by (auto simp: horizon_proc_def horizon_le_def horizon_below_def TransactionIdIsValid_def Let_def)
  next
    case False
    then have w: "in_window b ?x" "TransactionIdIsValid ?x" using x window_valid by auto
    note o1 = older_le [of b "shared_oldest_nonremovable h" ?x] and o2 = older_le [of b "data_oldest_nonremovable h" ?x]
    show ?thesis using assms(1) o1 o2 w x False
      unfolding horizon_proc_def Let_def fl horizon_window_def horizon_le_def horizon_below_def considered_def by auto
  qed
qed

lemma horizon_fold:
  assumes "\<forall>p\<in>set ps. proc_window b p" "horizon_window b h"
  shows "horizon_window b (fold (horizon_proc be False) ps h) \<and> horizon_le b (fold (horizon_proc be False) ps h) h \<and>
    (\<forall>p\<in>set ps. horizon_below b be (fold (horizon_proc be False) ps h) p)"
  using assms
proof (induction ps arbitrary: h)
  case (Cons p ps)
  let ?h = "horizon_proc be False p h"
  have s: "horizon_window b ?h" "horizon_le b ?h h" "horizon_below b be ?h p" using horizon_proc_step Cons.prems by auto
  have IH: "horizon_window b (fold (horizon_proc be False) ps ?h)" "horizon_le b (fold (horizon_proc be False) ps ?h) ?h"
    "\<forall>p\<in>set ps. horizon_below b be (fold (horizon_proc be False) ps ?h) p" using Cons s(1) by auto
  have "horizon_below b be (fold (horizon_proc be False) ps ?h) p" using IH(2) s(3) by (auto simp: horizon_le_def horizon_below_def)
  moreover have "horizon_le b (fold (horizon_proc be False) ps ?h) h" using IH(2) s(2) by (auto simp: horizon_le_def)
  ultimately show ?case using IH by auto
qed (simp add: horizon_le_def)

lemma proc_window_session:
  assumes inv: "cluster_inv B c" "b = XidFromFullTransactionId B" and j: "j < length (cl_sessions c)"
  shows "proc_window b (procArray (cl_shm c) ! j)"
proof -
  note old = cluster_invD [OF inv refl]
  have "tree_of (session c j) = [] \<or> in_window b (hd (tree_of (session c j)))"
    using tree_facts(2) [OF inv(1) j inv(2)] by (cases "tree_of (session c j)") auto
  then have "proc_xid (procArray (cl_shm c) ! j) = InvalidTransactionId \<or> in_window b (proc_xid (procArray (cl_shm c) ! j))"
    using session_okD(5) [OF old(5) [OF j]] by (auto simp: first_xid_def split: list.splits)
  then show ?thesis using old(6) [OF j] by (auto simp: proc_window_def xmin_ok_def lower_def Let_def)
qed

lemma nonremovable_le:
  assumes inv: "cluster_inv B c" "b = XidFromFullTransactionId B"
    and h: "GetOldestNonRemovableTransactionId kind be (cl_shm c) = (h, be')" "kind \<noteq> VISHORIZON_TEMP"
  shows "in_window b h" "xoff b h \<le> xoff b (TransactionIdAdvance (latest_of (cl_shm c)))"
    and "j < length (cl_sessions c) \<Longrightarrow> considered be kind (procArray (cl_shm c) ! j) \<Longrightarrow>
      x \<in> {proc_xmin (procArray (cl_shm c) ! j), proc_xid (procArray (cl_shm c) ! j)} \<Longrightarrow> x \<noteq> InvalidTransactionId \<Longrightarrow> xoff b h \<le> xoff b x"
proof -
  note old = cluster_invD [OF inv refl]
  note al = advance_latest [OF old(3,4)]
  let ?h0 = "horizons_start be (cl_shm c)" and ?ps = "procArray (cl_shm c)"
  define h1 where "h1 = fold (horizon_proc be False) ?ps ?h0"
  have h0: "horizon_window b ?h0" "shared_oldest_nonremovable ?h0 = TransactionIdAdvance (latest_of (cl_shm c))"
    "data_oldest_nonremovable ?h0 = TransactionIdAdvance (latest_of (cl_shm c))"
    "h_slot_xmin ?h0 = replication_slot_xmin (cl_shm c)" "h_slot_catalog_xmin ?h0 = replication_slot_catalog_xmin (cl_shm c)"
    using al(1) by (simp_all add: horizon_window_def horizons_start_def Let_def)
  have ps: "\<forall>p\<in>set ?ps. proc_window b p" using proc_window_session [OF inv] old(1) by (auto simp: in_set_conv_nth)
  have h1: "horizon_window b h1" "horizon_le b h1 ?h0" "\<forall>p\<in>set ?ps. horizon_below b be h1 p"
    using horizon_fold [OF ps h0(1)] by (simp_all add: h1_def)
  have slots: "s = InvalidTransactionId \<or> in_window b s" if "s = h_slot_xmin h1 \<or> s = h_slot_catalog_xmin h1" for s
    using old(2) h1(2) h0(4,5) that inv(2) by (auto simp: shm_ok_def horizon_le_def Let_def)
  have rec: "\<not> RecoveryInProgress (cl_shm c)" using shm_ok_window(8) [OF old(2) inv(2)] .
  let ?s = "TransactionIdOlder (shared_oldest_nonremovable h1) (h_slot_xmin h1)" and ?d = "TransactionIdOlder (data_oldest_nonremovable h1) (h_slot_xmin h1)"
  have w1: "in_window b (shared_oldest_nonremovable h1)" "in_window b (data_oldest_nonremovable h1)" using h1(1) by (simp_all add: horizon_window_def)
  note s1 = older_le(1,2) [OF w1(1) slots [OF disjI1 [OF refl]]] and d1 = older_le(1,2) [OF w1(2) slots [OF disjI1 [OF refl]]]
  note s2 = older_le(1,2) [OF s1(1) slots [OF disjI2 [OF refl]]] and d2 = older_le(1,2) [OF d1(1) slots [OF disjI2 [OF refl]]]
  have hk: "h = (case kind of VISHORIZON_SHARED \<Rightarrow> TransactionIdOlder ?s (h_slot_catalog_xmin h1)
      | VISHORIZON_CATALOG \<Rightarrow> TransactionIdOlder ?d (h_slot_catalog_xmin h1) | VISHORIZON_DATA \<Rightarrow> ?d | VISHORIZON_TEMP \<Rightarrow> h)"
    using h(1) rec unfolding GetOldestNonRemovableTransactionId_def ComputeXidHorizons_def Let_def
    by (cases kind) (simp_all add: h1_def horizons_finish_def Let_def)
  show "in_window b h" using hk h(2) s2(1) d1(1) d2(1) by (cases kind) simp_all
  have le: "kind = VISHORIZON_SHARED \<Longrightarrow> xoff b h \<le> xoff b (shared_oldest_nonremovable h1)"
    "kind \<noteq> VISHORIZON_SHARED \<Longrightarrow> xoff b h \<le> xoff b (data_oldest_nonremovable h1)"
    using hk h(2) s1(2) s2(2) d1(2) d2(2) by (cases kind; force)+
  then show "xoff b h \<le> xoff b (TransactionIdAdvance (latest_of (cl_shm c)))"
    using h1(2) h0(2,3) by (cases "kind = VISHORIZON_SHARED") (auto simp: horizon_le_def)
  show "xoff b h \<le> xoff b x"
    if j: "j < length (cl_sessions c)" "considered be kind (procArray (cl_shm c) ! j)"
      "x \<in> {proc_xmin (procArray (cl_shm c) ! j), proc_xid (procArray (cl_shm c) ! j)}" "x \<noteq> InvalidTransactionId"
  proof -
    have "horizon_below b be h1 (?ps ! j)" using h1(3) j(1) old(1) by simp
    then show ?thesis using le j(2-4) by (cases "kind = VISHORIZON_SHARED") (auto simp: horizon_below_def considered_def)
  qed
qed

lemma held_before_horizon:
  assumes inv: "cluster_inv B c" "b = XidFromFullTransactionId B"
    and h: "GetOldestNonRemovableTransactionId kind be (cl_shm c) = (h, be')"
    and j: "j < length (cl_sessions c)" "considered be kind (procArray (cl_shm c) ! j)" and s: "s \<in> set (se_held (session c j))"
    and x: "in_window b x" "TransactionIdPrecedes x h"
  shows "XidInMVCCSnapshot xm st x s = Some (Inr False)"
proof -
  have kind: "kind \<noteq> VISHORIZON_TEMP" using j(2) by (simp add: considered_def)
  note hw = nonremovable_le [OF inv h kind]
  have xo: "in_window b (snap_xmin s)" "in_window b (proc_xmin (procArray (cl_shm c) ! j))"
    "xoff b (proc_xmin (procArray (cl_shm c) ! j)) \<le> xoff b (snap_xmin s)"
    using cluster_invD(6) [OF inv refl j(1)] s by (auto simp: xmin_ok_def lower_def Let_def)
  have "xoff b x < xoff b h" using prec_window(1) [OF x(1) hw(1)] x(2) by simp
  also have "\<dots> \<le> xoff b (snap_xmin s)" using hw(3) [OF j _ window_valid(2) [OF xo(2)]] xo(3) by simp
  finally show ?thesis using prec_window(1) [OF x(1) xo(1)] by (simp add: XidInMVCCSnapshot_def)
qed

end
