(* ===== verification/ClusterProps.thy ===== *)
theory ClusterProps
  imports ClusterMVCC
begin

text \<open>
  The properties of the shared transaction state, each for every state a cluster can reach, with a
  small cluster on which they are evaluated.
\<close>

section \<open>Taking a snapshot as one operation\<close>

text \<open>What \<^verbatim>\<open>GetTransactionSnapshot\<close> hands out is a copy of the static snapshot that was just filled.\<close>

definition take_snapshot :: "nat \<Rightarrow> Cluster \<Rightarrow> SnapshotData \<times> Cluster" where
  "take_snapshot i c =
     (let se = session c i;
          (snap, be, shm) = GetSnapshotData (se_current se) (se_be se) (cl_shm c)
      in (CopySnapshot snap, put i (se\<lparr>se_be := be, se_current := snap, se_held := CopySnapshot snap # se_held se\<rparr>) shm c))"

lemma take_snapshot_result:
  assumes inv: "cluster_inv B c" "b = XidFromFullTransactionId B" "n = length (cl_sessions c)" and i: "i < n" and s: "take_snapshot i c = (s, c1)"
  obtains snap where "snap_current b n (flags c) (running b c) i snap" "s = CopySnapshot snap" "simulated B c c1"
    "s \<in> set (se_held (session c1 i))" "running b c1 = running b c"
proof -
  obtain snap be shm where get: "GetSnapshotData (se_current (session c i)) (se_be (session c i)) (cl_shm c) = (snap, be, shm)"
    by (cases "GetSnapshotData (se_current (session c i)) (se_be (session c i)) (cl_shm c)")
  then have eq: "s = CopySnapshot snap"
    "c1 = put i ((session c i)\<lparr>se_be := be, se_current := snap, se_held := CopySnapshot snap # se_held (session c i)\<rparr>) shm c"
    using s by (auto simp: take_snapshot_def Let_def)
  have i': "i < length (cl_sessions c)" using i inv(3) by simp
  note eff = GetSnapshotData_effect [OF get session_okD(1) [OF cluster_invD(5) [OF inv i]]]
  have "running b c1 = running b c" unfolding eq(2)
    by (rule running_put_same [OF i']) (use eff(1,4) in \<open>simp_all add: tree_of_def same_xact_def\<close>)
  moreover have "s \<in> set (se_held (session c1 i))" using i' by (simp add: eq)
  ultimately show ?thesis
    using that snapshot_current [OF inv i get] snapshot_inv [OF inv(1) i' refl get] eq by blast
qed

lemma held_xmin:
  assumes inv: "cluster_inv B c" "b = XidFromFullTransactionId B" and i: "i < length (cl_sessions c)" and s: "s \<in> set (se_held (session c i))"
  shows "in_window b (be_TransactionXmin (se_be (session c i)))" "xoff b (be_TransactionXmin (se_be (session c i))) \<le> xoff b (snap_xmin s)"
  using cluster_invD(6) [OF inv refl i] s by (auto simp: xmin_ok_def Let_def)

section \<open>A small cluster\<close>

text \<open>
  Two idle backends of database 5 over the ids from 3: the ids 3 to 6 have been used, 4 has committed.
\<close>

definition example_base :: FullTransactionId where "example_base = FullTransactionIdFromEpochAndXid 0 3"

definition example_proc :: PGPROC where
  "example_proc = \<lparr>proc_xid = InvalidTransactionId, proc_subxids = [], proc_overflowed = False, proc_xmin = InvalidTransactionId,
     proc_statusFlags = 0, proc_databaseId = 5, proc_pid = 100\<rparr>"

definition example_links :: subtrans where "example_links = (\<lambda>page. Some (replicate 2048 InvalidTransactionId))"

definition example_shm :: ShmemState where
  "example_shm = \<lparr>nextXid = FullTransactionIdFromEpochAndXid 0 7, oldestXid = 3, xidVacLimit = 200000003, xidWarnLimit = 2107483650,
     xidStopLimit = 2144483650, xidWrapLimit = 2147483650, latestCompletedXid = FullTransactionIdFromEpochAndXid 0 6,
     xactCompletionCount = 1, procArray = [example_proc, example_proc], replication_slot_xmin = InvalidTransactionId,
     replication_slot_catalog_xmin = InvalidTransactionId, RecoveryInProgress = False, KnownAssignedXids = [], lastOverflowedXid = InvalidTransactionId,
     shm_clog = write_status False 0 (4, TRANSACTION_STATUS_COMMITTED) example_log, shm_subtrans = example_links\<rparr>"

definition example_vis :: GlobalVisState where
  "example_vis = \<lparr>definitely_needed = InvalidFullTransactionId, maybe_needed = InvalidFullTransactionId\<rparr>"

definition example_backend :: "nat \<Rightarrow> BackendState" where
  "example_backend i = \<lparr>pgxactoff = i, MyDatabaseId = 5, be_TransactionXmin = FirstNormalTransactionId, RecentXmin = FirstNormalTransactionId,
     cachedXidIsNotInProgress = InvalidTransactionId, be_fetch_cache = (InvalidTransactionId, 0, 0), currentCommandId = 0,
     XactTopFullTransactionId = InvalidFullTransactionId, ParallelCurrentXids = [], xact_stack = [fresh_xact],
     GlobalVisSharedRels = example_vis, GlobalVisCatalogRels = example_vis, GlobalVisDataRels = example_vis, GlobalVisTempRels = example_vis,
     ComputeXidHorizonsResultLastXmin = InvalidTransactionId\<rparr>"

definition example_static :: SnapshotData where
  "example_static = \<lparr>snap_xmin = InvalidTransactionId, snap_xmax = InvalidTransactionId, snap_xip = [], snap_subxip = [],
     snap_suboverflowed = False, snap_takenDuringRecovery = False, snap_curcid = 0, snapXactCompletionCount = 0\<rparr>"

definition example_session :: "nat \<Rightarrow> Session" where
  "example_session i = \<lparr>se_be = example_backend i, se_latestXid = None, se_current = example_static, se_held = []\<rparr>"

definition example_cluster :: Cluster where
  "example_cluster = \<lparr>cl_shm = example_shm, cl_sessions = [example_session 0, example_session 1]\<rparr>"

definition example_mode :: ProcessMode where
  "example_mode = \<lparr>InParallelMode = False, IsBootstrapProcessingMode = False, IsUnderPostmaster = True\<rparr>"

lemma epoch_zero [simp]: "XidFromFullTransactionId (FullTransactionIdFromEpochAndXid 0 x) = x" "fxid_value (FullTransactionIdFromEpochAndXid 0 x) = ucast x"
proof -
  have "ucast (ucast x :: 64 word) = x" by (rule bit_word_eqI) (simp add: bit_simps)
  then show "XidFromFullTransactionId (FullTransactionIdFromEpochAndXid 0 x) = x" "fxid_value (FullTransactionIdFromEpochAndXid 0 x) = ucast x"
    by (simp_all add: FullTransactionIdFromEpochAndXid_def XidFromFullTransactionId_def)
qed

lemma example_base_xid [simp]: "XidFromFullTransactionId example_base = 3"
  by (simp add: example_base_def)

lemma example_xid_status [simp]:
  "xid_status (write_status False 0 (4, TRANSACTION_STATUS_COMMITTED) example_log) x =
     (if x = 4 then TRANSACTION_STATUS_COMMITTED else TRANSACTION_STATUS_IN_PROGRESS)"
proof -
  have "xid_status example_log x = TRANSACTION_STATUS_IN_PROGRESS"
    using example_status [of x] by (simp add: xid_status_def example_log_def TransactionIdGetStatus_def SimpleLruReadPage_def)
  then show ?thesis using xid_status_write [of example_log "(4, TRANSACTION_STATUS_COMMITTED)" False 0 x] by simp
qed

lemma example_links_ok [simp]: "sub_has example_links x" "parent_of example_links x = InvalidTransactionId"
proof -
  have "SubTransToEntry x < 2048" by (rule sub_address(1))
  then show "sub_has example_links x" "parent_of example_links x = InvalidTransactionId"
    by (simp_all add: sub_has_def parent_of_def example_links_def)
qed

lemma example_window [simp]: "in_window 3 3" "in_window 3 4" "in_window 3 6" "in_window 3 7" "in_window 3 200000003" "in_window 3 2144483650"
  "xoff 3 3 = 0" "xoff 3 4 = 1" "xoff 3 6 = 3" "xoff 3 7 = 4" "xoff 3 200000003 = 200000000" "xoff 3 2144483650 = 2144483647"
  by (simp_all add: in_window_def xoff_def TransactionIdIsNormal_def FirstNormalTransactionId_def)

lemma example_shm_ok: "shm_ok example_base example_shm"
proof -
  have "full_in_window example_base (nextXid example_shm)"
    by (simp add: full_in_window_def example_shm_def) (simp add: example_base_def)
  moreover have "x \<noteq> 4" if "4 \<le> xoff 3 x" for x :: TransactionId using that by auto
  ultimately show ?thesis by (auto simp: shm_ok_def Let_def example_shm_def)
qed

lemma example_idle_tree [simp]: "tree_of (example_session i) = []"
  by (simp add: tree_of_def example_session_def example_backend_def fresh_xact_def InvalidFullTransactionId_def xid_defs)

lemma example_session_nth [simp]:
  "i < 2 \<Longrightarrow> session example_cluster i = example_session i" "length (cl_sessions example_cluster) = 2"
  "cl_shm example_cluster = example_shm" "i < 2 \<Longrightarrow> procArray example_shm ! i = example_proc"
  by (auto simp: example_cluster_def example_shm_def less_2_cases_iff)

lemma example_next [simp]: "next_of example_shm = 7" "latest_of example_shm = 6"
  by (simp_all add: example_shm_def)

lemma example_running_simps [simp]:
  "r_tree (running 3 example_cluster) i = []" "\<not> r_ended (running 3 example_cluster) i" "r_next (running 3 example_cluster) = 7"
  "r_latest (running 3 example_cluster) = 6" "r_parent (running 3 example_cluster) x = InvalidTransactionId"
  by (simp_all add: running_def mask_xid_def) (simp_all add: example_shm_def InvalidTransactionId_def)

lemma example_run_status:
  "r_status (running 3 example_cluster) x = (if x = 4 then TRANSACTION_STATUS_COMMITTED else TRANSACTION_STATUS_IN_PROGRESS)"
  by (simp add: running_def mask_xid_def example_shm_def) (auto simp: TRANSACTION_STATUS_IN_PROGRESS_def)

lemma example_run_inv: "run_inv 3 2 (running 3 example_cluster)"
proof -
  have "xid_inv 3 2 (running 3 example_cluster) x" if "r_assigned 3 (running 3 example_cluster) x" for x
    using that by (auto simp: xid_inv_def r_assigned_def example_run_status status_defs)
  then show ?thesis by (simp add: run_inv_def tree_inv_def disjoint_trees_def)
qed

lemma example_inv: "cluster_inv example_base example_cluster"
proof -
  have low: "lower 3 2 F (running 3 example_cluster) i 3" for F i
    using advance_latest(1,2) [OF example_run_inv] by (simp add: lower_def room_def)
  have "session_ok example_shm i (example_session i)" if "i < 2" for i
    using that by (simp add: session_ok_def Let_def) (simp add: example_session_def example_backend_def example_proc_def first_xid_def
        fresh_xact_def InvalidFullTransactionId_def xid_defs)
  moreover have "xmin_ok 3 2 F (running 3 example_cluster) i example_proc (example_session i)" for F i
    using low by (simp add: xmin_ok_def Let_def example_session_def example_backend_def example_proc_def FirstNormalTransactionId_def)
  moreover have "memo_ok 3 2 F (running 3 example_cluster) i (example_session i)" for F i
    by (simp add: memo_ok_def Let_def example_session_def example_backend_def)
  moreover have "static_ok 3 2 F (xactCompletionCount example_shm) (running 3 example_cluster) i (example_session i)" for F i
    by (simp add: static_ok_def Let_def example_session_def example_static_def)
  ultimately show ?thesis
    using example_shm_ok example_run_inv by (auto simp: cluster_inv_def Let_def) (simp_all add: example_shm_def)
qed

text \<open>Backend 0 takes a snapshot; then backend 1 is assigned id 7.\<close>

definition example_snap :: SnapshotData where
  "example_snap = \<lparr>snap_xmin = 7, snap_xmax = 7, snap_xip = [], snap_subxip = [], snap_suboverflowed = False, snap_takenDuringRecovery = False,
     snap_curcid = 0, snapXactCompletionCount = 0\<rparr>"

definition example_snapped :: Cluster where "example_snapped = snd (take_snapshot 0 example_cluster)"

lemma example_scan: "fold (scan_proc 0 7) (enumerate 0 (procArray example_shm)) sc = sc"
  by (simp add: example_shm_def example_proc_def scan_proc_def)

lemma example_get:
  "GetSnapshotData example_static (example_backend 0) example_shm =
    (example_snap\<lparr>snapXactCompletionCount := 1\<rparr>,
     (snapshot_global_vis (latestCompletedXid example_shm) 7 InvalidTransactionId 3 (set_proc 0 (example_proc\<lparr>proc_xmin := 7\<rparr>) example_shm)
       ((example_backend 0)\<lparr>be_TransactionXmin := 7\<rparr>))\<lparr>RecentXmin := 7\<rparr>,
     set_proc 0 (example_proc\<lparr>proc_xmin := 7\<rparr>) example_shm)"
proof -
  have "TransactionIdAdvance 6 = 7" by (simp add: TransactionIdAdvance_def Let_def FirstNormalTransactionId_def)
  moreover have "\<not> TransactionIdIsValid (proc_xmin example_proc)" "proc_xid example_proc = InvalidTransactionId"
    by (simp_all add: example_proc_def TransactionIdIsValid_def)
  moreover have "\<not> RecoveryInProgress example_shm" "xactCompletionCount example_shm = 1" "oldestXid example_shm = 3" by (simp_all add: example_shm_def)
  ultimately show ?thesis
    by (simp add: GetSnapshotData_def GetSnapshotDataReuse_def Let_def example_static_def example_snap_def MyProc_def example_scan set_proc_def
       snapshot_global_vis_def example_backend_def)
qed

definition example_snapper :: BackendState where
  "example_snapper = (snapshot_global_vis (latestCompletedXid example_shm) 7 InvalidTransactionId 3
     (set_proc 0 (example_proc\<lparr>proc_xmin := 7\<rparr>) example_shm) ((example_backend 0)\<lparr>be_TransactionXmin := 7\<rparr>))\<lparr>RecentXmin := 7\<rparr>"

lemma example_snapped_eq:
  "example_snapped = put 0 ((example_session 0)\<lparr>se_be := example_snapper, se_current := example_snap\<lparr>snapXactCompletionCount := 1\<rparr>,
     se_held := [example_snap]\<rparr>) (set_proc 0 (example_proc\<lparr>proc_xmin := 7\<rparr>) example_shm) example_cluster"
  and example_snapshot: "take_snapshot 0 example_cluster = (example_snap, example_snapped)"
proof -
  have "CopySnapshot (example_snap\<lparr>snapXactCompletionCount := 1\<rparr>) = example_snap" by (simp add: CopySnapshot_def example_snap_def)
  then have "take_snapshot 0 example_cluster = (example_snap, put 0 ((example_session 0)\<lparr>se_be := example_snapper,
      se_current := example_snap\<lparr>snapXactCompletionCount := 1\<rparr>, se_held := [example_snap]\<rparr>) (set_proc 0 (example_proc\<lparr>proc_xmin := 7\<rparr>) example_shm) example_cluster)"
    using example_get by (simp add: take_snapshot_def Let_def example_snapper_def) (simp add: example_session_def)
  then show "example_snapped = put 0 ((example_session 0)\<lparr>se_be := example_snapper, se_current := example_snap\<lparr>snapXactCompletionCount := 1\<rparr>,
     se_held := [example_snap]\<rparr>) (set_proc 0 (example_proc\<lparr>proc_xmin := 7\<rparr>) example_shm) example_cluster"
    "take_snapshot 0 example_cluster = (example_snap, example_snapped)" by (simp_all add: example_snapped_def)
qed

definition example_assigned :: Cluster where
  "example_assigned = (let se = session example_snapped 1;
     (err, stack, topfull, shm) = AssignTransactionId example_mode 1 (xact_stack (se_be se)) (XactTopFullTransactionId (se_be se)) (cl_shm example_snapped)
     in put 1 (se\<lparr>se_be := (se_be se)\<lparr>xact_stack := stack, XactTopFullTransactionId := topfull\<rparr>\<rparr>) shm example_snapped)"

lemma example_snapped_simps [simp]:
  "session example_snapped (Suc 0) = example_session (Suc 0)" "length (cl_sessions example_snapped) = 2"
  "cl_shm example_snapped = set_proc 0 (example_proc\<lparr>proc_xmin := 7\<rparr>) example_shm"
  by (simp_all add: example_snapped_eq put_def)

lemma example_run: "(cluster_step example_mode 3)\<^sup>*\<^sup>* example_snapped example_assigned"
proof (rule r_into_rtranclp)
  obtain err stack topfull shm where a: "AssignTransactionId example_mode 1 (xact_stack (se_be (example_session 1)))
      (XactTopFullTransactionId (se_be (example_session 1))) (cl_shm example_snapped) = (err, stack, topfull, shm)"
    by (cases "AssignTransactionId example_mode 1 (xact_stack (se_be (example_session 1)))
      (XactTopFullTransactionId (se_be (example_session 1))) (cl_shm example_snapped)")
  then have eq: "example_assigned = put 1 ((example_session 1)\<lparr>se_be := (se_be (example_session 1))\<lparr>xact_stack := stack,
      XactTopFullTransactionId := topfull\<rparr>\<rparr>) shm example_snapped"
    by (simp add: example_assigned_def Let_def del: AssignTransactionId.simps)
  show "cluster_step example_mode 3 example_snapped example_assigned"
    unfolding eq by (rule cluster_step.assign [OF _ _ _ _ a])
      (simp_all add: example_session_def example_backend_def fresh_xact_def InvalidFullTransactionId_def xid_defs)
qed

lemma example_assigned_eq:
  "example_assigned = put 1 ((example_session 1)\<lparr>se_be := (example_backend 1)\<lparr>xact_stack := [fresh_xact\<lparr>fullTransactionId := FullTransactionIdFromEpochAndXid 0 7\<rparr>],
     XactTopFullTransactionId := FullTransactionIdFromEpochAndXid 0 7\<rparr>\<rparr>)
    (set_proc 1 (example_proc\<lparr>proc_xid := 7\<rparr>) ((set_proc 0 (example_proc\<lparr>proc_xmin := 7\<rparr>) example_shm)\<lparr>nextXid := FullTransactionIdAdvance (nextXid example_shm)\<rparr>))
    example_snapped"
proof -
  have f: "\<not> TransactionIdFollowsOrEquals 7 200000003" using prec_window(4) [of 3 7 200000003] by simp
  have e: "ExtendCLOG 7 log = log" "ExtendSUBTRANS 7 st = st" for log st
    by (simp_all add: ExtendCLOG_def ExtendSUBTRANS_def TransactionIdToPgIndex_def SubTransToEntry_def clog_consts FirstNormalTransactionId_def)
  have n: "nextXid example_shm = FullTransactionIdFromEpochAndXid 0 7" "xidVacLimit example_shm = 200000003" "\<not> RecoveryInProgress example_shm"
    "length (procArray example_shm) = 2" by (simp_all add: example_shm_def)
  have g: "GetNewTransactionId example_mode 1 False (set_proc 0 (example_proc\<lparr>proc_xmin := 7\<rparr>) example_shm) =
    Inr (FullTransactionIdFromEpochAndXid 0 7, set_proc 1 (example_proc\<lparr>proc_xid := 7\<rparr>)
      ((set_proc 0 (example_proc\<lparr>proc_xmin := 7\<rparr>) example_shm)\<lparr>nextXid := FullTransactionIdAdvance (nextXid example_shm)\<rparr>))"
    using f n by (simp add: GetNewTransactionId_def example_mode_def Let_def e set_proc_def nth_list_update)
  then show ?thesis
    using g [simplified] by (simp add: example_assigned_def Let_def)
      (simp add: example_session_def example_backend_def fresh_xact_def example_mode_def)
qed

lemma example_snapped_inv: "cluster_inv example_base example_snapped"
proof -
  have "simulated example_base example_cluster example_snapped"
    by (rule take_snapshot_result [OF example_inv refl refl _ example_snapshot]) simp_all
  then show ?thesis by (simp add: simulated_def)
qed

lemma example_assigned_inv: "cluster_inv example_base example_assigned"
proof -
  show ?thesis using example_snapped_inv cluster_run [of example_mode example_base example_snapped example_assigned] example_run
    by (simp add: simulated_def normal_mode_def example_mode_def)
qed

lemma example_normal [simp]: "normal_mode example_mode"
  by (simp add: normal_mode_def example_mode_def)

lemma example_held: "example_snap \<in> set (se_held (session example_assigned 0))"
proof -
  have "session example_assigned 0 = session example_snapped 0"
    by (simp add: example_assigned_def put_def Let_def split: prod.splits)
  then show ?thesis by (simp add: example_snapped_eq)
qed

lemma example_had_committed: "had_committed example_base example_cluster 4"
  by (simp add: had_committed_def Let_def) (auto simp: example_cluster_def example_shm_def)

lemma example_snapped_committed: "had_committed example_base example_snapped 4"
  using example_had_committed by (auto simp: had_committed_def Let_def) (auto simp: example_snapped_eq put_def example_cluster_def
    tree_of_def example_session_def example_snapper_def snapshot_global_vis_def example_backend_def fresh_xact_def InvalidFullTransactionId_def xid_defs Let_def)

lemma example_unsnapped [simp]: "\<not> unsnapped example_cluster i x"
  unfolding unsnapped_def by auto

section \<open>Properties\<close>

text \<open>
  C5: The shared transaction state implements the contract of the running set.  Whatever sequence of
  steps the backends take - assigning ids, ending subtransactions, recording an outcome, leaving the
  array, taking and releasing snapshots, vacuuming, lookups, computing horizons - the invariant of the
  cluster holds afterwards and the running set has taken steps of its specification: a transaction's
  outcome is recorded before it leaves the running set, all ids of a tree leave together, no two
  backends share an id, and no outcome is ever changed.
\<close>

theorem cluster_refines_running_set:
  assumes "cluster_inv B c" "normal_mode mode" "(cluster_step mode (XidFromFullTransactionId B))\<^sup>*\<^sup>* c c'"
  shows "cluster_inv B c' \<and>
    (run_step (XidFromFullTransactionId B) (length (cl_sessions c)))\<^sup>*\<^sup>*
      (running (XidFromFullTransactionId B) c) (running (XidFromFullTransactionId B) c')"
  using cluster_run [OF assms(3,1,2)] by (simp add: simulated_def)

theorem cluster_refines_running_set_witness:
  "cluster_inv example_base example_assigned \<and> (run_step 3 2)\<^sup>*\<^sup>* (running 3 example_snapped) (running 3 example_assigned)"
  using cluster_refines_running_set [OF example_snapped_inv example_normal, of example_assigned] example_run by simp

text \<open>
  C1: A snapshot sees the same transactions for as long as it is held.  Backend \<open>i\<close> takes a snapshot in
  state \<open>c\<close>; in any later state in which it still holds it, \<^verbatim>\<open>XidInMVCCSnapshot\<close> returns without error for
  every id of the window, and the ids it lets through and whose commit is recorded are exactly those
  that had committed and left the array when the snapshot was taken.  Ids of the backend itself and
  of backends running a lazy vacuum or logical decoding are not meant to be asked for.
\<close>

theorem snapshot_answers_never_change:
  assumes "cluster_inv B c" "normal_mode mode" "i < length (cl_sessions c)" "take_snapshot i c = (s, c1)"
    and "(cluster_step mode (XidFromFullTransactionId B))\<^sup>*\<^sup>* c1 c'" "s \<in> set (se_held (session c' i))"
    and "in_window (XidFromFullTransactionId B) x" "\<not> unsnapped c i x"
  shows "\<exists>a. XidInMVCCSnapshot (be_TransactionXmin (se_be (session c' i))) (shm_subtrans (cl_shm c')) x s = Some (Inr a) \<and>
    (\<not> a \<and> xid_status (shm_clog (cl_shm c')) x = TRANSACTION_STATUS_COMMITTED \<longleftrightarrow> had_committed B c x)"
proof -
  obtain snap where s: "snap_current (XidFromFullTransactionId B) (length (cl_sessions c)) (flags c) (running (XidFromFullTransactionId B) c) i snap"
    "s = CopySnapshot snap" "simulated B c c1" "running (XidFromFullTransactionId B) c1 = running (XidFromFullTransactionId B) c"
    by (rule take_snapshot_result [OF assms(1) refl refl assms(3,4)])
  have c1: "cluster_inv B c1" "length (cl_sessions c1) = length (cl_sessions c)" using s(3) by (simp_all add: simulated_def)
  note c' = simulatedD [OF cluster_run [OF assms(5) c1(1) assms(2)] c1(1) refl refl]
  have e: "\<not> snap_takenDuringRecovery snap" "snap_xmin s = snap_xmin snap" using s(1,2) by (simp_all add: snap_current_def CopySnapshot_def)
  have i: "i < length (cl_sessions c')" using assms(3) c'(2) c1(2) by simp
  note xm = held_xmin [OF c'(1) refl i assms(6), unfolded e(2)]
  have ev: "evolves (XidFromFullTransactionId B) (length (cl_sessions c)) (running (XidFromFullTransactionId B) c) (running (XidFromFullTransactionId B) c')"
    using c'(3) c1(2) s(4) by simp
  show ?thesis using snapshot_answer [OF assms(1) c'(1) refl refl ev s(1) xm assms(7,8)] e(1) s(2) by simp
qed

theorem snapshot_answers_never_change_witness:
  "XidInMVCCSnapshot (be_TransactionXmin (se_be (session example_assigned 0))) (shm_subtrans (cl_shm example_assigned)) 4 example_snap = Some (Inr False)"
  using snapshot_answers_never_change [OF example_inv example_normal _ example_snapshot _ example_held, of 4] example_run example_had_committed by auto

lemma current_same_bounds:
  assumes "snap_current b n F r i s" "snap_current b n F r i t"
  shows "snap_xmax s = snap_xmax t" "snap_xmin s = snap_xmin t"
proof -
  show "snap_xmax s = snap_xmax t" using assms by (simp add: snap_current_def snap_holds_def)
  have le: "xoff b (snap_xmin s) \<le> xoff b (snap_xmin t)" if "snap_current b n F r i s" "snap_current b n F r i t" for s t
    using that by (auto simp: snap_current_def snap_holds_def lower_def)
  show "snap_xmin s = snap_xmin t" using le [OF assms] le [OF assms(2,1)] by (simp add: le_antisym [THEN xoff_inj [THEN iffD1]])
qed

text \<open>
  C14: Reusing the previous snapshot is as good as building a new one.  When no transaction with an id
  has completed since, \<^verbatim>\<open>GetSnapshotDataReuse\<close> returns the old snapshot instead of scanning the array.
  The scan would have given the same \<^verbatim>\<open>xmin\<close> and \<^verbatim>\<open>xmax\<close>, and both snapshots give the same answer for every
  id whose commit is recorded, even though the arrays they hold can differ.
\<close>

theorem reused_snapshot_is_current:
  assumes "cluster_inv B c" "i < length (cl_sessions c)"
    and "GetSnapshotDataReuse (se_current (session c i)) (se_be (session c i)) (cl_shm c) = Some (s, be, shm)"
    and "GetSnapshotData ((se_current (session c i))\<lparr>snapXactCompletionCount := 0\<rparr>) (se_be (session c i)) (cl_shm c) = (s', be', shm')"
  shows "snap_xmin s = snap_xmin s' \<and> snap_xmax s = snap_xmax s' \<and>
    (\<forall>x. in_window (XidFromFullTransactionId B) x \<and> \<not> unsnapped c i x \<and> xid_status (shm_clog (cl_shm c)) x = TRANSACTION_STATUS_COMMITTED \<longrightarrow>
      (\<exists>a. XidInMVCCSnapshot (be_TransactionXmin be) (shm_subtrans (cl_shm c)) x s = Some (Inr a) \<and>
           XidInMVCCSnapshot (be_TransactionXmin be) (shm_subtrans (cl_shm c)) x s' = Some (Inr a)))"
proof -
  define b n where "b = XidFromFullTransactionId B" and "n = length (cl_sessions c)"
  have i: "i < n" using assms(2) by (simp add: n_def)
  have get: "GetSnapshotData (se_current (session c i)) (se_be (session c i)) (cl_shm c) = (s, be, shm)"
    using assms(3) by (simp add: GetSnapshotData_def)
  have s: "snap_current b n (flags c) (running b c) i s" using snapshot_current [OF assms(1) b_def n_def i get] .
  have "GetSnapshotDataReuse ((se_current (session c i))\<lparr>snapXactCompletionCount := 0\<rparr>) (se_be (session c i)) (cl_shm c) = None"
    by (simp add: GetSnapshotDataReuse_def)
  then have s': "snap_current b n (flags c) (running b c) i s'" by (rule fresh_current [OF assms(1) b_def n_def i _ assms(4)])
  note same = current_same_bounds [OF s s']
  note c1 = snapshot_inv [OF assms(1,2) refl get, unfolded simulated_def]
  let ?c1 = "put i ((session c i)\<lparr>se_be := be, se_current := s, se_held := CopySnapshot s # se_held (session c i)\<rparr>) shm c"
  have "CopySnapshot s \<in> set (se_held (session ?c1 i))" using assms(2) by simp
  from held_xmin [OF conjunct1 [OF c1] b_def _ this] have xm: "in_window b (be_TransactionXmin be)" "xoff b (be_TransactionXmin be) \<le> xoff b (snap_xmin s)"
    using assms(2) by (simp_all add: CopySnapshot_def)
  note a = snapshot_answer [OF assms(1,1) b_def n_def evolves_refl s xm] snapshot_answer [OF assms(1,1) b_def n_def evolves_refl s' xm(1) xm(2) [unfolded same(2)]]
  have "\<exists>a. XidInMVCCSnapshot (be_TransactionXmin be) (shm_subtrans (cl_shm c)) x s = Some (Inr a) \<and>
      XidInMVCCSnapshot (be_TransactionXmin be) (shm_subtrans (cl_shm c)) x s' = Some (Inr a)"
    if x: "in_window b x" "\<not> unsnapped c i x" "xid_status (shm_clog (cl_shm c)) x = TRANSACTION_STATUS_COMMITTED" for x
  proof -
    obtain a a' where "XidInMVCCSnapshot (be_TransactionXmin be) (shm_subtrans (cl_shm c)) x s = Some (Inr a)" "\<not> a \<longleftrightarrow> had_committed B c x"
      "XidInMVCCSnapshot (be_TransactionXmin be) (shm_subtrans (cl_shm c)) x s' = Some (Inr a')" "\<not> a' \<longleftrightarrow> had_committed B c x"
      using a(1) [OF x(1,2)] a(2) [OF x(1,2)] x(3) by auto
    then show ?thesis by (intro exI [of _ a]) auto
  qed
  then show ?thesis using same unfolding b_def by blast
qed

theorem reused_snapshot_is_current_witness:
  "\<exists>s be shm s' be' shm'.
    GetSnapshotDataReuse (se_current (session example_snapped 0)) (se_be (session example_snapped 0)) (cl_shm example_snapped) = Some (s, be, shm) \<and>
    GetSnapshotData ((se_current (session example_snapped 0))\<lparr>snapXactCompletionCount := 0\<rparr>) (se_be (session example_snapped 0)) (cl_shm example_snapped) = (s', be', shm') \<and>
    snap_xmin s = snap_xmin s' \<and> snap_xmax s = snap_xmax s'"
proof -
  note inv = example_snapped_inv
  have "snapXactCompletionCount (se_current (session example_snapped 0)) = 1" "xactCompletionCount (cl_shm example_snapped) = 1"
    by (simp_all add: example_snapped_eq) (simp add: example_shm_def)
  then have "GetSnapshotDataReuse (se_current (session example_snapped 0)) (se_be (session example_snapped 0)) (cl_shm example_snapped) \<noteq> None"
    by (simp add: GetSnapshotDataReuse_def Let_def)
  then obtain s be shm where s: "GetSnapshotDataReuse (se_current (session example_snapped 0)) (se_be (session example_snapped 0)) (cl_shm example_snapped) = Some (s, be, shm)"
    by (auto simp del: example_snapped_simps)
  obtain s' be' shm' where s': "GetSnapshotData ((se_current (session example_snapped 0))\<lparr>snapXactCompletionCount := 0\<rparr>) (se_be (session example_snapped 0))
      (cl_shm example_snapped) = (s', be', shm')" by (rule prod_cases3)
  show ?thesis using reused_snapshot_is_current [OF inv _ s s'] s s' by auto
qed



lemma snapshot_passes_committed:
  assumes inv: "cluster_inv B c" and j: "j < length (cl_sessions c)" and x: "had_committed B c x"
    and get: "GetSnapshotData (se_current (session c j)) (se_be (session c j)) (cl_shm c) = (s, be, shm)"
  shows "XidInMVCCSnapshot (be_TransactionXmin be) (shm_subtrans (cl_shm c)) x s = Some (Inr False)"
proof -
  let ?b = "XidFromFullTransactionId B" and ?n = "length (cl_sessions c)"
  have cur: "snap_current ?b ?n (flags c) (running ?b c) j s" using snapshot_current [OF inv refl refl j get] .
  let ?c1 = "put j ((session c j)\<lparr>se_be := be, se_current := s, se_held := CopySnapshot s # se_held (session c j)\<rparr>) shm c"
  have c1: "cluster_inv B ?c1" using snapshot_inv [OF inv j refl get] by (simp add: simulated_def)
  have xm: "in_window ?b (be_TransactionXmin be)" "xoff ?b (be_TransactionXmin be) \<le> xoff ?b (snap_xmin s)"
    using held_xmin [OF c1 refl, of j "CopySnapshot s"] j by (simp_all add: CopySnapshot_def)
  have "in_window ?b x" "\<not> unsnapped c j x" using x by (auto simp: had_committed_def Let_def unsnapped_def)
  from snapshot_answer [OF inv inv refl refl evolves_refl cur xm this] show ?thesis using x by (auto simp: had_committed_def Let_def)
qed

text \<open>
  C2: Nothing before the removal horizon is undecided.  Let \<^verbatim>\<open>GetOldestNonRemovableTransactionId\<close> return
  \<open>h\<close> in some state, and let \<open>x\<close> be a transaction before \<open>h\<close> that has committed and left the array.  Then no
  snapshot held by a backend the horizon takes into account reports \<open>x\<close> as running, whatever it reads
  from the parent links, and neither does any snapshot taken in a later state.  So a row version
  deleted by \<open>x\<close> is invisible to all of them and may be removed.
\<close>

theorem removal_horizon_safe:
  assumes "cluster_inv B c" "normal_mode mode" "GetOldestNonRemovableTransactionId kind be (cl_shm c) = (h, be')"
    and "had_committed B c x" "TransactionIdPrecedes x h"
  shows "(\<forall>j<length (cl_sessions c). considered be kind (procArray (cl_shm c) ! j) \<longrightarrow>
      (\<forall>s\<in>set (se_held (session c j)). \<forall>xmin st. XidInMVCCSnapshot xmin st x s = Some (Inr False))) \<and>
    (\<forall>c' j s be1 shm1. (cluster_step mode (XidFromFullTransactionId B))\<^sup>*\<^sup>* c c' \<and> j < length (cl_sessions c') \<and>
      GetSnapshotData (se_current (session c' j)) (se_be (session c' j)) (cl_shm c') = (s, be1, shm1) \<longrightarrow>
      XidInMVCCSnapshot (be_TransactionXmin be1) (shm_subtrans (cl_shm c')) x s = Some (Inr False))"
proof (intro conjI allI impI ballI; (elim conjE)?)
  fix j s xmin st
  assume "j < length (cl_sessions c)" "considered be kind (procArray (cl_shm c) ! j)" "s \<in> set (se_held (session c j))"
  then show "XidInMVCCSnapshot xmin st x s = Some (Inr False)"
    using held_before_horizon [OF assms(1) refl assms(3) _ _ _ _ assms(5)] assms(4) by (simp add: had_committed_def Let_def)
next
  fix c' j s be1 shm1
  assume c': "(cluster_step mode (XidFromFullTransactionId B))\<^sup>*\<^sup>* c c'" and j: "j < length (cl_sessions c')"
    and get: "GetSnapshotData (se_current (session c' j)) (se_be (session c' j)) (cl_shm c') = (s, be1, shm1)"
  note sim = simulatedD [OF cluster_run [OF c' assms(1,2)] assms(1) refl refl]
  have "had_committed B c' x"
    using assms(4) evolvesD [OF sim(3), of x] unfolding had_committed_iff sim(2) by (auto simp: r_committed_def)
  then show "XidInMVCCSnapshot (be_TransactionXmin be1) (shm_subtrans (cl_shm c')) x s = Some (Inr False)"
    by (rule snapshot_passes_committed [OF sim(1) j _ get])
qed

lemma older_same [simp]: "TransactionIdOlder x x = x"
  by (simp add: TransactionIdOlder_def)

lemma example_horizon:
  "data_oldest_nonremovable (fst (ComputeXidHorizons (example_backend 0) (cl_shm example_snapped))) = 7"
proof -
  let ?p = "example_proc\<lparr>proc_xmin := 7\<rparr>" and ?shm = "set_proc 0 (example_proc\<lparr>proc_xmin := 7\<rparr>) example_shm"
  have ps: "procArray ?shm = [?p, example_proc]" "\<not> RecoveryInProgress ?shm" "replication_slot_xmin ?shm = InvalidTransactionId"
    "replication_slot_catalog_xmin ?shm = InvalidTransactionId" "latest_of ?shm = 6" by (simp_all add: set_proc_def example_shm_def)
  have v: "TransactionIdIsValid 7" "TransactionIdAdvance 6 = 7"
    by (simp_all add: TransactionIdIsValid_def InvalidTransactionId_def TransactionIdAdvance_def FirstNormalTransactionId_def)
  have 1: "horizon_proc be False example_proc h = h" for be h
    by (simp add: horizon_proc_def example_proc_def TransactionIdIsValid_def)
  have 2: "data_oldest_nonremovable (horizon_proc (example_backend 0) False ?p h) = TransactionIdOlder (data_oldest_nonremovable h) 7"
    "h_slot_xmin (horizon_proc (example_backend 0) False ?p h) = h_slot_xmin h" for h
    using v(1) by (simp_all add: horizon_proc_def example_proc_def example_backend_def Let_def)
  have 3: "data_oldest_nonremovable (horizons_start be ?shm) = 7" "h_slot_xmin (horizons_start be ?shm) = InvalidTransactionId" for be
    using ps(3,5) v(2) by (simp_all add: horizons_start_def Let_def)
  have 4: "data_oldest_nonremovable (horizons_finish False k h) = TransactionIdOlder (data_oldest_nonremovable h) (h_slot_xmin h)" for k h
    by (simp add: horizons_finish_def Let_def)
  show ?thesis by (simp add: ComputeXidHorizons_def Let_def ps(1,2) 1 2 3 4)
qed

theorem removal_horizon_safe_witness:
  "\<forall>xmin st. XidInMVCCSnapshot xmin st 4 example_snap = Some (Inr False)"
proof -
  have inv: "cluster_inv example_base example_snapped" using example_snapped_inv .
  obtain be' where h: "GetOldestNonRemovableTransactionId VISHORIZON_DATA (example_backend 0) (cl_shm example_snapped) = (7, be')"
    using example_horizon that by (cases "ComputeXidHorizons (example_backend 0) (cl_shm example_snapped)")
      (simp add: GetOldestNonRemovableTransactionId_def)
  have com: "had_committed example_base example_snapped 4" "TransactionIdPrecedes 4 7"
    using example_snapped_committed prec_window(1) [of 3 4 7] by simp_all
  have "considered (example_backend 0) VISHORIZON_DATA (procArray (cl_shm example_snapped) ! 0)" "example_snap \<in> set (se_held (session example_snapped 0))"
    by (simp_all add: considered_def example_snapped_eq set_proc_def example_proc_def flagged_def example_backend_def example_shm_def)
  then show ?thesis
    using conjunct1 [OF removal_horizon_safe [OF inv example_normal h com], THEN spec [of _ 0]] by simp
qed



end
