(* ===== verification/MultiXactLog.thy ===== *)
theory MultiXactLog
  imports MultiXact
begin

text \<open>
  The logs of \<open>MultiXact\<close> as arrays of members: what writing one member, extending the log and creating
  a multixact change.
\<close>

section \<open>Slots of a page\<close>

lemma slot_index:
  "MXOffsetToFlagsOffset x div 4 = unat x mod 1636 div 4 * 5"
  "MXOffsetToMemberOffset x div 4 = unat x mod 1636 div 4 * 5 + 1 + unat x mod 1636 mod 4"
  "MXOffsetToFlagsBitShift x = unat x mod 1636 mod 4 * 8"
  "MXOffsetToMemberPage x = unat x div 1636"
proof -
  have "unat x mod 1636 = 4 * (unat x div 4 mod 409) + unat x mod 4" using mod_mult2_eq [of "unat x" 4 409] by simp
  then have g: "unat x div 4 mod 409 = unat x mod 1636 div 4" and i: "unat x mod 4 = unat x mod 1636 mod 4" by simp_all
  show "MXOffsetToFlagsOffset x div 4 = unat x mod 1636 div 4 * 5"
    by (simp add: MXOffsetToFlagsOffset_def mx_consts g)
  show "MXOffsetToMemberOffset x div 4 = unat x mod 1636 div 4 * 5 + 1 + unat x mod 1636 mod 4"
    by (simp add: MXOffsetToMemberOffset_def MXOffsetToFlagsOffset_def mx_consts g i)
  show "MXOffsetToFlagsBitShift x = unat x mod 1636 mod 4 * 8"
    by (simp add: MXOffsetToFlagsBitShift_def mx_consts i)
  show "MXOffsetToMemberPage x = unat x div 1636" by (simp add: MXOffsetToMemberPage_def mx_consts)
qed

text \<open>Within a page, slots of different offsets use different words and different flag bytes.\<close>

lemma slot_bounds:
  "MXOffsetToFlagsOffset x div 4 < 2048" "MXOffsetToMemberOffset x div 4 < 2048" "MXOffsetToFlagsBitShift x \<le> 24"
  "MXOffsetToFlagsOffset x div 4 \<noteq> MXOffsetToMemberOffset y div 4"
proof -
  define c where "c = unat x mod 1636"
  have "c < 409 * 4" by (simp add: c_def)
  then have "c div 4 < 409" by (rule less_mult_imp_div_less)
  moreover have "c mod 4 < 4" by simp
  ultimately have "c div 4 * 5 < 2048" "c div 4 * 5 + 1 + c mod 4 < 2048" "c mod 4 * 8 \<le> 24" by linarith+
  then show "MXOffsetToFlagsOffset x div 4 < 2048" "MXOffsetToMemberOffset x div 4 < 2048" "MXOffsetToFlagsBitShift x \<le> 24"
    by (simp_all add: slot_index c_def)
  have "a * 5 \<noteq> b * 5 + 1 + d mod 4" for a b d :: nat by presburger
  then show "MXOffsetToFlagsOffset x div 4 \<noteq> MXOffsetToMemberOffset y div 4" by (simp add: slot_index)
qed

lemma same_slot:
  assumes "MXOffsetToMemberPage x = MXOffsetToMemberPage y"
  shows "MXOffsetToMemberOffset x div 4 = MXOffsetToMemberOffset y div 4 \<longleftrightarrow> x = y"
    and "MXOffsetToFlagsOffset x div 4 = MXOffsetToFlagsOffset y div 4 \<and> MXOffsetToFlagsBitShift x = MXOffsetToFlagsBitShift y \<longleftrightarrow> x = y"
proof -
  define c d where "c = unat x mod 1636" and "d = unat y mod 1636"
  have "x = y \<longleftrightarrow> unat x = unat y" by (simp add: word_unat_eq_iff)
  also have "\<dots> \<longleftrightarrow> c = d"
    using assms div_mult_mod_eq [of "unat x" 1636] div_mult_mod_eq [of "unat y" 1636] by (auto simp: slot_index(4) c_def d_def)
  finally have eq: "x = y \<longleftrightarrow> c = d" .
  have split: "c = d \<longleftrightarrow> c div 4 = d div 4 \<and> c mod 4 = d mod 4"
    using div_mult_mod_eq [of c 4] div_mult_mod_eq [of d 4] by metis
  have "a * 5 + 1 + i = b * 5 + 1 + j \<longleftrightarrow> a = b \<and> i = j" if "i < 4" "j < 4" for a b i j :: nat using that by presburger
  then have "c div 4 * 5 + 1 + c mod 4 = d div 4 * 5 + 1 + d mod 4 \<longleftrightarrow> c = d" by (simp add: split)
  then show "MXOffsetToMemberOffset x div 4 = MXOffsetToMemberOffset y div 4 \<longleftrightarrow> x = y"
    by (simp add: slot_index(2) eq flip: c_def d_def)
  have "c div 4 * 5 = d div 4 * 5 \<and> c mod 4 * 8 = d mod 4 * 8 \<longleftrightarrow> c = d" by (simp add: split)
  then show "MXOffsetToFlagsOffset x div 4 = MXOffsetToFlagsOffset y div 4 \<and> MXOffsetToFlagsBitShift x = MXOffsetToFlagsBitShift y \<longleftrightarrow> x = y"
    by (simp add: slot_index eq flip: c_def d_def)
qed

lemma flag_byte:
  fixes w st :: uint32
  assumes s: "s \<le> 24" "t \<le> 24" "8 dvd s" "8 dvd t" and st: "st < 256"
  shows "drop_bit t (w AND NOT (push_bit s 255) OR push_bit s st) AND 255 = (if s = t then st else drop_bit t w AND 255)"
proof (rule bit_word_eqI)
  fix n :: nat assume "n < LENGTH(32)"
  have st8: "\<not> bit st k" if "8 \<le> k" for k
  proof -
    have "unat (st mod 256) = unat st" using st by (simp add: unat_mod_distrib word_less_nat_alt)
    then have "take_bit 8 st = st" by (simp add: take_bit_eq_mod word_unat_eq_iff)
    then show ?thesis using that bit_take_bit_iff [of 8 st k] by simp
  qed
  have low: "bit (255 :: int) k \<longleftrightarrow> k < 8" for k
  proof -
    have m: "(255 :: int) = mask 8" by (simp add: mask_eq_exp_minus_1)
    show ?thesis unfolding m bit_mask_iff by auto
  qed
  obtain i j where ij: "s = 8 * i" "t = 8 * j" using s by (auto elim!: dvdE)
  have "s = t \<or> t + 8 \<le> s \<or> s + 8 \<le> t" unfolding ij by presburger
  then show "bit (drop_bit t (w AND NOT (push_bit s 255) OR push_bit s st) AND 255) n \<longleftrightarrow> bit (if s = t then st else drop_bit t w AND 255) n"
    by (cases "n < 8") (use s in \<open>auto simp: bit_simps low st8\<close>)
qed

definition good_member :: "MultiXactMember \<Rightarrow> bool" where
  "good_member m \<longleftrightarrow> TransactionIdIsValid (mx_xid m) \<and> mx_status m < 256"

lemma read_write_member:
  assumes len: "length page = 2048" and m: "good_member m" and p: "MXOffsetToMemberPage y = MXOffsetToMemberPage x"
  shows "read_member y (write_member m x page) = (if y = x then [m] else read_member y page)"
proof -
  let ?fx = "MXOffsetToFlagsOffset x div 4" and ?fy = "MXOffsetToFlagsOffset y div 4"
  let ?sx = "MXOffsetToFlagsBitShift x" and ?sy = "MXOffsetToFlagsBitShift y"
  let ?page = "write_member m x page"
  have xid: "?page ! (MXOffsetToMemberOffset y div 4) = (if y = x then mx_xid m else page ! (MXOffsetToMemberOffset y div 4))"
    using same_slot(1) [OF p] slot_bounds(2) [of x] slot_bounds(4) [of x y] len
    by (auto simp: write_member_def Let_def nth_list_update)
  have flags: "?page ! ?fy = (if ?fx = ?fy then page ! ?fx AND NOT (push_bit ?sx 255) OR push_bit ?sx (mx_status m) else page ! ?fy)"
    using slot_bounds(1) [of x] slot_bounds(4) [of x x] slot_bounds(4) [of y x] len
    by (auto simp: write_member_def Let_def nth_list_update mx_consts)
  have "drop_bit ?sy (?page ! ?fy) AND 255 = (if y = x then mx_status m else drop_bit ?sy (page ! ?fy) AND 255)"
  proof (cases "?fx = ?fy")
    case True
    have "8 dvd ?sx" "8 dvd ?sy" by (simp_all add: slot_index)
    then show ?thesis
      using flag_byte [OF slot_bounds(3) [of x] slot_bounds(3) [of y], of "mx_status m" "page ! ?fx"] same_slot(2) [OF p] True m
      by (auto simp: flags good_member_def)
  next
    case False
    then show ?thesis using flags same_slot(2) [OF p] by auto
  qed
  then show ?thesis using xid m by (cases "y = x") (simp_all add: read_member_def Let_def mx_consts good_member_def)
qed

lemma write_member_length [simp]: "length (write_member m x page) = length page"
  by (simp add: write_member_def Let_def)

section \<open>The logs as arrays\<close>

definition pages_ok :: "mxlog \<Rightarrow> bool" where
  "pages_ok log \<longleftrightarrow> (\<forall>p page. log p = Some page \<longrightarrow> length page = 2048)"

definition slot_at :: "mxlog \<Rightarrow> MultiXactOffset \<Rightarrow> MultiXactMember list option" where
  "slot_at mem x = map_option (read_member x) (mem (MXOffsetToMemberPage x))"

definition offset_at :: "mxlog \<Rightarrow> MultiXactId \<Rightarrow> MultiXactOffset option" where
  "offset_at offsets multi = map_option (\<lambda>page. page ! MultiXactIdToOffsetEntry multi) (offsets (MultiXactIdToOffsetPage multi))"

lemma pages_ok_update: "pages_ok log \<Longrightarrow> length page = 2048 \<Longrightarrow> pages_ok (log(p \<mapsto> page))"
  by (auto simp: pages_ok_def)

lemma slot_at_write:
  assumes "pages_ok mem" "good_member m" "mem (MXOffsetToMemberPage x) = Some page"
  shows "slot_at (mem(MXOffsetToMemberPage x \<mapsto> write_member m x page)) y = (if y = x then Some [m] else slot_at mem y)"
  using assms read_write_member [of page m y x] by (auto simp: slot_at_def pages_ok_def)

lemma word_distance_Suc:
  fixes x off :: uint32
  shows "unat (x - off) = (if x = off then 0 else Suc (unat (x - (off + 1))))"
proof (cases "x = off")
  case False
  then have "unat (x - off - 1) = unat (x - off) - 1" by (intro unat_minus_one) simp
  moreover have "x - (off + 1) = x - off - 1" by simp
  moreover have "0 < unat (x - off)" using False by (simp add: unat_gt_0)
  ultimately show ?thesis using False by (metis Suc_diff_1)
qed simp

lemma record_members_slots:
  assumes "pages_ok mem" "\<forall>m\<in>set ms. good_member m" "\<forall>k<length ms. mem (MXOffsetToMemberPage (off + of_nat k)) \<noteq> None"
    "length ms < 2 ^ 32"
  shows "\<exists>mem'. record_members multi off ms mem = Inr mem' \<and> pages_ok mem' \<and>
    (\<forall>x. slot_at mem' x = (if unat (x - off) < length ms then Some [ms ! unat (x - off)] else slot_at mem x))"
  using assms
proof (induction ms arbitrary: off mem)
  case (Cons m ms)
  obtain page where page: "mem (MXOffsetToMemberPage off) = Some page" using Cons.prems(3) by auto
  let ?mem = "mem(MXOffsetToMemberPage off \<mapsto> write_member m off page)"
  have len: "length page = 2048" using Cons.prems(1) page by (simp add: pages_ok_def)
  have "\<exists>mem'. record_members multi (off + 1) ms ?mem = Inr mem' \<and> pages_ok mem' \<and>
    (\<forall>x. slot_at mem' x = (if unat (x - (off + 1)) < length ms then Some [ms ! unat (x - (off + 1))] else slot_at ?mem x))"
  proof (rule Cons.IH)
    show "pages_ok ?mem" using Cons.prems(1) len by (simp add: pages_ok_update)
    show "\<forall>k<length ms. ?mem (MXOffsetToMemberPage (off + 1 + of_nat k)) \<noteq> None"
    proof (intro allI impI)
      fix k assume "k < length ms"
      then show "?mem (MXOffsetToMemberPage (off + 1 + of_nat k)) \<noteq> None"
        using Cons.prems(3) [rule_format, of "Suc k"] by (simp add: algebra_simps)
    qed
  qed (use Cons.prems in auto)
  then obtain mem' where mem': "record_members multi (off + 1) ms ?mem = Inr mem'" "pages_ok mem'"
    "\<And>x. slot_at mem' x = (if unat (x - (off + 1)) < length ms then Some [ms ! unat (x - (off + 1))] else slot_at ?mem x)" by blast
  have "off - (off + 1) = 0xFFFFFFFF" by simp
  then have last: "unat (off - (off + 1)) = 2 ^ 32 - 1" by (simp only: unat_numeral) simp
  have "slot_at mem' x = (if unat (x - off) < length (m # ms) then Some [(m # ms) ! unat (x - off)] else slot_at mem x)" for x
    using word_distance_Suc [of x off] mem'(3) [of x] slot_at_write [OF Cons.prems(1) _ page, of m x] Cons.prems(2,4) last by auto
  then show ?case using mem'(1,2) page by auto
qed simp

lemma read_members_slots:
  assumes "\<forall>k<n. slot_at mem (off + of_nat k) = Some (f k)"
  shows "read_members multi off n mem = Inr (concat (map f [0..<n]))"
  using assms
proof (induction n arbitrary: off f)
  case (Suc n)
  have "read_members multi (off + 1) n mem = Inr (concat (map (\<lambda>k. f (Suc k)) [0..<n]))"
  proof (rule Suc.IH, intro allI impI)
    fix k assume "k < n"
    then show "slot_at mem (off + 1 + of_nat k) = Some (f (Suc k))"
      using Suc.prems [rule_format, of "Suc k"] by (simp add: algebra_simps)
  qed
  moreover obtain page where "mem (MXOffsetToMemberPage off) = Some page" "read_member off page = f 0"
    using Suc.prems by (auto simp: slot_at_def dest!: spec [of _ 0])
  moreover have "[0..<Suc n] = 0 # map Suc [0..<n]" by (simp add: upt_conv_Cons map_Suc_upt)
  ultimately show ?case by (simp add: comp_def)
qed simp

section \<open>Extending the member log\<close>

text \<open>No page starts between an offset and the end of its page.\<close>

lemma next_page_start:
  fixes s off :: MultiXactOffset
  assumes s: "1636 dvd unat s" and ne: "s \<noteq> off"
  shows "unat (till_page_end off) \<le> unat (s - off)"
proof -
  obtain a where a: "unat s = 1636 * a" using s by (auto elim: dvdE)
  define q r where "q = unat off div 1636" and "r = unat off mod 1636"
  have off: "unat off = 1636 * q + r" "r < 1636" by (simp_all add: q_def r_def)
  have ub: "unat s < 4294967296" "unat off < 4294967296" by (rule unat32_less)+
  have d: "unat (till_page_end off) = (if 4294966260 \<le> unat off then 4294967296 - unat off else 1636 - r)"
    by (simp add: unat_till_page_end r_def)
  show ?thesis
  proof (cases "off \<le> s")
    case True
    then have "unat (s - off) = unat s - unat off" "unat off \<le> unat s" by (simp_all add: unat_sub word_le_nat_alt)
    moreover have "unat s \<noteq> unat off" using ne by (simp add: word_unat_eq_iff)
    ultimately have lt: "unat off < 1636 * a" "unat (s - off) = 1636 * a - unat off" unfolding a by linarith+
    have "q < a" "a \<le> 2625285" using lt(1) off(1) ub(1) unfolding a by linarith+
    then have "unat off < 4294966260" using off by linarith
    then show ?thesis using d lt(2) off \<open>q < a\<close> by simp
  next
    case False
    then have "unat s < unat off" by (simp add: word_le_nat_alt)
    then have dist: "unat (s - off) = unat s + 4294967296 - unat off" using ub
      by (simp add: unat_sub_if' word_less_nat_alt)
    show ?thesis
    proof (cases "4294966260 \<le> unat off")
      case True
      then show ?thesis unfolding d dist by (simp add: diff_le_mono)
    next
      case False
      then have "q \<le> 2625284" using off(1) by linarith
      moreover have "unat (till_page_end off) = 1636 - r" using d False by simp
      ultimately show ?thesis using off unfolding dist by linarith
    qed
  qed
qed

lemma page_start_iff: "MXOffsetToFlagsOffset off = 0 \<and> MXOffsetToFlagsBitShift off = 0 \<longleftrightarrow> 1636 dvd unat off"
proof -
  define c where "c = unat off mod 1636"
  have g: "MXOffsetToFlagsOffset off = c div 4 * 20" and i: "MXOffsetToFlagsBitShift off = c mod 4 * 8"
    using mod_mult2_eq [of "unat off" 4 409] by (simp_all add: MXOffsetToFlagsOffset_def MXOffsetToFlagsBitShift_def mx_consts c_def)
  have "c = 0 \<longleftrightarrow> c div 4 = 0 \<and> c mod 4 = 0" using div_mult_mod_eq [of c 4] by auto
  moreover have "1636 dvd unat off \<longleftrightarrow> c = 0" unfolding c_def by (rule dvd_eq_mod_eq_0)
  ultimately show ?thesis unfolding g i by simp
qed

lemma extend_members:
  assumes "n < 2 ^ 31"
  shows "ExtendMultiXactMember off n mem p =
    (if p * 1636 < 2 ^ 32 \<and> int (unat (of_nat (p * 1636) - off)) < n then Some zero_mx_page else mem p)"
  using assms
proof (induction off n mem rule: ExtendMultiXactMember.induct)
  case (1 off n mem)
  define s :: MultiXactOffset where "s = of_nat (p * 1636)"
  let ?d = "till_page_end off"
  let ?start = "MXOffsetToFlagsOffset off = 0 \<and> MXOffsetToFlagsBitShift off = 0"
  let ?mem = "if ?start then ZeroMultiXactMemberPage (MXOffsetToMemberPage off) mem else mem"
  show ?case
  proof (cases "n > 0")
    case True
    have "ExtendMultiXactMember off n mem p = ExtendMultiXactMember (off + ?d) (n - uint ?d) ?mem p"
      using True by (subst ExtendMultiXactMember.simps) (simp add: Let_def)
    also have "\<dots> = (if p * 1636 < 2 ^ 32 \<and> int (unat (s - (off + ?d))) < n - uint ?d then Some zero_mx_page else ?mem p)"
      unfolding s_def by (rule "1.IH" [OF True refl refl]) (use "1.prems" uint32_bounds [of ?d] in linarith)
    also have "\<dots> = (if p * 1636 < 2 ^ 32 \<and> int (unat (s - off)) < n then Some zero_mx_page else mem p)"
    proof (cases "p * 1636 < 2 ^ 32")
      case p: True
      have us: "unat s = p * 1636" unfolding s_def using p by (simp only: unat_of_nat) simp
      have here: "MXOffsetToMemberPage off = p \<and> ?start \<longleftrightarrow> s = off"
        unfolding page_start_iff slot_index(4) word_unat_eq_iff us by (metis dvd_div_mult_self dvd_triv_right nonzero_mult_div_cancel_right zero_neq_numeral)
      have "?mem p = (if s = off then Some zero_mx_page else mem p)"
        using here by (auto simp: ZeroMultiXactMemberPage_def)
      moreover have "unat (s - (off + ?d)) = unat (s - off) - unat ?d \<and> unat ?d \<le> unat (s - off)" if "s \<noteq> off"
      proof -
        have le: "unat ?d \<le> unat (s - off)" by (rule next_page_start) (use us that in auto)
        then have "unat (s - off - ?d) = unat (s - off) - unat ?d" by (intro unat_sub) (simp add: word_le_nat_alt)
        then show ?thesis using le by (simp add: diff_diff_eq)
      qed
      moreover have "uint ?d = int (unat ?d)" by simp
      ultimately show ?thesis using True p by (cases "s = off") auto
    next
      case False
      then have "MXOffsetToMemberPage off \<noteq> p"
        using unat32_less [of off] div_times_less_eq_dividend [of "unat off" 1636] by (auto simp: slot_index(4))
      then show ?thesis using False by (simp add: ZeroMultiXactMemberPage_def)
    qed
    finally show ?thesis unfolding s_def .
  next
    case False
    then have "\<not> int (unat (s - off)) < n" by linarith
    then show ?thesis using False unfolding s_def by (subst ExtendMultiXactMember.simps) (simp only: if_False simp_thms)
  qed
qed

end
