(* ===== verification/MultiXactSpec.thy ===== *)
theory MultiXactSpec
  imports MultiXactLog
begin

text \<open>
  The contract of \<open>MultiXact\<close>: the multixacts from the oldest one on, in the order in which they were
  created, each with its members and whether it has been written.  Ids and member slots go round the
  32-bit circle and leave out zero; here both are positions on a line.
\<close>

section \<open>Ids in the order of creation\<close>

definition mx_id :: "MultiXactId \<Rightarrow> nat \<Rightarrow> MultiXactId" where
  "mx_id b k = (if unat b + k < 2 ^ 32 then of_nat (unat b + k) else of_nat (unat b + k + 1 - 2 ^ 32))"

lemma unat_mx_id:
  assumes "k < 2 ^ 31"
  shows "unat (mx_id b k) = (if unat b + k < 4294967296 then unat b + k else unat b + k - 4294967295)"
proof (cases "unat b + k < 2 ^ 32")
  case True
  then have "mx_id b k = of_nat (unat b + k)" by (simp only: mx_id_def if_True)
  then show ?thesis using True by (simp only: unat_of_nat) simp
next
  case False
  define v where "v = unat b + k + 1 - 2 ^ 32"
  have "v < 4294967296" using False assms unat32_less [of b] by (simp add: v_def)
  moreover have "mx_id b k = of_nat v" using False by (simp only: mx_id_def v_def if_False)
  ultimately show ?thesis using False by (simp only: unat_of_nat) (simp add: v_def)
qed

lemma mx_id_0 [simp]: "mx_id b 0 = b"
  using unat32_less [of b] by (simp add: mx_id_def)

lemma mx_id_valid:
  assumes "b \<noteq> 0" "k < 2 ^ 31"
  shows "mx_id b k \<noteq> 0"
proof -
  have "0 < unat b" using assms(1) by (simp only: unat_gt_0 not_False_eq_True)
  then have "0 < unat (mx_id b k)" unfolding unat_mx_id [OF assms(2)] by simp
  then show ?thesis by (auto simp: unat_gt_0)
qed

lemma unat_plus_one: "unat (w + 1 :: uint32) = (if unat w = 4294967295 then 0 else unat w + 1)"
  using unat32_less [of w] by (auto simp: unat_word_ariths(1) mod_if)

lemma mx_id_Suc:
  assumes "b \<noteq> 0" "Suc k < 2 ^ 31"
  shows "mx_id b (Suc k) = (if mx_id b k + 1 = 0 then 1 else mx_id b k + 1)"
proof -
  have b: "0 < unat b" "unat b < 4294967296" using assms(1) unat32_less [of b] by (simp_all only: unat_gt_0 not_False_eq_True)
  have k: "unat (mx_id b k) = (if unat b + k < 4294967296 then unat b + k else unat b + k - 4294967295)"
    "unat (mx_id b (Suc k)) = (if unat b + Suc k < 4294967296 then unat b + Suc k else unat b + Suc k - 4294967295)"
    using assms(2) by (intro unat_mx_id; simp)+
  have zero: "mx_id b k + 1 = 0 \<longleftrightarrow> unat (mx_id b k) = 4294967295"
    unfolding word_unat_eq_iff unat_plus_one by simp
  show ?thesis
  proof (cases "unat (mx_id b k) = 4294967295")
    case True
    then have "unat (mx_id b (Suc k)) = 1" using k b assms(2) by (simp split: if_splits)
    then have "mx_id b (Suc k) = 1" by (simp add: word_unat_eq_iff)
    then show ?thesis using True zero by simp
  next
    case False
    then have "unat (mx_id b (Suc k)) = unat (mx_id b k + 1)" using k b assms(2) unfolding unat_plus_one by (simp split: if_splits)
    then show ?thesis using False zero by (simp only: word_unat_eq_iff if_False)
  qed
qed

lemma mx_id_precedes:
  assumes "j < 2 ^ 31 - 1" "k < 2 ^ 31 - 1"
  shows "MultiXactIdPrecedes (mx_id b j) (mx_id b k) \<longleftrightarrow> j < k"
proof -
  have u: "uint (mx_id b i) = int (unat (mx_id b i))" for i by simp
  have b: "unat b < 4294967296" by (rule unat32_less)
  show ?thesis
    unfolding MultiXactIdPrecedes_def sint32_uint uint32_sub u using unat_mx_id [of j b] unat_mx_id [of k b] assms b
    by (auto split: if_splits)
qed

lemma mx_id_inj: "j < 2 ^ 31 \<Longrightarrow> k < 2 ^ 31 \<Longrightarrow> b \<noteq> 0 \<Longrightarrow> mx_id b j = mx_id b k \<longleftrightarrow> j = k"
  using unat_mx_id [of j b] unat_mx_id [of k b] unat32_less [of b] by (auto simp: word_unat_eq_iff split: if_splits)

section \<open>Positions of the members\<close>

record MxEntry =
  me_members :: "MultiXactMember list"
  me_written :: bool

text \<open>A multixact does not start at offset zero.\<close>

definition skip0 :: "nat \<Rightarrow> nat" where
  "skip0 q = (if q mod 2 ^ 32 = 0 then q + 1 else q)"

fun end_of :: "nat \<Rightarrow> MxEntry list \<Rightarrow> nat" where
  "end_of q [] = q"
| "end_of q (e # es) = end_of (skip0 q + length (me_members e)) es"

definition start_of :: "nat \<Rightarrow> MxEntry list \<Rightarrow> nat \<Rightarrow> nat" where
  "start_of q es k = skip0 (end_of q (take k es))"

lemma skip0_bounds: "q \<le> skip0 q" "skip0 q \<le> q + 1"
  by (simp_all add: skip0_def)

lemma end_of_append [simp]: "end_of q (es @ es') = end_of (end_of q es) es'"
  by (induction es arbitrary: q) simp_all

lemma end_of_mono: "q \<le> end_of q es"
proof (induction es arbitrary: q)
  case (Cons e es)
  show ?case using Cons.IH [of "skip0 q + length (me_members e)"] skip0_bounds(1) [of q] by simp
qed simp

lemma end_of_take_mono:
  assumes "j \<le> k"
  shows "end_of q (take j es) \<le> end_of q (take k es)"
proof -
  have "take k es = take j es @ take (k - j) (drop j es)" using take_add [of j "k - j" es] assms by simp
  then show ?thesis by (simp add: end_of_mono)
qed

lemma end_of_take_Suc: "k < length es \<Longrightarrow> end_of q (take (Suc k) es) = start_of q es k + length (me_members (es ! k))"
  by (simp add: take_Suc_conv_app_nth start_of_def)

lemma start_of_bounds:
  assumes "k < length es"
  shows "q \<le> start_of q es k" "start_of q es k + length (me_members (es ! k)) \<le> end_of q es"
proof -
  show "q \<le> start_of q es k" using end_of_mono [of q "take k es"] skip0_bounds(1) [of "end_of q (take k es)"] by (simp add: start_of_def)
  show "start_of q es k + length (me_members (es ! k)) \<le> end_of q es"
    using end_of_take_mono [of "Suc k" "length es" q es] assms by (simp add: end_of_take_Suc)
qed

lemma start_of_later:
  assumes "j < k" "j < length es"
  shows "start_of q es j + length (me_members (es ! j)) \<le> end_of q (take k es)"
  using end_of_take_mono [of "Suc j" k q es] assms by (simp add: end_of_take_Suc)

lemma start_of_append [simp]: "k \<le> length es \<Longrightarrow> start_of q (es @ es') k = start_of q es k"
  by (simp add: start_of_def)

text \<open>Entries change only in whether they have been written.\<close>

lemma end_of_members: "map me_members es = map me_members es' \<Longrightarrow> end_of q es = end_of q es'"
proof (induction es arbitrary: q es')
  case (Cons e es)
  obtain e' es'' where es': "es' = e' # es''" "me_members e = me_members e'" "map me_members es = map me_members es''"
    using Cons.prems by (cases es') simp_all
  show ?case using Cons.IH [OF es'(3), of "skip0 q + length (me_members e')"] es'(1,2) by simp
qed simp

lemma start_of_members:
  assumes "map me_members es = map me_members es'"
  shows "start_of q es k = start_of q es' k"
proof -
  have "map me_members (take k es) = map me_members (take k es')" using assms by (simp flip: take_map)
  then show ?thesis unfolding start_of_def by (metis end_of_members)
qed

lemma word_distance:
  assumes "y \<le> x" "x - y < 2 ^ 32"
  shows "unat (of_nat x - of_nat y :: uint32) = x - y"
proof -
  have "(of_nat x - of_nat y :: uint32) = of_nat (x - y)" using assms(1) by (simp add: of_nat_diff)
  then show ?thesis using assms(2) by (simp only: unat_of_nat) simp
qed

lemma word_distinct:
  assumes "x < y + 2 ^ 32" "y < x"
  shows "(of_nat x :: uint32) \<noteq> of_nat y"
proof
  assume "(of_nat x :: uint32) = of_nat y"
  moreover have "x - y < 2 ^ 32" using assms by linarith
  ultimately show False using word_distance [of y x] assms(2) by simp
qed

section \<open>The contract and the logs\<close>

definition entry_fits :: "MxEntry \<Rightarrow> bool" where
  "entry_fits e \<longleftrightarrow> (\<forall>m\<in>set (me_members e). good_member m) \<and> me_members e \<noteq> [] \<and>
     8 * (int (length (me_members e)) + 1) \<le> MaxAllocSize"

definition index_ok :: "MultiXactId \<Rightarrow> nat \<Rightarrow> MxEntry list \<Rightarrow> mxlog \<Rightarrow> bool" where
  "index_ok b q es offsets \<longleftrightarrow>
     pages_ok offsets \<and>
     (\<forall>k<length es. offset_at offsets (mx_id b k) = Some (if me_written (es ! k) then of_nat (start_of q es k) else 0)) \<and>
     (let x = mx_id b (length es) in
      MultiXactIdToOffsetEntry x \<noteq> 0 \<and> x \<noteq> FirstMultiXactId \<longrightarrow>
      (\<forall>k. length es \<le> k \<and> k < 2 ^ 31 \<and> MultiXactIdToOffsetPage (mx_id b k) = MultiXactIdToOffsetPage x \<longrightarrow>
           offset_at offsets (mx_id b k) = Some 0))"

definition slots_ok :: "nat \<Rightarrow> MxEntry list \<Rightarrow> mxlog \<Rightarrow> bool" where
  "slots_ok q es mem \<longleftrightarrow>
     pages_ok mem \<and>
     (\<forall>k<length es. me_written (es ! k) \<longrightarrow>
        (\<forall>i<length (me_members (es ! k)). slot_at mem (of_nat (start_of q es k + i)) = Some [me_members (es ! k) ! i])) \<and>
     (\<forall>x. q \<le> x \<and> x < end_of q es \<longrightarrow> mem (MXOffsetToMemberPage (of_nat x)) \<noteq> None) \<and>
     (\<forall>k<length es. 0 < k \<and> end_of q (take k es) mod 2 ^ 32 = 0 \<longrightarrow> slot_at mem 0 = Some []) \<and>
     (\<not> 1636 dvd unat (of_nat (end_of q es) :: uint32) \<longrightarrow> mem (MXOffsetToMemberPage (of_nat (end_of q es))) \<noteq> None)"

definition limits_ok :: "MultiXactId \<Rightarrow> nat \<Rightarrow> MxEntry list \<Rightarrow> MultiXactState \<Rightarrow> bool" where
  "limits_ok b q es mx \<longleftrightarrow> oldestOffsetKnown mx \<and>
     (\<exists>vac stop. multiVacLimit mx = mx_id b vac \<and> multiStopLimit mx = mx_id b stop \<and> vac \<le> stop \<and>
        stop < 2 ^ 31 - 4096 \<and> length es \<le> stop) \<and>
     (\<exists>l. offsetStopLimit mx = of_nat l \<and> end_of q es < l \<and> l + 3272 \<le> q + 2 ^ 32)"

definition mx_repr :: "MultiXactId \<Rightarrow> nat \<Rightarrow> MxEntry list \<Rightarrow> MultiXactState \<Rightarrow> bool" where
  "mx_repr b q es mx \<longleftrightarrow> b \<noteq> 0 \<and> oldestMultiXactId mx = b \<and>
     nextMXact mx = (if es = [] then b else mx_id b (length es - 1) + 1) \<and> nextOffset mx = of_nat (end_of q es) \<and>
     index_ok b q es (mx_offsets mx) \<and> slots_ok q es (mx_members mx) \<and> limits_ok b q es mx \<and> (\<forall>e\<in>set es. entry_fits e)"

end
