(* ===== verification/MultiXactCreate.thy ===== *)
theory MultiXactCreate
  imports MultiXactSpec
begin

text \<open>
  Creating and reading multixacts keeps the logs in step with the contract of \<open>MultiXactSpec\<close>: reserving
  an id and member slots, writing them, and reading them back, each as one step.
\<close>

section \<open>Extending the index\<close>

lemma offset_at_zero:
  "offset_at (ZeroMultiXactOffsetPage p offsets) m = (if MultiXactIdToOffsetPage m = p then Some 0 else offset_at offsets m)"
proof -
  have "MultiXactIdToOffsetEntry m < 2048" by (simp add: MultiXactIdToOffsetEntry_def mx_consts)
  then show ?thesis by (simp add: offset_at_def ZeroMultiXactOffsetPage_def zero_mx_page_def mx_consts)
qed

lemma id_succ_page:
  assumes "b \<noteq> 0" "Suc k < 2 ^ 31" "MultiXactIdToOffsetEntry (mx_id b (Suc k)) \<noteq> 0" "mx_id b (Suc k) \<noteq> FirstMultiXactId"
  shows "MultiXactIdToOffsetPage (mx_id b (Suc k)) = MultiXactIdToOffsetPage (mx_id b k)"
proof -
  let ?u = "unat (mx_id b k)"
  have "mx_id b (Suc k) = mx_id b k + 1" "mx_id b k + 1 \<noteq> 0"
    using mx_id_Suc [OF assms(1,2)] assms(4) by (auto simp: FirstMultiXactId_def split: if_splits)
  then have u: "unat (mx_id b (Suc k)) = Suc ?u"
    using unat_plus_one [of "mx_id b k"] by (auto simp: word_unat_eq_iff split: if_splits)
  have "Suc ?u mod 2048 \<noteq> 0" using assms(3) by (simp add: MultiXactIdToOffsetEntry_def mx_consts u)
  then have "Suc ?u div 2048 = ?u div 2048" by (metis div_Suc)
  then show ?thesis by (simp add: MultiXactIdToOffsetPage_def mx_consts u)
qed

text \<open>A page of the index is zeroed when its first id is reserved; no id in use is on it.\<close>

lemma zeroed_page_fresh:
  assumes b: "b \<noteq> 0" and jk: "j < k" "k < 2 ^ 31 - 4096"
    and x: "MultiXactIdToOffsetEntry (mx_id b k) = 0 \<or> mx_id b k = FirstMultiXactId"
  shows "MultiXactIdToOffsetPage (mx_id b j) \<noteq> MultiXactIdToOffsetPage (mx_id b k)"
proof
  define u v where "u = unat (mx_id b j)" and "v = unat (mx_id b k)"
  assume "MultiXactIdToOffsetPage (mx_id b j) = MultiXactIdToOffsetPage (mx_id b k)"
  then have eq: "u div 2048 = v div 2048" by (simp add: MultiXactIdToOffsetPage_def mx_consts u_def v_def)
  have v0: "v mod 2048 = 0 \<or> v = 1" using x by (auto simp: MultiXactIdToOffsetEntry_def FirstMultiXactId_def mx_consts v_def)
  have "u < v \<or> v + 2 ^ 31 < u"
    using unat_mx_id [of j b] unat_mx_id [of k b] jk unat32_less [of b] unfolding u_def v_def by (auto split: if_splits)
  moreover have "0 < u" unfolding u_def using mx_id_valid [OF b, of j] jk by (simp add: unat_gt_0)
  ultimately show False using v0 eq div_mult_mod_eq [of u 2048] div_mult_mod_eq [of v 2048] mod_less_divisor [of 2048 u] by auto
qed

lemma index_extend:
  assumes ok: "index_ok b q es offsets" and b: "b \<noteq> 0" and len: "length es < 2 ^ 31 - 4096" and e: "\<not> me_written e"
  shows "index_ok b q (es @ [e]) (ExtendMultiXactOffset (mx_id b (length es)) offsets)"
proof -
  let ?x = "mx_id b (length es)" and ?x' = "mx_id b (Suc (length es))"
  let ?off = "ExtendMultiXactOffset ?x offsets"
  define zero where "zero \<longleftrightarrow> MultiXactIdToOffsetEntry ?x = 0 \<or> ?x = FirstMultiXactId"
  have off: "?off = (if zero then ZeroMultiXactOffsetPage (MultiXactIdToOffsetPage ?x) offsets else offsets)"
    by (auto simp: ExtendMultiXactOffset_def zero_def)
  have pages: "pages_ok offsets" and written: "\<And>k. k < length es \<Longrightarrow>
      offset_at offsets (mx_id b k) = Some (if me_written (es ! k) then of_nat (start_of q es k) else 0)"
    and fresh: "\<And>k. \<not> zero \<Longrightarrow> length es \<le> k \<Longrightarrow> k < 2 ^ 31 \<Longrightarrow> MultiXactIdToOffsetPage (mx_id b k) = MultiXactIdToOffsetPage ?x \<Longrightarrow>
      offset_at offsets (mx_id b k) = Some 0"
    using ok by (auto simp: index_ok_def Let_def zero_def)
  have old: "offset_at ?off (mx_id b k) = offset_at offsets (mx_id b k)" if "k < length es" for k
    using zeroed_page_fresh [OF b that len] by (auto simp: off offset_at_zero zero_def)
  have new: "offset_at ?off (mx_id b k) = Some 0"
    if "length es \<le> k" "k < 2 ^ 31" "MultiXactIdToOffsetPage (mx_id b k) = MultiXactIdToOffsetPage ?x" for k
    using fresh [OF _ that] that(3) by (auto simp: off offset_at_zero)
  have "pages_ok ?off" using pages by (simp add: off ZeroMultiXactOffsetPage_def zero_mx_page_def mx_consts pages_ok_update)
  moreover have "offset_at ?off (mx_id b k) = Some (if me_written ((es @ [e]) ! k) then of_nat (start_of q (es @ [e]) k) else 0)"
    if "k < length (es @ [e])" for k
    using that old [of k] written [of k] new [of k] e len by (cases "k < length es") (auto simp: nth_append less_Suc_eq)
  moreover have "offset_at ?off (mx_id b k) = Some 0"
    if "MultiXactIdToOffsetEntry ?x' \<noteq> 0" "?x' \<noteq> FirstMultiXactId" "Suc (length es) \<le> k" "k < 2 ^ 31"
      "MultiXactIdToOffsetPage (mx_id b k) = MultiXactIdToOffsetPage ?x'" for k
    using new [of k] that id_succ_page [OF b _ that(1,2)] len by simp
  ultimately show ?thesis by (simp add: index_ok_def Let_def)
qed

section \<open>Reserving member slots\<close>

lemma would_wrap_room:
  assumes l: "E < l" "l - E < 2 ^ 32" and n: "n < 2 ^ 31"
    and nw: "\<not> MultiXactOffsetWouldWrap (of_nat l) (of_nat E) (of_nat n)"
  shows "E + n < l"
proof -
  define s bd where "s = unat (of_nat E :: uint32)" and "bd = unat (of_nat l :: uint32)"
  have ub: "s < 4294967296" "bd < 4294967296" unfolding s_def bd_def by (rule unat32_less)+
  have n': "unat (of_nat n :: uint32) = n" using n by (simp only: unat_of_nat) simp
  have "l - E = unat (of_nat l - of_nat E :: uint32)" using word_distance [of E l] l by simp
  also have "\<dots> = (if s \<le> bd then bd - s else bd + 4294967296 - s)"
    unfolding s_def bd_def by (simp add: unat_sub_if')
  finally have d: "l - E = (if s \<le> bd then bd - s else bd + 4294967296 - s)" .
  define f where "f = (of_nat E + of_nat n :: uint32)"
  have f: "unat f = (if s + n < 4294967296 then s + n else s + n - 4294967296)"
    unfolding f_def using n n' ub(1) by (simp add: unat_word_ariths(1) s_def mod_if)
  define g where "g = (if f < of_nat E then f + 1 else f)"
  have g: "unat g = (if s + n < 4294967296 then s + n else s + n - 4294967295)"
    using f n ub unat_plus_one [of f] unfolding g_def word_less_nat_alt s_def [symmetric] by (auto split: if_splits)
  have "\<not> (if s < bd then bd \<le> unat g \<or> unat g < s else bd \<le> unat g \<and> unat g < s)"
    using nw unfolding MultiXactOffsetWouldWrap_def Let_def f_def [symmetric] g_def word_less_nat_alt word_le_nat_alt
      s_def [symmetric] bd_def [symmetric] .
  then show ?thesis using d g l n ub by (auto split: if_splits)
qed

lemma page_split: "unat (w :: uint32) = MXOffsetToMemberPage w * 1636 + unat w mod 1636"
  by (simp add: slot_index(4))

lemma page_of_nat: "unat (of_nat (MXOffsetToMemberPage w * 1636) :: uint32) = MXOffsetToMemberPage w * 1636"
proof -
  have "MXOffsetToMemberPage w * 1636 < 2 ^ 32" using page_split [of w] unat32_less [of w] by simp
  then show ?thesis by (simp only: unat_of_nat) simp
qed

lemma extend_members_nat:
  assumes "n < 2 ^ 31"
  shows "ExtendMultiXactMember off (int n) mem p =
    (if p * 1636 < 2 ^ 32 \<and> unat (of_nat (p * 1636) - off) < n then Some zero_mx_page else mem p)"
proof -
  have "int n < 2 ^ 31" using assms by simp
  then show ?thesis using extend_members [of "int n" off mem p] by (simp only: of_nat_less_iff)
qed

text \<open>Slots already reserved are not on a page that is zeroed.\<close>

lemma extend_keeps:
  assumes x: "q \<le> x" "x < E" and n: "E + n + 1636 \<le> q + 2 ^ 32" "n < 2 ^ 31"
  shows "ExtendMultiXactMember (of_nat E) (int n) mem (MXOffsetToMemberPage (of_nat x)) = mem (MXOffsetToMemberPage (of_nat x))"
proof -
  define w :: MultiXactOffset where "w = of_nat x"
  define s :: MultiXactOffset where "s = of_nat (MXOffsetToMemberPage w * 1636)"
  define d where "d = unat (s - of_nat E)"
  define j where "j = unat w mod 1636"
  have "\<not> d < n"
  proof
    assume "d < n"
    have "s = of_nat (E + d)" by (simp add: d_def)
    moreover have "w = s + of_nat j"
    proof -
      have "unat w = unat s + j" using page_split [of w] page_of_nat [of w] by (simp add: s_def j_def)
      then have "of_nat (unat w) = (of_nat (unat s + j) :: uint32)" by simp
      then show ?thesis by simp
    qed
    ultimately have "(of_nat (E + d + j) :: uint32) = of_nat x" by (simp add: w_def)
    moreover have "j < 1636" by (simp add: j_def)
    ultimately show False using word_distinct [of "E + d + j" x] x n \<open>d < n\<close> by simp
  qed
  then show ?thesis
    using extend_members_nat [OF n(2), of "of_nat E" mem "MXOffsetToMemberPage w"] unfolding d_def s_def w_def by (simp only: if_False simp_thms)
qed

text \<open>All slots reserved are on a page that exists, and so is the next slot unless it starts a page.\<close>

lemma extend_covers:
  assumes part: "\<not> 1636 dvd unat (of_nat E :: uint32) \<longrightarrow> mem (MXOffsetToMemberPage (of_nat E)) \<noteq> None"
    and i: "i < n \<or> i = n \<and> \<not> 1636 dvd unat (of_nat (E + i) :: uint32)" and n: "n < 2 ^ 31"
  shows "ExtendMultiXactMember (of_nat E) (int n) mem (MXOffsetToMemberPage (of_nat (E + i))) \<noteq> None"
proof -
  define w :: MultiXactOffset where "w = of_nat (E + i)"
  define P where "P = MXOffsetToMemberPage w"
  define r where "r = unat w mod 1636"
  have w: "unat w = P * 1636 + r" "P * 1636 < 2 ^ 32" using page_split [of w] unat32_less [of w] by (simp_all add: P_def r_def)
  have ext: "ExtendMultiXactMember (of_nat E) (int n) mem P =
      (if unat (of_nat (P * 1636) - of_nat E :: uint32) < n then Some zero_mx_page else mem P)"
    using extend_members_nat [OF n, of "of_nat E" mem P] w(2) by (simp only: simp_thms)
  show ?thesis
  proof (cases "r \<le> i")
    case True
    have "(of_nat (unat w) :: uint32) = of_nat (P * 1636 + r)" by (simp only: w(1))
    then have "(of_nat (P * 1636) :: uint32) = of_nat (E + i) - of_nat r" by (simp add: w_def algebra_simps)
    also have "\<dots> = of_nat (E + (i - r))" using True by (simp add: of_nat_diff algebra_simps)
    finally have "unat (of_nat (P * 1636) - of_nat E :: uint32) = unat (of_nat (E + (i - r)) - of_nat E :: uint32)" by (simp only:)
    also have "\<dots> = i - r" by (subst word_distance) (use i n in auto)
    finally have "unat (of_nat (P * 1636) - of_nat E :: uint32) < n" using i w(1) True by (auto simp: w_def dvd_eq_mod_eq_0 r_def)
    then show ?thesis using ext by (simp add: P_def w_def)
  next
    case False
    have "(of_nat E :: uint32) = w - of_nat i" by (simp add: w_def)
    moreover have iu: "unat (of_nat i :: uint32) = i" using i n by (simp only: unat_of_nat) auto
    ultimately have "unat (of_nat E :: uint32) = unat w - i"
      using False w(1) unat_sub [of "of_nat i" w] by (simp add: word_le_nat_alt)
    moreover have "r < 1636" by (simp add: r_def)
    ultimately obtain t where e: "unat (of_nat E :: uint32) = P * 1636 + t" "0 < t" "t < 1636" using w(1) False by (intro that [of "r - i"]) simp_all
    then have "MXOffsetToMemberPage (of_nat E) = P" "\<not> 1636 dvd unat (of_nat E :: uint32)"
      by (simp_all add: slot_index(4) dvd_eq_mod_eq_0)
    then show ?thesis using part ext by (auto simp: P_def w_def)
  qed
qed

lemma slot_at_extend:
  "ExtendMultiXactMember off n mem (MXOffsetToMemberPage x) = mem (MXOffsetToMemberPage x) \<Longrightarrow>
   slot_at (ExtendMultiXactMember off n mem) x = slot_at mem x"
  by (simp add: slot_at_def)

lemma slots_okD:
  assumes "slots_ok q es mem"
  shows "pages_ok mem"
    and "\<And>k i. k < length es \<Longrightarrow> me_written (es ! k) \<Longrightarrow> i < length (me_members (es ! k)) \<Longrightarrow>
      slot_at mem (of_nat (start_of q es k + i)) = Some [me_members (es ! k) ! i]"
    and "\<And>x. q \<le> x \<Longrightarrow> x < end_of q es \<Longrightarrow> mem (MXOffsetToMemberPage (of_nat x)) \<noteq> None"
    and "\<And>k. 0 < k \<Longrightarrow> k < length es \<Longrightarrow> end_of q (take k es) mod 2 ^ 32 = 0 \<Longrightarrow> slot_at mem 0 = Some []"
    and "\<not> 1636 dvd unat (of_nat (end_of q es) :: uint32) \<longrightarrow> mem (MXOffsetToMemberPage (of_nat (end_of q es))) \<noteq> None"
  using assms unfolding slots_ok_def by (elim conjE, (assumption | simp only: simp_thms))+

lemma slots_okI:
  assumes "pages_ok mem"
    and "\<And>k i. k < length es \<Longrightarrow> me_written (es ! k) \<Longrightarrow> i < length (me_members (es ! k)) \<Longrightarrow>
      slot_at mem (of_nat (start_of q es k + i)) = Some [me_members (es ! k) ! i]"
    and "\<And>x. q \<le> x \<Longrightarrow> x < end_of q es \<Longrightarrow> mem (MXOffsetToMemberPage (of_nat x)) \<noteq> None"
    and "\<And>k. k < length es \<Longrightarrow> 0 < k \<Longrightarrow> end_of q (take k es) mod 2 ^ 32 = 0 \<Longrightarrow> slot_at mem 0 = Some []"
    and "\<not> 1636 dvd unat (of_nat (end_of q es) :: uint32) \<Longrightarrow> mem (MXOffsetToMemberPage (of_nat (end_of q es))) \<noteq> None"
  shows "slots_ok q es mem"
  unfolding slots_ok_def by (intro conjI allI impI; (elim conjE)?; rule assms; assumption)

lemma slots_extend:
  assumes ok: "slots_ok q es mem" and e: "\<not> me_written e"
    and n: "n = (if end_of q es mod 2 ^ 32 = 0 then length (me_members e) + 1 else length (me_members e))"
      "0 < length (me_members e)" "n < 2 ^ 31" "end_of q es + n + 1636 \<le> q + 2 ^ 32"
  shows "slots_ok q (es @ [e]) (ExtendMultiXactMember (of_nat (end_of q es)) (int n) mem)"
proof -
  let ?E = "end_of q es"
  let ?mem = "ExtendMultiXactMember (of_nat ?E) (int n) mem"
  note old = slots_okD [OF ok]
  have fin: "end_of q (es @ [e]) = ?E + n" by (simp add: n(1) skip0_def)
  note keep = extend_keeps [OF _ _ n(4,3), of _ mem]
  show ?thesis
  proof (rule slots_okI)
    show "pages_ok ?mem" using old(1) extend_members_nat [OF n(3), of "of_nat ?E" mem] by (auto simp: pages_ok_def zero_mx_page_def mx_consts)
    show "slot_at ?mem (of_nat (start_of q (es @ [e]) k + i)) = Some [me_members ((es @ [e]) ! k) ! i]"
      if "k < length (es @ [e])" "me_written ((es @ [e]) ! k)" "i < length (me_members ((es @ [e]) ! k))" for k i
    proof -
      have k: "k < length es" using that(1,2) e by (cases "k < length es") (auto simp: nth_append)
      then have "start_of q es k + i < ?E" "q \<le> start_of q es k + i" using start_of_bounds [OF k, of q] that(3) by (auto simp: nth_append)
      from slot_at_extend [OF keep [OF this(2,1)]] show ?thesis using old(2) [OF k] that k by (simp add: nth_append)
    qed
    show "?mem (MXOffsetToMemberPage (of_nat x)) \<noteq> None" if "q \<le> x" "x < end_of q (es @ [e])" for x
    proof (cases "x < ?E")
      case True
      then show ?thesis using keep [OF that(1) True] old(3) [OF that(1) True] by simp
    next
      case False
      then have "x - ?E < n" "x = ?E + (x - ?E)" using that(2) fin by simp_all
      then show ?thesis using extend_covers [of ?E mem "x - ?E", OF old(5) _ n(3)] by metis
    qed
    show "slot_at ?mem 0 = Some []"
      if "k < length (es @ [e])" "0 < k" "end_of q (take k (es @ [e])) mod 2 ^ 32 = 0" for k
    proof (cases "k < length es")
      case True
      let ?z = "end_of q (take k es)"
      have z: "?z mod 2 ^ 32 = 0" using that(3) True by simp
      then have "?z < ?E" "q \<le> ?z"
        using start_of_bounds [OF True, of q] end_of_mono [of q "take k es"] by (simp_all add: start_of_def skip0_def)
      moreover have "(of_nat ?z :: uint32) = 0" using z by (simp only: word_unat_eq_iff unat_of_nat) simp
      ultimately show ?thesis using slot_at_extend [OF keep [of ?z]] old(4) [OF that(2) True z] by simp
    next
      case False
      then have z: "?E mod 2 ^ 32 = 0" using that(1,3) by simp
      then have "(of_nat ?E :: uint32) = 0" by (simp only: word_unat_eq_iff unat_of_nat) simp
      then have "?mem 0 = Some zero_mx_page" using extend_members_nat [OF n(3), of "of_nat ?E" mem 0] n(1) z by simp
      moreover have "MXOffsetToMemberOffset 0 div 4 < 2048" by (rule slot_bounds)
      ultimately show ?thesis
        by (simp add: slot_at_def slot_index(4) read_member_def zero_mx_page_def mx_consts TransactionIdIsValid_def InvalidTransactionId_def)
    qed
    show "?mem (MXOffsetToMemberPage (of_nat (end_of q (es @ [e])))) \<noteq> None"
      if "\<not> 1636 dvd unat (of_nat (end_of q (es @ [e])) :: uint32)"
      using extend_covers [of ?E mem n, OF old(5) _ n(3)] that unfolding fin by blast
  qed
qed

section \<open>The three operations\<close>

lemma mx_reprD:
  assumes "mx_repr b q es mx"
  shows "b \<noteq> 0" "oldestMultiXactId mx = b" "nextMXact mx = (if es = [] then b else mx_id b (length es - 1) + 1)"
    "nextOffset mx = of_nat (end_of q es)" "index_ok b q es (mx_offsets mx)" "slots_ok q es (mx_members mx)" "limits_ok b q es mx"
    "\<And>e. e \<in> set es \<Longrightarrow> entry_fits e" "length es < 2 ^ 31 - 4096"
  using assms by (auto simp: mx_repr_def limits_ok_def)

lemma limits_okI:
  assumes "oldestOffsetKnown mx" "multiVacLimit mx = mx_id b vac" "multiStopLimit mx = mx_id b stop" "vac \<le> stop" "stop < 2 ^ 31 - 4096"
    "length es \<le> stop" "offsetStopLimit mx = of_nat l" "end_of q es < l" "l + 3272 \<le> q + 2 ^ 32"
  shows "limits_ok b q es mx"
  unfolding limits_ok_def using assms by blast

lemma next_id:
  assumes "mx_repr b q es mx"
  shows "(if nextMXact mx < FirstMultiXactId then FirstMultiXactId else nextMXact mx) = mx_id b (length es)"
proof -
  note r = mx_reprD [OF assms]
  have zero: "x < FirstMultiXactId \<longleftrightarrow> x = 0" for x :: MultiXactId by (simp add: FirstMultiXactId_def word_less_nat_alt word_unat_eq_iff)
  show ?thesis
  proof (cases es)
    case Nil
    then show ?thesis using r(1,3) by (simp add: zero)
  next
    case (Cons e es')
    then show ?thesis using r(3,9) mx_id_Suc [OF r(1), of "length es'"] by (auto simp: zero FirstMultiXactId_def)
  qed
qed

lemma reserve_repr:
  assumes repr: "mx_repr b q es mx" and e: "entry_fits e" "\<not> me_written e"
    and get: "GetNewMultiXactId False True (\<lambda>mx. mx) (length (me_members e)) mx = Inr (multi, offset, mx')"
  shows "multi = mx_id b (length es)" "offset = of_nat (start_of q es (length es))" "mx_repr b q (es @ [e]) mx'"
proof -
  note r = mx_reprD [OF repr]
  let ?E = "end_of q es" and ?x = "mx_id b (length es)"
  obtain vac stop l where lim: "multiVacLimit mx = mx_id b vac" "multiStopLimit mx = mx_id b stop" "vac \<le> stop" "stop < 2 ^ 31 - 4096"
    "length es \<le> stop" "oldestOffsetKnown mx" "offsetStopLimit mx = of_nat l" "?E < l" "l + 3272 \<le> q + 2 ^ 32"
    using r(7) by (auto simp: limits_ok_def)
  define n where "n = (if ?E mod 2 ^ 32 = 0 then length (me_members e) + 1 else length (me_members e))"
  have zero: "(of_nat ?E :: uint32) = 0 \<longleftrightarrow> ?E mod 2 ^ 32 = 0" by (simp only: word_unat_eq_iff unat_of_nat) simp
  have len: "n < 2 ^ 31" "0 < length (me_members e)" using e(1) by (auto simp: n_def entry_fits_def MaxAllocSize_def)
  define mx1 where "mx1 = mx\<lparr>nextMXact := ?x, mx_offsets := ExtendMultiXactOffset ?x (mx_offsets mx)\<rparr>"
  have step: "\<not> (\<not> MultiXactIdPrecedes ?x (multiVacLimit mx) \<and> \<not> MultiXactIdPrecedes ?x (multiStopLimit mx))"
    "\<not> MultiXactOffsetWouldWrap (of_nat l) (of_nat ?E) (of_nat n)" "multi = ?x" "offset = of_nat (skip0 ?E)"
    "mx' = mx1\<lparr>mx_members := ExtendMultiXactMember (of_nat ?E) (int n) (mx_members mx), nextMXact := ?x + 1, nextOffset := of_nat ?E + of_nat n\<rparr>"
    using get next_id [OF repr] lim(6,7) r(4) zero unfolding GetNewMultiXactId_def Let_def mx1_def n_def skip0_def
    by (auto split: if_splits)
  show "multi = ?x" "offset = of_nat (start_of q es (length es))" using step(3,4) by (simp_all add: start_of_def)
  have "l - ?E < 2 ^ 32" using lim(9) end_of_mono [of q es] by auto
  then have room: "?E + n < l" by (rule would_wrap_room [OF lim(8) _ len(1) step(2)])
  have fin: "end_of q (es @ [e]) = ?E + n" by (simp add: n_def skip0_def)
  have "length es < stop"
    using step(1) mx_id_precedes [of "length es" vac b] mx_id_precedes [of "length es" stop b] lim by auto
  then have "limits_ok b q (es @ [e]) mx'"
    using lim room by (intro limits_okI [of _ b vac stop _ l]) (simp_all only: fin, simp_all add: step(5) mx1_def)
  moreover have "index_ok b q (es @ [e]) (mx_offsets mx')"
    using index_extend [OF r(5,1,9) e(2)] by (simp add: step(5) mx1_def)
  moreover have "slots_ok q (es @ [e]) (mx_members mx')"
    using slots_extend [OF r(6) e(2) n_def len(2,1)] room lim(9) by (simp add: step(5))
  moreover have "\<forall>e'\<in>set (es @ [e]). entry_fits e'" using r(8) e(1) by auto
  moreover have "nextOffset mx' = of_nat (end_of q (es @ [e]))" unfolding fin by (simp add: step(5))
  moreover have "oldestMultiXactId mx' = b" "nextMXact mx' = mx_id b (length (es @ [e]) - 1) + 1"
    using r(2) by (simp_all add: step(5) mx1_def)
  ultimately show "mx_repr b q (es @ [e]) mx'" using r(1) by (simp add: mx_repr_def)
qed

lemma offset_at_write:
  assumes "pages_ok offsets" "offsets (MultiXactIdToOffsetPage x) = Some page"
  shows "offset_at (offsets(MultiXactIdToOffsetPage x \<mapsto> page[MultiXactIdToOffsetEntry x := v])) y = (if y = x then Some v else offset_at offsets y)"
proof -
  have "MultiXactIdToOffsetEntry x < length page" using assms by (simp add: MultiXactIdToOffsetEntry_def mx_consts pages_ok_def)
  moreover have "y = x" if "MultiXactIdToOffsetPage y = MultiXactIdToOffsetPage x" "MultiXactIdToOffsetEntry y = MultiXactIdToOffsetEntry x"
    using that div_mult_mod_eq [of "unat x" 2048] div_mult_mod_eq [of "unat y" 2048]
    by (simp add: MultiXactIdToOffsetPage_def MultiXactIdToOffsetEntry_def mx_consts word_unat_eq_iff)
  ultimately show ?thesis using assms(2) by (auto simp: offset_at_def nth_list_update)
qed

lemma outside_range:
  assumes "q \<le> y" "y < e" "q \<le> s" "s + n \<le> e" "e \<le> q + 2 ^ 32" "y < s \<or> s + n \<le> y"
  shows "n \<le> unat (of_nat y - of_nat s :: uint32)"
proof (cases "y < s")
  case True
  have "(of_nat y :: uint32) = of_nat (y + 2 ^ 32)" by (simp only: word_unat_eq_iff unat_of_nat) simp
  moreover have "unat (of_nat (y + 2 ^ 32) - of_nat s :: uint32) = y + 2 ^ 32 - s" by (rule word_distance) (use assms True in auto)
  ultimately show ?thesis using assms True by (simp del: of_nat_add)
next
  case False
  have "unat (of_nat y - of_nat s :: uint32) = y - s" by (rule word_distance) (use assms False in auto)
  then show ?thesis using assms(6) False by simp
qed

lemma end_bound: "limits_ok b q es mx \<Longrightarrow> end_of q es \<le> q + 2 ^ 32"
  by (auto simp: limits_ok_def)

text \<open>Marking an entry as written changes no position.\<close>

abbreviation mark_written :: "nat \<Rightarrow> MxEntry list \<Rightarrow> MxEntry list" where
  "mark_written k es \<equiv> es[k := (es ! k)\<lparr>me_written := True\<rparr>]"

lemma mark_written_positions [simp]:
  "end_of q (take j (mark_written k es)) = end_of q (take j es)" "end_of q (mark_written k es) = end_of q es"
  "start_of q (mark_written k es) j = start_of q es j"
proof -
  have same: "map me_members (mark_written k es) = map me_members es" by (simp add: map_update) (metis list_update_id map_update nth_map)
  show eof: "end_of q (take j (mark_written k es)) = end_of q (take j es)" for j
    using end_of_members [of "take j (mark_written k es)" "take j es" q] same by (simp add: take_map [symmetric])
  show "end_of q (mark_written k es) = end_of q es" using eof [of "length es"] by simp
  show "start_of q (mark_written k es) j = start_of q es j" by (simp add: start_of_def eof)
qed

lemma index_write:
  assumes ok: "index_ok b q es offsets" and b: "b \<noteq> 0" "length es < 2 ^ 31 - 4096" and k: "k < length es"
    and page: "offsets (MultiXactIdToOffsetPage (mx_id b k)) = Some page"
  shows "index_ok b q (mark_written k es)
    (offsets(MultiXactIdToOffsetPage (mx_id b k) \<mapsto> page[MultiXactIdToOffsetEntry (mx_id b k) := of_nat (start_of q es k)]))"
    (is "index_ok b q ?es ?offs")
proof -
  have pages: "pages_ok offsets" using ok by (simp add: index_ok_def)
  note offs = offset_at_write [OF pages page, of "of_nat (start_of q es k)"]
  have "pages_ok ?offs" using pages page by (simp add: pages_ok_update pages_ok_def)
  moreover have "offset_at ?offs (mx_id b j) = Some (if me_written (?es ! j) then of_nat (start_of q ?es j) else 0)" if "j < length ?es" for j
    using ok that k offs [of "mx_id b j"] mx_id_inj [of j k b] b by (auto simp: index_ok_def nth_list_update)
  moreover have "offset_at ?offs (mx_id b j) = offset_at offsets (mx_id b j)" if "length es \<le> j" "j < 2 ^ 31" for j
    using that k offs [of "mx_id b j"] mx_id_inj [of j k b] b by auto
  ultimately show ?thesis using ok by (simp add: index_ok_def Let_def)
qed

lemma entries_apart:
  assumes "j < length es" "k < length es" "j \<noteq> k" "i < length (me_members (es ! j))"
  shows "start_of q es j + i < start_of q es k \<or> start_of q es k + length (me_members (es ! k)) \<le> start_of q es j + i"
proof (cases "j < k")
  case True
  then show ?thesis using start_of_later [of j k es q] skip0_bounds(1) [of "end_of q (take k es)"] assms by (simp add: start_of_def)
next
  case False
  then show ?thesis using start_of_later [of k j es q] skip0_bounds(1) [of "end_of q (take j es)"] assms by (simp add: start_of_def)
qed

lemma slots_write:
  assumes ok: "slots_ok q es mem" and k: "k < length es" and eb: "end_of q es \<le> q + 2 ^ 32" and fits: "entry_fits (es ! k)"
    and pages: "pages_ok mem'" and mem': "\<And>y. slot_at mem' y =
      (let i = unat (y - of_nat (start_of q es k)) in if i < length (me_members (es ! k)) then Some [me_members (es ! k) ! i] else slot_at mem y)"
  shows "slots_ok q (mark_written k es) mem'"
proof (rule slots_okI)
  let ?es = "mark_written k es" and ?ms = "me_members (es ! k)" and ?s = "start_of q es k"
  note b = start_of_bounds [OF k, of q]
  have ex: "mem' (MXOffsetToMemberPage y) \<noteq> None" if "mem (MXOffsetToMemberPage y) \<noteq> None" for y
    using that mem' [of y] by (auto simp: slot_at_def Let_def split: if_splits)
  have keep: "slot_at mem' (of_nat y) = slot_at mem (of_nat y)" if "q \<le> y" "y < end_of q es" "y < ?s \<or> ?s + length ?ms \<le> y" for y
    using outside_range [of q y "end_of q es" ?s "length ?ms"] b eb that mem' [of "of_nat y"] by (simp add: Let_def)
  show "pages_ok mem'" by (rule pages)
  show "slot_at mem' (of_nat (start_of q ?es j + i)) = Some [me_members (?es ! j) ! i]"
    if j: "j < length ?es" "me_written (?es ! j)" "i < length (me_members (?es ! j))" for j i
  proof (cases "j = k")
    case True
    have "i < 2 ^ 32" using j(3) fits True k by (simp add: entry_fits_def MaxAllocSize_def)
    then have "unat (of_nat (?s + i) - of_nat ?s :: uint32) = i" using word_distance [of ?s "?s + i"] by simp
    then show ?thesis using mem' [of "of_nat (?s + i)"] j True k by (simp add: Let_def)
  next
    case False
    have jl: "j < length es" "i < length (me_members (es ! j))" "me_written (es ! j)" using j False by auto
    have "q \<le> start_of q es j + i" "start_of q es j + i < end_of q es" using start_of_bounds [OF jl(1), of q] jl(2) by simp_all
    from keep [OF this entries_apart [OF jl(1) k False jl(2)]] show ?thesis using slots_okD(2) [OF ok jl(1,3,2)] False by simp
  qed
  show "mem' (MXOffsetToMemberPage (of_nat x)) \<noteq> None" if "q \<le> x" "x < end_of q ?es" for x
    using ex slots_okD(3) [OF ok] that by simp
  show "slot_at mem' 0 = Some []" if j: "j < length ?es" "0 < j" "end_of q (take j ?es) mod 2 ^ 32 = 0" for j
  proof -
    let ?z = "end_of q (take j es)"
    have z: "?z mod 2 ^ 32 = 0" "j < length es" using j by simp_all
    have "?z < ?s \<or> ?s + length ?ms \<le> ?z"
    proof (cases "j \<le> k")
      case True
      then have "?z \<le> end_of q (take k es)" by (rule end_of_take_mono)
      then show ?thesis using z(1) skip0_bounds(1) [of "end_of q (take k es)"]
        by (cases "?z = end_of q (take k es)") (simp_all add: start_of_def skip0_def)
    qed (use start_of_later [of k j es q] k in auto)
    moreover have "?z < end_of q es" using start_of_bounds [OF z(2), of q] z(1) by (simp add: start_of_def skip0_def)
    moreover have "(of_nat ?z :: uint32) = 0" using z(1) by (simp only: word_unat_eq_iff unat_of_nat) simp
    ultimately show ?thesis using keep [of ?z] end_of_mono [of q "take j es"] slots_okD(4) [OF ok j(2) z(2,1)] by simp
  qed
  show "mem' (MXOffsetToMemberPage (of_nat (end_of q ?es))) \<noteq> None" if "\<not> 1636 dvd unat (of_nat (end_of q ?es) :: uint32)"
    using that ex slots_okD(5) [OF ok] by simp
qed

lemma record_repr:
  assumes repr: "mx_repr b q es mx" and k: "k < length es"
  shows "\<exists>mx'. RecordNewMultiXact (mx_id b k) (of_nat (start_of q es k)) (me_members (es ! k)) mx = Inr mx' \<and>
    mx_repr b q (mark_written k es) mx'"
proof -
  note r = mx_reprD [OF repr]
  let ?es = "mark_written k es" and ?x = "mx_id b k" and ?ms = "me_members (es ! k)" and ?s = "start_of q es k"
  have fits: "entry_fits (es ! k)" using r(8) k by simp
  note eb = end_bound [OF r(7)]
  obtain page where page: "mx_offsets mx (MultiXactIdToOffsetPage ?x) = Some page"
    using r(5) k by (auto simp: index_ok_def offset_at_def)
  obtain mem where mem: "record_members ?x (of_nat ?s) ?ms (mx_members mx) = Inr mem" "pages_ok mem"
    "\<And>y. slot_at mem y = (if unat (y - of_nat ?s) < length ?ms then Some [?ms ! unat (y - of_nat ?s)] else slot_at (mx_members mx) y)"
  proof -
    have "\<forall>i<length ?ms. mx_members mx (MXOffsetToMemberPage (of_nat ?s + of_nat i)) \<noteq> None"
      using slots_okD(3) [OF r(6), of "?s + i" for i] start_of_bounds [OF k, of q] by auto
    moreover have "length ?ms < 2 ^ 32" "\<forall>m\<in>set ?ms. good_member m" using fits by (auto simp: entry_fits_def MaxAllocSize_def)
    ultimately show ?thesis using record_members_slots [OF slots_okD(1) [OF r(6)]] that by blast
  qed
  let ?mx = "mx\<lparr>mx_offsets := (mx_offsets mx)(MultiXactIdToOffsetPage ?x \<mapsto> page[MultiXactIdToOffsetEntry ?x := of_nat ?s]), mx_members := mem\<rparr>"
  have "RecordNewMultiXact ?x (of_nat ?s) ?ms mx = Inr ?mx" using page mem(1) by (simp add: RecordNewMultiXact_def Let_def)
  moreover have "slots_ok q ?es mem" by (rule slots_write [OF r(6) k eb fits mem(2)]) (simp add: Let_def mem(3))
  moreover have "limits_ok b q ?es ?mx" using r(7) by (simp add: limits_ok_def)
  moreover have "\<forall>e\<in>set ?es. entry_fits e" using r(8) fits k by (auto simp: entry_fits_def dest!: set_update_subset_insert [THEN subsetD])
  ultimately show ?thesis using r(1-4) k index_write [OF r(5,1,9) k page] by (intro exI [of _ ?mx]) (auto simp: mx_repr_def)
qed

lemma read_offset_at: "offset_at offsets x = Some v \<Longrightarrow> read_offset x offsets = Inr v"
  by (auto simp: offset_at_def read_offset_def)

text \<open>A stretch of slots: the members, and perhaps the unused slot after them.\<close>

lemma read_entry:
  assumes repr: "mx_repr b q es mx" and k: "k < length es" "me_written (es ! k)"
    and n: "n = length (me_members (es ! k)) \<or> n = length (me_members (es ! k)) + 1 \<and> slot_at (mx_members mx) (of_nat (start_of q es k + length (me_members (es ! k)))) = Some []"
  shows "read_members multi (of_nat (start_of q es k)) n (mx_members mx) = Inr (me_members (es ! k))"
proof -
  let ?ms = "me_members (es ! k)"
  define f where "f = (\<lambda>i. if i < length ?ms then [?ms ! i] else [])"
  have slots: "slot_at (mx_members mx) (of_nat (start_of q es k) + of_nat i) = Some (f i)" if "i < n" for i
  proof (cases "i < length ?ms")
    case True
    then show ?thesis using slots_okD(2) [OF mx_reprD(6) [OF repr] k True] by (simp add: f_def)
  next
    case False
    then have "i = length ?ms" "n = length ?ms + 1" using that n by auto
    then show ?thesis using n by (simp add: f_def)
  qed
  have "concat (map f [0..<length ?ms]) = ?ms"
  proof -
    have "map f [0..<length ?ms] = map (\<lambda>i. [?ms ! i]) [0..<length ?ms]" by (simp add: f_def)
    then have "concat (map f [0..<length ?ms]) = concat (map (\<lambda>i. [?ms ! i]) [0..<length ?ms])" by (simp only:)
    then show ?thesis by (simp add: map_nth)
  qed
  moreover have "f (length ?ms) = []" by (simp add: f_def)
  ultimately have "concat (map f [0..<n]) = ?ms" using n by auto
  then show ?thesis using read_members_slots [of n "mx_members mx" "of_nat (start_of q es k)" f multi] slots by simp
qed

lemma sint_small: "x \<le> y \<Longrightarrow> y - x < 2 ^ 31 \<Longrightarrow> sint (of_nat y - of_nat x :: uint32) = int (y - x)"
proof -
  assume a: "x \<le> y" "y - x < 2 ^ 31"
  then have "unat (of_nat y - of_nat x :: uint32) = y - x" by (intro word_distance) auto
  then have "uint (of_nat y - of_nat x :: uint32) = int (y - x)" by (metis uint_nat)
  then show ?thesis using a(2) by (simp add: sint32_uint)
qed

lemma skip0_nonzero: "skip0 x mod 2 ^ 32 \<noteq> 0"
proof (cases "x mod 2 ^ 32 = 0")
  case True
  then have "Suc x mod 2 ^ 32 = 1" using mod_Suc [of x "2 ^ 32"] by simp
  then show ?thesis using True by (simp add: skip0_def)
qed (simp add: skip0_def)

lemma read_repr:
  assumes repr: "mx_repr b q es mx" and k: "k < length es" "me_written (es ! k)"
  shows "members_from_log (mx_id b k) mx =
    (if Suc k < length es \<and> \<not> me_written (es ! Suc k) then None else Some (Inr (me_members (es ! k))))"
proof -
  note r = mx_reprD [OF repr]
  let ?x = "mx_id b k" and ?ms = "me_members (es ! k)" and ?s = "start_of q es k"
  have idx: "read_offset (mx_id b j) (mx_offsets mx) = Inr (if me_written (es ! j) then of_nat (start_of q es j) else 0)" if "j < length es" for j
    using r(5) that by (intro read_offset_at) (simp add: index_ok_def)
  have fits: "8 * (int (length ?ms) + 1) \<le> MaxAllocSize" using r(8) k(1) by (simp add: entry_fits_def)
  have len: "sint (of_nat (?s + n) - of_nat ?s :: uint32) = int n" if "n \<le> length ?ms + 1" for n
    using sint_small [of ?s "?s + n"] that fits by (simp add: MaxAllocSize_def)
  show ?thesis
  proof (cases "Suc k < length es")
    case False
    then have last: "k = length es - 1" "es \<noteq> []" using k(1) by auto
    then have "end_of q es = ?s + length ?ms" using end_of_take_Suc [OF k(1), of q] by simp
    then show ?thesis
      using False last r(3,4) idx [OF k(1)] k(2) len [of "length ?ms"] read_entry [OF repr k, of "length ?ms" ?x] fits
      by (simp add: members_from_log_def Let_def MaxAllocSize_def del: of_nat_add)
  next
    case True
    let ?x' = "mx_id b (Suc k)" and ?s' = "start_of q es (Suc k)"
    have x': "(if ?x + 1 < FirstMultiXactId then FirstMultiXactId else ?x + 1) = ?x'"
      using mx_id_Suc [OF r(1), of k] True r(9) by (auto simp: FirstMultiXactId_def word_less_nat_alt word_unat_eq_iff)
    have ne: "nextMXact mx \<noteq> ?x + 1" using r(3) True mx_id_inj [of "length es - 1" k b] r(1,9) by auto
    have s': "?s' = skip0 (?s + length ?ms)" using end_of_take_Suc [OF k(1), of q] by (simp add: start_of_def)
    have "?s' mod 2 ^ 32 \<noteq> 0" unfolding s' by (rule skip0_nonzero)
    then have nz: "(of_nat ?s' :: uint32) \<noteq> 0" by (simp only: word_unat_eq_iff unat_of_nat) simp
    obtain n where n: "?s' = ?s + n" "n = length ?ms \<or> n = length ?ms + 1 \<and> slot_at (mx_members mx) (of_nat (?s + length ?ms)) = Some []"
    proof (cases "(?s + length ?ms) mod 2 ^ 32 = 0")
      case z: True
      then have "slot_at (mx_members mx) 0 = Some []"
        using slots_okD(4) [OF r(6), of "Suc k"] True end_of_take_Suc [OF k(1), of q] by simp
      moreover have "(of_nat (?s + length ?ms) :: uint32) = 0" using z by (simp only: word_unat_eq_iff unat_of_nat) simp
      ultimately show ?thesis using that [of "length ?ms + 1"] z by (simp add: s' skip0_def)
    next
      case z: False
      then show ?thesis using that [of "length ?ms"] by (simp add: s' skip0_def)
    qed
    have nl: "n \<le> length ?ms + 1" using n(2) by auto
    show ?thesis
      using True ne nz idx [OF k(1)] idx [OF True] k(2) len [OF nl] read_entry [OF repr k n(2), of ?x] nl fits
      unfolding n(1) by (simp add: members_from_log_def Let_def x' MaxAllocSize_def n(1) del: of_nat_add)
  qed
qed

end
