(* ===== verification/MultiXactProps.thy ===== *)
theory MultiXactProps
  imports MultiXactCreate
begin

text \<open>
  Any number of backends creating multixacts.  Reserving an id with its member slots and writing them are
  separate steps, between which other backends may do the same; \<open>mw_flights\<close> are the reservations that have
  not been written yet, each held in the local variables of some backend.  Writing the offset and writing
  the members are one step here, although the code takes a lock for each: a multixact is not known to
  anybody but its creator before both are written.
\<close>

section \<open>Creation by several backends\<close>

type_synonym flight = "MultiXactId \<times> MultiXactOffset \<times> MultiXactMember list"

record MxWorld =
  mw_state :: MultiXactState
  mw_flights :: "flight list"

definition fits_memory :: "MultiXactMember list \<Rightarrow> bool" where
  "fits_memory ms \<longleftrightarrow> ms \<noteq> [] \<and> (\<forall>m\<in>set ms. good_member m) \<and> 8 * (int (length ms) + 1) \<le> MaxAllocSize"

inductive mx_step :: "MxWorld \<Rightarrow> MxWorld \<Rightarrow> bool" where
  reserve: "mx_step w \<lparr>mw_state = mx, mw_flights = (multi, offset, ms) # mw_flights w\<rparr>"
  if "fits_memory ms" "GetNewMultiXactId False True (\<lambda>mx. mx) (length ms) (mw_state w) = Inr (multi, offset, mx)"
| fill: "mx_step w \<lparr>mw_state = mx, mw_flights = remove1 (multi, offset, ms) (mw_flights w)\<rparr>"
  if "(multi, offset, ms) \<in> set (mw_flights w)" "RecordNewMultiXact multi offset ms (mw_state w) = Inr mx"
| member: "mx_step w (w\<lparr>mw_state := MultiXactIdSetOldestMember my (mw_state w)\<rparr>)"
| visible: "mx_step w (w\<lparr>mw_state := MultiXactIdSetOldestVisible my (mw_state w)\<rparr>)"
| finish: "mx_step w (w\<lparr>mw_state := snd (AtEOXact_MultiXact my cache (mw_state w))\<rparr>)"

definition flight_of :: "MultiXactId \<Rightarrow> nat \<Rightarrow> MxEntry list \<Rightarrow> nat \<Rightarrow> flight" where
  "flight_of b q es k = (mx_id b k, of_nat (start_of q es k), me_members (es ! k))"

definition flights_ok :: "MultiXactId \<Rightarrow> nat \<Rightarrow> MxEntry list \<Rightarrow> flight list \<Rightarrow> bool" where
  "flights_ok b q es fl \<longleftrightarrow> distinct fl \<and> set fl = flight_of b q es ` {k. k < length es \<and> \<not> me_written (es ! k)}"

definition mx_world :: "MultiXactId \<Rightarrow> nat \<Rightarrow> MxEntry list \<Rightarrow> MxWorld \<Rightarrow> bool" where
  "mx_world b q es w \<longleftrightarrow> mx_repr b q es (mw_state w) \<and> flights_ok b q es (mw_flights w)"

definition mx_inv :: "MxWorld \<Rightarrow> bool" where
  "mx_inv w \<longleftrightarrow> (\<exists>b q es. mx_world b q es w)"

lemma flight_inj:
  assumes "mx_repr b q es mx" "j < length es" "k < length es"
  shows "flight_of b q es j = flight_of b q es k \<longleftrightarrow> j = k"
  using mx_id_inj [of j k b] mx_reprD(1,9) [OF assms(1)] assms(2,3) by (auto simp: flight_of_def)

lemma reserve_world:
  assumes w: "mx_world b q es w" and ms: "fits_memory ms"
    and get: "GetNewMultiXactId False True (\<lambda>mx. mx) (length ms) (mw_state w) = Inr (multi, offset, mx)"
  shows "mx_world b q (es @ [\<lparr>me_members = ms, me_written = False\<rparr>]) \<lparr>mw_state = mx, mw_flights = (multi, offset, ms) # mw_flights w\<rparr>"
    (is "mx_world b q ?es _") and "multi = mx_id b (length es)" "offset = of_nat (start_of q es (length es))"
proof -
  let ?e = "\<lparr>me_members = ms, me_written = False\<rparr>"
  have repr: "mx_repr b q es (mw_state w)" and fl: "flights_ok b q es (mw_flights w)" using w by (simp_all add: mx_world_def)
  have "entry_fits ?e" using ms by (simp add: entry_fits_def fits_memory_def)
  note r = reserve_repr [OF repr this, of multi offset mx] 
  have r': "multi = mx_id b (length es)" "offset = of_nat (start_of q es (length es))" "mx_repr b q ?es mx" using r get by simp_all
  have old: "flight_of b q ?es k = flight_of b q es k" if "k < length es" for k using that by (simp add: flight_of_def nth_append)
  have new: "flight_of b q ?es (length es) = (multi, offset, ms)" by (simp add: flight_of_def r')
  have "{k. k < length ?es \<and> \<not> me_written (?es ! k)} = insert (length es) {k. k < length es \<and> \<not> me_written (es ! k)}"
    by (auto simp: nth_append less_Suc_eq)
  then have img: "flight_of b q ?es ` {k. k < length ?es \<and> \<not> me_written (?es ! k)} = insert (multi, offset, ms) (set (mw_flights w))"
    using fl old new by (auto simp: flights_ok_def image_iff)
  have "flight_of b q es k \<noteq> (multi, offset, ms)" if "k < length es" for k
    using flight_inj [OF r'(3), of k "length es"] old [OF that] new that by simp
  then have "(multi, offset, ms) \<notin> set (mw_flights w)" using fl by (fastforce simp: flights_ok_def)
  then show "mx_world b q ?es \<lparr>mw_state = mx, mw_flights = (multi, offset, ms) # mw_flights w\<rparr>"
    using r'(3) fl img by (simp add: mx_world_def flights_ok_def)
  show "multi = mx_id b (length es)" "offset = of_nat (start_of q es (length es))" by (rule r'(1,2))+
qed

lemma fill_world:
  assumes w: "mx_world b q es w" and k: "k < length es" "\<not> me_written (es ! k)"
  shows "\<exists>mx. RecordNewMultiXact (mx_id b k) (of_nat (start_of q es k)) (me_members (es ! k)) (mw_state w) = Inr mx \<and>
    mx_world b q (mark_written k es) \<lparr>mw_state = mx, mw_flights = remove1 (flight_of b q es k) (mw_flights w)\<rparr>"
proof -
  have repr: "mx_repr b q es (mw_state w)" and fl: "flights_ok b q es (mw_flights w)" using w by (simp_all add: mx_world_def)
  obtain mx where mx: "RecordNewMultiXact (mx_id b k) (of_nat (start_of q es k)) (me_members (es ! k)) (mw_state w) = Inr mx"
    "mx_repr b q (mark_written k es) mx" using record_repr [OF repr k(1)] by blast
  have same: "flight_of b q (mark_written k es) j = flight_of b q es j" for j
    by (cases "j = k") (simp_all add: flight_of_def k(1))
  have "{j. j < length (mark_written k es) \<and> \<not> me_written (mark_written k es ! j)} = {j. j < length es \<and> \<not> me_written (es ! j)} - {k}"
    using k(1) by (auto simp: nth_list_update split: if_splits)
  moreover have "inj_on (flight_of b q es) {j. j < length es \<and> \<not> me_written (es ! j)}"
    using flight_inj [OF repr] by (auto simp: inj_on_def)
  ultimately have "flights_ok b q (mark_written k es) (remove1 (flight_of b q es k) (mw_flights w))"
    using fl k by (simp add: flights_ok_def same set_remove1_eq inj_on_image_set_diff [where A = "{j. j < length es \<and> \<not> me_written (es ! j)}" and B = "{k}"])
  then show ?thesis using mx by (auto simp: mx_world_def)
qed

lemma arrays_world [intro]:
  assumes "mx_world b q es w"
  shows "mx_world b q es (w\<lparr>mw_state := (mw_state w)\<lparr>OldestMemberMXactId := xs\<rparr>\<rparr>)"
    "mx_world b q es (w\<lparr>mw_state := (mw_state w)\<lparr>OldestVisibleMXactId := xs\<rparr>\<rparr>)"
    "mx_world b q es (w\<lparr>mw_state := (mw_state w)\<lparr>OldestMemberMXactId := xs, OldestVisibleMXactId := ys\<rparr>\<rparr>)"
  using assms by (simp_all add: mx_world_def mx_repr_def limits_ok_def)

text \<open>Every step keeps the entries there are: it adds one at the end, or marks one as written.\<close>

definition extends :: "MxEntry list \<Rightarrow> MxEntry list \<Rightarrow> bool" where
  "extends es es' \<longleftrightarrow> length es \<le> length es' \<and>
     (\<forall>k<length es. me_members (es' ! k) = me_members (es ! k) \<and> (me_written (es ! k) \<longrightarrow> me_written (es' ! k)))"

lemma extends_refl [simp]: "extends es es" and extends_trans: "extends es es' \<Longrightarrow> extends es' es'' \<Longrightarrow> extends es es''"
  by (auto simp: extends_def)

lemma mx_step_world:
  assumes "mx_step w w'" "mx_world b q es w"
  shows "\<exists>es'. extends es es' \<and> mx_world b q es' w'"
  using assms
proof (induction rule: mx_step.induct)
  case (reserve ms w multi offset mx)
  then show ?case using reserve_world(1) [OF reserve.prems reserve.hyps]
    by (intro exI [of _ "es @ [\<lparr>me_members = ms, me_written = False\<rparr>]"]) (simp add: extends_def nth_append)
next
  case (fill multi offset ms w mx)
  then obtain k where k: "k < length es" "\<not> me_written (es ! k)" "flight_of b q es k = (multi, offset, ms)"
    by (auto simp: mx_world_def flights_ok_def)
  then show ?case using fill_world [OF fill.prems k(1,2)] fill.hyps(2)
    by (intro exI [of _ "mark_written k es"]) (auto simp: extends_def nth_list_update flight_of_def)
next
  case (member w my)
  then have "mx_world b q es (w\<lparr>mw_state := MultiXactIdSetOldestMember my (mw_state w)\<rparr>)"
    using arrays_world(1) by (simp add: MultiXactIdSetOldestMember_def)
  then show ?case by (intro exI [of _ es]) simp
next
  case (visible w my)
  then have "mx_world b q es (w\<lparr>mw_state := MultiXactIdSetOldestVisible my (mw_state w)\<rparr>)"
    using arrays_world(2) by (simp add: MultiXactIdSetOldestVisible_def Let_def)
  then show ?case by (intro exI [of _ es]) simp
next
  case (finish w my cache)
  then show ?case using arrays_world(3) [OF finish.prems] by (intro exI [of _ es]) (simp add: AtEOXact_MultiXact_def)
qed

lemma mx_run_world:
  assumes "mx_step\<^sup>*\<^sup>* w w'" "mx_world b q es w"
  shows "\<exists>es'. extends es es' \<and> mx_world b q es' w'"
  using assms
proof (induction rule: rtranclp_induct)
  case (step w' w'')
  then show ?case using mx_step_world extends_trans by metis
qed (auto intro: exI [of _ es])

section \<open>Reading back\<close>

lemma precedes_next:
  assumes "k \<le> n" "n < 2 ^ 31 - 4096"
  shows "MultiXactIdPrecedes (mx_id b k) (mx_id b n + 1)"
proof -
  have u: "uint (mx_id b k) = int (unat (mx_id b k))" "uint (mx_id b n + 1) = int (unat (mx_id b n + 1))" by simp_all
  define c where "c = unat b"
  have "c < 4294967296" unfolding c_def by (rule unat32_less)
  then show ?thesis
    unfolding MultiXactIdPrecedes_def sint32_uint uint32_sub u unat_plus_one
    using unat_mx_id [of k b, folded c_def] unat_mx_id [of n b, folded c_def] assms by (auto split: if_splits)
qed

lemma members_from_log_visible [simp]: "members_from_log multi (MultiXactIdSetOldestVisible my mx) = members_from_log multi mx"
  by (simp add: members_from_log_def MultiXactIdSetOldestVisible_def Let_def cong: sum.case_cong if_cong)

lemma GetMultiXactIdMembers_log:
  assumes repr: "mx_repr b q es mx" and k: "k < length es" "me_written (es ! k)" and fresh: "fst (mXactCacheGetById (mx_id b k) cache) = None"
  shows "GetMultiXactIdMembers my (mx_id b k) False False cache mx =
    (if Suc k < length es \<and> \<not> me_written (es ! Suc k) then None
     else Some (Inr (Some (me_members (es ! k)), mXactCachePut (mx_id b k) (me_members (es ! k)) cache, MultiXactIdSetOldestVisible my mx)))"
proof -
  note r = mx_reprD [OF repr]
  let ?mx = "MultiXactIdSetOldestVisible my mx"
  have miss: "mXactCacheGetById (mx_id b k) cache = (None, cache)" using fresh by (auto simp: mXactCacheGetById_def split: option.splits)
  have same: "oldestMultiXactId ?mx = b" "nextMXact ?mx = mx_id b (length es - 1) + 1"
    using r k(1) by (auto simp: MultiXactIdSetOldestVisible_def Let_def)
  have "length es < 2 ^ 31 - 4096" using r(7) by (auto simp: limits_ok_def)
  then have "MultiXactIdIsValid (mx_id b k)" "\<not> MultiXactIdPrecedes (mx_id b k) b" "MultiXactIdPrecedes (mx_id b k) (mx_id b (length es - 1) + 1)"
    using mx_id_valid [of b k] mx_id_precedes [of k 0 b] precedes_next [of k "length es - 1" b] r(1) k(1)
    by (simp_all add: MultiXactIdIsValid_def InvalidMultiXactId_def)
  then show ?thesis by (simp add: GetMultiXactIdMembers_def miss same read_repr [OF repr k])
qed

lemma flight_next:
  assumes w: "mx_world b q es w" and k: "k < length es"
  shows "(\<exists>f\<in>set (mw_flights w). fst f = (if mx_id b k + 1 < FirstMultiXactId then FirstMultiXactId else mx_id b k + 1)) \<longleftrightarrow>
    Suc k < length es \<and> \<not> me_written (es ! Suc k)"
proof -
  have repr: "mx_repr b q es (mw_state w)" and fl: "flights_ok b q es (mw_flights w)" using w by (simp_all add: mx_world_def)
  have len: "length es < 2 ^ 31 - 4096" using mx_reprD(7) [OF repr] by (auto simp: limits_ok_def)
  have "mx_id b (Suc k) = (if mx_id b k + 1 < FirstMultiXactId then FirstMultiXactId else mx_id b k + 1)"
    using mx_id_Suc [of b k] mx_reprD(1) [OF repr] k len by (simp add: FirstMultiXactId_def word_less_1)
  moreover have "mx_id b j = mx_id b (Suc k) \<longleftrightarrow> j = Suc k" if "j < length es" for j
    using mx_id_inj [of j "Suc k" b] mx_reprD(1) [OF repr] that k len by simp
  ultimately show ?thesis using fl by (auto simp: flights_ok_def flight_of_def)
qed

lemma create_world:
  assumes w: "mx_world b q es w" and ms: "fits_memory ms" and miss: "mXactCacheGetBySet (sort ms) cache = (InvalidMultiXactId, cache)"
    and new: "MultiXactIdCreateFromMembers False True (\<lambda>mx. mx) ms cache (mw_state w) = Inr (multi, cache', mx)"
  shows "multi = mx_id b (length es)" "mx_world b q (es @ [\<lparr>me_members = sort ms, me_written = True\<rparr>]) (w\<lparr>mw_state := mx\<rparr>)"
proof -
  let ?e = "\<lparr>me_members = sort ms, me_written = False\<rparr>"
  obtain offset mx1 where get: "GetNewMultiXactId False True (\<lambda>mx. mx) (length (sort ms)) (mw_state w) = Inr (multi, offset, mx1)"
      "RecordNewMultiXact multi offset (sort ms) mx1 = Inr mx"
    using new by (auto simp: MultiXactIdCreateFromMembers_def miss MultiXactIdIsValid_def Let_def split: if_splits sum.splits)
  let ?w = "\<lparr>mw_state = mx1, mw_flights = (multi, offset, sort ms) # mw_flights w\<rparr>"
  have "fits_memory (sort ms)" using ms by (simp add: fits_memory_def) (metis length_0_conv length_sort)
  note r = reserve_world [OF w this get(1)]
  show "multi = mx_id b (length es)" by (rule r(2))
  have "\<exists>mx'. RecordNewMultiXact (mx_id b (length es)) (of_nat (start_of q (es @ [?e]) (length es))) (sort ms) mx1 = Inr mx' \<and>
      mx_world b q (mark_written (length es) (es @ [?e])) \<lparr>mw_state = mx', mw_flights = remove1 (flight_of b q (es @ [?e]) (length es)) (mw_flights ?w)\<rparr>"
    using fill_world [OF r(1), of "length es"] by simp
  moreover have "offset = of_nat (start_of q (es @ [?e]) (length es))" using r(3) by simp
  ultimately show "mx_world b q (es @ [\<lparr>me_members = sort ms, me_written = True\<rparr>]) (w\<lparr>mw_state := mx\<rparr>)"
    using get(2) r(2) by (simp add: flight_of_def mx_world_def)
qed


section \<open>A new installation\<close>

definition fresh_multixacts :: "nat \<Rightarrow> uint32 \<Rightarrow> mx_error + MultiXactState" where
  "fresh_multixacts max_slot max_age =
     TrimMultiXact max_age (SetMultiXactIdLimit max_age FirstMultiXactId 1
       (MultiXactSetNextMXact False FirstMultiXactId 0 (BootStrapMultiXact (MultiXactShmemInit max_slot))))"

lemma fresh_values:
  "\<exists>mx. fresh_multixacts max_slot max_age = Inr mx \<and> nextMXact mx = 1 \<and> nextOffset mx = 0 \<and> oldestMultiXactId mx = 1 \<and>
    oldestOffsetKnown mx \<and> multiVacLimit mx = (if 1 + max_age < 1 then 1 else 1 + max_age) \<and> multiStopLimit mx = 2144483648 \<and>
    offsetStopLimit mx = 4294914944 \<and> mx_offsets mx = [0 \<mapsto> zero_rest 1 zero_mx_page] \<and> mx_members mx = [0 \<mapsto> zero_mx_page]"
  by (simp add: fresh_multixacts_def TrimMultiXact_def SetMultiXactIdLimit_def MultiXactSetNextMXact_def BootStrapMultiXact_def MultiXactShmemInit_def
      ZeroMultiXactOffsetPage_def ZeroMultiXactMemberPage_def MultiXactIdToOffsetPage_def MultiXactIdToOffsetEntry_def mx_consts FirstMultiXactId_def
      MXOffsetToFlagsOffset_def MXOffsetToMemberPage_def SetOffsetVacuumLimit_def SLRU_PAGES_PER_SEGMENT_def MaxMultiXactId_def Let_def)

lemma fresh_world:
  assumes "max_age \<le> 2000000000"
  shows "\<exists>mx. fresh_multixacts max_slot max_age = Inr mx \<and> mx_world 1 0 [] \<lparr>mw_state = mx, mw_flights = []\<rparr>"
proof -
  obtain mx where f: "fresh_multixacts max_slot max_age = Inr mx"
    and v: "nextMXact mx = 1" "nextOffset mx = 0" "oldestMultiXactId mx = 1" "oldestOffsetKnown mx"
      "multiVacLimit mx = (if 1 + max_age < 1 then 1 else 1 + max_age)" "multiStopLimit mx = 2144483648" "offsetStopLimit mx = 4294914944"
      "mx_offsets mx = [0 \<mapsto> zero_rest 1 zero_mx_page]" "mx_members mx = [0 \<mapsto> zero_mx_page]"
    using fresh_values [of max_slot max_age] by blast
  have age: "unat max_age \<le> 2000000000" using assms by (simp add: word_le_nat_alt)
  have "unat (mx_id 1 (unat max_age)) = unat (1 + max_age)" using age by (subst unat_mx_id) (simp_all add: unat_word_ariths(1))
  then have vac: "multiVacLimit mx = mx_id 1 (unat max_age)" using v(5) age by (simp add: word_unat_eq_iff word_less_nat_alt unat_word_ariths(1))
  have stop: "multiStopLimit mx = mx_id 1 2144483647" by (simp add: v(6) mx_id_def)
  have "\<exists>vac stop. multiVacLimit mx = mx_id 1 vac \<and> multiStopLimit mx = mx_id 1 stop \<and> vac \<le> stop \<and> stop < 2 ^ 31 - 4096 \<and> length [] \<le> stop"
    using vac stop age by (intro exI [of _ "unat max_age"] exI [of _ "2144483647 :: nat"]) simp
  moreover have "\<exists>l. offsetStopLimit mx = of_nat l \<and> end_of 0 [] < l \<and> l + 3272 \<le> 0 + 2 ^ 32"
    using v(7) by (intro exI [of _ "4294914944 :: nat"]) simp
  ultimately have "limits_ok 1 0 [] mx" unfolding limits_ok_def using v(4) by blast
  moreover have "index_ok 1 0 [] (mx_offsets mx)" "slots_ok 0 [] (mx_members mx)"
    by (simp_all add: v(8,9) index_ok_def slots_ok_def pages_ok_def zero_rest_def zero_mx_page_def mx_consts FirstMultiXactId_def)
  ultimately show ?thesis using f v by (simp add: mx_world_def mx_repr_def flights_ok_def)
qed

abbreviation two_lockers :: "MultiXactMember list" where
  "two_lockers \<equiv> [MultiXactMember 801 MultiXactStatusForShare, MultiXactMember 800 MultiXactStatusForKeyShare]"

lemmas status_lockers = MultiXactStatusForShare_def MultiXactStatusForKeyShare_def

lemma fits_lockers: "fits_memory two_lockers"
  by (simp add: fits_memory_def good_member_def MaxAllocSize_def TransactionIdIsValid_def InvalidTransactionId_def status_lockers)

lemma sort_lockers: "sort two_lockers = rev two_lockers"
  by (simp add: less_eq_MultiXactMember_def mxactMemberComparator_def)

lemma create_succeeds:
  assumes w: "mx_world b q es w" and ms: "fits_memory ms" and miss: "mXactCacheGetBySet (sort ms) cache = (InvalidMultiXactId, cache)"
    and one: "length (filter (\<lambda>m. ISUPDATE_from_mxstatus (mx_status m)) (sort ms)) \<le> 1"
    and get: "GetNewMultiXactId False True (\<lambda>mx. mx) (length (sort ms)) (mw_state w) = Inr (multi, offset, mx1)"
  shows "\<exists>cache' mx. MultiXactIdCreateFromMembers False True (\<lambda>mx. mx) ms cache (mw_state w) = Inr (multi, cache', mx)"
proof -
  have "fits_memory (sort ms)" using ms by (simp add: fits_memory_def) (metis length_0_conv length_sort)
  note r = reserve_world [OF w this get]
  obtain mx where "RecordNewMultiXact multi offset (sort ms) mx1 = Inr mx"
    using fill_world [OF r(1), of "length es"] by (auto simp: r(2,3))
  then show ?thesis using get one by (auto simp: MultiXactIdCreateFromMembers_def miss MultiXactIdIsValid_def Let_def)
qed

lemma fresh_create:
  assumes fresh: "fresh_multixacts 1 400000000 = Inr mx"
  shows "\<exists>cache mx'. MultiXactIdCreateFromMembers False True (\<lambda>mx. mx) two_lockers [] mx = Inr (1, cache, mx')"
proof -
  have w: "mx_world 1 0 [] \<lparr>mw_state = mx, mw_flights = []\<rparr>" using fresh_world [of 400000000 1] fresh by auto
  have "\<exists>mx1. GetNewMultiXactId False True (\<lambda>mx. mx) (length (sort two_lockers)) mx = Inr (1, 1, mx1)"
    using fresh_values [of 1 400000000] fresh
    by (auto simp: GetNewMultiXactId_def FirstMultiXactId_def MultiXactIdPrecedes_def MultiXactOffsetWouldWrap_def Let_def)
  then obtain mx1 where get: "GetNewMultiXactId False True (\<lambda>mx. mx) (length (sort two_lockers)) mx = Inr (1, 1, mx1)" by blast
  show ?thesis
    using create_succeeds [OF w fits_lockers, of "[]" 1 1 mx1] get
    by (simp add: mXactCacheGetBySet_def ISUPDATE_from_mxstatus_def sort_lockers status_lockers)
qed


section \<open>When the counter wraps around\<close>

text \<open>C38:
  A race in \<^verbatim>\<open>GetNewMultiXactId\<close> hands out one id twice.  Past the vacuum limit the function gives up its lock
  to send a signal, and reads the counter again afterwards.  If another backend has used the last id of all in
  between, the counter is zero: the id taken is corrected to \<^verbatim>\<open>FirstMultiXactId\<close>, but the counter is not,
  so incrementing it makes the same id the next one to be handed out.
\<close>

theorem multixact_wrap_race_repeats_id:
  assumes "nextMXact mx = MaxMultiXactId" "\<not> MultiXactIdPrecedes MaxMultiXactId (multiVacLimit mx)"
    and "GetNewMultiXactId False True (\<lambda>mx. mx) n0 mx = Inr (multi0, offset0, mx0)"
    and "GetNewMultiXactId False True (\<lambda>_. mx0) n1 mx = Inr (multi1, offset1, mx1)"
    and "GetNewMultiXactId False True (\<lambda>mx. mx) n2 mx1 = Inr (multi2, offset2, mx2)"
  shows "multi0 = MaxMultiXactId \<and> multi1 = FirstMultiXactId \<and> multi2 = FirstMultiXactId"
proof -
  have "multi0 = MaxMultiXactId \<and> nextMXact mx0 = 0"
    using assms(1-3) by (auto simp: GetNewMultiXactId_def MaxMultiXactId_def FirstMultiXactId_def Let_def split: if_splits)
  moreover from this have "multi1 = FirstMultiXactId \<and> nextMXact mx1 = FirstMultiXactId"
    using assms(1,2,4) by (auto simp: GetNewMultiXactId_def MaxMultiXactId_def FirstMultiXactId_def Let_def split: if_splits)
  moreover from this have "multi2 = FirstMultiXactId"
    using assms(5) by (auto simp: GetNewMultiXactId_def Let_def split: if_splits)
  ultimately show ?thesis by blast
qed

definition wrapping_state :: MultiXactState where
  "wrapping_state = (MultiXactShmemInit 1)\<lparr>nextMXact := MaxMultiXactId, nextOffset := 7, oldestMultiXactId := 4294967000,
     multiVacLimit := 4294967100, multiStopLimit := 1000\<rparr>"

lemma wrapping_race:
  "\<exists>offset0 mx0 multi1 offset1 mx1 multi2 offset2 mx2.
     GetNewMultiXactId False True (\<lambda>mx. mx) 2 wrapping_state = Inr (MaxMultiXactId, offset0, mx0) \<and>
     GetNewMultiXactId False True (\<lambda>_. mx0) 2 wrapping_state = Inr (multi1, offset1, mx1) \<and>
     GetNewMultiXactId False True (\<lambda>mx. mx) 2 mx1 = Inr (multi2, offset2, mx2)"
  by (simp add: GetNewMultiXactId_def wrapping_state_def MultiXactShmemInit_def MaxMultiXactId_def FirstMultiXactId_def MultiXactIdPrecedes_def Let_def)

theorem multixact_wrap_race_repeats_id_witness:
  "\<exists>offset0 mx0 offset1 mx1 offset2 mx2.
     GetNewMultiXactId False True (\<lambda>mx. mx) 2 wrapping_state = Inr (MaxMultiXactId, offset0, mx0) \<and>
     GetNewMultiXactId False True (\<lambda>_. mx0) 2 wrapping_state = Inr (FirstMultiXactId, offset1, mx1) \<and>
     GetNewMultiXactId False True (\<lambda>mx. mx) 2 mx1 = Inr (FirstMultiXactId, offset2, mx2)"
proof -
  obtain offset0 mx0 multi1 offset1 mx1 multi2 offset2 mx2 where run:
    "GetNewMultiXactId False True (\<lambda>mx. mx) 2 wrapping_state = Inr (MaxMultiXactId, offset0, mx0)"
    "GetNewMultiXactId False True (\<lambda>_. mx0) 2 wrapping_state = Inr (multi1, offset1, mx1)"
    "GetNewMultiXactId False True (\<lambda>mx. mx) 2 mx1 = Inr (multi2, offset2, mx2)"
    using wrapping_race by blast
  have "nextMXact wrapping_state = MaxMultiXactId" "\<not> MultiXactIdPrecedes MaxMultiXactId (multiVacLimit wrapping_state)"
    by (simp_all add: wrapping_state_def MaxMultiXactId_def MultiXactIdPrecedes_def)
  from multixact_wrap_race_repeats_id [OF this run] run show ?thesis by blast
qed

text \<open>C39:
  An attempt to create a multixact that is refused can make an existing one unreadable.  When the last id of
  all has been used the counter is zero, and the last multixact ends where the next members will start.  A
  refused attempt stores the corrected counter nevertheless: from then on the reader takes the end from the
  entry of \<^verbatim>\<open>FirstMultiXactId\<close>, which is still zero, and waits for a creation that keeps being refused.
\<close>

theorem multixact_refusal_blocks_reader:
  assumes "nextMXact mx = 0" "GetNewMultiXactId False True (\<lambda>mx. mx) n mx = Inl (MembersLimitExceeded, mx')"
    and "read_offset MaxMultiXactId (mx_offsets mx) = Inr offset"
  shows "members_from_log MaxMultiXactId mx \<noteq> None \<and> members_from_log MaxMultiXactId mx' = None"
proof -
  have mx': "nextMXact mx' = 1" "mx_offsets mx' = ExtendMultiXactOffset 1 (mx_offsets mx)"
    using assms(1,2) by (auto simp: GetNewMultiXactId_def FirstMultiXactId_def Let_def split: if_splits)
  have pages: "MultiXactIdToOffsetPage 1 = 0" "MultiXactIdToOffsetPage MaxMultiXactId = 2097151"
    by (simp_all add: MultiXactIdToOffsetPage_def MaxMultiXactId_def mx_consts)
  have "read_offset MaxMultiXactId (mx_offsets mx') = Inr offset" "read_offset 1 (mx_offsets mx') = Inr 0"
    using assms(3) by (simp_all add: mx'(2) ExtendMultiXactOffset_def FirstMultiXactId_def ZeroMultiXactOffsetPage_def read_offset_def pages
        zero_mx_page_def MultiXactIdToOffsetEntry_def mx_consts)
  then have "members_from_log MaxMultiXactId mx' = None"
    by (simp add: members_from_log_def mx'(1) MaxMultiXactId_def FirstMultiXactId_def Let_def)
  moreover have "members_from_log MaxMultiXactId mx \<noteq> None"
    using assms(1,3) by (simp add: members_from_log_def MaxMultiXactId_def Let_def)
  ultimately show ?thesis by blast
qed

definition full_state :: MultiXactState where
  "full_state = (MultiXactShmemInit 1)\<lparr>nextMXact := 0, nextOffset := 100, oldestMultiXactId := 4294967000, multiVacLimit := 500,
     multiStopLimit := 1000, oldestOffsetKnown := True, offsetStopLimit := 101, mx_offsets := [2097151 \<mapsto> replicate 2048 50]\<rparr>"

theorem multixact_refusal_blocks_reader_witness:
  "\<exists>mx. GetNewMultiXactId False True (\<lambda>mx. mx) 2 full_state = Inl (MembersLimitExceeded, mx) \<and>
     members_from_log MaxMultiXactId full_state \<noteq> None \<and> members_from_log MaxMultiXactId mx = None"
proof -
  have "\<exists>mx. GetNewMultiXactId False True (\<lambda>mx. mx) 2 full_state = Inl (MembersLimitExceeded, mx)"
    by (simp add: GetNewMultiXactId_def full_state_def MultiXactShmemInit_def FirstMultiXactId_def MultiXactIdPrecedes_def
        MultiXactOffsetWouldWrap_def Let_def)
  then obtain mx where refused: "GetNewMultiXactId False True (\<lambda>mx. mx) 2 full_state = Inl (MembersLimitExceeded, mx)" by blast
  have "nextMXact full_state = 0" "read_offset MaxMultiXactId (mx_offsets full_state) = Inr 50"
    by (simp_all add: full_state_def read_offset_def MultiXactIdToOffsetPage_def MultiXactIdToOffsetEntry_def MaxMultiXactId_def mx_consts)
  from multixact_refusal_blocks_reader [OF this(1) refused this(2)] refused show ?thesis by blast
qed

end
