(* ===== verification/VisibilityCluster.thy ===== *)
theory VisibilityCluster
  imports VisibilitySelf ClusterProps MultiXactProps
begin

text \<open>
  The visibility tests in a cluster of backends: the lookups of the transaction system and the multixact
  logs satisfy the interfaces of the tests, so what the tests decide is stated in terms of the history of
  the cluster.
\<close>

section \<open>Reading multixacts\<close>

definition members_at :: "MultiXactId \<Rightarrow> MxEntry list \<Rightarrow> MultiXactId \<Rightarrow> MultiXactMember list" where
  "members_at b es m = (case find (\<lambda>k. mx_id b k = m) [0..<length es] of None \<Rightarrow> [] | Some k \<Rightarrow> me_members (es ! k))"

text \<open>The multixact is written, and so is its successor, from whose offset its length is read.\<close>

definition readable :: "MultiXactId \<Rightarrow> MxEntry list \<Rightarrow> MultiXactId \<Rightarrow> bool" where
  "readable b es m \<longleftrightarrow> (\<exists>k<length es. m = mx_id b k \<and> me_written (es ! k) \<and> (Suc k < length es \<longrightarrow> me_written (es ! Suc k)))"

definition multi_ok :: "MultiXactId \<Rightarrow> nat \<Rightarrow> MxEntry list \<Rightarrow> mxcache \<Rightarrow> MultiXactState \<Rightarrow> bool" where
  "multi_ok b q es cache mx \<longleftrightarrow> mx_repr b q es mx \<and> (\<forall>e\<in>set es. sorted (me_members e)) \<and>
     (\<forall>(m, ms)\<in>set cache. \<exists>k<length es. m = mx_id b k \<and> ms = me_members (es ! k))"

lemma members_at_id:
  assumes "mx_repr b q es mx" "k < length es"
  shows "members_at b es (mx_id b k) = me_members (es ! k)"
proof -
  have inj: "mx_id b j = mx_id b k \<longleftrightarrow> j = k" if "j < length es" for j
    using mx_id_inj [of j k b] mx_reprD(1,7) [OF assms(1)] that assms(2) by (auto simp: limits_ok_def)
  have "find (\<lambda>j. mx_id b j = mx_id b k) [0..<length es] = Some k"
    using inj assms(2) by (subst find_Some_iff) (intro exI [of _ k], auto)
  then show ?thesis by (simp add: members_at_def)
qed

lemma visible_repr: "mx_repr b q es (MultiXactIdSetOldestVisible my mx) = mx_repr b q es mx"
  by (simp add: mx_repr_def limits_ok_def MultiXactIdSetOldestVisible_def Let_def)

lemma cache_put_subset: "set (mXactCachePut m ms cache) \<subseteq> insert (m, sort ms) (set cache)"
  by (auto simp: mXactCachePut_def Let_def dest: in_set_butlastD)

lemma multi_read:
  assumes ok: "multi_ok b q es cache mx" and m: "readable b es m"
  shows "\<exists>r cache' mx'. GetMultiXactIdMembers my m False lo cache mx = Some (Inr (r, cache', mx')) \<and>
    (r = Some (members_at b es m) \<or> lo \<and> r = None) \<and> multi_ok b q es cache' mx'"
proof -
  have repr: "mx_repr b q es mx" using ok by (simp add: multi_ok_def)
  obtain k where k: "k < length es" "m = mx_id b k" "me_written (es ! k)" "Suc k < length es \<longrightarrow> me_written (es ! Suc k)"
    using m by (auto simp: readable_def)
  have mem: "members_at b es m = me_members (es ! k)" using members_at_id [OF repr k(1)] k(2) by simp
  have valid: "MultiXactIdIsValid m"
    using mx_id_valid [of b k] mx_reprD(1,7) [OF repr] k(1,2) by (auto simp: MultiXactIdIsValid_def InvalidMultiXactId_def limits_ok_def)
  show ?thesis
  proof (cases "find (\<lambda>(m', ms). m' = m) cache")
    case (Some entry)
    then have e: "entry \<in> set cache" "fst entry = m" by (auto simp: find_Some_iff in_set_conv_nth)
    then have "snd entry = members_at b es m" using ok members_at_id [OF repr] by (cases entry) (auto simp: multi_ok_def)
    moreover have "multi_ok b q es (entry # remove1 entry cache) mx"
      using ok e(1) set_remove1_subset [of entry cache] by (auto simp: multi_ok_def)
    ultimately show ?thesis using Some valid by (auto simp: GetMultiXactIdMembers_def mXactCacheGetById_def)
  next
    case None
    then have miss: "mXactCacheGetById m cache = (None, cache)" by (simp add: mXactCacheGetById_def)
    let ?mx = "MultiXactIdSetOldestVisible my mx" and ?ms = "me_members (es ! k)"
    have get: "GetMultiXactIdMembers my m False False cache mx = Some (Inr (Some ?ms, mXactCachePut m ?ms cache, ?mx))"
      using GetMultiXactIdMembers_log [OF repr k(1,3), of cache my] miss k(2,4) by auto
    have "sort ?ms = ?ms" using ok k(1) by (simp add: multi_ok_def sorted_sort_id)
    then have put: "multi_ok b q es (mXactCachePut m ?ms cache) ?mx"
      unfolding multi_ok_def visible_repr
    proof (intro conjI ballI)
      show "mx_repr b q es mx" "\<And>e. e \<in> set es \<Longrightarrow> sorted (me_members e)" using ok by (simp_all add: multi_ok_def)
      fix e assume "e \<in> set (mXactCachePut m ?ms cache)"
      then have "e = (m, ?ms) \<or> e \<in> set cache" using cache_put_subset [of m ?ms cache] \<open>sort ?ms = ?ms\<close> by auto
      then show "case e of (m, ms) \<Rightarrow> \<exists>k<length es. m = mx_id b k \<and> ms = me_members (es ! k)" using ok k(1,2) by (auto simp: multi_ok_def)
    qed
    have keep: "multi_ok b q es cache ?mx" using ok by (simp add: multi_ok_def visible_repr)
    show ?thesis
    proof (cases "lo \<and> MultiXactIdPrecedes m (OldestVisibleMXactId ?mx ! my)")
      case True
      then show ?thesis using keep valid miss by (simp add: GetMultiXactIdMembers_def Let_def)
    next
      case False
      then have "GetMultiXactIdMembers my m False lo cache mx = GetMultiXactIdMembers my m False False cache mx"
        using valid miss by (cases lo) (simp_all add: GetMultiXactIdMembers_def Let_def)
      then show ?thesis using get put mem by simp
    qed
  qed
qed

section \<open>The state of a test\<close>

text \<open>A test may fill the backend's caches of lookups; nothing else of the backend changes.\<close>

definition recached :: "BackendState \<Rightarrow> BackendState \<Rightarrow> bool" where
  "recached be be' \<longleftrightarrow> (\<exists>k y. be' = be\<lparr>be_fetch_cache := k, cachedXidIsNotInProgress := y\<rparr>)"

lemma recachedI: "recached be (be\<lparr>be_fetch_cache := k, cachedXidIsNotInProgress := y\<rparr>)"
  unfolding recached_def by (rule exI, rule exI, rule refl)

lemma recached_step:
  assumes "recached be be'"
  shows "recached be (be'\<lparr>be_fetch_cache := k\<rparr>)" "recached be (be'\<lparr>be_fetch_cache := k, cachedXidIsNotInProgress := y\<rparr>)"
proof -
  obtain k' y' where be': "be' = be\<lparr>be_fetch_cache := k', cachedXidIsNotInProgress := y'\<rparr>" using assms unfolding recached_def by (elim exE)
  have "be'\<lparr>be_fetch_cache := k\<rparr> = be\<lparr>be_fetch_cache := k, cachedXidIsNotInProgress := y'\<rparr>" unfolding be' by simp
  then show "recached be (be'\<lparr>be_fetch_cache := k\<rparr>)" using recachedI by metis
  have "be'\<lparr>be_fetch_cache := k, cachedXidIsNotInProgress := y\<rparr> = be\<lparr>be_fetch_cache := k, cachedXidIsNotInProgress := y\<rparr>" unfolding be' by simp
  then show "recached be (be'\<lparr>be_fetch_cache := k, cachedXidIsNotInProgress := y\<rparr>)" using recachedI by metis
qed

lemma recachedD:
  assumes "recached be be'"
  shows "same_xact be be'" "be_TransactionXmin be' = be_TransactionXmin be" "RecentXmin be' = RecentXmin be"
proof -
  obtain k y where "be' = be\<lparr>be_fetch_cache := k, cachedXidIsNotInProgress := y\<rparr>" using assms unfolding recached_def by (elim exE)
  then show "same_xact be be'" "be_TransactionXmin be' = be_TransactionXmin be" "RecentXmin be' = RecentXmin be" by (simp_all add: same_xact_def)
qed

definition vis_state :: "FullTransactionId \<Rightarrow> Cluster \<Rightarrow> nat \<Rightarrow> VisEnv \<Rightarrow> MultiXactId \<Rightarrow> nat \<Rightarrow> MxEntry list \<Rightarrow> VisState \<Rightarrow> bool" where
  "vis_state B c i env b q es vs \<longleftrightarrow>
     cluster_inv B c \<and> i < length (cl_sessions c) \<and> se_latestXid (session c i) = None \<and> ve_shm env = cl_shm c \<and>
     recached (se_be (session c i)) (vs_be vs) \<and>
     memo_ok (XidFromFullTransactionId B) (length (cl_sessions c)) (flags c) (running (XidFromFullTransactionId B) c) i ((session c i)\<lparr>se_be := vs_be vs\<rparr>) \<and>
     multi_ok b q es (vs_cache vs) (vs_mx vs)"

text \<open>The ids a test may ask about: those that are assigned, but for those of lazy vacuum and logical decoding.\<close>

definition known_xid :: "FullTransactionId \<Rightarrow> Cluster \<Rightarrow> nat \<Rightarrow> TransactionId \<Rightarrow> bool" where
  "known_xid B c i x \<longleftrightarrow> r_assigned (XidFromFullTransactionId B) (running (XidFromFullTransactionId B) c) x \<and>
     (\<forall>j<length (cl_sessions c). j \<noteq> i \<and> flags c j \<longrightarrow> x \<notin> set (tree_of (session c j)))"

definition own_xids :: "Cluster \<Rightarrow> nat \<Rightarrow> TransactionId \<Rightarrow> bool" where
  "own_xids c i x \<longleftrightarrow> x \<in> set (tree_of (session c i))"

definition recorded_xid :: "Cluster \<Rightarrow> TransactionId \<Rightarrow> bool" where
  "recorded_xid c x \<longleftrightarrow> xid_status (shm_clog (cl_shm c)) x = TRANSACTION_STATUS_COMMITTED"

definition active_xid :: "Cluster \<Rightarrow> TransactionId \<Rightarrow> bool" where
  "active_xid c x \<longleftrightarrow> (\<exists>se\<in>set (cl_sessions c). x \<in> set (tree_of se))"

text \<open>An id that will never commit: it has ended without a commit, or its abort is on record.\<close>

definition dead_xid :: "FullTransactionId \<Rightarrow> Cluster \<Rightarrow> nat \<Rightarrow> TransactionId \<Rightarrow> bool" where
  "dead_xid B c i x \<longleftrightarrow> r_assigned (XidFromFullTransactionId B) (running (XidFromFullTransactionId B) c) x \<and> \<not> recorded_xid c x \<and>
     (\<not> active_xid c x \<or> xid_status (shm_clog (cl_shm c)) x = TRANSACTION_STATUS_ABORTED \<and> \<not> own_xids c i x)"

definition known_multi :: "(TransactionId \<Rightarrow> bool) \<Rightarrow> MultiXactId \<Rightarrow> MxEntry list \<Rightarrow> MultiXactId \<Rightarrow> bool" where
  "known_multi known b es m \<longleftrightarrow> readable b es m \<and> (\<forall>e\<in>set (members_at b es m). known (mx_xid e))"

lemma vis_state_put:
  assumes "vis_state B c i env b q es vs" "c' = put i ((session c i)\<lparr>se_be := vs_be vs\<rparr>) (cl_shm c) c"
  shows "cluster_inv B c'" "running (XidFromFullTransactionId B) c' = running (XidFromFullTransactionId B) c" "cl_shm c' = cl_shm c"
    "session c' i = (session c i)\<lparr>se_be := vs_be vs\<rparr>" "length (cl_sessions c') = length (cl_sessions c)" "flags c' = flags c"
proof -
  let ?se = "(session c i)\<lparr>se_be := vs_be vs\<rparr>" and ?b = "XidFromFullTransactionId B"
  have v: "cluster_inv B c" "i < length (cl_sessions c)" using assms(1) by (simp_all add: vis_state_def)
  have "recached (se_be (session c i)) (vs_be vs)" using assms(1) by (simp add: vis_state_def)
  note be = recachedD [OF this, unfolded same_xact_def]
  note old = cluster_invD [OF v(1) refl refl]
  have so: "session_ok (cl_shm c) i ?se" "tree_of ?se = tree_of (session c i)"
    using session_ok_cong [OF old(5) [OF v(2)], of ?se] by (simp_all add: be same_xact_def tree_of_def)
  have "xmin_ok ?b (length (cl_sessions c)) (flags c) (running ?b c) i (procArray (cl_shm c) ! i) ?se"
    by (rule xmin_ok_cong [OF old(6) [OF v(2)]]) (simp_all add: be)
  moreover have "static_ok ?b (length (cl_sessions c)) (flags c) (xactCompletionCount (cl_shm c)) (running ?b c) i ?se"
    by (rule static_ok_cong [OF old(8) [OF v(2)]]) simp
  moreover have "memo_ok ?b (length (cl_sessions c)) (flags c) (running ?b c) i ?se" using assms(1) by (simp add: vis_state_def)
  moreover have "se_latestXid ?se = se_latestXid (session c i)" by simp
  ultimately have "simulated B c c'" unfolding assms(2) by (intro local_step [OF v so(2) _ so(1)])
  then show "cluster_inv B c'" by (simp add: simulated_def)
  show "running ?b c' = running ?b c" unfolding assms(2) by (rule running_put_same [OF v(2)]) (use so(2) in simp_all)
  show "cl_shm c' = cl_shm c" "session c' i = ?se" "length (cl_sessions c') = length (cl_sessions c)" "flags c' = flags c"
    using v(2) by (simp_all add: assms(2))
qed

section \<open>The laws of the interface\<close>

lemma vis_state_keep:
  assumes "vis_state B c i env b q es vs" "recached (se_be (session c i)) be"
    and "memo_ok (XidFromFullTransactionId B) (length (cl_sessions c)) (flags c) (running (XidFromFullTransactionId B) c) i ((session c i)\<lparr>se_be := be\<rparr>)"
  shows "vis_state B c i env b q es (vs\<lparr>vs_be := be\<rparr>)"
  using assms by (simp add: vis_state_def)

lemma vis_state_lookup:
  assumes ok: "vis_state B c i env b q es vs" and x: "known_xid B c i x"
  shows "\<exists>a be. TransactionIdIsInProgress x (vs_be vs) (ve_shm env) = Some (Inr (a, be)) \<and> vis_state B c i env b q es (vs\<lparr>vs_be := be\<rparr>) \<and>
    (a \<longrightarrow> active_xid c x) \<and> (\<not> a \<longrightarrow> (if recorded_xid c x then had_committed B c x else dead_xid B c i x))"
proof -
  define w n c' where "w = XidFromFullTransactionId B" and "n = length (cl_sessions c)" and "c' = put i ((session c i)\<lparr>se_be := vs_be vs\<rparr>) (cl_shm c) c"
  let ?r = "running w c"
  note put = vis_state_put [OF ok c'_def, folded w_def n_def]
  have v: "i < n" "se_latestXid (session c i) = None" "ve_shm env = cl_shm c" "cluster_inv B c" using ok by (auto simp: vis_state_def n_def)
  have as: "r_assigned w ?r x" and hid: "\<And>j. j < n \<Longrightarrow> j \<noteq> i \<Longrightarrow> flags c j \<Longrightarrow> x \<notin> set (tree_of (session c j))"
    using x by (auto simp: known_xid_def w_def n_def)
  note logs = assigned_logs [OF v(4) w_def as]
  obtain a be where res: "TransactionIdIsInProgress x (vs_be vs) (cl_shm c) = Some (Inr (a, be))" "lookup_ok w n (flags c) ?r i (vs_be vs) x a be"
    using lookup_result [OF put(1) w_def put(5) [symmetric] v(1) logs(1) refl] put(2-6) by (auto simp: put(4))
  have live: "r_live n ?r x \<longleftrightarrow> active_xid c x" by (simp add: n_def live_sessions active_xid_def)
  have rec: "r_status ?r x = TRANSACTION_STATUS_COMMITTED \<longleftrightarrow> recorded_xid c x" using logs(5) by (simp add: recorded_xid_def)
  have "active_xid c x" if a using res(2) that as live by (simp add: lookup_ok_def)
  moreover have "if recorded_xid c x then had_committed B c x else dead_xid B c i x" if "\<not> a"
  proof -
    have g: "gone w n (flags c) ?r i x" using res(2) that by (simp add: lookup_ok_def)
    have ab: "j \<noteq> i \<and> r_status ?r x = TRANSACTION_STATUS_ABORTED" if "j < n" "x \<in> set (tree_of (session c j))" for j
    proof -
      have "\<not> r_ended ?r i" using v(2) by (simp add: running_def)
      moreover have "if j = i then r_ended ?r i else flags c j \<or> r_status ?r x = TRANSACTION_STATUS_ABORTED"
        using g that by (auto simp: gone_def n_def)
      ultimately show ?thesis using hid [OF that(1)] that(2) by (auto split: if_splits)
    qed
    show ?thesis
    proof (cases "active_xid c x")
      case True
      then obtain j where "j < n" "x \<in> set (tree_of (session c j))" 
        unfolding live [symmetric] by (auto simp: r_live_def running_def n_def split: if_splits)
      then have "r_status ?r x = TRANSACTION_STATUS_ABORTED" "\<not> own_xids c i x" using ab v(1) by (auto simp: own_xids_def)
      then show ?thesis using as rec logs(5) by (simp add: dead_xid_def w_def recorded_xid_def status_defs)
    next
      case False
      then show ?thesis using as rec live by (simp add: dead_xid_def w_def had_committed_iff r_committed_def n_def)
    qed
  qed
  moreover have "vis_state B c i env b q es (vs\<lparr>vs_be := be\<rparr>)"
  proof -
    obtain k where k: "fetch_cache_ok w ?r k" "be = (vs_be vs)\<lparr>be_fetch_cache := k\<rparr> \<or> be = (vs_be vs)\<lparr>be_fetch_cache := k, cachedXidIsNotInProgress := x\<rparr>"
      using res(2) by (auto simp: lookup_ok_def)
    have "memo_ok w n (flags c) ?r i ((session c i)\<lparr>se_be := be\<rparr>)"
      using lookup_ok_memo [of w n "flags c" ?r i "(session c i)\<lparr>se_be := vs_be vs\<rparr>" x a be] res(2) ok by (simp add: vis_state_def w_def n_def)
    moreover have "recached (se_be (session c i)) be"
      using recached_step(1) [of "se_be (session c i)" "vs_be vs" k] recached_step(2) [where k = k and y = x, of "se_be (session c i)" "vs_be vs"] k(2) ok by (auto simp: vis_state_def)
    ultimately show ?thesis using vis_state_keep [OF ok] unfolding w_def n_def by blast
  qed
  ultimately show ?thesis using res(1) v(3) by auto
qed

lemma vis_state_fetch:
  assumes "vis_state B c i env b q es vs"
  shows "fetch_cache_ok (XidFromFullTransactionId B) (running (XidFromFullTransactionId B) c) (be_fetch_cache (vs_be vs))"
    and "fetch_cache_ok (XidFromFullTransactionId B) (running (XidFromFullTransactionId B) c) k \<Longrightarrow> vis_state B c i env b q es (vs\<lparr>vs_be := (vs_be vs)\<lparr>be_fetch_cache := k\<rparr>\<rparr>)"
proof -
  show "fetch_cache_ok (XidFromFullTransactionId B) (running (XidFromFullTransactionId B) c) (be_fetch_cache (vs_be vs))"
    using assms by (simp add: vis_state_def memo_ok_alt)
  show "vis_state B c i env b q es (vs\<lparr>vs_be := (vs_be vs)\<lparr>be_fetch_cache := k\<rparr>\<rparr>)"
    if "fetch_cache_ok (XidFromFullTransactionId B) (running (XidFromFullTransactionId B) c) k"
    using assms that recached_step(1) by (intro vis_state_keep [OF assms]) (simp_all add: vis_state_def memo_ok_alt)
qed

lemma vis_state_commit:
  assumes ok: "vis_state B c i env b q es vs" and x: "known_xid B c i x"
  shows "\<exists>be. did_commit x (vs_be vs) (ve_shm env) = Some (Inr (recorded_xid c x, be)) \<and> vis_state B c i env b q es (vs\<lparr>vs_be := be\<rparr>)"
proof -
  have v: "ve_shm env = cl_shm c" "cluster_inv B c" using ok by (auto simp: vis_state_def)
  have as: "r_assigned (XidFromFullTransactionId B) (running (XidFromFullTransactionId B) c) x" using x by (simp add: known_xid_def)
  obtain s k where s: "TransactionIdDidCommit x (status_state (vs_be vs) (cl_shm c)) =
      Some (Inr (r_status (running (XidFromFullTransactionId B) c) x = TRANSACTION_STATUS_COMMITTED, s))"
    "keep_cache s (vs_be vs) = (vs_be vs)\<lparr>be_fetch_cache := k\<rparr>" "fetch_cache_ok (XidFromFullTransactionId B) (running (XidFromFullTransactionId B) c) k"
    using DidCommit_assigned [OF v(2) refl as vis_state_fetch(1) [OF ok]] by blast
  then show ?thesis using vis_state_fetch(2) [OF ok s(3)] assigned_logs(5) [OF v(2) refl as] v(1) by (simp add: did_commit_def recorded_xid_def)
qed

lemma vis_state_commit_lsn:
  assumes ok: "vis_state B c i env b q es vs" and x: "had_committed B c x"
  shows "\<exists>lsn. TransactionIdGetCommitLSN x (status_state (vs_be vs) (ve_shm env)) = Inr lsn"
proof -
  have v: "ve_shm env = cl_shm c" "cluster_inv B c" using ok by (auto simp: vis_state_def)
  have "r_assigned (XidFromFullTransactionId B) (running (XidFromFullTransactionId B) c) x" using x by (simp add: had_committed_iff r_committed_def)
  then have "log_has (shm_clog (cl_shm c)) x" using assigned_logs(4) [OF v(2) refl] by blast
  then obtain p where "shm_clog (cl_shm c) (TransactionIdToPage x) = Some p" using log_has_page by blast
  then show ?thesis using v(1) by (auto simp: TransactionIdGetCommitLSN_def TransactionIdGetStatus_def SimpleLruReadPage_def status_state_def split: sum.splits)
qed

lemma vis_state_own:
  assumes ok: "vis_state B c i env b q es vs" and x: "known_xid B c i x"
  shows "is_current (vs_be vs) x = own_xids c i x"
proof -
  define c' where "c' = put i ((session c i)\<lparr>se_be := vs_be vs\<rparr>) (cl_shm c) c"
  note put = vis_state_put [OF ok c'_def]
  have v: "i < length (cl_sessions c')" "se_latestXid (session c' i) = None" "recached (se_be (session c i)) (vs_be vs)"
    using ok put(4,5) by (auto simp: vis_state_def)
  have t: "tree_of (session c' i) = tree_of (session c i)" using recachedD(1) [OF v(3)] put(4) by (simp add: tree_of_def same_xact_def)
  note tf = tree_facts [OF put(1) v(1) refl]
  have "in_window (XidFromFullTransactionId B) x" using x by (simp add: known_xid_def r_assigned_def)
  note own = own_current [OF cluster_invD(5) [OF put(1) refl refl v(1)] tf(1) _ this]
  show ?thesis using own tf(2) v(2) t put(4) by (auto simp: own_xids_def)
qed

lemma xid_outcome:
  assumes "i < length (cl_sessions c)" "se_latestXid (session c i) = None" "cluster_inv B c"
  shows "(had_committed B c x \<longrightarrow> recorded_xid c x \<and> \<not> own_xids c i x \<and> \<not> active_xid c x) \<and>
    (dead_xid B c i x \<longrightarrow> \<not> recorded_xid c x \<and> \<not> own_xids c i x) \<and> (own_xids c i x \<longrightarrow> active_xid c x)"
proof -
  have "own_xids c i x \<longrightarrow> active_xid c x" using assms(1) by (auto simp: own_xids_def active_xid_def)
  then show ?thesis by (auto simp: had_committed_def dead_xid_def recorded_xid_def active_xid_def Let_def)
qed

lemmas vis_state_laws = vis_state_own vis_state_commit_lsn vis_state_commit vis_state_lookup

lemma vis_state_outcome:
  assumes "vis_state B c i env b q es vs"
  shows "(had_committed B c x \<longrightarrow> recorded_xid c x \<and> \<not> own_xids c i x \<and> \<not> active_xid c x) \<and>
    (dead_xid B c i x \<longrightarrow> \<not> recorded_xid c x \<and> \<not> own_xids c i x) \<and> (own_xids c i x \<longrightarrow> active_xid c x)"
  using assms by (intro xid_outcome) (simp_all add: vis_state_def)

lemma vis_state_members:
  assumes "vis_state B c i env b q es vs" "known_multi known b es m"
  shows "\<exists>r cache mx. GetMultiXactIdMembers (ve_my env) m False lo (vs_cache vs) (vs_mx vs) = Some (Inr (r, cache, mx)) \<and>
    (r = Some (members_at b es m) \<or> lo \<and> r = None) \<and> vis_state B c i env b q es (vs\<lparr>vs_cache := cache, vs_mx := mx\<rparr>)"
  using multi_read [of b q es "vs_cache vs" "vs_mx vs" m "ve_my env" lo] assms by (auto simp: vis_state_def known_multi_def)

lemma known_xid_valid: "known_xid B c i x \<Longrightarrow> TransactionIdIsValid x"
  by (auto simp: known_xid_def r_assigned_def intro: window_valid)

interpretation cluster_view: xid_view env "vis_state B c i env b q es" "known_xid B c i" "own_xids c i" "recorded_xid c" "had_committed B c" "dead_xid B c i"
  "active_xid c" "known_multi (known_xid B c i) b es" "members_at b es" for env B c i b q es
proof unfold_locales
  show "vis_state B c i env b q es vs \<Longrightarrow> vis_state B c i env b q es (vs\<lparr>vs_tuple := t, vs_dirty := d\<rparr>)" for vs t d by (simp add: vis_state_def)
  show "known_multi (known_xid B c i) b es m \<Longrightarrow> e \<in> set (members_at b es m) \<Longrightarrow> known_xid B c i (mx_xid e)" for m e by (simp add: known_multi_def)
qed (fact known_xid_valid vis_state_laws vis_state_outcome vis_state_members)+

section \<open>A snapshot that is in use\<close>

text \<open>
  The snapshot \<open>s\<close> was taken by backend \<open>i\<close> in the state \<open>c0\<close> and is used in the state \<open>c\<close>, where the backend's
  advertised horizon still protects it.
\<close>

definition snap_usable :: "FullTransactionId \<Rightarrow> Cluster \<Rightarrow> Cluster \<Rightarrow> nat \<Rightarrow> SnapshotData \<Rightarrow> bool" where
  "snap_usable B c0 c i s \<longleftrightarrow> (let w = XidFromFullTransactionId B; n = length (cl_sessions c0); xmin = be_TransactionXmin (se_be (session c i)) in
     cluster_inv B c0 \<and> length (cl_sessions c) = n \<and> evolves w n (running w c0) (running w c) \<and>
     snap_current w n (flags c0) (running w c0) i s \<and> in_window w xmin \<and> xoff w xmin \<le> xoff w (snap_xmin s))"

text \<open>
  Ids of the backend's own transaction at that time are still its own or have been rolled back.
\<close>

definition known_since :: "FullTransactionId \<Rightarrow> Cluster \<Rightarrow> Cluster \<Rightarrow> nat \<Rightarrow> TransactionId \<Rightarrow> bool" where
  "known_since B c0 c i x \<longleftrightarrow> known_xid B c i x \<and>
     (unsnapped c0 i x \<longrightarrow> own_xids c i x \<or> xid_status (shm_clog (cl_shm c)) x = TRANSACTION_STATUS_ABORTED)"

lemma snapshot_law:
  assumes ok: "vis_state B c i env b q es vs" and s: "snap_usable B c0 c i s" and x: "known_since B c0 c i x" "\<not> own_xids c i x"
  shows "\<exists>a. XidInMVCCSnapshot (be_TransactionXmin (vs_be vs)) (shm_subtrans (ve_shm env)) x s = Some (Inr a) \<and>
    (a \<longrightarrow> \<not> had_committed B c0 x) \<and> (\<not> a \<longrightarrow> (if recorded_xid c x then had_committed B c0 x else dead_xid B c i x))"
proof -
  define w n where "w = XidFromFullTransactionId B" and "n = length (cl_sessions c0)"
  have v: "ve_shm env = cl_shm c" "cluster_inv B c" "be_TransactionXmin (vs_be vs) = be_TransactionXmin (se_be (session c i))"
    using ok recachedD(2) [of "se_be (session c i)" "vs_be vs"] by (auto simp: vis_state_def)
  let ?xm = "be_TransactionXmin (se_be (session c i))"
  have u: "cluster_inv B c0" "length (cl_sessions c) = n" "evolves w n (running w c0) (running w c)" "snap_current w n (flags c0) (running w c0) i s"
    "in_window w ?xm" "xoff w ?xm \<le> xoff w (snap_xmin s)" using s by (auto simp: snap_usable_def Let_def w_def n_def)
  have as: "r_assigned w (running w c) x" and win: "in_window w x" using x(1) by (auto simp: known_since_def known_xid_def w_def r_assigned_def)
  show ?thesis
  proof (cases "unsnapped c0 i x")
    case False
    obtain a where a: "XidInMVCCSnapshot ?xm (shm_subtrans (cl_shm c)) x s = Some (Inr a)"
      "\<not> a \<and> recorded_xid c x \<longleftrightarrow> had_committed B c0 x" "\<not> a \<longrightarrow> r_assigned w (running w c0) x \<and> \<not> r_live n (running w c0) x"
      using snapshot_decides [OF u(1) v(2) w_def n_def u(3-6) win False] by (auto simp: recorded_xid_def)
    have "\<not> active_xid c x" if "\<not> a"
      using evolvesD(3) [OF u(3)] a(3) that u(2) live_sessions [of c w x] by (auto simp: active_xid_def)
    then show ?thesis using a as v by (auto simp: dead_xid_def w_def)
  next
    case True
    then have ab: "xid_status (shm_clog (cl_shm c)) x = TRANSACTION_STATUS_ABORTED" using x by (simp add: known_since_def)
    have "\<not> had_committed B c0 x" using True by (auto simp: unsnapped_def had_committed_def Let_def)
    moreover have "in_window w (snap_xmin s)" "in_window w (snap_xmax s)" "\<not> snap_takenDuringRecovery s"
      using u(4) advance_latest(1) [OF cluster_invD(3,4) [OF u(1) w_def n_def]] by (auto simp: snap_current_def snap_holds_def)
    then have "\<exists>a. XidInMVCCSnapshot ?xm (shm_subtrans (cl_shm c)) x s = Some (Inr a)"
      using snapshot_between [OF win, of s ?xm "shm_subtrans (cl_shm c)"] walk_assigned [OF v(2) w_def as, of ?xm] by (auto split: if_splits)
    ultimately show ?thesis using ab x(2) as v by (auto simp: dead_xid_def recorded_xid_def w_def status_defs)
  qed
qed

lemma past_final_law:
  assumes "snap_usable B c0 c i s" "had_committed B c0 x"
  shows "had_committed B c x"
proof -
  define w n where "w = XidFromFullTransactionId B" and "n = length (cl_sessions c0)"
  have "evolves w n (running w c0) (running w c)" "length (cl_sessions c) = n" using assms(1) by (auto simp: snap_usable_def Let_def w_def n_def)
  then show ?thesis using assms(2) evolvesD [of w n "running w c0" "running w c" x] unfolding had_committed_iff w_def [symmetric] n_def [symmetric]
    by (auto simp: r_committed_def)
qed

interpretation cluster_snapshot: snapshot_view env "\<lambda>vs. vis_state B c i env b q es vs \<and> snap_usable B c0 c i s" "known_since B c0 c i" "own_xids c i"
  "recorded_xid c" "had_committed B c" "dead_xid B c i" "active_xid c" "known_multi (known_since B c0 c i) b es" "members_at b es" s "had_committed B c0"
  for env B c i b q es c0 s
proof unfold_locales
  have k: "known_since B c0 c i x \<Longrightarrow> known_xid B c i x" for x by (simp add: known_since_def)
  fix vs x
  show "known_since B c0 c i x \<Longrightarrow> TransactionIdIsValid x" using known_xid_valid k by blast
  assume "vis_state B c i env b q es vs \<and> snap_usable B c0 c i s"
  then have ok: "vis_state B c i env b q es vs" "snap_usable B c0 c i s" by simp_all
  show "vis_state B c i env b q es (vs\<lparr>vs_tuple := t, vs_dirty := d\<rparr>) \<and> snap_usable B c0 c i s" for t d using ok by (simp add: vis_state_def)
  show "had_committed B c x \<Longrightarrow> \<exists>lsn. TransactionIdGetCommitLSN x (status_state (vs_be vs) (ve_shm env)) = Inr lsn" using vis_state_commit_lsn [OF ok(1)] .
  show "(had_committed B c x \<longrightarrow> recorded_xid c x \<and> \<not> own_xids c i x \<and> \<not> active_xid c x) \<and>
    (dead_xid B c i x \<longrightarrow> \<not> recorded_xid c x \<and> \<not> own_xids c i x) \<and> (own_xids c i x \<longrightarrow> active_xid c x)" using vis_state_outcome [OF ok(1)] .
  show "\<exists>r cache mx. GetMultiXactIdMembers (ve_my env) m False lo (vs_cache vs) (vs_mx vs) = Some (Inr (r, cache, mx)) \<and>
    (r = Some (members_at b es m) \<or> lo \<and> r = None) \<and> vis_state B c i env b q es (vs\<lparr>vs_cache := cache, vs_mx := mx\<rparr>) \<and> snap_usable B c0 c i s"
    if "known_multi (known_since B c0 c i) b es m" for m lo using vis_state_members [OF ok(1) that] ok(2) by simp
  show "had_committed B c0 x \<Longrightarrow> had_committed B c x" using past_final_law [OF ok(2)] .
  assume x: "known_since B c0 c i x"
  show "is_current (vs_be vs) x = own_xids c i x" using vis_state_own [OF ok(1) k [OF x]] .
  show "\<exists>be. did_commit x (vs_be vs) (ve_shm env) = Some (Inr (recorded_xid c x, be)) \<and> vis_state B c i env b q es (vs\<lparr>vs_be := be\<rparr>) \<and> snap_usable B c0 c i s"
    using vis_state_commit [OF ok(1) k [OF x]] ok(2) by simp
  show "\<exists>a be. TransactionIdIsInProgress x (vs_be vs) (ve_shm env) = Some (Inr (a, be)) \<and>
      (vis_state B c i env b q es (vs\<lparr>vs_be := be\<rparr>) \<and> snap_usable B c0 c i s) \<and> (a \<longrightarrow> active_xid c x) \<and>
      (\<not> a \<longrightarrow> (if recorded_xid c x then had_committed B c x else dead_xid B c i x))"
    using vis_state_lookup [OF ok(1) k [OF x]] ok(2) by simp
  show "\<exists>a. XidInMVCCSnapshot (be_TransactionXmin (vs_be vs)) (shm_subtrans (ve_shm env)) x s = Some (Inr a) \<and>
      (a \<longrightarrow> \<not> had_committed B c0 x) \<and> (\<not> a \<longrightarrow> (if recorded_xid c x then had_committed B c0 x else dead_xid B c i x))" if "\<not> own_xids c i x"
    using snapshot_law [OF ok x that] .
qed (simp add: known_multi_def)

end
