(* ===== verification/VisibilityProps.thy ===== *)
theory VisibilityProps
  imports VisibilityCluster
begin

text \<open>
  What the visibility tests promise in a running cluster: a snapshot sees exactly what had committed when it
  was taken, vacuum calls only those tuples dead that no snapshot can see, an update never overlooks a
  committed one, and all tests return.
\<close>

section \<open>From runs to usable snapshots\<close>

lemma snap_current_copy:
  assumes "snap_current b n F r i s"
  shows "snap_current b n F r i (CopySnapshot s)"
proof -
  have "snap_xmin (CopySnapshot s) = snap_xmin s" "snap_xmax (CopySnapshot s) = snap_xmax s" "set (snap_xip (CopySnapshot s)) = set (snap_xip s)"
    "snap_suboverflowed (CopySnapshot s) = snap_suboverflowed s" "\<not> snap_takenDuringRecovery (CopySnapshot s)"
    "set (snap_subxip (CopySnapshot s)) = (if snap_suboverflowed s then {} else set (snap_subxip s))"
    using assms by (auto simp: CopySnapshot_def snap_current_def)
  then show ?thesis using assms by (auto simp: snap_current_def snap_holds_def covers_def)
qed

lemma usable_run:
  assumes inv: "cluster_inv B c0" "normal_mode mode" and i: "i < length (cl_sessions c0)" and s: "take_snapshot i c0 = (s, c1)"
    and run: "(cluster_step mode (XidFromFullTransactionId B))\<^sup>*\<^sup>* c1 c" and held: "s \<in> set (se_held (session c i))"
  shows "snap_usable B c0 c i s"
proof -
  obtain snap where t: "snap_current (XidFromFullTransactionId B) (length (cl_sessions c0)) (flags c0) (running (XidFromFullTransactionId B) c0) i snap"
    "s = CopySnapshot snap" "simulated B c0 c1" "running (XidFromFullTransactionId B) c1 = running (XidFromFullTransactionId B) c0"
    by (rule take_snapshot_result [OF inv(1) refl refl i s])
  have c1: "cluster_inv B c1" "length (cl_sessions c1) = length (cl_sessions c0)" using t(3) by (simp_all add: simulated_def)
  note c = simulatedD [OF cluster_run [OF run c1(1) inv(2)] c1(1) refl refl]
  have "i < length (cl_sessions c)" using i c(2) c1(2) by simp
  from held_xmin [OF c(1) refl this held] show ?thesis
    using inv(1) c(2,3) c1(2) t(4) snap_current_copy [OF t(1)] t(2) by (simp add: snap_usable_def Let_def)
qed

lemma vis_state_start:
  assumes "cluster_inv B c" "i < length (cl_sessions c)" "se_latestXid (session c i) = None" "ve_shm env = cl_shm c"
    and "vs_be vs = se_be (session c i)" "multi_ok b q es (vs_cache vs) (vs_mx vs)"
  shows "vis_state B c i env b q es vs"
proof -
  have "recached be be" for be using recachedI [where k = "be_fetch_cache be" and y = "cachedXidIsNotInProgress be", of be] by simp
  moreover have "(session c i)\<lparr>se_be := se_be (session c i)\<rparr> = session c i" by simp
  ultimately show ?thesis using assms cluster_invD(7) [OF assms(1) refl refl assms(2)] by (simp add: vis_state_def)
qed

section \<open>What is over stays over\<close>

lemma run_step_aborted:
  "run_step b n r r' \<Longrightarrow> run_inv b n r \<Longrightarrow> r_assigned b r x \<Longrightarrow> r_status r x = TRANSACTION_STATUS_ABORTED \<Longrightarrow> r_status r' x = TRANSACTION_STATUS_ABORTED"
proof (induction rule: run_step.induct)
  case (run_assign i r q)
  then show ?case by (auto simp: r_assigned_def)
next
  case (run_record i r st)
  then show ?case using run_inv_tree [of b n r i] by (auto simp: tree_inv_def status_defs)
qed simp_all

lemma run_steps_aborted:
  "(run_step b n)\<^sup>*\<^sup>* r r' \<Longrightarrow> run_inv b n r \<Longrightarrow> r_assigned b r x \<Longrightarrow> r_status r x = TRANSACTION_STATUS_ABORTED \<Longrightarrow> r_status r' x = TRANSACTION_STATUS_ABORTED"
proof (induction rule: rtranclp_induct)
  case (step y z)
  then show ?case using run_steps_inv [OF step(1,4)] run_step_aborted [OF step(2)] evolvesD(1) [OF run_steps_evolves [OF step(1,4)]] by blast
qed

lemma dead_later:
  assumes inv: "cluster_inv B c" and sim: "simulated B c c'" and x: "dead_xid B c i x" and j: "j < length (cl_sessions c')" "se_latestXid (session c' j) = None"
  shows "dead_xid B c' j x"
proof -
  define w n where "w = XidFromFullTransactionId B" and "n = length (cl_sessions c)"
  have as: "r_assigned w (running w c) x" using x by (simp add: dead_xid_def w_def)
  note c' = simulatedD [OF sim inv w_def n_def]
  note as' = evolvesD(1) [OF c'(3) as]
  have st: "r_status (running w c) x = xid_status (shm_clog (cl_shm c)) x" "r_status (running w c') x = xid_status (shm_clog (cl_shm c')) x"
    using assigned_logs(5) [OF inv w_def as] assigned_logs(5) [OF c'(1) w_def as'] by simp_all
  have live: "r_live n (running w c) x \<longleftrightarrow> active_xid c x" "r_live n (running w c') x \<longleftrightarrow> active_xid c' x"
    using live_sessions [of c w x] live_sessions [of c' w x] c'(2) by (simp_all add: active_xid_def n_def)
  have "(\<not> active_xid c' x \<or> xid_status (shm_clog (cl_shm c')) x = TRANSACTION_STATUS_ABORTED) \<and> \<not> recorded_xid c' x"
  proof (cases "active_xid c x")
    case False
    then show ?thesis using evolvesD(3,4) [OF c'(3) as] live st x by (auto simp: dead_xid_def recorded_xid_def)
  next
    case True
    then have "r_status (running w c) x = TRANSACTION_STATUS_ABORTED" using x st by (simp add: dead_xid_def)
    then have "r_status (running w c') x = TRANSACTION_STATUS_ABORTED"
      using run_steps_aborted [of w n "running w c" "running w c'" x] sim as cluster_invD(3) [OF inv w_def n_def] by (simp add: simulated_def w_def n_def)
    then show ?thesis using st by (simp add: recorded_xid_def status_defs)
  qed
  moreover have "xid_status (shm_clog (cl_shm c')) x = TRANSACTION_STATUS_IN_PROGRESS" if "own_xids c' j x"
    using tree_facts(5) [OF c'(1) j(1) w_def] that j(2) by (simp add: own_xids_def)
  ultimately show ?thesis using as' by (auto simp: dead_xid_def w_def status_defs)
qed

section \<open>A dead tuple and its readers\<close>

lemma tuple_ok_deleter: "tuple_ok known multi_known own final dead updater t \<Longrightarrow> deleter updater t = Some x \<Longrightarrow> known x"
  by (auto simp: tuple_ok_def deleter_def Let_def split: if_splits)

lemma take_snapshot_run:
  assumes "cluster_inv B c0" "normal_mode mode" "i < length (cl_sessions c0)" "take_snapshot i c0 = (s, c1)"
    and "(cluster_step mode (XidFromFullTransactionId B))\<^sup>*\<^sup>* c1 c"
  shows "simulated B c0 c"
proof -
  have "simulated B c0 c1" by (rule take_snapshot_result [OF assms(1) refl refl assms(3,4)])
  moreover from this have "simulated B c1 c" using cluster_run [OF assms(5) _ assms(2)] by (simp add: simulated_def)
  ultimately show ?thesis by (rule simulated_trans)
qed

text \<open>
  A tuple that never came to be, or whose deletion every snapshot in question regards as committed, is
  invisible.
\<close>

lemma never_came_unseen:
  assumes ok: "vis_state B c2 j env b q es ws" and use: "snap_usable B c0 c2 j s"
    and t: "HeapTupleHeaderXminInvalid t \<or> \<not> HeapTupleHeaderXminFrozen t \<and> dead_xid B c2 j (t_xmin t)"
  shows "\<not> visible (had_committed B c0) (own_xids c2 j) updater combo curcid t"
  using t vis_state_outcome [OF ok, of "t_xmin t"] past_final_law [OF use, of "t_xmin t"] by (auto simp: visible_def inserted_def)

lemma deleted_unseen:
  assumes ok: "vis_state B c2 j env b q es ws" and use: "snap_usable B c0 c2 j s"
    and t: "deleter updater t = Some x" "had_committed B c0 x"
  shows "\<not> visible (had_committed B c0) (own_xids c2 j) updater combo curcid t"
  using t vis_state_outcome [OF ok, of x] past_final_law [OF use t(2)] by (auto simp: visible_def removed_def)

lemma committed_for_snapshot:
  assumes inv: "cluster_inv B c" and h: "GetOldestNonRemovableTransactionId kind be (cl_shm c) = (h, be')" and x: "had_committed B c x" "TransactionIdPrecedes x h"
    and j: "j < length (cl_sessions c)" "considered be kind (procArray (cl_shm c) ! j)" "s \<in> set (se_held (session c j))"
    and ok: "vis_state B c j env b q es ws" and use: "snap_usable B c0 c j s" and known: "known_since B c0 c j x"
  shows "had_committed B c0 x"
proof -
  have out: "recorded_xid c x" "\<not> own_xids c j x" using vis_state_outcome [OF ok, of x] x(1) by blast+
  have "XidInMVCCSnapshot xm st x s = Some (Inr False)" for xm st
    using held_before_horizon [OF inv refl h j _ x(2)] x(1) by (simp add: had_committed_def Let_def)
  then show ?thesis using snapshot_law [OF ok use known out(2)] out(1) by auto
qed

lemma vacuum_dead_cases:
  assumes ok: "vis_state B c i env b q es vs"
    and good: "tuple_ok (known_xid B c i) (known_multi (known_xid B c i) b es) (own_xids c i) (had_committed B c) (dead_xid B c i) (updater_of (members_at b es)) (vs_tuple vs)"
    and dead: "HeapTupleSatisfiesVacuum env h vs = Some (Inr (HEAPTUPLE_DEAD, vs'))"
  shows "(HeapTupleHeaderXminInvalid (vs_tuple vs) \<or> \<not> HeapTupleHeaderXminFrozen (vs_tuple vs) \<and> dead_xid B c i (t_xmin (vs_tuple vs))) \<or>
    (\<exists>x. deleter (updater_of (members_at b es)) (vs_tuple vs) = Some x \<and> had_committed B c x \<and> TransactionIdPrecedes x h)"
proof -
  obtain res x vs1 where r: "HeapTupleSatisfiesVacuumHorizon env vs = Some (Inr ((res, x), vs1))"
    "vacuum_verdict (had_committed B c) (dead_xid B c i) (active_xid c) (updater_of (members_at b es)) (vs_tuple vs) (res, x)"
    using cluster_view.vacuum_correct [OF ok good] by (auto simp: vpost_def)
  have "res = HEAPTUPLE_DEAD \<or> res = HEAPTUPLE_RECENTLY_DEAD \<and> TransactionIdPrecedes x h"
    using dead r(1) by (auto simp: HeapTupleSatisfiesVacuum_def vbind_def vret_def split: if_splits)
  then show ?thesis using r(2) by (auto simp: vacuum_verdict_def)
qed

section \<open>The dispatch on the snapshot type\<close>

definition test_answer ::
    "(TransactionId \<Rightarrow> bool) \<Rightarrow> (TransactionId \<Rightarrow> bool) \<Rightarrow> (TransactionId \<Rightarrow> bool) \<Rightarrow> (TransactionId \<Rightarrow> bool) \<Rightarrow> (MultiXactId \<Rightarrow> TransactionId) \<Rightarrow> ComboCidState \<Rightarrow>
     HeapTupleHeaderData \<Rightarrow> Snapshot \<Rightarrow> bool \<times> Snapshot \<Rightarrow> bool" where
  "test_answer past final active own updater combo t S r \<longleftrightarrow>
     (case snapshot_type S of
        SNAPSHOT_MVCC \<Rightarrow> r = (visible past own updater combo (snap_curcid (snap_data S)) t, S)
      | SNAPSHOT_SELF \<Rightarrow> r = (seen_now final own updater t, S)
      | SNAPSHOT_DIRTY \<Rightarrow> (\<exists>d. dirty_verdict final active own updater t d \<and>
          r = (d_visible d, S\<lparr>snap_data := (snap_data S)\<lparr>snap_xmin := d_xmin d, snap_xmax := d_xmax d\<rparr>, snap_speculativeToken := d_speculativeToken d\<rparr>))
      | SNAPSHOT_ANY \<Rightarrow> r = (True, S)
      | _ \<Rightarrow> snd r = S)"

lemma vis_case_toast:
  assumes "\<not> has (t_infomask (vs_tuple vs)) HEAP_MOVED_OFF" "\<not> has (t_infomask (vs_tuple vs)) HEAP_MOVED_IN"
  shows "\<exists>r. HeapTupleSatisfiesToast env vs = Some (Inr (r, vs))"
  using assms by (auto simp: HeapTupleSatisfiesToast_def header_def vret_def)

section \<open>Tuples in a small cluster\<close>

text \<open>A row inserted by transaction 4, and the same row deleted by it.\<close>

definition example_tuple :: HeapTupleHeaderData where
  "example_tuple = \<lparr>t_xmin = 4, t_xmax = 0, t_field3 = 0, t_ctid = \<lparr>ip_blkid = 0, ip_posid = 1\<rparr>, t_infomask2 = 1, t_infomask = HEAP_XMAX_INVALID\<rparr>"

definition example_deleted :: HeapTupleHeaderData where
  "example_deleted = \<lparr>t_xmin = 4, t_xmax = 4, t_field3 = 0, t_ctid = \<lparr>ip_blkid = 0, ip_posid = 1\<rparr>, t_infomask2 = 1, t_infomask = 0\<rparr>"

definition example_env :: VisEnv where
  "example_env = \<lparr>ve_shm = cl_shm example_snapped, ve_my = 1, ve_combo = no_combos, ve_flush_local = 0, ve_flush = 0, ve_permanent = False, ve_page_lsn = 0,
     ve_self = \<lparr>ip_blkid = 0, ip_posid = 1\<rparr>\<rparr>"

definition example_test :: "MultiXactState \<Rightarrow> HeapTupleHeaderData \<Rightarrow> VisState" where
  "example_test mx t = \<lparr>vs_be = se_be (session example_snapped 0), vs_cache = [], vs_mx = mx, vs_tuple = t, vs_dirty = False\<rparr>"

lemma example_vis_state: "\<exists>mx. \<forall>t. vis_state example_base example_snapped 0 example_env 1 0 [] (example_test mx t)"
proof -
  obtain mx where "mx_world 1 0 [] \<lparr>mw_state = mx, mw_flights = []\<rparr>" using fresh_world [of 400000000 1] by auto
  then have "multi_ok 1 0 [] [] mx" by (simp add: mx_world_def multi_ok_def)
  moreover have "se_latestXid (session example_snapped 0) = None" by (simp add: example_snapped_eq put_def example_cluster_def example_session_def)
  ultimately show ?thesis using example_snapped_inv
    by (intro exI [of _ mx] allI vis_state_start) (simp_all add: example_env_def example_test_def del: example_snapped_simps(3))
qed

lemma example_xid:
  "had_committed example_base example_snapped 4" "\<not> own_xids example_snapped 0 4" "\<not> active_xid example_snapped 4" "\<not> dead_xid example_base example_snapped 0 4"
  "known_xid example_base example_snapped 0 4" "known_since example_base example_cluster example_snapped 0 4"
proof -
  show com: "had_committed example_base example_snapped 4" by (rule example_snapped_committed)
  have "se_latestXid (session example_snapped 0) = None" by (simp add: example_snapped_eq put_def example_cluster_def example_session_def)
  from xid_outcome [OF _ this example_snapped_inv, of 4] com
  show act: "\<not> own_xids example_snapped 0 4" "\<not> active_xid example_snapped 4" "\<not> dead_xid example_base example_snapped 0 4" by auto
  have "r_assigned (XidFromFullTransactionId example_base) (running (XidFromFullTransactionId example_base) example_snapped) 4"
    using com by (simp only: had_committed_iff r_committed_def)
  then show "known_xid example_base example_snapped 0 4" using act(2) by (auto simp: known_xid_def active_xid_def)
  then show "known_since example_base example_cluster example_snapped 0 4" by (simp add: known_since_def)
qed

lemma example_tuples:
  assumes "known 4" "final 4" "\<not> own 4" "\<not> dead 4"
  shows "tuple_ok known multi_known own final dead updater example_tuple" "tuple_ok known multi_known own final dead updater example_deleted"
    "deleter updater example_tuple = None" "deleter updater example_deleted = Some 4"
    "inserted final own combo curcid example_tuple" "inserted final own combo curcid example_deleted"
  using assms by (simp_all add: tuple_ok_def hints_true_def Let_def example_tuple_def example_deleted_def inserted_def deleter_def
      HEAP_XMAX_IS_LOCKED_ONLY_def HeapTupleHeaderXminInvalid_def HeapTupleHeaderXminFrozen_def has_def heap_bits)

lemmas example_good = example_tuples [of "known_xid example_base example_snapped 0" "had_committed example_base example_snapped" "own_xids example_snapped 0"
    "dead_xid example_base example_snapped 0", OF example_xid(5,1,2,4)]

lemmas example_good_since = example_tuples(1,2) [of "known_since example_base example_cluster example_snapped 0" "had_committed example_base example_snapped" "own_xids example_snapped 0"
    "dead_xid example_base example_snapped 0", OF example_xid(6,1,2,4)]

section \<open>Properties\<close>

text \<open>C3:
  The test of a snapshot.  A backend takes the snapshot \<open>s\<close> in the state \<open>c0\<close>; whatever all backends do until the
  state \<open>c\<close>, as long as the snapshot is held, \<^verbatim>\<open>HeapTupleSatisfiesMVCC\<close> returns without an error and says yes
  exactly if the tuple was inserted, and not deleted, by transactions that had committed in \<open>c0\<close> or by earlier
  commands of the own transaction.  The hint bits it sets are true and change the meaning of the tuple for
  no observer.
\<close>

theorem mvcc_visibility_correct:
  assumes "cluster_inv B c0" "normal_mode mode" "i < length (cl_sessions c0)" "take_snapshot i c0 = (s, c1)"
    and "(cluster_step mode (XidFromFullTransactionId B))\<^sup>*\<^sup>* c1 c" "s \<in> set (se_held (session c i))"
    and "vis_state B c i env b q es vs"
    and "tuple_ok (known_since B c0 c i) (known_multi (known_since B c0 c i) b es) (own_xids c i) (had_committed B c) (dead_xid B c i) (updater_of (members_at b es)) (vs_tuple vs)"
  shows "\<exists>vs'. HeapTupleSatisfiesMVCC env s vs =
      Some (Inr (visible (had_committed B c0) (own_xids c i) (updater_of (members_at b es)) (ve_combo env) (snap_curcid s) (vs_tuple vs), vs')) \<and>
    vis_state B c i env b q es vs' \<and> rehinted (had_committed B c) (dead_xid B c i) (updater_of (members_at b es)) (vs_tuple vs) (vs_tuple vs')"
  using cluster_snapshot.mvcc_correct [OF conjI [OF assms(7) usable_run [OF assms(1-6)]] assms(8)] by (auto simp: vpost_def)

theorem mvcc_visibility_correct_witness:
  "\<exists>mx vs'. HeapTupleSatisfiesMVCC example_env example_snap (example_test mx example_tuple) = Some (Inr (True, vs'))"
proof -
  obtain mx where mx: "vis_state example_base example_snapped 0 example_env 1 0 [] (example_test mx example_tuple)" using example_vis_state by blast
  have held: "example_snap \<in> set (se_held (session example_snapped 0))" by (simp add: example_snapped_eq put_def example_cluster_def)
  have t: "vs_tuple (example_test mx example_tuple) = example_tuple" by (simp add: example_test_def)
  have "visible (had_committed example_base example_cluster) (own_xids example_snapped 0) (updater_of (members_at 1 [])) (ve_combo example_env) (snap_curcid example_snap) example_tuple"
    using example_tuples(3,5) [of "had_committed example_base example_cluster" "had_committed example_base example_cluster" "own_xids example_snapped 0" "\<lambda>x. False"]
      example_had_committed example_xid(2) by (simp add: visible_def removed_def)
  then show ?thesis
    using mvcc_visibility_correct [OF example_inv example_normal _ example_snapshot rtranclp.rtrancl_refl held mx] example_good_since(1) by (auto simp: t)
qed

text \<open>C4:
  What vacuum may remove.  If \<^verbatim>\<open>HeapTupleSatisfiesVacuum\<close> says \<open>HEAPTUPLE_DEAD\<close> with the horizon of
  \<^verbatim>\<open>GetOldestNonRemovableTransactionId\<close>, then no snapshot sees the tuple: neither one that a backend the
  horizon takes into account holds at that moment, whenever it was taken, nor one taken at any later time;
  \<^verbatim>\<open>HeapTupleSatisfiesMVCC\<close> returns false.
\<close>

theorem vacuum_dead_never_seen:
  assumes "cluster_inv B c" "normal_mode mode" "GetOldestNonRemovableTransactionId kind be (cl_shm c) = (h, be')"
    and "vis_state B c i env b q es vs"
    and "tuple_ok (known_xid B c i) (known_multi (known_xid B c i) b es) (own_xids c i) (had_committed B c) (dead_xid B c i) (updater_of (members_at b es)) (vs_tuple vs)"
    and "HeapTupleSatisfiesVacuum env h vs = Some (Inr (HEAPTUPLE_DEAD, vs'))"
    and "cluster_inv B c0" "j < length (cl_sessions c0)" "take_snapshot j c0 = (s, c1)"
    and "(cluster_step mode (XidFromFullTransactionId B))\<^sup>*\<^sup>* c1 c2" "s \<in> set (se_held (session c2 j))"
    and "c2 = c \<and> considered be kind (procArray (cl_shm c) ! j) \<or> (cluster_step mode (XidFromFullTransactionId B))\<^sup>*\<^sup>* c c0"
    and "vis_state B c2 j env2 b2 q2 es2 ws" "vs_tuple ws = vs_tuple vs" "members_at b2 es2 (t_xmax (vs_tuple vs)) = members_at b es (t_xmax (vs_tuple vs))"
    and "tuple_ok (known_since B c0 c2 j) (known_multi (known_since B c0 c2 j) b2 es2) (own_xids c2 j) (had_committed B c2) (dead_xid B c2 j) (updater_of (members_at b2 es2)) (vs_tuple ws)"
  shows "\<exists>ws'. HeapTupleSatisfiesMVCC env2 s ws = Some (Inr (False, ws'))"
proof -
  note use = usable_run [OF assms(7,2,8-11)] and ok2 = assms(13)
  have c0c2: "simulated B c0 c2" using take_snapshot_run [OF assms(7,2,8-10)] .
  have cc2: "simulated B c c2"
    using assms(12) simulated_refl [OF assms(1)] cluster_run [OF _ assms(1,2), of c0] c0c2 simulated_trans by blast
  have j: "j < length (cl_sessions c2)" "se_latestXid (session c2 j) = None" using ok2 by (simp_all add: vis_state_def)
  have del: "deleter (updater_of (members_at b2 es2)) (vs_tuple vs) = deleter (updater_of (members_at b es)) (vs_tuple vs)"
    using assms(15) by (simp add: deleter_def updater_of_def)
  have "\<not> visible (had_committed B c0) (own_xids c2 j) (updater_of (members_at b2 es2)) (ve_combo env2) (snap_curcid s) (vs_tuple vs)"
    using vacuum_dead_cases [OF assms(4-6)]
  proof (elim disjE exE conjE)
    fix x assume x: "deleter (updater_of (members_at b es)) (vs_tuple vs) = Some x" "had_committed B c x" "TransactionIdPrecedes x h"
    have "known_since B c0 c2 j x" using tuple_ok_deleter [OF assms(16)] x(1) del assms(14) by simp
    then have "had_committed B c0 x" using assms(12)
    proof (elim disjE conjE)
      assume "c2 = c" "considered be kind (procArray (cl_shm c) ! j)" "known_since B c0 c2 j x"
      then show ?thesis using committed_for_snapshot [OF assms(1,3) x(2,3), of j s] ok2 use assms(11) j(1) by blast
    next
      assume "(cluster_step mode (XidFromFullTransactionId B))\<^sup>*\<^sup>* c c0"
      note sim = simulatedD [OF cluster_run [OF this assms(1,2)] assms(1) refl refl]
      show ?thesis using x(2) evolvesD [OF sim(3), of x] unfolding had_committed_iff sim(2) by (auto simp: r_committed_def)
    qed
    then show ?thesis using deleted_unseen [OF ok2 use] x(1) del by simp
  next
    assume "HeapTupleHeaderXminInvalid (vs_tuple vs)"
    then show ?thesis using never_came_unseen [OF ok2 use] by blast
  next
    assume "\<not> HeapTupleHeaderXminFrozen (vs_tuple vs)" "dead_xid B c i (t_xmin (vs_tuple vs))"
    then show ?thesis using never_came_unseen [OF ok2 use] dead_later [OF assms(1) cc2 _ j] by blast
  qed
  then show ?thesis using cluster_snapshot.mvcc_correct [OF conjI [OF ok2 use] assms(16)] assms(14) by (auto simp: vpost_def)
qed

theorem vacuum_dead_never_seen_witness:
  "\<exists>mx vs' ws'. HeapTupleSatisfiesVacuum example_env 7 (example_test mx example_deleted) = Some (Inr (HEAPTUPLE_DEAD, vs')) \<and>
     HeapTupleSatisfiesMVCC example_env example_snap (example_test mx example_deleted) = Some (Inr (False, ws'))"
proof -
  obtain mx where mx: "vis_state example_base example_snapped 0 example_env 1 0 [] (example_test mx example_deleted)" using example_vis_state by blast
  let ?vs = "example_test mx example_deleted"
  have held: "example_snap \<in> set (se_held (session example_snapped 0))" by (simp add: example_snapped_eq put_def example_cluster_def)
  have t: "vs_tuple ?vs = example_deleted" by (simp add: example_test_def)
  obtain be' where h: "GetOldestNonRemovableTransactionId VISHORIZON_DATA (example_backend 0) (cl_shm example_snapped) = (7, be')"
    using example_horizon that by (cases "ComputeXidHorizons (example_backend 0) (cl_shm example_snapped)")
      (simp add: GetOldestNonRemovableTransactionId_def)
  have con: "considered (example_backend 0) VISHORIZON_DATA (procArray (cl_shm example_snapped) ! 0)"
    by (simp add: considered_def example_snapped_eq set_proc_def example_proc_def flagged_def example_backend_def example_shm_def)
  obtain res x vs1 where r: "HeapTupleSatisfiesVacuumHorizon example_env ?vs = Some (Inr ((res, x), vs1))"
    "vacuum_verdict (had_committed example_base example_snapped) (dead_xid example_base example_snapped 0) (active_xid example_snapped) (updater_of (members_at 1 [])) example_deleted (res, x)"
    using cluster_view.vacuum_correct [OF mx] example_good(2) t by (auto simp: vpost_def)
  have xm: "t_xmin example_deleted = 4" "\<not> HeapTupleHeaderXminInvalid example_deleted"
    by (simp_all add: example_deleted_def HeapTupleHeaderXminInvalid_def heap_bits)
  have "res = HEAPTUPLE_RECENTLY_DEAD \<and> x = 4"
    using r(2) example_xid(3,4) example_good(4) xm by (cases res) (simp_all add: vacuum_verdict_def stays_def)
  then have dead: "HeapTupleSatisfiesVacuum example_env 7 ?vs = Some (Inr (HEAPTUPLE_DEAD, vs1))"
    using r(1) prec_window(1) [of 3 4 7] by (simp add: HeapTupleSatisfiesVacuum_def vbind_def vret_def)
  show ?thesis
    using vacuum_dead_never_seen [OF example_snapped_inv example_normal h mx _ dead example_inv _ example_snapshot rtranclp.rtrancl_refl held _ mx refl refl]
      example_good(2) example_good_since(2) con dead t by auto
qed

text \<open>C7:
  No lost update.  \<^verbatim>\<open>HeapTupleSatisfiesUpdate\<close> returns without an error, and its verdict is true of the
  cluster: \<open>TM_Ok\<close> only for a tuple that is there and whose deletion, if it has one, will never commit;
  \<open>TM_Updated\<close> and \<open>TM_Deleted\<close> only for a committed deletion, told apart by the tuple's successor;
  \<open>TM_SelfModified\<close> and \<open>TM_Invisible\<close> by the command ids; \<open>TM_BeingModified\<close> only while some transaction that
  holds the tuple is running.
\<close>

theorem update_verdict_true:
  assumes "vis_state B c i env b q es vs"
    and "tuple_ok (known_xid B c i) (known_multi (known_xid B c i) b es) (own_xids c i) (had_committed B c) (dead_xid B c i) (updater_of (members_at b es)) (vs_tuple vs)"
  shows "\<exists>r vs'. HeapTupleSatisfiesUpdate env curcid vs = Some (Inr (r, vs')) \<and>
    update_verdict (had_committed B c) (dead_xid B c i) (active_xid c) (own_xids c i) (members_at b es) (ve_combo env) curcid (ve_self env) (vs_tuple vs) r \<and>
    rehinted (had_committed B c) (dead_xid B c i) (updater_of (members_at b es)) (vs_tuple vs) (vs_tuple vs')"
  using cluster_view.update_correct [OF assms, of curcid] by (auto simp: vpost_def)

theorem update_verdict_true_witness:
  "\<exists>mx vs'. HeapTupleSatisfiesUpdate example_env 1 (example_test mx example_deleted) = Some (Inr (TM_Deleted, vs'))"
proof -
  obtain mx where mx: "vis_state example_base example_snapped 0 example_env 1 0 [] (example_test mx example_deleted)" using example_vis_state by blast
  have t: "vs_tuple (example_test mx example_deleted) = example_deleted" by (simp add: example_test_def)
  obtain r vs' where r: "HeapTupleSatisfiesUpdate example_env 1 (example_test mx example_deleted) = Some (Inr (r, vs'))"
    "update_verdict (had_committed example_base example_snapped) (dead_xid example_base example_snapped 0) (active_xid example_snapped) (own_xids example_snapped 0)
       (members_at 1 []) (ve_combo example_env) 1 (ve_self example_env) example_deleted r"
    using update_verdict_true [OF mx, of 1] example_good(2) by (auto simp: t)
  have "ItemPointerEquals (ve_self example_env) (t_ctid example_deleted)" "t_xmax example_deleted = 4" "\<not> has (t_infomask example_deleted) HEAP_XMAX_IS_MULTI"
    by (simp_all add: ItemPointerEquals_def example_env_def example_deleted_def has_def)
  then have "r = TM_Deleted"
    using r(2) example_xid example_good(4,6) by (cases r) (simp_all add: update_verdict_def stays_def Let_def)
  then show ?thesis using r(1) by blast
qed



end
