(* ===== verification/Spec2Isabelle.thy ===== *)
theory Spec2Isabelle
  imports Transam FreeSpaceMaint Bitmapset XidLookup XactProps VisibilityProps
begin

text \<open>
  A verification library for the transaction core of the database server in \<^verbatim>\<open>src/src\<close>: transaction
  ids and their order, the commit log and the parent links, transaction blocks and savepoints, the shared
  array of running transactions with its snapshots and removal horizons, groups of transactions
  (multixacts), combo command ids, the visibility rules of heap tuples, the free space map, and the
  integer-set package.  The C code is translated function by function; a definition has the name of
  the C function it translates.

  \<^bold>\<open>How the parts interact.\<close>  A client's commands drive the state machine of \<^verbatim>\<open>xact.c\<close>, which keeps a stack
  of transaction states.  A transaction gets an id from \<^verbatim>\<open>varsup.c\<close> when it first writes, after the ids
  of the transactions around it; the id is entered into the array of \<^verbatim>\<open>procarray.c\<close>, and a
  subtransaction's parent is entered into \<^verbatim>\<open>subtrans.c\<close>.  Commit and abort record the outcome in
  \<^verbatim>\<open>clog.c\<close> and only then take the transaction out of the array.  A snapshot is a copy of the array; a
  reader combines it with the commit log.  A tuple's header names the transaction that inserted it and
  the one that deleted it, or a multixact of all those that lock it, and the commands of the own
  transaction, two of which share a field through \<^verbatim>\<open>combocid.c\<close>; the tests of \<^verbatim>\<open>heapam_visibility.c\<close> ask
  the array, the logs and \<^verbatim>\<open>multixact.c\<close> about them and note final outcomes as hint bits.  Vacuum asks the array for a horizon before which every
  snapshot has the same answers, and enters the space it frees into the free space map.

  \<^bold>\<open>Theories.\<close>
  \<^item> \<open>Prelude\<close>: machine integers of \<^verbatim>\<open>c.h\<close> and lemmas on them.
  \<^item> \<open>Transam\<close>: \<^verbatim>\<open>include/access/transam.h\<close> and the comparisons of \<^verbatim>\<open>access/transam/transam.c\<close>; the
    circular order of 32-bit ids is the order of 64-bit ids wherever they lie within half the circle.
  \<^item> \<open>XidWindow\<close>: ids as distances from a base id; all later arguments about the order use it.
  \<^item> \<open>Clog\<close>, \<open>XidLookup\<close>: \<^verbatim>\<open>clog.c\<close> (status bits, pages, group LSNs, the updates of a tree), \<^verbatim>\<open>subtrans.c\<close>
    and the lookups of \<^verbatim>\<open>transam.c\<close>.  A log is a map from page numbers to pages; an access to a page
    that is not there is an error.  A tree's commit is visible for all of it or for nothing.
  \<^item> \<open>XactBlock\<close>, \<open>XactMachine\<close>, \<open>XactProps\<close>: the block state machine of \<^verbatim>\<open>xact.c\<close> as driven by
    \<^verbatim>\<open>tcop/utility.c\<close> and \<^verbatim>\<open>tcop/postgres.c\<close>; the stack is a list of records, an \<^verbatim>\<open>ereport\<close> is the left
    side of a sum, the low-level commits and aborts are events of a trace.  The step relation
    \<open>session_step\<close> is the main loop; its invariant rules out every report of an unexpected state.
  \<^item> \<open>XactXids\<close>, \<open>XidAssign\<close>: the ids of the transaction stack, their assignment, \<^verbatim>\<open>RecordTransactionCommit\<close>
    and \<^verbatim>\<open>RecordTransactionAbort\<close>, snapshots as held by a backend (\<^verbatim>\<open>snapmgr.c\<close>).
  \<^item> \<open>ProcArray\<close>: allocation of ids (\<^verbatim>\<open>varsup.c\<close>) and \<^verbatim>\<open>procarray.c\<close>: end of transactions, snapshots and
    their reuse, the in-progress test, horizons.  Shared memory is a record, a backend's static variables
    another; an operation maps both to new ones.
  \<^item> \<open>RunningSet\<close>: the abstract contract: trees of ids per backend, outcomes, parents; \<open>run_step\<close> is its
    step relation, \<open>run_inv\<close> the invariant, \<open>snap_holds\<close> what a snapshot must hold.
  \<^item> \<open>XidLogs\<close>, \<open>Cluster\<close>, \<open>ClusterInv\<close>, \<open>ClusterXids\<close>, \<open>ClusterAssign\<close>, \<open>ClusterSnapshot\<close>, \<open>ClusterLookup\<close>: any
    number of backends over one shared memory, a step being one critical section of one backend;
    every step keeps the invariant and implements steps of the contract.
  \<^item> \<open>ClusterMVCC\<close>, \<open>ClusterProps\<close>: what follows for snapshots, lookups, horizons and allocation.
  \<^item> \<open>MultiXact\<close>, \<open>MultiXactLog\<close>, \<open>MultiXactProps\<close>: \<^verbatim>\<open>multixact.c\<close>: creating, expanding and reading groups, the
    cache of a backend, limits, start up.  The two logs are maps of pages of 32-bit words; a ghost list
    of all groups (\<open>mx_repr\<close>) says what they store, with both counters wrapping around.
  \<^item> \<open>HeapTuple\<close>, \<open>ComboCid\<close>: the transaction fields and flag bits of \<^verbatim>\<open>htup_details.h\<close>, item pointers, and
    \<^verbatim>\<open>combocid.c\<close>.
  \<^item> \<open>Visibility\<close>: \<^verbatim>\<open>heapam_visibility.c\<close>.  A test is an action on the caches, the logs and the tuple header
    that may fail or not return.
  \<^item> \<open>VisibilityRules\<close>, \<open>VisibilityUpdate\<close>, \<open>VisibilitySelf\<close>: when a tuple is inserted, removed and visible; the
    locale \<open>xid_view\<close> states what a test relies on from the lookups, \<open>snapshot_view\<close> what it relies on
    from a snapshot, and every test is proved correct and total in them.
  \<^item> \<open>VisibilityCluster\<close>, \<open>VisibilityProps\<close>: both locales interpreted on the running cluster, and what
    follows for readers, writers and vacuum.
  \<^item> \<open>FsmPage\<close>, \<open>FreeSpace\<close>, \<open>FreeSpaceMaint\<close>: \<^verbatim>\<open>storage/freespace\<close>: the tree within a page, the tree of
    pages, search, vacuum and truncation.  The locale \<open>fsm_store\<close> is the contract of a page towards the
    map.
  \<^item> \<open>Bitmapset\<close>: \<^verbatim>\<open>nodes/bitmapset.c\<close>; the locale \<open>set_repr\<close> states what both families of operations, the
    copying and the recycling one, promise, and is interpreted on each.

  \<^bold>\<open>Loops.\<close>  Loops over arrays are structural recursions; loops that only end on sound data
  (the walk through parent links, the search that repairs a page and restarts) are
  \<^verbatim>\<open>partial_function\<close>s with values in \<^typ>\<open>'a option\<close>, and it is proved that they return.  No definition has
  fuel.

  \<^bold>\<open>Bounds.\<close>  The properties of a cluster hold while all ids in use lie within half the circle after
  one base id, which is what the stop limit of \<^verbatim>\<open>SetTransactionIdLimit\<close> is for, and while the 64-bit
  count of completed transactions has not wrapped.  The properties of multixacts hold while the groups
  kept span less than half the circle of multixact ids and less than the circle of member offsets,
  which is what the limits of \<^verbatim>\<open>SetMultiXactIdLimit\<close> and \<^verbatim>\<open>SetOffsetVacuumLimit\<close> are for.

  \<^bold>\<open>Not modelled.\<close>
  \<^item> A critical section is one step.  Readers that take no lock, memory barriers and the fetch of an id
    that is written meanwhile are not interleaved.  \<^verbatim>\<open>GetNewTransactionId\<close> gives up its lock while it warns
    of a wraparound and takes it again; the model keeps it.
  \<^item> Write-ahead log, files, buffers and the page cache of the logs: outcomes are taken as durable when
    recorded, pages are values.
  \<^item> Tuples moved by the old form of \<^verbatim>\<open>VACUUM FULL\<close>, and snapshots of the types \<^verbatim>\<open>SNAPSHOT_HISTORIC_MVCC\<close>
    and \<^verbatim>\<open>SNAPSHOT_NON_VACUUMABLE\<close>, are in the definitions of the tests and outside the properties.
    \<^verbatim>\<open>ResolveCminCmaxDuringDecoding\<close> is a parameter.  The rest of \<^verbatim>\<open>heapam.c\<close>: how tuples are written, locked,
    frozen and scanned.
  \<^item> Truncation and replay of the multixact logs, the retry while the next offset is still being filled in
    (the model does not return there), and conflicts between lock modes.
  \<^item> Prepared transactions, parallel workers, hot standby, logical decoding's own snapshots, exported and
    serializable snapshots, \<^verbatim>\<open>old_snapshot_threshold\<close>, commit timestamps.
  \<^item> In transaction blocks: resource owners, memory contexts, portals, callbacks, invalidation messages.
  \<^item> Assertions, which are compiled out, and messages below the level of an error.
\<close>

end
